(* ===== verification/Sne_Prelude.thy ===== *)
theory Sne_Prelude
  imports Main "HOL-Library.Word"
begin

text \<open>
  Shared vocabulary of the development.  It holds the machine types of the code
  (\<open>uint8_t\<close> \<dots> \<open>uint64_t\<close> as words, \<open>size_t\<close> as \<^typ>\<open>nat\<close>), the exceptions of the code
  as values, and the small exception-and-state monad in which every operation that may
  throw is written.  A throwing operation keeps the state it had reached, because the
  C++ objects survive the exception: a \<open>catch\<close> sees them as they were left.
  \<open>ends\<close> is a Hoare triple with a second postcondition for exceptions.  Generic lemmas on lists of bits and bytes follow; they are collected in
  \<open>prog_simps\<close> (evaluation of the monad) and \<open>bits_simps\<close> (bit lists).
\<close>

section \<open>Machine types and exceptions\<close>

type_synonym byte = "8 word"
type_synonym u16 = "16 word"
type_synonym u32 = "32 word"
type_synonym u64 = "64 word"

text \<open>
  \<open>StreamingException\<close> and \<open>UnknownRpcMethodException\<close> carry the message they are thrown
  with, as does \<open>RuntimeError\<close> (\<open>std::runtime_error\<close> and what libraries derive from it);
  \<open>NotDefinedConfigError\<close> carries a section and a key; \<open>UndefinedBehaviour\<close> marks an execution to which the C++ standard gives no
  meaning (an index outside a vector, a shift by the width of \<open>int\<close> or more).
\<close>

datatype sne_error =
    StreamingException string
  | UnknownRpcMethodException u32
  | BadAlloc
  | RuntimeError string
  | NotDefinedConfigError string string
  | UndefinedBehaviour string

section \<open>The exception-and-state monad\<close>

named_theorems prog_simps

type_synonym ('s, 'a) prog = "'s \<Rightarrow> (sne_error + 'a) \<times> 's"

definition ret :: "'a \<Rightarrow> ('s, 'a) prog" where
  "ret x s = (Inr x, s)"

definition throw :: "sne_error \<Rightarrow> ('s, 'a) prog" where
  "throw e s = (Inl e, s)"

definition bind :: "('s, 'a) prog \<Rightarrow> ('a \<Rightarrow> ('s, 'b) prog) \<Rightarrow> ('s, 'b) prog" where
  "bind m f s = (case m s of (Inl e, s') \<Rightarrow> (Inl e, s') | (Inr x, s') \<Rightarrow> f x s')"

definition gets :: "('s \<Rightarrow> 'a) \<Rightarrow> ('s, 'a) prog" where
  "gets f s = (Inr (f s), s)"

definition modify :: "('s \<Rightarrow> 's) \<Rightarrow> ('s, unit) prog" where
  "modify f s = (Inr (), f s)"

definition skip :: "('s, unit) prog" where
  "skip s = (Inr (), s)"

definition when_do :: "bool \<Rightarrow> ('s, unit) prog \<Rightarrow> ('s, unit) prog" where
  "when_do b m = (if b then m else skip)"

text \<open>\<open>catch (const std::exception&)\<close>: every exception, but not what has no meaning.\<close>

definition try_catch :: "('s, 'a) prog \<Rightarrow> (sne_error \<Rightarrow> ('s, 'a) prog) \<Rightarrow> ('s, 'a) prog" where
  "try_catch m h s =
     (case m s of
        (Inl (UndefinedBehaviour u), s') \<Rightarrow> (Inl (UndefinedBehaviour u), s')
      | (Inl e, s') \<Rightarrow> h e s'
      | (Inr x, s') \<Rightarrow> (Inr x, s'))"

text \<open>An operation on a component of a larger object: \<open>zoom\<close> runs it on the part that
  \<open>get\<close> reads and \<open>put\<close> writes back, also when it throws.\<close>

definition zoom :: "('s \<Rightarrow> 't) \<Rightarrow> ('t \<Rightarrow> 's \<Rightarrow> 's) \<Rightarrow> ('t, 'a) prog \<Rightarrow> ('s, 'a) prog" where
  "zoom get put m s = (case m (get s) of (r, t) \<Rightarrow> (r, put t s))"

lemmas prog_defs [prog_simps] =
  ret_def throw_def gets_def modify_def skip_def when_do_def

lemma bind_Inr: "m s = (Inr x, s') \<Longrightarrow> bind m f s = f x s'"
  by (simp add: bind_def)

lemma bind_Inl: "m s = (Inl e, s') \<Longrightarrow> bind m f s = (Inl e, s')"
  by (simp add: bind_def)

lemma bind_run: "fst (m s) = Inr x \<Longrightarrow> bind m f s = f x (snd (m s))"
  by (cases "m s") (simp add: bind_def)

lemma bind_ret [prog_simps]: "bind (ret x) f = f x"
  by (rule ext) (simp add: bind_def ret_def)

lemma bind_throw [prog_simps]: "bind (throw e) f = throw e"
  by (rule ext) (simp add: bind_def throw_def)

lemma bind_gets [prog_simps]: "bind (gets g) f s = f (g s) s"
  by (simp add: bind_def gets_def)

lemma bind_modify [prog_simps]: "bind (modify g) f s = f () (g s)"
  by (simp add: bind_def modify_def)

lemma bind_skip [prog_simps]: "bind skip f = f ()"
  by (rule ext) (simp add: bind_def skip_def)

lemma bind_assoc: "bind (bind m f) g = bind m (\<lambda>x. bind (f x) g)"
proof
  fix s
  show "bind (bind m f) g s = bind m (\<lambda>x. bind (f x) g) s"
    by (cases "m s"; cases "fst (m s)") (auto simp: bind_def)
qed

lemma bind_InrE:
  assumes "bind m f s = (Inr y, s')"
  obtains x t where "m s = (Inr x, t)" and "f x t = (Inr y, s')"
  using assms by (auto simp: bind_def split: prod.splits sum.splits)

lemma zoom_Inr [prog_simps]: "m (get s) = (r, t) \<Longrightarrow> zoom get put m s = (r, put t s)"
  by (simp add: zoom_def)

text \<open>A loop over a list of steps, and its effect on a concatenation.\<close>

fun for_each :: "('a \<Rightarrow> ('s, unit) prog) \<Rightarrow> 'a list \<Rightarrow> ('s, unit) prog" where
  "for_each f [] = skip"
| "for_each f (x # xs) = bind (f x) (\<lambda>_. for_each f xs)"

lemma bind_ret_right: "bind m ret = m"
  by (rule ext) (auto simp: bind_def ret_def split: prod.split sum.split)

section \<open>How operations end\<close>

text \<open>From a state with \<open>P\<close> the operation returns with \<open>Q\<close> or throws with \<open>E\<close>; it does nothing that has no meaning.\<close>

definition ends :: "('s \<Rightarrow> bool) \<Rightarrow> ('s, 'b) prog \<Rightarrow> ('b \<Rightarrow> 's \<Rightarrow> bool) \<Rightarrow> ('s \<Rightarrow> bool) \<Rightarrow> bool" where
  "ends P m Q E \<longleftrightarrow> (\<forall>s. P s \<longrightarrow> (\<forall>x s'. m s = (Inr x, s') \<longrightarrow> Q x s') \<and>
     (\<forall>e s'. m s = (Inl e, s') \<longrightarrow> E s' \<and> (\<forall>u. e \<noteq> UndefinedBehaviour u)))"

lemma endsI:
  assumes "\<And>s x s'. P s \<Longrightarrow> m s = (Inr x, s') \<Longrightarrow> Q x s'"
    and "\<And>s e s'. P s \<Longrightarrow> m s = (Inl e, s') \<Longrightarrow> E s' \<and> (\<forall>u. e \<noteq> UndefinedBehaviour u)"
  shows "ends P m Q E"
  using assms unfolding ends_def by blast

lemma endsD:
  assumes "ends P m Q E" and "P s"
  shows "m s = (Inr x, s') \<Longrightarrow> Q x s'" and "m s = (Inl e, s') \<Longrightarrow> E s'" and "m s \<noteq> (Inl (UndefinedBehaviour u), s')"
  using assms unfolding ends_def by blast+

lemma ends_bind:
  assumes "ends P m R E" and "\<And>x. ends (R x) (f x) Q E"
  shows "ends P (bind m f) Q E"
proof (rule endsI)
  fix s x s'
  assume P: "P s" and "bind m f s = (Inr x, s')"
  from this(2) obtain y t where "m s = (Inr y, t)" "f y t = (Inr x, s')" by (rule bind_InrE)
  with endsD(1) [OF assms(1) P] endsD(1) [OF assms(2)] show "Q x s'" by blast
next
  fix s e s'
  assume P: "P s" and run: "bind m f s = (Inl e, s')"
  show "E s' \<and> (\<forall>u. e \<noteq> UndefinedBehaviour u)"
  proof (cases "m s")
    case (Pair r t)
    show ?thesis
    proof (cases r)
      case (Inl e')
      with Pair run have "m s = (Inl e, s')" by (simp add: bind_def)
      with endsD(2,3) [OF assms(1) P] show ?thesis by blast
    next
      case (Inr y)
      with Pair run have "m s = (Inr y, t)" "f y t = (Inl e, s')" by (simp_all add: bind_def)
      with endsD(1) [OF assms(1) P] endsD(2,3) [OF assms(2)] show ?thesis by blast
    qed
  qed
qed

lemma ends_simps [simp]:
  "ends P (ret x) Q E \<longleftrightarrow> (\<forall>s. P s \<longrightarrow> Q x s)"
  "ends P (modify f) Q' E \<longleftrightarrow> (\<forall>s. P s \<longrightarrow> Q' () (f s))"
  "ends P (gets g) Q'' E \<longleftrightarrow> (\<forall>s. P s \<longrightarrow> Q'' (g s) s)"
  "ends P (throw e) Q E \<longleftrightarrow> (\<forall>s. P s \<longrightarrow> E s \<and> (\<forall>u. e \<noteq> UndefinedBehaviour u))"
  by (auto simp: ends_def prog_defs)

lemma ends_if: "(b \<Longrightarrow> ends P m Q E) \<Longrightarrow> (\<not> b \<Longrightarrow> ends P m' Q E) \<Longrightarrow> ends P (if b then m else m') Q E"
  by simp

lemma ends_gets_bind:
  assumes "\<And>x. ends (\<lambda>s. P s \<and> x = g s) (f x) Q E"
  shows "ends P (bind (gets g) f) Q E"
  by (rule ends_bind [where R = "\<lambda>x s. P s \<and> x = g s"]) (simp_all add: assms)

lemma ends_weaken:
  assumes "ends P m Q E" and "\<And>s. P' s \<Longrightarrow> P s" and "\<And>x s. Q x s \<Longrightarrow> Q' x s" and "\<And>s. E s \<Longrightarrow> E' s"
  shows "ends P' m Q' E'"
  using assms unfolding ends_def by blast

lemma try_catch_Inl: "m s = (Inl e, t) \<Longrightarrow> (\<And>u. e \<noteq> UndefinedBehaviour u) \<Longrightarrow> try_catch m h s = h e t"
  by (cases e) (auto simp: try_catch_def)

lemma try_catch_Inr: "m s = (Inr x, t) \<Longrightarrow> try_catch m h s = (Inr x, t)"
  by (simp add: try_catch_def)

lemma ends_try:
  assumes "ends P m Q R" and "\<And>e. \<forall>u. e \<noteq> UndefinedBehaviour u \<Longrightarrow> ends R (h e) Q E"
  shows "ends P (try_catch m h) Q E"
proof -
  have "(\<exists>x t. try_catch m h s = (Inr x, t) \<and> Q x t) \<or>
      (\<exists>e t. (\<forall>u. e \<noteq> UndefinedBehaviour u) \<and> try_catch m h s = h e t \<and> R t)" if P: "P s" for s
  proof (cases "m s")
    case (Pair r t)
    with endsD [OF assms(1) P] show ?thesis
      by (cases r) (metis try_catch_Inl, metis try_catch_Inr)
  qed
  with endsD [OF assms(2)] show ?thesis unfolding ends_def by (metis Inl_Inr_False Inr_inject Pair_inject)
qed

section \<open>Lists\<close>

lemma list_update_back: "xs \<noteq> [] \<Longrightarrow> xs[length xs - Suc 0 := x] = butlast xs @ [x]"
  by (cases xs rule: rev_cases) auto

section \<open>Bits of bytes and words, least significant first\<close>

named_theorems bits_simps

definition bits_of :: "nat \<Rightarrow> 'a::len word \<Rightarrow> bool list" where
  "bits_of n w = map (bit w) [0..<n]"

definition word_of_bits :: "bool list \<Rightarrow> 'a::len word" where
  "word_of_bits bs = horner_sum of_bool 2 bs"

definition bits_of_bytes :: "byte list \<Rightarrow> bool list" where
  "bits_of_bytes bs = concat (map (bits_of 8) bs)"

lemma length_bits_of [simp, bits_simps]: "length (bits_of n w) = n"
  by (simp add: bits_of_def)

lemma nth_bits_of [bits_simps]: "i < n \<Longrightarrow> bits_of n w ! i = bit w i"
  by (simp add: bits_of_def)

lemma bits_of_bytes_Nil [simp, bits_simps]: "bits_of_bytes [] = []"
  by (simp add: bits_of_bytes_def)

lemma bits_of_bytes_Cons [bits_simps]:
  "bits_of_bytes (x # xs) = bits_of 8 x @ bits_of_bytes xs"
  by (simp add: bits_of_bytes_def)

lemma bits_of_bytes_append [bits_simps]:
  "bits_of_bytes (xs @ ys) = bits_of_bytes xs @ bits_of_bytes ys"
  by (simp add: bits_of_bytes_def)

lemma length_bits_of_bytes [simp, bits_simps]: "length (bits_of_bytes xs) = 8 * length xs"
  by (induction xs) (simp_all add: bits_simps)

lemma drop_bits_of_bytes [bits_simps]:
  "drop (8 * n) (bits_of_bytes xs) = bits_of_bytes (drop n xs)"
proof (induction n arbitrary: xs)
  case 0
  then show ?case by simp
next
  case (Suc n)
  then show ?case
    by (cases xs) (simp_all add: bits_simps)
qed

lemma take_bits_of_bytes [bits_simps]:
  "take (8 * n) (bits_of_bytes xs) = bits_of_bytes (take n xs)"
proof (induction n arbitrary: xs)
  case 0
  then show ?case by simp
next
  case (Suc n)
  then show ?case
    by (cases xs) (simp_all add: bits_simps)
qed

lemma bit_word_of_bits:
  "bit (word_of_bits bs :: 'a::len word) i \<longleftrightarrow> i < LENGTH('a) \<and> i < length bs \<and> bs ! i"
  by (auto simp: word_of_bits_def bit_horner_sum_bit_word_iff)

lemma bits_of_word_of_bits:
  "n \<le> LENGTH('a) \<Longrightarrow> length bs = n \<Longrightarrow> bits_of n (word_of_bits bs :: 'a::len word) = bs"
  by (rule nth_equalityI) (auto simp: nth_bits_of bit_word_of_bits)

lemma word_of_bits_bits_of:
  "word_of_bits (bits_of n w) = (take_bit n w :: 'a::len word)"
  by (rule bit_word_eqI) (auto simp: bit_word_of_bits nth_bits_of bit_take_bit_iff)

lemma bits_of_take_bit: "bits_of n (take_bit n w) = bits_of n w"
  by (rule nth_equalityI) (auto simp: nth_bits_of bit_take_bit_iff)

lemma bits_of_eq_iff:
  "bits_of n v = bits_of n w \<longleftrightarrow> take_bit n v = (take_bit n w :: 'a::len word)"
  by (metis word_of_bits_bits_of bits_of_take_bit)

lemma bits_of_add:
  "bits_of (m + n) w = bits_of m w @ bits_of n (drop_bit m w)"
  by (rule nth_equalityI) (auto simp: nth_bits_of nth_append bit_drop_bit_eq)

lemma bits_of_take: "m \<le> n \<Longrightarrow> take m (bits_of n w) = bits_of m w"
  by (rule nth_equalityI) (auto simp: nth_bits_of)

lemma bits_of_drop: "drop m (bits_of n w) = bits_of (n - m) (drop_bit m w)"
  by (rule nth_equalityI) (auto simp: nth_bits_of bit_drop_bit_eq)

lemma bits_of_bytes_inject: "bits_of_bytes xs = bits_of_bytes ys \<Longrightarrow> xs = ys"
proof (induction xs arbitrary: ys)
  case Nil
  then have "length (bits_of_bytes ys) = 0" by simp
  then show ?case by simp
next
  case (Cons x xs)
  from Cons.prems have "length (bits_of_bytes ys) = 8 * length (x # xs)"
    by (metis length_bits_of_bytes)
  then obtain y ys' where ys: "ys = y # ys'"
    by (cases ys) auto
  with Cons.prems have "bits_of 8 x = bits_of 8 y" and "bits_of_bytes xs = bits_of_bytes ys'"
    by (simp_all add: bits_simps)
  with Cons.IH ys show ?case
    by (simp add: bits_of_eq_iff take_bit_word_eq_self)
qed

section \<open>Bytes of words, least significant first\<close>

text \<open>The object representation of a little-endian integer of \<open>n\<close> bytes.\<close>

definition bytes_of :: "nat \<Rightarrow> 'a::len word \<Rightarrow> byte list" where
  "bytes_of n w = map (\<lambda>i. ucast (drop_bit (8 * i) w)) [0..<n]"

definition word_of_bytes :: "byte list \<Rightarrow> 'a::len word" where
  "word_of_bytes bs = word_of_bits (bits_of_bytes bs)"

lemma length_bytes_of [simp]: "length (bytes_of n w) = n"
  by (simp add: bytes_of_def)

lemma bits_of_ucast_byte: "bits_of 8 (ucast w :: byte) = bits_of 8 (w :: 'a::len word)"
  by (rule nth_equalityI) (auto simp: nth_bits_of bit_ucast_iff)

lemma bits_of_bytes_of: "bits_of_bytes (bytes_of n w) = bits_of (8 * n) w"
proof (induction n)
  case 0
  then show ?case by (simp add: bytes_of_def bits_of_def)
next
  case (Suc n)
  have "bytes_of (Suc n) w = bytes_of n w @ [ucast (drop_bit (8 * n) w)]"
    by (simp add: bytes_of_def)
  moreover have "bits_of (8 * Suc n) w = bits_of (8 * n) w @ bits_of 8 (drop_bit (8 * n) w)"
    using bits_of_add [of "8 * n" 8 w] by (simp add: add.commute)
  ultimately show ?case
    using Suc by (simp add: bits_simps bits_of_ucast_byte)
qed

lemma word_of_bytes_bytes_of:
  "LENGTH('a) \<le> 8 * n \<Longrightarrow> word_of_bytes (bytes_of n w) = (w :: 'a::len word)"
  by (simp add: word_of_bytes_def bits_of_bytes_of word_of_bits_bits_of take_bit_word_eq_self)

lemma bytes_of_word_of_bytes:
  assumes "length bs = n" and "8 * n \<le> LENGTH('a)"
  shows "bytes_of n (word_of_bytes bs :: 'a::len word) = bs"
proof (rule bits_of_bytes_inject)
  show "bits_of_bytes (bytes_of n (word_of_bytes bs :: 'a word)) = bits_of_bytes bs"
    using assms by (simp add: bits_of_bytes_of word_of_bytes_def bits_of_word_of_bits)
qed

end
