(* ===== verification/Stream_Buffer.thy ===== *)
theory Stream_Buffer
  imports Sne_Prelude
begin

text \<open>
  The abstract class \<open>StreamBuffer\<close> (include/sne/core/stream/StreamBuffer.h) and its
  first implementation \<open>VectorStreamBuffer\<close>.  The virtual functions form the record
  \<open>stream_buffer_ops\<close>; the streams of the later theories take such a record as an
  argument, as the C++ streams hold a \<open>StreamBuffer&\<close>.  The locale \<open>stream_buffer\<close> is the
  contract written in the comments of the class: a queue of bytes, whose \<open>push\<close> and
  \<open>copyFrom\<close> may fail with a \<open>StreamingException\<close> only, leaving the contents alone.
\<close>

section \<open>The interface\<close>

text \<open>\<open>Item& back()\<close> hands out a reference; \<open>sb_set_back\<close> is the assignment through it.\<close>

record 'b stream_buffer_ops =
  sb_push :: "byte \<Rightarrow> ('b, unit) prog"
  sb_pop :: "('b, unit) prog"
  sb_copyFrom :: "byte list \<Rightarrow> ('b, unit) prog"
  sb_copyTo :: "nat \<Rightarrow> ('b, byte list) prog"
  sb_reset :: "('b, unit) prog"
  sb_front :: "('b, byte) prog"
  sb_back :: "('b, byte) prog"
  sb_set_back :: "byte \<Rightarrow> ('b, unit) prog"
  sb_size :: "'b \<Rightarrow> nat"
  sb_empty :: "'b \<Rightarrow> bool"
  sb_space :: "'b \<Rightarrow> nat"

fun is_streaming_exception :: "sne_error \<Rightarrow> bool" where
  "is_streaming_exception (StreamingException _) = True"
| "is_streaming_exception _ = False"

locale stream_buffer =
  fixes ops :: "'b stream_buffer_ops"
    and invar :: "'b \<Rightarrow> bool"
    and contents :: "'b \<Rightarrow> byte list"
  assumes size_law: "invar b \<Longrightarrow> sb_size ops b = length (contents b)"
    and empty_law: "invar b \<Longrightarrow> sb_empty ops b \<longleftrightarrow> contents b = []"
    and push_invar: "invar b \<Longrightarrow> invar (snd (sb_push ops x b))"
    and push_contents: "invar b \<Longrightarrow> contents (snd (sb_push ops x b)) =
      (case fst (sb_push ops x b) of Inl _ \<Rightarrow> contents b | Inr _ \<Rightarrow> contents b @ [x])"
    and push_error: "invar b \<Longrightarrow> fst (sb_push ops x b) = Inl e \<Longrightarrow> is_streaming_exception e"
    and copyFrom_invar: "invar b \<Longrightarrow> invar (snd (sb_copyFrom ops xs b))"
    and copyFrom_contents: "invar b \<Longrightarrow> contents (snd (sb_copyFrom ops xs b)) =
      (case fst (sb_copyFrom ops xs b) of Inl _ \<Rightarrow> contents b | Inr _ \<Rightarrow> contents b @ xs)"
    and copyFrom_error: "invar b \<Longrightarrow> fst (sb_copyFrom ops xs b) = Inl e \<Longrightarrow>
      is_streaming_exception e"
    and pop_ok: "invar b \<Longrightarrow> fst (sb_pop ops b) = Inr ()"
    and pop_invar: "invar b \<Longrightarrow> invar (snd (sb_pop ops b))"
    and pop_contents: "invar b \<Longrightarrow> contents (snd (sb_pop ops b)) = tl (contents b)"
    and copyTo_ok: "invar b \<Longrightarrow> n \<le> length (contents b) \<Longrightarrow>
      fst (sb_copyTo ops n b) = Inr (take n (contents b))"
    and copyTo_invar: "invar b \<Longrightarrow> invar (snd (sb_copyTo ops n b))"
    and copyTo_contents: "invar b \<Longrightarrow> n \<le> length (contents b) \<Longrightarrow>
      contents (snd (sb_copyTo ops n b)) = drop n (contents b)"
    and copyTo_short: "invar b \<Longrightarrow> length (contents b) < n \<Longrightarrow>
      \<exists>msg. sb_copyTo ops n b = (Inl (StreamingException msg), b)"
    and reset_ok: "fst (sb_reset ops b) = Inr ()"
    and reset_invar: "invar b \<Longrightarrow> invar (snd (sb_reset ops b))"
    and reset_contents: "invar b \<Longrightarrow> contents (snd (sb_reset ops b)) = []"
    and front_law: "invar b \<Longrightarrow> contents b \<noteq> [] \<Longrightarrow>
      sb_front ops b = (Inr (hd (contents b)), b)"
    and back_law: "invar b \<Longrightarrow> contents b \<noteq> [] \<Longrightarrow>
      sb_back ops b = (Inr (last (contents b)), b)"
    and set_back_ok: "invar b \<Longrightarrow> contents b \<noteq> [] \<Longrightarrow> fst (sb_set_back ops x b) = Inr ()"
    and set_back_invar: "invar b \<Longrightarrow> contents b \<noteq> [] \<Longrightarrow> invar (snd (sb_set_back ops x b))"
    and set_back_contents: "invar b \<Longrightarrow> contents b \<noteq> [] \<Longrightarrow>
      contents (snd (sb_set_back ops x b)) = butlast (contents b) @ [x]"
begin

lemma run_pop: "invar b \<Longrightarrow> sb_pop ops b = (Inr (), snd (sb_pop ops b))"
  by (simp add: pop_ok prod_eq_iff)

lemma run_reset: "sb_reset ops b = (Inr (), snd (sb_reset ops b))"
  by (simp add: reset_ok prod_eq_iff)

lemma run_copyTo: "invar b \<Longrightarrow> n \<le> length (contents b) \<Longrightarrow>
    sb_copyTo ops n b = (Inr (take n (contents b)), snd (sb_copyTo ops n b))"
  by (simp add: copyTo_ok prod_eq_iff)

lemma run_set_back: "invar b \<Longrightarrow> contents b \<noteq> [] \<Longrightarrow>
    sb_set_back ops x b = (Inr (), snd (sb_set_back ops x b))"
  by (simp add: set_back_ok prod_eq_iff)

lemma push_Inr:
  assumes "invar b" and "sb_push ops x b = (Inr u, b')"
  shows "invar b' \<and> contents b' = contents b @ [x]"
  using push_invar [OF assms(1), of x] push_contents [OF assms(1), of x] assms(2) by simp

lemma copyFrom_Inr:
  assumes "invar b" and "sb_copyFrom ops xs b = (Inr u, b')"
  shows "invar b' \<and> contents b' = contents b @ xs"
  using copyFrom_invar [OF assms(1), of xs] copyFrom_contents [OF assms(1), of xs] assms(2)
  by simp

end

text \<open>A buffer that never runs out of room: its writes cannot fail.\<close>

locale growing_stream_buffer = stream_buffer ops invar contents
  for ops :: "'b stream_buffer_ops" and invar contents +
  assumes push_grows: "invar b \<Longrightarrow> fst (sb_push ops x b) = Inr ()"
    and copyFrom_grows: "invar b \<Longrightarrow> fst (sb_copyFrom ops xs b) = Inr ()"
begin

lemma run_push: "invar b \<Longrightarrow> sb_push ops x b = (Inr (), snd (sb_push ops x b))"
  by (simp add: push_grows prod_eq_iff)

lemma run_copyFrom: "invar b \<Longrightarrow> sb_copyFrom ops xs b = (Inr (), snd (sb_copyFrom ops xs b))"
  by (simp add: copyFrom_grows prod_eq_iff)

end

section \<open>VectorStreamBuffer\<close>

text \<open>
  \<open>buffer_\<close> is the vector with its capacity made explicit: \<open>reserve(n)\<close> raises the
  capacity to \<open>n\<close> when it is smaller, \<open>insert\<close> at the end stays within it.
\<close>

record vector_stream_buffer =
  readIndex :: nat
  writeIndex :: nat
  vbuffer :: "byte list"
  vcapacity :: nat

definition vsb_new :: "nat \<Rightarrow> vector_stream_buffer" where
  "vsb_new defaultCapacity =
     \<lparr>readIndex = 0, writeIndex = 0, vbuffer = [], vcapacity = defaultCapacity\<rparr>"

definition vsb_size :: "vector_stream_buffer \<Rightarrow> nat" where
  "vsb_size b = writeIndex b - readIndex b"

definition vsb_empty :: "vector_stream_buffer \<Rightarrow> bool" where
  "vsb_empty b \<longleftrightarrow> writeIndex b = readIndex b"

definition vsb_space :: "vector_stream_buffer \<Rightarrow> nat" where
  "vsb_space b = vcapacity b - writeIndex b"

definition vsb_isValid :: "vector_stream_buffer \<Rightarrow> bool" where
  "vsb_isValid b \<longleftrightarrow> vsb_size b = length (vbuffer b)"

definition vsb_reserve :: "nat \<Rightarrow> (vector_stream_buffer, unit) prog" where
  "vsb_reserve neededSize b =
     (if vsb_space b < neededSize then
        (let b' = b\<lparr>vcapacity := max (vcapacity b) (vcapacity b * 2)\<rparr> in
         if vsb_space b' < neededSize
         then (Inl (StreamingException ''out of memory''), b')
         else (Inr (), b'))
      else (Inr (), b))"

definition vsb_push :: "byte \<Rightarrow> (vector_stream_buffer, unit) prog" where
  "vsb_push item = bind (vsb_reserve 1) (\<lambda>_.
     modify (\<lambda>b. b\<lparr>vbuffer := vbuffer b @ [item], writeIndex := writeIndex b + 1\<rparr>))"

definition vsb_reset :: "(vector_stream_buffer, unit) prog" where
  "vsb_reset = modify (\<lambda>b. b\<lparr>readIndex := 0, writeIndex := 0, vbuffer := []\<rparr>)"

definition vsb_pop :: "(vector_stream_buffer, unit) prog" where
  "vsb_pop = bind (gets vsb_empty) (\<lambda>e.
     if e then skip
     else bind (modify (\<lambda>b. b\<lparr>readIndex := readIndex b + 1\<rparr>)) (\<lambda>_.
       bind (gets vsb_empty) (\<lambda>e. when_do e vsb_reset)))"

definition vsb_copyFrom :: "byte list \<Rightarrow> (vector_stream_buffer, unit) prog" where
  "vsb_copyFrom buffer = bind (vsb_reserve (length buffer)) (\<lambda>_.
     modify (\<lambda>b. b\<lparr>vbuffer := vbuffer b @ buffer,
                    writeIndex := writeIndex b + length buffer\<rparr>))"

definition vsb_copyTo :: "nat \<Rightarrow> (vector_stream_buffer, byte list) prog" where
  "vsb_copyTo bufferSize = bind (gets id) (\<lambda>b.
     if vsb_size b < bufferSize then throw (StreamingException ''buffer is corrupted'')
     else bind (modify (\<lambda>b. b\<lparr>readIndex := readIndex b + bufferSize\<rparr>)) (\<lambda>_.
       bind (gets vsb_empty) (\<lambda>e.
       bind (when_do e vsb_reset) (\<lambda>_.
       ret (take bufferSize (drop (readIndex b) (vbuffer b)))))))"

definition vsb_front :: "(vector_stream_buffer, byte) prog" where
  "vsb_front = bind (gets id) (\<lambda>b.
     if readIndex b < length (vbuffer b) then ret (vbuffer b ! readIndex b)
     else throw (UndefinedBehaviour ''front of an empty buffer''))"

definition vsb_back :: "(vector_stream_buffer, byte) prog" where
  "vsb_back = bind (gets id) (\<lambda>b.
     if 0 < writeIndex b \<and> writeIndex b \<le> length (vbuffer b)
     then ret (vbuffer b ! (writeIndex b - 1))
     else throw (UndefinedBehaviour ''back of an empty buffer''))"

definition vsb_set_back :: "byte \<Rightarrow> (vector_stream_buffer, unit) prog" where
  "vsb_set_back x = bind (gets id) (\<lambda>b.
     if 0 < writeIndex b \<and> writeIndex b \<le> length (vbuffer b)
     then modify (\<lambda>b. b\<lparr>vbuffer := (vbuffer b)[writeIndex b - 1 := x]\<rparr>)
     else throw (UndefinedBehaviour ''back of an empty buffer''))"

definition vsb_ops :: "vector_stream_buffer stream_buffer_ops" where
  "vsb_ops = \<lparr>sb_push = vsb_push, sb_pop = vsb_pop, sb_copyFrom = vsb_copyFrom,
     sb_copyTo = vsb_copyTo, sb_reset = vsb_reset, sb_front = vsb_front,
     sb_back = vsb_back, sb_set_back = vsb_set_back, sb_size = vsb_size,
     sb_empty = vsb_empty, sb_space = vsb_space\<rparr>"

text \<open>The class invariant and the queue a buffer stands for.\<close>

definition vsb_inv :: "vector_stream_buffer \<Rightarrow> bool" where
  "vsb_inv b \<longleftrightarrow> readIndex b \<le> writeIndex b \<and> writeIndex b = length (vbuffer b) \<and>
     writeIndex b \<le> vcapacity b"

definition vsb_contents :: "vector_stream_buffer \<Rightarrow> byte list" where
  "vsb_contents b = drop (readIndex b) (vbuffer b)"

lemmas vsb_query_defs = vsb_inv_def vsb_contents_def vsb_size_def vsb_empty_def vsb_space_def

lemmas vsb_defs = vsb_query_defs vsb_reserve_def vsb_push_def vsb_pop_def vsb_copyFrom_def
  vsb_copyTo_def vsb_reset_def vsb_front_def vsb_back_def vsb_set_back_def

lemma vsb_reserve_Inr: "vsb_inv b \<Longrightarrow> vsb_reserve n b = (Inr u, b') \<Longrightarrow>
    vsb_inv b' \<and> vbuffer b' = vbuffer b \<and> readIndex b' = readIndex b \<and>
    writeIndex b' = writeIndex b \<and> n \<le> vsb_space b'"
  by (auto simp: vsb_reserve_def vsb_query_defs Let_def split: if_splits)

lemma vsb_reserve_Inl: "vsb_inv b \<Longrightarrow> vsb_reserve n b = (Inl e, b') \<Longrightarrow>
    vsb_inv b' \<and> vsb_contents b' = vsb_contents b \<and> is_streaming_exception e"
  by (auto simp: vsb_reserve_def vsb_query_defs Let_def split: if_splits)

lemma vsb_copyFrom_cases:
  assumes "vsb_inv b"
  shows "vsb_inv (snd (vsb_copyFrom xs b)) \<and>
    (case fst (vsb_copyFrom xs b) of
       Inl e \<Rightarrow> is_streaming_exception e \<and> vsb_contents (snd (vsb_copyFrom xs b)) = vsb_contents b
     | Inr _ \<Rightarrow> vsb_contents (snd (vsb_copyFrom xs b)) = vsb_contents b @ xs)"
proof (cases "vsb_reserve (length xs) b")
  case (Pair r b1)
  show ?thesis
  proof (cases r)
    case (Inl e)
    with Pair vsb_reserve_Inl [OF assms, of "length xs" e b1] show ?thesis
      by (simp add: vsb_copyFrom_def bind_def)
  next
    case (Inr u)
    with Pair vsb_reserve_Inr [OF assms, of "length xs" u b1] assms show ?thesis
      by (auto simp: vsb_copyFrom_def bind_def modify_def vsb_query_defs)
  qed
qed

lemma vsb_push_eq_copyFrom: "vsb_push x = vsb_copyFrom [x]"
  by (simp add: vsb_push_def vsb_copyFrom_def)

lemma vsb_pop_props: "vsb_inv b \<Longrightarrow> fst (vsb_pop b) = Inr () \<and> vsb_inv (snd (vsb_pop b)) \<and>
    vsb_contents (snd (vsb_pop b)) = tl (vsb_contents b)"
  by (auto simp: vsb_pop_def vsb_reset_def vsb_query_defs prog_simps drop_Suc tl_drop)

lemma vsb_copyTo_props: "vsb_inv b \<Longrightarrow> n \<le> length (vsb_contents b) \<Longrightarrow>
    fst (vsb_copyTo n b) = Inr (take n (vsb_contents b)) \<and> vsb_inv (snd (vsb_copyTo n b)) \<and>
    vsb_contents (snd (vsb_copyTo n b)) = drop n (vsb_contents b)"
  by (auto simp: vsb_copyTo_def vsb_reset_def vsb_query_defs prog_simps add.commute)

lemma vsb_copyTo_short: "vsb_inv b \<Longrightarrow> length (vsb_contents b) < n \<Longrightarrow>
    vsb_copyTo n b = (Inl (StreamingException ''buffer is corrupted''), b)"
  by (auto simp: vsb_copyTo_def vsb_query_defs prog_simps)

lemma vsb_back_props: "vsb_inv b \<Longrightarrow> vsb_contents b \<noteq> [] \<Longrightarrow>
    vsb_back b = (Inr (last (vsb_contents b)), b) \<and>
    fst (vsb_set_back x b) = Inr () \<and> vsb_inv (snd (vsb_set_back x b)) \<and>
    vsb_contents (snd (vsb_set_back x b)) = butlast (vsb_contents b) @ [x]"
  by (auto simp: vsb_back_def vsb_set_back_def vsb_query_defs prog_simps last_drop last_conv_nth
      list_update_back butlast_drop)

lemma vsb_front_props: "vsb_inv b \<Longrightarrow> vsb_contents b \<noteq> [] \<Longrightarrow>
    vsb_front b = (Inr (hd (vsb_contents b)), b)"
  by (simp add: vsb_front_def vsb_query_defs prog_simps hd_drop_conv_nth)

lemma vsb_query_props: "vsb_inv b \<Longrightarrow> vsb_size b = length (vsb_contents b) \<and>
    (vsb_empty b \<longleftrightarrow> vsb_contents b = [])"
  by (auto simp: vsb_query_defs)

lemma vsb_reset_props: "fst (vsb_reset b) = Inr () \<and> vsb_contents (snd (vsb_reset b)) = [] \<and>
    (vsb_inv b \<longrightarrow> vsb_inv (snd (vsb_reset b)))"
  by (simp add: vsb_reset_def vsb_query_defs prog_simps)

interpretation vsb: stream_buffer vsb_ops vsb_inv vsb_contents
proof (unfold_locales, goal_cases)
  case (4 b x)
  with vsb_copyFrom_cases [OF 4, of "[x]"] show ?case
    by (auto simp: vsb_ops_def vsb_push_eq_copyFrom split: sum.splits)
next
  case (5 b x e)
  with vsb_copyFrom_cases [OF 5(1), of "[x]"] show ?case
    by (auto simp: vsb_ops_def vsb_push_eq_copyFrom split: sum.splits)
next
  case (7 b xs)
  with vsb_copyFrom_cases [OF 7, of xs] show ?case
    by (auto simp: vsb_ops_def split: sum.splits)
next
  case (8 b xs e)
  with vsb_copyFrom_cases [OF 8(1), of xs] show ?case
    by (auto simp: vsb_ops_def split: sum.splits)
next
  case (13 b n)
  then show ?case
    by (cases "n \<le> length (vsb_contents b)")
      (auto simp: vsb_ops_def vsb_copyTo_props vsb_copyTo_short)
qed (simp_all add: vsb_ops_def vsb_push_eq_copyFrom vsb_copyFrom_cases vsb_pop_props
    vsb_copyTo_props vsb_copyTo_short vsb_back_props vsb_front_props vsb_query_props
    vsb_reset_props)

text \<open>
  When a write to a \<open>VectorStreamBuffer\<close> fails: \<open>reserve\<close> doubles the capacity once, so a
  block that is larger than the doubled room is refused although memory is available.
\<close>

lemma vsb_copyFrom_fails_iff:
  assumes "vsb_inv b"
  shows "(\<exists>e. fst (vsb_copyFrom xs b) = Inl e) \<longleftrightarrow>
    max (vcapacity b) (2 * vcapacity b) < writeIndex b + length xs"
  using assms
  by (auto simp: vsb_copyFrom_def vsb_reserve_def vsb_query_defs bind_def modify_def Let_def)

end
