(* ===== verification/Memory_Block.thy ===== *)
theory Memory_Block
  imports Stream_Buffer
begin

text \<open>
  \<open>MemoryBlock\<close> (include/sne/base/memory/MemoryBlock.h), the growable byte block with a
  read and a write position that carries every packet, and \<open>MemoryBlockStreamBuffer\<close>
  (include/sne/base/protocol/MemoryBlockStreamBuffer.h), which presents a block as a
  \<open>StreamBuffer\<close>.  The positions are the source's offsets into \<open>buffer_\<close>; \<open>releaser_\<close> is the
  address of the pool a block returns to.  The block buffer meets the contract
  \<open>growing_stream_buffer\<close>: it grows on demand, so writing to it cannot fail.
\<close>

section \<open>MemoryBlock\<close>

record memory_block =
  releaser :: "nat option"
  mb_buffer :: "byte list"
  rd_ptr :: nat
  wr_ptr :: nat

definition mb_capacity :: "memory_block \<Rightarrow> nat" where
  "mb_capacity mb = length (mb_buffer mb)"

definition mb_length :: "memory_block \<Rightarrow> nat" where
  "mb_length mb = wr_ptr mb - rd_ptr mb"

definition mb_space :: "memory_block \<Rightarrow> nat" where
  "mb_space mb = mb_capacity mb - wr_ptr mb"

text \<open>\<open>size(n)\<close> is \<open>vector::resize\<close>: it cuts the buffer or appends zero bytes.\<close>

definition mb_size :: "nat \<Rightarrow> memory_block \<Rightarrow> memory_block" where
  "mb_size n mb = mb\<lparr>mb_buffer :=
     take n (mb_buffer mb) @ replicate (n - length (mb_buffer mb)) 0\<rparr>"

definition mb_new :: "nat \<Rightarrow> memory_block" where
  "mb_new initialSize =
     mb_size initialSize \<lparr>releaser = None, mb_buffer = [], rd_ptr = 0, wr_ptr = 0\<rparr>"

definition mb_reset :: "memory_block \<Rightarrow> memory_block" where
  "mb_reset mb = mb\<lparr>rd_ptr := 0, wr_ptr := 0\<rparr>"

definition mb_acquire :: "nat \<Rightarrow> memory_block \<Rightarrow> memory_block" where
  "mb_acquire pool mb = (mb_reset mb)\<lparr>releaser := Some pool\<rparr>"

definition mb_reserve :: "nat \<Rightarrow> memory_block \<Rightarrow> memory_block" where
  "mb_reserve neededSize mb =
     (if mb_space mb < neededSize
      then mb_size (mb_capacity mb + (neededSize - mb_space mb)) mb else mb)"

text \<open>\<open>memmove(base(), rd_ptr(), len)\<close> copies the unread bytes to the front; the bytes
  behind them keep their old values.\<close>

definition mb_crunch :: "memory_block \<Rightarrow> memory_block" where
  "mb_crunch mb =
     (let boundary = (mb_capacity mb * 3) div 10 in
      if boundary \<le> rd_ptr mb then
        if wr_ptr mb < rd_ptr mb then mb
        else
          (let len = mb_length mb in
           mb\<lparr>mb_buffer := take len (drop (rd_ptr mb) (mb_buffer mb)) @ drop len (mb_buffer mb),
              rd_ptr := 0, wr_ptr := len\<rparr>)
      else mb)"

definition mb_copyFrom :: "byte list \<Rightarrow> memory_block \<Rightarrow> memory_block" where
  "mb_copyFrom buf mb =
     (let mb' = mb_reserve (length buf) mb in
      mb'\<lparr>mb_buffer := take (wr_ptr mb') (mb_buffer mb') @ buf @
             drop (wr_ptr mb' + length buf) (mb_buffer mb'),
          wr_ptr := wr_ptr mb' + length buf\<rparr>)"

text \<open>\<open>copyTo\<close> has no check of its own: reading past the end of the vector is undefined.\<close>

definition mb_copyTo :: "nat \<Rightarrow> (memory_block, byte list) prog" where
  "mb_copyTo n = bind (gets id) (\<lambda>mb.
     if rd_ptr mb + n \<le> length (mb_buffer mb)
     then bind (modify (\<lambda>mb. mb\<lparr>rd_ptr := rd_ptr mb + n\<rparr>)) (\<lambda>_.
       ret (take n (drop (rd_ptr mb) (mb_buffer mb))))
     else throw (UndefinedBehaviour ''read past the end of the block''))"

definition mb_advance_wr :: "nat \<Rightarrow> memory_block \<Rightarrow> memory_block" where
  "mb_advance_wr n mb = mb\<lparr>wr_ptr := wr_ptr mb + n\<rparr>"

definition mb_advance_rd :: "nat \<Rightarrow> memory_block \<Rightarrow> memory_block" where
  "mb_advance_rd n mb = mb\<lparr>rd_ptr := rd_ptr mb + n\<rparr>"

definition mb_set_rd :: "nat \<Rightarrow> memory_block \<Rightarrow> memory_block" where
  "mb_set_rd offset mb = mb\<lparr>rd_ptr := offset\<rparr>"

subsection \<open>Invariant and contents\<close>

definition mb_inv :: "memory_block \<Rightarrow> bool" where
  "mb_inv mb \<longleftrightarrow> rd_ptr mb \<le> wr_ptr mb \<and> wr_ptr mb \<le> length (mb_buffer mb)"

definition mb_contents :: "memory_block \<Rightarrow> byte list" where
  "mb_contents mb = take (wr_ptr mb - rd_ptr mb) (drop (rd_ptr mb) (mb_buffer mb))"

lemmas mb_query_defs = mb_inv_def mb_contents_def mb_length_def mb_space_def mb_capacity_def

lemma length_mb_contents [simp]: "mb_inv mb \<Longrightarrow> length (mb_contents mb) = mb_length mb"
  by (auto simp: mb_query_defs min_def)

lemma mb_contents_alt: "mb_contents mb = drop (rd_ptr mb) (take (wr_ptr mb) (mb_buffer mb))"
  by (simp add: mb_contents_def drop_take)

lemma mb_inv_new [simp]: "mb_inv (mb_new n)" "mb_contents (mb_new n) = []"
  "mb_capacity (mb_new n) = n"
  by (simp_all add: mb_new_def mb_size_def mb_query_defs)

lemma mb_reset_props [simp]: "mb_inv (mb_reset mb)" "mb_contents (mb_reset mb) = []"
  "mb_capacity (mb_reset mb) = mb_capacity mb"
  by (simp_all add: mb_reset_def mb_query_defs)

lemma mb_acquire_props [simp]: "mb_inv (mb_acquire p mb)" "mb_contents (mb_acquire p mb) = []"
  by (simp_all add: mb_acquire_def mb_reset_def mb_query_defs)

lemma mb_reserve_props:
  assumes "mb_inv mb"
  shows "mb_inv (mb_reserve n mb)" and "mb_contents (mb_reserve n mb) = mb_contents mb"
    and "n \<le> mb_space (mb_reserve n mb)" and "mb_capacity mb \<le> mb_capacity (mb_reserve n mb)"
    and "rd_ptr (mb_reserve n mb) = rd_ptr mb" and "wr_ptr (mb_reserve n mb) = wr_ptr mb"
    and "take (wr_ptr mb) (mb_buffer (mb_reserve n mb)) = take (wr_ptr mb) (mb_buffer mb)"
  using assms by (auto simp: mb_reserve_def mb_size_def mb_query_defs)

lemma mb_crunch_props:
  assumes "mb_inv mb"
  shows "mb_inv (mb_crunch mb)" and "mb_contents (mb_crunch mb) = mb_contents mb"
    and "mb_capacity (mb_crunch mb) = mb_capacity mb"
  using assms by (auto simp: mb_crunch_def mb_query_defs Let_def)

lemma mb_copyFrom_props:
  assumes "mb_inv mb"
  shows "mb_inv (mb_copyFrom xs mb)" and "mb_contents (mb_copyFrom xs mb) = mb_contents mb @ xs"
    and "rd_ptr (mb_copyFrom xs mb) = rd_ptr mb"
    and "wr_ptr (mb_copyFrom xs mb) = wr_ptr mb + length xs"
    and "take (wr_ptr mb + length xs) (mb_buffer (mb_copyFrom xs mb)) =
      take (wr_ptr mb) (mb_buffer mb) @ xs"
proof -
  let ?m = "mb_reserve (length xs) mb"
  note r = mb_reserve_props [OF assms, of "length xs"]
  from r(3) assms have room: "wr_ptr mb + length xs \<le> length (mb_buffer ?m)"
    and pos: "rd_ptr mb \<le> wr_ptr mb"
    using r(1,6) by (auto simp: mb_query_defs)
  then show "mb_inv (mb_copyFrom xs mb)" and "rd_ptr (mb_copyFrom xs mb) = rd_ptr mb"
    and "wr_ptr (mb_copyFrom xs mb) = wr_ptr mb + length xs"
    using r(5,6) by (auto simp: mb_copyFrom_def Let_def mb_inv_def)
  from assms room r(6,7) show written: "take (wr_ptr mb + length xs) (mb_buffer (mb_copyFrom xs mb)) =
      take (wr_ptr mb) (mb_buffer mb) @ xs"
    by (simp add: mb_copyFrom_def Let_def mb_inv_def)
  show "mb_contents (mb_copyFrom xs mb) = mb_contents mb @ xs"
    using assms written r(5,6)
    by (simp add: mb_contents_alt mb_inv_def mb_copyFrom_def Let_def)
qed

lemma mb_copyTo_run:
  assumes "mb_inv mb" and "n \<le> mb_length mb"
  shows "mb_copyTo n mb = (Inr (take n (mb_contents mb)), mb_advance_rd n mb)"
  using assms by (auto simp: mb_copyTo_def mb_advance_rd_def mb_query_defs prog_simps min_def)

lemma mb_advance_rd_props:
  assumes "mb_inv mb" and "n \<le> mb_length mb"
  shows "mb_inv (mb_advance_rd n mb)"
    and "mb_contents (mb_advance_rd n mb) = drop n (mb_contents mb)"
  using assms by (auto simp: mb_advance_rd_def mb_query_defs drop_take add.commute)

section \<open>MemoryBlockStreamBuffer\<close>

text \<open>The state is the block that \<open>block_\<close> points to; \<open>reset(newBlock)\<close> replaces it.\<close>

definition mbsb_reset :: "(memory_block, unit) prog" where
  "mbsb_reset = modify mb_reset"

definition mbsb_set_block :: "memory_block \<Rightarrow> (memory_block, unit) prog" where
  "mbsb_set_block newBlock = modify (\<lambda>_. newBlock)"

definition mbsb_size :: "memory_block \<Rightarrow> nat" where
  "mbsb_size mb = mb_length mb"

definition mbsb_empty :: "memory_block \<Rightarrow> bool" where
  "mbsb_empty mb \<longleftrightarrow> mb_length mb = 0"

definition mbsb_space :: "memory_block \<Rightarrow> nat" where
  "mbsb_space mb = mb_space mb"

definition mbsb_copyFrom :: "byte list \<Rightarrow> (memory_block, unit) prog" where
  "mbsb_copyFrom block = modify (mb_copyFrom block)"

definition mbsb_push :: "byte \<Rightarrow> (memory_block, unit) prog" where
  "mbsb_push item = mbsb_copyFrom [item]"

text \<open>What \<open>pop\<close> and \<open>copyTo\<close> do after consuming: an empty block is reset, another crunched.\<close>

definition mbsb_consumed :: "(memory_block, unit) prog" where
  "mbsb_consumed = bind (gets mb_length) (\<lambda>n.
     if n = 0 then mbsb_reset else modify mb_crunch)"

definition mbsb_pop :: "(memory_block, unit) prog" where
  "mbsb_pop = bind (gets mb_length) (\<lambda>n.
     if n \<noteq> 0 then bind (modify (mb_advance_rd 1)) (\<lambda>_. mbsb_consumed) else skip)"

definition mbsb_copyTo :: "nat \<Rightarrow> (memory_block, byte list) prog" where
  "mbsb_copyTo blockSize = bind (gets mb_length) (\<lambda>n.
     if n < blockSize then throw (StreamingException ''block is corrupted'')
     else bind (mb_copyTo blockSize) (\<lambda>xs. bind mbsb_consumed (\<lambda>_. ret xs)))"

definition mbsb_front :: "(memory_block, byte) prog" where
  "mbsb_front = bind (gets id) (\<lambda>mb.
     if rd_ptr mb < length (mb_buffer mb) then ret (mb_buffer mb ! rd_ptr mb)
     else throw (UndefinedBehaviour ''front of an empty block''))"

definition mbsb_back :: "(memory_block, byte) prog" where
  "mbsb_back = bind (gets id) (\<lambda>mb.
     if 0 < wr_ptr mb \<and> wr_ptr mb \<le> length (mb_buffer mb)
     then ret (mb_buffer mb ! (wr_ptr mb - 1))
     else throw (UndefinedBehaviour ''back of an empty block''))"

definition mbsb_set_back :: "byte \<Rightarrow> (memory_block, unit) prog" where
  "mbsb_set_back x = bind (gets id) (\<lambda>mb.
     if 0 < wr_ptr mb \<and> wr_ptr mb \<le> length (mb_buffer mb)
     then modify (\<lambda>mb. mb\<lparr>mb_buffer := (mb_buffer mb)[wr_ptr mb - 1 := x]\<rparr>)
     else throw (UndefinedBehaviour ''back of an empty block''))"

definition mbsb_ops :: "memory_block stream_buffer_ops" where
  "mbsb_ops = \<lparr>sb_push = mbsb_push, sb_pop = mbsb_pop, sb_copyFrom = mbsb_copyFrom,
     sb_copyTo = mbsb_copyTo, sb_reset = mbsb_reset, sb_front = mbsb_front,
     sb_back = mbsb_back, sb_set_back = mbsb_set_back, sb_size = mbsb_size,
     sb_empty = mbsb_empty, sb_space = mbsb_space\<rparr>"

lemma mbsb_consumed_props:
  assumes "mb_inv mb"
  shows "fst (mbsb_consumed mb) = Inr ()" and "mb_inv (snd (mbsb_consumed mb))"
    and "mb_contents (snd (mbsb_consumed mb)) = mb_contents mb"
  using assms
  by (auto simp: mbsb_consumed_def mbsb_reset_def prog_simps mb_crunch_props mb_length_def
      mb_contents_def [of mb])

lemma mbsb_pop_props:
  assumes "mb_inv mb"
  shows "fst (mbsb_pop mb) = Inr () \<and> mb_inv (snd (mbsb_pop mb)) \<and>
    mb_contents (snd (mbsb_pop mb)) = tl (mb_contents mb)"
proof (cases "mb_length mb = 0")
  case True
  with assms have "mb_contents mb = []"
    by (metis length_mb_contents length_0_conv)
  with True assms show ?thesis by (simp add: mbsb_pop_def prog_simps)
next
  case False
  then have "Suc 0 \<le> mb_length mb" by simp
  note a = mb_advance_rd_props [OF assms this]
  from False a show ?thesis
    by (simp add: mbsb_pop_def prog_simps mbsb_consumed_props [OF a(1)] drop_Suc)
qed

lemma mbsb_copyTo_props:
  assumes "mb_inv mb" and "n \<le> length (mb_contents mb)"
  shows "fst (mbsb_copyTo n mb) = Inr (take n (mb_contents mb)) \<and>
    mb_inv (snd (mbsb_copyTo n mb)) \<and> mb_contents (snd (mbsb_copyTo n mb)) = drop n (mb_contents mb)"
proof -
  from assms have n: "n \<le> mb_length mb" by simp
  note a = mb_advance_rd_props [OF assms(1) n]
  have "mbsb_copyTo n mb =
      (Inr (take n (mb_contents mb)), snd (mbsb_consumed (mb_advance_rd n mb)))"
    using n by (simp add: mbsb_copyTo_def prog_simps bind_run [where m = "mb_copyTo n"]
        bind_run [where m = mbsb_consumed] mb_copyTo_run [OF assms(1) n]
        mbsb_consumed_props [OF a(1)])
  then show ?thesis
    by (simp add: mbsb_consumed_props [OF a(1)] a(2))
qed

lemma mbsb_copyTo_short: "mb_inv mb \<Longrightarrow> length (mb_contents mb) < n \<Longrightarrow>
    mbsb_copyTo n mb = (Inl (StreamingException ''block is corrupted''), mb)"
  by (simp add: mbsb_copyTo_def prog_simps)

lemma mb_contents_nonempty: "mb_inv mb \<Longrightarrow> mb_contents mb \<noteq> [] \<Longrightarrow> rd_ptr mb < wr_ptr mb"
  by (auto simp: mb_query_defs)

lemma mbsb_front_props: "mb_inv mb \<Longrightarrow> mb_contents mb \<noteq> [] \<Longrightarrow>
    mbsb_front mb = (Inr (hd (mb_contents mb)), mb)"
  using mb_contents_nonempty [of mb]
  by (simp add: mbsb_front_def mb_query_defs prog_simps hd_drop_conv_nth hd_take)

lemma mbsb_back_props:
  assumes "mb_inv mb" and "mb_contents mb \<noteq> []"
  shows "mbsb_back mb = (Inr (last (mb_contents mb)), mb)"
    and "fst (mbsb_set_back x mb) = Inr ()" and "mb_inv (snd (mbsb_set_back x mb))"
    and "mb_contents (snd (mbsb_set_back x mb)) = butlast (mb_contents mb) @ [x]"
proof -
  from mb_contents_nonempty [OF assms] have lt: "rd_ptr mb < wr_ptr mb" .
  with assms(1) have len: "length (mb_contents mb) = wr_ptr mb - rd_ptr mb"
    by (simp add: mb_query_defs)
  have "last (mb_contents mb) = mb_contents mb ! (wr_ptr mb - rd_ptr mb - 1)"
    using assms(2) len by (simp add: last_conv_nth)
  then show "mbsb_back mb = (Inr (last (mb_contents mb)), mb)"
    using lt assms(1) by (simp add: mbsb_back_def mb_query_defs prog_simps)
  show "fst (mbsb_set_back x mb) = Inr ()" and "mb_inv (snd (mbsb_set_back x mb))"
    using lt assms(1) by (simp_all add: mbsb_set_back_def mb_query_defs prog_simps)
  have "mb_contents (snd (mbsb_set_back x mb)) = (mb_contents mb)[length (mb_contents mb) - 1 := x]"
    using lt assms(1)
    by (simp add: len, simp add: mbsb_set_back_def mb_query_defs prog_simps drop_update_swap
        take_update_swap diff_commute)
  with assms(2) show "mb_contents (snd (mbsb_set_back x mb)) = butlast (mb_contents mb) @ [x]"
    by (simp add: list_update_back)
qed

interpretation mbsb: growing_stream_buffer mbsb_ops mb_inv mb_contents
proof (unfold_locales, goal_cases)
  case (13 mb n)
  then show ?case
    by (cases "n \<le> length (mb_contents mb)")
      (simp_all add: mbsb_ops_def mbsb_copyTo_props mbsb_copyTo_short)
qed (simp_all add: mbsb_ops_def mbsb_push_def mbsb_copyFrom_def mb_copyFrom_props mbsb_pop_props
    mbsb_copyTo_props mbsb_copyTo_short mbsb_front_props mbsb_back_props mbsb_reset_def
    mbsb_size_def mbsb_empty_def modify_def flip: length_0_conv)

end
