(* ===== verification/Memory_Pool.thy ===== *)
theory Memory_Pool
  imports Memory_Block "HOL-Library.Multiset"
begin

text \<open>
  The memory management of include/sne/base/memory: \<open>MemoryPool\<close> (and \<open>ObjectPool\<close>, which is
  the same class with another size), \<open>MemoryBlockAllocator\<close>, \<open>MemoryBlockManager\<close> and
  \<open>VariousMemoryAllocator\<close>.  Resources are addresses.  The pool is a template over its
  allocator: the locale \<open>allocator\<close> is what it relies on (\<open>malloc\<close> returns an address that is
  not in use), the pool's invariant is proved over it once and used through the
  interpretation on the allocator of memory blocks.  The mutexes make the operations atomic;
  each is one function.
\<close>

section \<open>Allocators\<close>

record 'h allocator_ops =
  al_malloc :: "'h \<Rightarrow> nat \<times> 'h"
  al_free :: "nat \<Rightarrow> 'h \<Rightarrow> 'h"

locale allocator =
  fixes alloc :: "'h allocator_ops" and live :: "'h \<Rightarrow> nat set" and hinv :: "'h \<Rightarrow> bool"
  assumes malloc_fresh: "hinv h \<Longrightarrow> fst (al_malloc alloc h) \<notin> live h"
    and malloc_live: "hinv h \<Longrightarrow> live (snd (al_malloc alloc h)) = insert (fst (al_malloc alloc h)) (live h)"
    and malloc_inv: "hinv h \<Longrightarrow> hinv (snd (al_malloc alloc h))"
    and free_live: "hinv h \<Longrightarrow> live (al_free alloc p h) = live h - {p}"
    and free_inv: "hinv h \<Longrightarrow> hinv (al_free alloc p h)"

text \<open>\<open>MemoryBlockAllocator\<close>: a heap of blocks; \<open>new\<close> takes the next address.\<close>

record block_heap =
  initialBlockSize :: nat
  bh_next :: nat
  bh_blocks :: "nat \<rightharpoonup> memory_block"

definition MemoryBlockAllocator_malloc :: "block_heap \<Rightarrow> nat \<times> block_heap" where
  "MemoryBlockAllocator_malloc h =
     (bh_next h, h\<lparr>bh_next := bh_next h + 1,
        bh_blocks := (bh_blocks h)(bh_next h \<mapsto> mb_new (initialBlockSize h))\<rparr>)"

definition MemoryBlockAllocator_free :: "nat \<Rightarrow> block_heap \<Rightarrow> block_heap" where
  "MemoryBlockAllocator_free p h = h\<lparr>bh_blocks := (bh_blocks h)(p := None)\<rparr>"

definition MemoryBlockAllocator :: "block_heap allocator_ops" where
  "MemoryBlockAllocator =
     \<lparr>al_malloc = MemoryBlockAllocator_malloc, al_free = MemoryBlockAllocator_free\<rparr>"

definition block_heap_inv :: "block_heap \<Rightarrow> bool" where
  "block_heap_inv h \<longleftrightarrow> (\<forall>p \<in> dom (bh_blocks h). p < bh_next h)"

definition block_heap_live :: "block_heap \<Rightarrow> nat set" where
  "block_heap_live h = dom (bh_blocks h)"

interpretation mba: allocator MemoryBlockAllocator block_heap_live block_heap_inv
  by unfold_locales
    (auto simp: MemoryBlockAllocator_def MemoryBlockAllocator_malloc_def MemoryBlockAllocator_free_def
      block_heap_live_def block_heap_inv_def less_Suc_eq split: if_splits)

section \<open>MemoryPool\<close>

datatype pool_event = PoolGrowing nat | PoolGrowed nat nat

text \<open>\<open>pool_events\<close> are the calls on \<open>callback_\<close>, made when there is one.\<close>

record memory_pool =
  poolSize :: nat
  growable :: bool
  spareSize :: nat
  activeResources :: "nat list"
  inactiveResources :: "nat list"
  hasCallback :: bool
  pool_events :: "pool_event list"

definition MemoryPool_new :: "nat \<Rightarrow> bool \<Rightarrow> bool \<Rightarrow> memory_pool" where
  "MemoryPool_new n grow callback =
     \<lparr>poolSize = n, growable = grow, spareSize = max 1 (n div 10),
      activeResources = [], inactiveResources = [], hasCallback = callback, pool_events = []\<rparr>"

definition MemoryPool_isFull :: "memory_pool \<Rightarrow> bool" where
  "MemoryPool_isFull p \<longleftrightarrow> length (inactiveResources p) \<le> spareSize p"

text \<open>\<open>std::lower_bound\<close> on a sorted vector: the first position whose element is not smaller.\<close>

definition lower_bound :: "('a \<Rightarrow> 'k::linorder) \<Rightarrow> 'k \<Rightarrow> 'a list \<Rightarrow> nat" where
  "lower_bound key x xs = length (takeWhile (\<lambda>y. key y < x) xs)"

definition insert_at :: "nat \<Rightarrow> 'a \<Rightarrow> 'a list \<Rightarrow> 'a list" where
  "insert_at pos x xs = take pos xs @ x # drop pos xs"

definition erase_at :: "nat \<Rightarrow> 'a list \<Rightarrow> 'a list" where
  "erase_at pos xs = take pos xs @ drop (Suc pos) xs"

definition MemoryPool_findActiveResource :: "nat \<Rightarrow> memory_pool \<Rightarrow> nat" where
  "MemoryPool_findActiveResource resource p = lower_bound (\<lambda>r. r) resource (activeResources p)"

definition MemoryPool_insertActiveResource :: "nat \<Rightarrow> memory_pool \<Rightarrow> memory_pool" where
  "MemoryPool_insertActiveResource resource p =
     (let pos = MemoryPool_findActiveResource resource p in
      if pos \<noteq> length (activeResources p)
      then p\<lparr>activeResources := insert_at pos resource (activeResources p)\<rparr>
      else p\<lparr>activeResources := activeResources p @ [resource]\<rparr>)"

fun malloc_times :: "'h allocator_ops \<Rightarrow> nat \<Rightarrow> 'h \<times> nat list \<Rightarrow> 'h \<times> nat list" where
  "malloc_times alloc 0 (h, q) = (h, q)"
| "malloc_times alloc (Suc n) (h, q) =
     (let (r, h') = al_malloc alloc h in malloc_times alloc n (h', q @ [r]))"

definition notify :: "pool_event \<Rightarrow> memory_pool \<Rightarrow> memory_pool" where
  "notify e p = (if hasCallback p then p\<lparr>pool_events := pool_events p @ [e]\<rparr> else p)"

text \<open>The subtraction is one of \<open>size_t\<close>; the pool only calls this with at most
  \<open>poolSize_ + spareSize_\<close> waiting resources, where it does not wrap.\<close>

definition MemoryPool_prepareResources :: "'h allocator_ops \<Rightarrow> 'h \<times> memory_pool \<Rightarrow> 'h \<times> memory_pool" where
  "MemoryPool_prepareResources alloc hp =
     (let (h, p) = hp;
          neededSize = poolSize p + spareSize p - length (inactiveResources p);
          p = notify (PoolGrowing neededSize) p;
          (h, q) = malloc_times alloc neededSize (h, inactiveResources p);
          p = p\<lparr>inactiveResources := q\<rparr>
      in (h, notify (PoolGrowed (length (activeResources p)) (length q)) p))"

definition MemoryPool_initialize :: "'h allocator_ops \<Rightarrow> 'h \<times> memory_pool \<Rightarrow> 'h \<times> memory_pool" where
  "MemoryPool_initialize alloc hp = MemoryPool_prepareResources alloc hp"

definition MemoryPool_acquire :: "'h allocator_ops \<Rightarrow> ('h \<times> memory_pool, nat option) prog" where
  "MemoryPool_acquire alloc hp =
     (if MemoryPool_isFull (snd hp) \<and> \<not> growable (snd hp) then (Inr None, hp)
      else
        let (h, p) = (if MemoryPool_isFull (snd hp) then MemoryPool_prepareResources alloc hp else hp) in
        case inactiveResources p of
          [] \<Rightarrow> (Inl BadAlloc, (h, p))
        | resource # rest \<Rightarrow>
            (Inr (Some resource),
             (h, MemoryPool_insertActiveResource resource (p\<lparr>inactiveResources := rest\<rparr>))))"

text \<open>A resource that is not active is refused by an assertion; without assertions nothing
  happens.\<close>

definition MemoryPool_release :: "nat \<Rightarrow> memory_pool \<Rightarrow> memory_pool" where
  "MemoryPool_release resource p =
     (let pos = MemoryPool_findActiveResource resource p in
      if pos \<noteq> length (activeResources p) \<and> activeResources p ! pos = resource
      then p\<lparr>inactiveResources := inactiveResources p @ [resource],
             activeResources := erase_at pos (activeResources p)\<rparr>
      else p)"

definition MemoryPool_destroy :: "'h allocator_ops \<Rightarrow> 'h \<times> memory_pool \<Rightarrow> 'h \<times> memory_pool" where
  "MemoryPool_destroy alloc hp =
     (let (h, p) = hp in
      (fold (al_free alloc) (inactiveResources p) (fold (al_free alloc) (activeResources p) h),
       p\<lparr>activeResources := [], inactiveResources := []\<rparr>))"

definition MemoryPool_forEachActiveResources :: "(nat \<Rightarrow> ('s, unit) prog) \<Rightarrow> memory_pool \<Rightarrow> ('s, unit) prog" where
  "MemoryPool_forEachActiveResources func p = for_each func (activeResources p)"

section \<open>MemoryBlockManager\<close>

text \<open>Each manager has an address, which its blocks keep to find their way back.\<close>

definition MemoryBlockManager_new :: "nat \<Rightarrow> nat \<Rightarrow> block_heap \<Rightarrow> block_heap \<times> memory_pool" where
  "MemoryBlockManager_new n initialSize h =
     MemoryPool_initialize MemoryBlockAllocator
       (h\<lparr>initialBlockSize := initialSize\<rparr>, MemoryPool_new n True False)"

definition MemoryBlockManager_acquire :: "nat \<Rightarrow> (block_heap \<times> memory_pool, nat option) prog" where
  "MemoryBlockManager_acquire this =
     bind (MemoryPool_acquire MemoryBlockAllocator) (\<lambda>mb.
       case mb of
         None \<Rightarrow> ret None
       | Some p \<Rightarrow> bind (modify (\<lambda>(h, pool).
           (h\<lparr>bh_blocks := (bh_blocks h)(p := map_option (mb_acquire this) (bh_blocks h p))\<rparr>, pool)))
           (\<lambda>_. ret (Some p)))"

definition MemoryBlockManager_release :: "nat \<Rightarrow> block_heap \<times> memory_pool \<Rightarrow> block_heap \<times> memory_pool" where
  "MemoryBlockManager_release mb hp = (fst hp, MemoryPool_release mb (snd hp))"

section \<open>VariousMemoryAllocator\<close>

text \<open>
  A chunk is an address with, in its header, the size it was made with; \<open>vma_header\<close> is
  the memory of the headers.  \<open>malloc\<close> returns the address behind the header, which the model
  identifies with the chunk.
\<close>

record various_memory_allocator =
  cachedBlocks :: "(nat \<times> nat) list"
  vma_header :: "nat \<rightharpoonup> nat"
  vma_next :: nat

definition VMA_Block :: "nat \<Rightarrow> various_memory_allocator \<Rightarrow> nat \<times> various_memory_allocator" where
  "VMA_Block chunkSize a =
     (vma_next a, a\<lparr>vma_next := vma_next a + 1, vma_header := (vma_header a)(vma_next a \<mapsto> chunkSize)\<rparr>)"

definition VMA_find :: "nat \<Rightarrow> various_memory_allocator \<Rightarrow> nat" where
  "VMA_find chunkSize a = lower_bound fst chunkSize (cachedBlocks a)"

definition VMA_malloc :: "nat \<Rightarrow> various_memory_allocator \<Rightarrow> nat \<times> various_memory_allocator" where
  "VMA_malloc nbytes a =
     (let pos = VMA_find nbytes a in
      if pos \<noteq> length (cachedBlocks a)
      then (snd (cachedBlocks a ! pos), a\<lparr>cachedBlocks := erase_at pos (cachedBlocks a)\<rparr>)
      else VMA_Block nbytes a)"

definition VMA_insert :: "nat \<times> nat \<Rightarrow> various_memory_allocator \<Rightarrow> various_memory_allocator" where
  "VMA_insert block a =
     (let pos = VMA_find (fst block) a in
      if pos \<noteq> length (cachedBlocks a)
      then a\<lparr>cachedBlocks := insert_at pos block (cachedBlocks a)\<rparr>
      else a\<lparr>cachedBlocks := cachedBlocks a @ [block]\<rparr>)"

definition VMA_free :: "nat option \<Rightarrow> (various_memory_allocator, unit) prog" where
  "VMA_free ptr a =
     (case ptr of
        None \<Rightarrow> (Inr (), a)
      | Some chunk \<Rightarrow>
          (case vma_header a chunk of
             None \<Rightarrow> (Inl (UndefinedBehaviour ''free of a pointer that malloc did not return''), a)
           | Some chunkSize \<Rightarrow> (Inr (), VMA_insert (chunkSize, chunk) a)))"

fun VMA_preallocate :: "nat \<Rightarrow> nat \<Rightarrow> various_memory_allocator \<Rightarrow> various_memory_allocator" where
  "VMA_preallocate 0 chunkSize a = a"
| "VMA_preallocate (Suc n) chunkSize a =
     (let (chunk, a) = VMA_Block chunkSize a in
      VMA_preallocate n chunkSize (a\<lparr>cachedBlocks := cachedBlocks a @ [(chunkSize, chunk)]\<rparr>))"

definition VMA_new :: "nat \<Rightarrow> nat \<Rightarrow> various_memory_allocator" where
  "VMA_new n chunkSize =
     VMA_preallocate n chunkSize \<lparr>cachedBlocks = [], vma_header = Map.empty, vma_next = 0\<rparr>"

definition VMA_destroy :: "various_memory_allocator \<Rightarrow> various_memory_allocator" where
  "VMA_destroy a = a\<lparr>vma_header := (vma_header a) |` (- snd ` set (cachedBlocks a)), cachedBlocks := []\<rparr>"

text \<open>The cache is ordered by size, holds a chunk once and agrees with the headers.\<close>

definition vma_inv :: "various_memory_allocator \<Rightarrow> bool" where
  "vma_inv a \<longleftrightarrow> sorted (map fst (cachedBlocks a)) \<and> distinct (map snd (cachedBlocks a)) \<and>
     (\<forall>(n, c) \<in> set (cachedBlocks a). vma_header a c = Some n) \<and>
     (\<forall>c \<in> dom (vma_header a). c < vma_next a)"

section \<open>Correctness of the pool\<close>

definition pool_wf :: "memory_pool \<Rightarrow> bool" where
  "pool_wf p \<longleftrightarrow> sorted (activeResources p) \<and>
     distinct (activeResources p @ inactiveResources p) \<and> 1 \<le> spareSize p"

definition pool_resources :: "memory_pool \<Rightarrow> nat set" where
  "pool_resources p = set (activeResources p) \<union> set (inactiveResources p)"

lemma lower_bound_split:
  fixes key :: "'a \<Rightarrow> 'k::linorder" and x :: 'k
  assumes "sorted (map key xs)"
  defines "pos \<equiv> lower_bound key x xs"
  shows "pos \<le> length xs" and "\<forall>y \<in> set (take pos xs). key y < x"
    and "\<forall>y \<in> set (drop pos xs). x \<le> key y"
proof -
  have t: "take pos xs = takeWhile (\<lambda>y. key y < x) xs" "drop pos xs = dropWhile (\<lambda>y. key y < x) xs"
    by (simp_all add: pos_def lower_bound_def takeWhile_eq_take [symmetric] dropWhile_eq_drop [symmetric])
  show "pos \<le> length xs" by (simp add: pos_def lower_bound_def length_takeWhile_le)
  show "\<forall>y \<in> set (take pos xs). key y < x" by (auto simp: t dest: set_takeWhileD)
  show "\<forall>y \<in> set (drop pos xs). x \<le> key y"
    using assms(1) unfolding t
    by (induction xs) (auto simp: not_less intro: order_trans)
qed

lemma sorted_insert_at:
  assumes "sorted (map key xs)"
  shows "sorted (map key (insert_at (lower_bound key (key x) xs) x xs))"
proof -
  let ?pos = "lower_bound key (key x) xs"
  have "sorted (map key (take ?pos xs) @ map key (drop ?pos xs))"
    using assms by (simp flip: map_append)
  then show ?thesis
    using lower_bound_split(2,3) [OF assms, of "key x"]
    by (fastforce simp: insert_at_def sorted_append)
qed

lemma mset_insert_at: "mset (insert_at pos x xs) = add_mset x (mset xs)"
proof -
  have "mset (insert_at pos x xs) = add_mset x (mset (take pos xs) + mset (drop pos xs))"
    by (simp add: insert_at_def)
  then show ?thesis by (metis append_take_drop_id mset_append)
qed

lemma lower_bound_mem:
  fixes x :: "'k::linorder"
  assumes "sorted xs" and "distinct xs"
  defines "pos \<equiv> lower_bound (\<lambda>r. r) x xs"
  shows "pos \<noteq> length xs \<and> xs ! pos = x \<longleftrightarrow> x \<in> set xs"
    and "x \<in> set xs \<Longrightarrow> erase_at pos xs = remove1 x xs"
proof -
  note split = lower_bound_split [where key = "\<lambda>r. r" and xs = xs and x = x, folded pos_def]
  have s: "sorted (map (\<lambda>r. r) xs)" using assms(1) by simp
  have xs: "xs = take pos xs @ drop pos xs" by simp
  have notin: "x \<notin> set (take pos xs)" using split(2) [OF s] by auto
  have *: "pos < length xs \<and> xs ! pos = x" if x: "x \<in> set xs"
  proof -
    have mem: "x \<in> set (drop pos xs)" using x notin by (metis Un_iff append_take_drop_id set_append)
    then obtain y ys where y: "drop pos xs = y # ys" by (cases "drop pos xs") auto
    then have "x \<le> y" using split(3) [OF s] by auto
    moreover have "sorted (drop pos xs)" using assms(1) by (rule sorted_wrt_drop)
    then have "y \<le> x" using mem y by auto
    moreover have "pos < length xs" "xs ! pos = y"
      using y by (metis drop_eq_Nil linorder_not_less list.distinct(1), metis hd_drop_conv_nth drop_eq_Nil linorder_not_less list.distinct(1) list.sel(1))
    ultimately show ?thesis by auto
  qed
  then show "pos \<noteq> length xs \<and> xs ! pos = x \<longleftrightarrow> x \<in> set xs"
    using split(1) [OF s] by (auto simp: le_less)
  assume "x \<in> set xs"
  with * have "drop pos xs = x # drop (Suc pos) xs" by (metis Cons_nth_drop_Suc)
  then show "erase_at pos xs = remove1 x xs"
    using notin by (metis append_take_drop_id erase_at_def remove1.simps(2) remove1_append)
qed

lemma insertActive_props:
  assumes "sorted (activeResources p)"
  shows "sorted (activeResources (MemoryPool_insertActiveResource r p))"
    and "mset (activeResources (MemoryPool_insertActiveResource r p)) = add_mset r (mset (activeResources p))"
    and "MemoryPool_insertActiveResource r p =
      p\<lparr>activeResources := activeResources (MemoryPool_insertActiveResource r p)\<rparr>"
proof -
  let ?pos = "MemoryPool_findActiveResource r p"
  have eq: "activeResources (MemoryPool_insertActiveResource r p) = insert_at ?pos r (activeResources p)"
    by (simp add: MemoryPool_insertActiveResource_def Let_def insert_at_def)
  show "sorted (activeResources (MemoryPool_insertActiveResource r p))"
    using sorted_insert_at [where key = "\<lambda>r. r" and x = r and xs = "activeResources p"] assms
    by (simp add: eq MemoryPool_findActiveResource_def)
  show "mset (activeResources (MemoryPool_insertActiveResource r p)) = add_mset r (mset (activeResources p))"
    by (simp add: eq mset_insert_at)
  show "MemoryPool_insertActiveResource r p =
      p\<lparr>activeResources := activeResources (MemoryPool_insertActiveResource r p)\<rparr>"
    by (simp add: MemoryPool_insertActiveResource_def Let_def)
qed

lemma release_props:
  assumes "pool_wf p"
  shows "pool_wf (MemoryPool_release r p)"
    and "r \<in> set (activeResources p) \<Longrightarrow>
      activeResources (MemoryPool_release r p) = remove1 r (activeResources p) \<and>
      inactiveResources (MemoryPool_release r p) = inactiveResources p @ [r]"
    and "r \<notin> set (activeResources p) \<Longrightarrow> MemoryPool_release r p = p"
    and "pool_resources (MemoryPool_release r p) = pool_resources p"
proof -
  have s: "sorted (activeResources p)" "distinct (activeResources p)"
    using assms by (simp_all add: pool_wf_def)
  note lb = lower_bound_mem [OF s, of r, folded MemoryPool_findActiveResource_def]
  show in_eq: "r \<in> set (activeResources p) \<Longrightarrow>
      activeResources (MemoryPool_release r p) = remove1 r (activeResources p) \<and>
      inactiveResources (MemoryPool_release r p) = inactiveResources p @ [r]"
    and out_eq: "r \<notin> set (activeResources p) \<Longrightarrow> MemoryPool_release r p = p"
    using lb by (auto simp: MemoryPool_release_def Let_def)
  have "spareSize (MemoryPool_release r p) = spareSize p"
    by (simp add: MemoryPool_release_def Let_def)
  then show "pool_wf (MemoryPool_release r p)"
    using assms in_eq out_eq sorted_remove1 [OF s(1)]
    by (cases "r \<in> set (activeResources p)") (auto simp: pool_wf_def dest: notin_set_remove1)
  show "pool_resources (MemoryPool_release r p) = pool_resources p"
    using in_eq out_eq s(2)
    by (cases "r \<in> set (activeResources p)") (auto simp: pool_resources_def)
qed

text \<open>The invariant over any allocator that keeps the contract.\<close>

definition pool_inv :: "('h \<Rightarrow> nat set) \<Rightarrow> ('h \<Rightarrow> bool) \<Rightarrow> 'h \<times> memory_pool \<Rightarrow> bool" where
  "pool_inv live hinv hp \<longleftrightarrow> hinv (fst hp) \<and> pool_wf (snd hp) \<and> pool_resources (snd hp) \<subseteq> live (fst hp)"

context allocator
begin

lemma malloc_times_props:
  assumes "hinv h"
  shows "\<exists>h' new. malloc_times alloc n (h, q) = (h', q @ new) \<and> hinv h' \<and> length new = n \<and>
    distinct new \<and> set new \<inter> live h = {} \<and> live h' = live h \<union> set new"
  using assms
proof (induction n arbitrary: h q)
  case 0
  then show ?case by auto
next
  case (Suc n)
  obtain r h1 where m: "al_malloc alloc h = (r, h1)" by (cases "al_malloc alloc h")
  with Suc.prems have h1: "hinv h1" "r \<notin> live h" "live h1 = insert r (live h)"
    using malloc_fresh [of h] malloc_live [of h] malloc_inv [of h] by simp_all
  from Suc.IH [OF h1(1), of "q @ [r]"] obtain h' new where
    "malloc_times alloc n (h1, q @ [r]) = (h', (q @ [r]) @ new)" "hinv h'" "length new = n"
    "distinct new" "set new \<inter> live h1 = {}" "live h' = live h1 \<union> set new"
    by blast
  with m h1 show ?case
    by (intro exI [of _ h'] exI [of _ "r # new"]) auto
qed

lemma prepareResources_props:
  assumes "pool_inv live hinv (h, p)" and "MemoryPool_prepareResources alloc (h, p) = (h', p')"
  shows "pool_inv live hinv (h', p')" and "activeResources p' = activeResources p"
    and "length (inactiveResources p') = max (poolSize p + spareSize p) (length (inactiveResources p))"
    and "spareSize p' = spareSize p" and "growable p' = growable p" and "poolSize p' = poolSize p"
proof -
  let ?n = "poolSize p + spareSize p - length (inactiveResources p)"
  from assms(1) have inv: "hinv h" "pool_wf p" "pool_resources p \<subseteq> live h"
    by (simp_all add: pool_inv_def)
  obtain h1 new where m: "malloc_times alloc ?n (h, inactiveResources p) = (h1, inactiveResources p @ new)"
    and h1: "hinv h1" "length new = ?n" "distinct new" "set new \<inter> live h = {}" "live h1 = live h \<union> set new"
    using malloc_times_props [OF inv(1)] by blast
  have n: "notify e p\<lparr>inactiveResources := q\<rparr> = notify e (p\<lparr>inactiveResources := q\<rparr>)"
    "inactiveResources (notify e p) = inactiveResources p" for e q p
    by (simp_all add: notify_def)
  have p': "h' = h1" "activeResources p' = activeResources p"
    "inactiveResources p' = inactiveResources p @ new" "spareSize p' = spareSize p"
    "growable p' = growable p" "poolSize p' = poolSize p"
    using assms(2) m by (auto simp: MemoryPool_prepareResources_def Let_def notify_def split: if_splits)
  then show "activeResources p' = activeResources p" "spareSize p' = spareSize p"
    "growable p' = growable p" "poolSize p' = poolSize p" by simp_all
  show "length (inactiveResources p') = max (poolSize p + spareSize p) (length (inactiveResources p))"
    using p'(3) h1(2) by simp
  have "set new \<inter> pool_resources p = {}" using inv(3) h1(4) by auto
  then show "pool_inv live hinv (h', p')"
    using inv h1 p' by (auto simp: pool_inv_def pool_wf_def pool_resources_def)
qed

lemma acquire_takes:
  assumes "pool_inv live hinv (h, p)" and "inactiveResources p = r # rest"
  defines "p' \<equiv> MemoryPool_insertActiveResource r (p\<lparr>inactiveResources := rest\<rparr>)"
  shows "pool_inv live hinv (h, p')" and "r \<notin> set (activeResources p)" and "r \<in> live h"
    and "set (activeResources p') = insert r (set (activeResources p))"
    and "inactiveResources p' = rest" and "pool_resources p' = pool_resources p"
proof -
  let ?p = "p\<lparr>inactiveResources := rest\<rparr>"
  have s: "sorted (activeResources ?p)" using assms(1) by (simp add: pool_inv_def pool_wf_def)
  note ins = insertActive_props [OF s, of r, folded p'_def]
  have m: "mset (activeResources p') = add_mset r (mset (activeResources p))"
    using ins(2) by simp
  show set: "set (activeResources p') = insert r (set (activeResources p))"
    using m by (metis set_mset_add_mset_insert set_mset_mset)
  show rest: "inactiveResources p' = rest" by (subst ins(3)) simp
  have spare: "spareSize p' = spareSize p" by (subst ins(3)) simp
  show r: "r \<notin> set (activeResources p)" and "r \<in> live h"
    using assms(1,2) by (auto simp: pool_inv_def pool_wf_def pool_resources_def)
  show res: "pool_resources p' = pool_resources p"
    using set rest assms(2) by (auto simp: pool_resources_def)
  have "mset (activeResources p') = mset (r # activeResources p)" using m by simp
  moreover have "distinct (r # activeResources p)"
    using r assms(1) by (simp add: pool_inv_def pool_wf_def)
  ultimately have "distinct (activeResources p')" by (metis mset_eq_imp_distinct_iff)
  then show "pool_inv live hinv (h, p')"
    using assms(1,2) ins(1) set rest spare res by (auto simp: pool_inv_def pool_wf_def)
qed

lemma acquire_refused:
  "MemoryPool_isFull p \<Longrightarrow> \<not> growable p \<Longrightarrow> MemoryPool_acquire alloc (h, p) = (Inr None, (h, p))"
  by (simp add: MemoryPool_acquire_def)

lemma acquire_fresh:
  assumes inv: "pool_inv live hinv (h, p)" and "growable p \<or> \<not> MemoryPool_isFull p"
  shows "\<exists>r h' p'. MemoryPool_acquire alloc (h, p) = (Inr (Some r), (h', p')) \<and>
    pool_inv live hinv (h', p') \<and> r \<notin> set (activeResources p) \<and> r \<in> live h' \<and>
    set (activeResources p') = insert r (set (activeResources p))"
proof -
  obtain h1 p1 where p1: "(if MemoryPool_isFull p then MemoryPool_prepareResources alloc (h, p)
      else (h, p)) = (h1, p1)"
    by (meson surj_pair)
  have "pool_inv live hinv (h1, p1) \<and> activeResources p1 = activeResources p"
  proof (cases "MemoryPool_isFull p")
    case True
    with p1 have "MemoryPool_prepareResources alloc (h, p) = (h1, p1)" by simp
    from prepareResources_props(1,2) [OF inv this] show ?thesis by blast
  next
    case False
    with p1 inv show ?thesis by simp
  qed
  then have inv1: "pool_inv live hinv (h1, p1)" and act: "activeResources p1 = activeResources p"
    by simp_all
  have "0 < length (inactiveResources p1)"
  proof (cases "MemoryPool_isFull p")
    case True
    with p1 prepareResources_props(3) [OF inv, of h1 p1] inv show ?thesis
      by (auto simp: pool_inv_def pool_wf_def less_max_iff_disj simp del: length_greater_0_conv)
  next
    case False
    with p1 show ?thesis by (auto simp: MemoryPool_isFull_def)
  qed
  then have "inactiveResources p1 \<noteq> []" by simp
  then obtain r rest where r: "inactiveResources p1 = r # rest" by (cases "inactiveResources p1") auto
  have "MemoryPool_acquire alloc (h, p) =
      (Inr (Some r), (h1, MemoryPool_insertActiveResource r (p1\<lparr>inactiveResources := rest\<rparr>)))"
    using assms(2) p1 r by (auto simp: MemoryPool_acquire_def)
  with acquire_takes [OF inv1 r] act show ?thesis by auto
qed

lemma fold_free_live:
  assumes "hinv h"
  shows "live (fold (al_free alloc) rs h) = live h - set rs \<and> hinv (fold (al_free alloc) rs h)"
  using assms by (induction rs arbitrary: h) (auto simp: free_live free_inv)

lemma destroy_props:
  assumes "pool_inv live hinv (h, p)"
  shows "live (fst (MemoryPool_destroy alloc (h, p))) = live h - pool_resources p"
    and "pool_inv live hinv (MemoryPool_destroy alloc (h, p))"
proof -
  from assms have "hinv h" "pool_wf p" by (simp_all add: pool_inv_def)
  note f = fold_free_live [OF this(1), of "activeResources p"]
  note g = fold_free_live [OF conjunct2 [OF f], of "inactiveResources p"]
  show "live (fst (MemoryPool_destroy alloc (h, p))) = live h - pool_resources p"
    using f g by (auto simp: MemoryPool_destroy_def pool_resources_def)
  show "pool_inv live hinv (MemoryPool_destroy alloc (h, p))"
    using g \<open>pool_wf p\<close> by (simp add: MemoryPool_destroy_def pool_inv_def pool_wf_def pool_resources_def)
qed

lemma release_inv: "pool_inv live hinv (h, p) \<Longrightarrow> pool_inv live hinv (h, MemoryPool_release r p)"
  using release_props(1,4) [of p r] by (simp add: pool_inv_def)

lemma new_inv: "hinv h \<Longrightarrow> pool_inv live hinv (h, MemoryPool_new n g c)"
  by (simp add: pool_inv_def pool_wf_def pool_resources_def MemoryPool_new_def)

end

section \<open>Correctness of VariousMemoryAllocator\<close>

lemma erase_at_nth:
  assumes "pos < length xs"
  shows "mset xs = add_mset (xs ! pos) (mset (erase_at pos xs))"
proof -
  have "mset xs = mset (take pos xs @ xs ! pos # drop (Suc pos) xs)"
    using id_take_nth_drop [OF assms] by simp
  then show ?thesis by (simp add: erase_at_def)
qed

lemma sorted_erase_at: "sorted (map key xs) \<Longrightarrow> sorted (map key (erase_at pos xs))"
proof -
  assume s: "sorted (map key xs)"
  then have "sorted (map key (take pos xs) @ map key (drop pos xs))"
    by (simp flip: map_append)
  moreover have "drop (Suc pos) xs = tl (drop pos xs)"
    by (simp add: drop_Suc tl_drop)
  ultimately show ?thesis
    by (cases "drop pos xs") (auto simp: erase_at_def sorted_append)
qed

lemma VMA_malloc_props:
  assumes inv: "vma_inv a" and run: "VMA_malloc nbytes a = (chunk, a')"
  shows "vma_inv a'" and "\<exists>n. vma_header a' chunk = Some n \<and> nbytes \<le> n"
    and "chunk \<notin> snd ` set (cachedBlocks a')"
    and "\<forall>c. c \<noteq> chunk \<longrightarrow> vma_header a' c = vma_header a c"
proof -
  let ?pos = "VMA_find nbytes a" and ?bs = "cachedBlocks a"
  have s: "sorted (map fst ?bs)" using inv by (simp add: vma_inv_def)
  note lb = lower_bound_split [OF s, of nbytes, folded VMA_find_def]
  have "vma_inv a' \<and> (\<exists>n. vma_header a' chunk = Some n \<and> nbytes \<le> n) \<and>
    chunk \<notin> snd ` set (cachedBlocks a') \<and> (\<forall>c. c \<noteq> chunk \<longrightarrow> vma_header a' c = vma_header a c)"
  proof (cases "?pos = length ?bs")
    case True
    then have "chunk = vma_next a" "a' = a\<lparr>vma_next := vma_next a + 1,
        vma_header := (vma_header a)(vma_next a \<mapsto> nbytes)\<rparr>"
      using run by (auto simp: VMA_malloc_def VMA_Block_def)
    with inv show ?thesis
      by (fastforce simp: vma_inv_def dom_def less_Suc_eq)
  next
    case False
    with lb(1) have pos: "?pos < length ?bs" by simp
    let ?b = "?bs ! ?pos"
    have a': "chunk = snd ?b" "a' = a\<lparr>cachedBlocks := erase_at ?pos ?bs\<rparr>"
      using run False by (simp_all add: VMA_malloc_def Let_def)
    have "?b \<in> set (drop ?pos ?bs)"
      using pos by (metis Cons_nth_drop_Suc list.set_intros(1))
    then have "nbytes \<le> fst ?b" using lb(3) by blast
    moreover have m: "mset ?bs = add_mset ?b (mset (erase_at ?pos ?bs))"
      by (rule erase_at_nth [OF pos])
    then have "mset (map snd ?bs) = mset (snd ?b # map snd (erase_at ?pos ?bs))"
      by simp
    then have d: "distinct (snd ?b # map snd (erase_at ?pos ?bs))"
      using inv unfolding vma_inv_def by (metis mset_eq_imp_distinct_iff)
    moreover have sub: "set ?bs = insert ?b (set (erase_at ?pos ?bs))"
      using m by (metis set_mset_add_mset_insert set_mset_mset)
    moreover have "vma_header a (snd ?b) = Some (fst ?b)"
      using inv sub by (fastforce simp: vma_inv_def split: prod.splits)
    ultimately show ?thesis
      using a' inv sorted_erase_at [OF s] by (auto simp: vma_inv_def)
  qed
  then show "vma_inv a'" and "\<exists>n. vma_header a' chunk = Some n \<and> nbytes \<le> n"
    and "chunk \<notin> snd ` set (cachedBlocks a')"
    and "\<forall>c. c \<noteq> chunk \<longrightarrow> vma_header a' c = vma_header a c" by simp_all
qed

lemma VMA_insert_cached: "cachedBlocks (VMA_insert b a) = insert_at (VMA_find (fst b) a) b (cachedBlocks a)"
  "vma_header (VMA_insert b a) = vma_header a" "vma_next (VMA_insert b a) = vma_next a"
  by (simp_all add: VMA_insert_def Let_def insert_at_def)

lemma VMA_free_props:
  assumes inv: "vma_inv a" and h: "vma_header a chunk = Some n"
    and out: "chunk \<notin> snd ` set (cachedBlocks a)"
  shows "fst (VMA_free (Some chunk) a) = Inr ()" and "vma_inv (snd (VMA_free (Some chunk) a))"
    and "mset (cachedBlocks (snd (VMA_free (Some chunk) a))) = add_mset (n, chunk) (mset (cachedBlocks a))"
proof -
  let ?a = "VMA_insert (n, chunk) a"
  have run: "VMA_free (Some chunk) a = (Inr (), ?a)" using h by (simp add: VMA_free_def)
  then show "fst (VMA_free (Some chunk) a) = Inr ()" by simp
  have m: "mset (cachedBlocks ?a) = add_mset (n, chunk) (mset (cachedBlocks a))"
    by (simp add: VMA_insert_cached mset_insert_at)
  with run show "mset (cachedBlocks (snd (VMA_free (Some chunk) a))) =
      add_mset (n, chunk) (mset (cachedBlocks a))" by simp
  have "sorted (map fst (cachedBlocks ?a))"
    using sorted_insert_at [where key = fst and x = "(n, chunk)" and xs = "cachedBlocks a"] inv
    by (simp add: VMA_insert_cached VMA_find_def vma_inv_def)
  moreover have "mset (map snd (cachedBlocks ?a)) = mset (chunk # map snd (cachedBlocks a))"
    using m by simp
  then have "distinct (map snd (cachedBlocks ?a))"
    using inv out unfolding vma_inv_def by (metis distinct.simps(2) mset_eq_imp_distinct_iff set_map)
  moreover have "set (cachedBlocks ?a) = insert (n, chunk) (set (cachedBlocks a))"
    using m by (metis set_mset_add_mset_insert set_mset_mset)
  ultimately show "vma_inv (snd (VMA_free (Some chunk) a))"
    using inv h run by (auto simp: vma_inv_def VMA_insert_cached)
qed

section \<open>Properties\<close>

text \<open>C30: a growable pool of memory blocks never fails and never hands out a block that is in
  use: \<open>acquire\<close> returns a live block that was not active, and the pool stays well formed.\<close>

theorem pool_acquire_fresh:
  assumes "pool_inv block_heap_live block_heap_inv (h, p)" and "growable p \<or> \<not> MemoryPool_isFull p"
  shows "\<exists>r h' p'. MemoryPool_acquire MemoryBlockAllocator (h, p) = (Inr (Some r), (h', p')) \<and>
    pool_inv block_heap_live block_heap_inv (h', p') \<and> r \<notin> set (activeResources p) \<and>
    r \<in> block_heap_live h' \<and> set (activeResources p') = insert r (set (activeResources p))"
  by (rule mba.acquire_fresh [OF assms])

theorem pool_acquire_fresh_witness:
  "\<exists>r h' p'. MemoryPool_acquire MemoryBlockAllocator
      (\<lparr>initialBlockSize = 16, bh_next = 0, bh_blocks = Map.empty\<rparr>, MemoryPool_new 2 True True) =
      (Inr (Some r), (h', p')) \<and>
    pool_inv block_heap_live block_heap_inv (h', p') \<and> r \<notin> set (activeResources (MemoryPool_new 2 True True)) \<and>
    r \<in> block_heap_live h' \<and>
    set (activeResources p') = insert r (set (activeResources (MemoryPool_new 2 True True)))"
  by (rule pool_acquire_fresh, rule mba.new_inv) (simp_all add: block_heap_inv_def MemoryPool_new_def)

text \<open>A released resource waits behind the others and is active no more; releasing what is
  not active changes nothing; the pool owns the same resources before and after.\<close>

lemma pool_release:
  assumes "pool_wf p"
  shows "pool_wf (MemoryPool_release r p) \<and> r \<notin> set (activeResources (MemoryPool_release r p)) \<and>
    pool_resources (MemoryPool_release r p) = pool_resources p \<and>
    (if r \<in> set (activeResources p)
     then inactiveResources (MemoryPool_release r p) = inactiveResources p @ [r]
     else MemoryPool_release r p = p)"
  using release_props [OF assms, of r] assms
  by (auto simp: pool_wf_def set_remove1_eq)

text \<open>\<open>VariousMemoryAllocator::malloc\<close> returns a chunk with room for the request that is no
  longer cached, and \<open>free\<close> of that chunk puts it back under its size, the cache staying
  ordered.\<close>

lemma various_malloc_free:
  assumes "vma_inv a" and "VMA_malloc nbytes a = (chunk, a')"
  shows "\<exists>n a''. vma_header a' chunk = Some n \<and> nbytes \<le> n \<and> vma_inv a' \<and>
    chunk \<notin> snd ` set (cachedBlocks a') \<and>
    VMA_free (Some chunk) a' = (Inr (), a'') \<and> vma_inv a'' \<and>
    mset (cachedBlocks a'') = add_mset (n, chunk) (mset (cachedBlocks a'))"
proof -
  note m = VMA_malloc_props [OF assms]
  obtain n where n: "vma_header a' chunk = Some n" "nbytes \<le> n" using m(2) by blast
  note f = VMA_free_props [OF m(1) n(1) m(3)]
  have "VMA_free (Some chunk) a' = (Inr (), snd (VMA_free (Some chunk) a'))"
    using f(1) by (simp add: prod_eq_iff)
  with m n f show ?thesis by blast
qed

end
