(* ===== verification/Session_Manager.thy ===== *)
theory Session_Manager
  imports Memory_Pool
begin

text \<open>
  \<open>CachedSessionManager\<close> (src/base/session/CachedSessionManager.cpp), which keeps the sessions of a
  server in a \<open>SessionPool\<close> (SessionPool.h): the memory pool over an allocator of sessions.  A
  session is its address; what the factory builds there is not the manager's concern.  The manager
  implements a set of sessions in use: \<open>acquire\<close> adds one that was not in it, \<open>release\<close> takes one
  out, \<open>cancel\<close> disconnects each of them once, and the callback hears the size of the set.
\<close>

section \<open>SessionAllocator\<close>

text \<open>\<open>sh_disconnects\<close> records the calls of \<open>Session::disconnect\<close>.\<close>

record session_heap =
  sh_next :: nat
  sh_sessions :: "nat list"
  sh_disconnects :: "nat list"

definition SessionAllocator_malloc :: "session_heap \<Rightarrow> nat \<times> session_heap" where
  "SessionAllocator_malloc h = (sh_next h, h\<lparr>sh_next := sh_next h + 1, sh_sessions := sh_next h # sh_sessions h\<rparr>)"

definition SessionAllocator_free :: "nat \<Rightarrow> session_heap \<Rightarrow> session_heap" where
  "SessionAllocator_free session h = h\<lparr>sh_sessions := removeAll session (sh_sessions h)\<rparr>"

definition SessionAllocator :: "session_heap allocator_ops" where
  "SessionAllocator = \<lparr>al_malloc = SessionAllocator_malloc, al_free = SessionAllocator_free\<rparr>"

definition session_heap_live :: "session_heap \<Rightarrow> nat set" where
  "session_heap_live h = set (sh_sessions h)"

definition session_heap_inv :: "session_heap \<Rightarrow> bool" where
  "session_heap_inv h \<longleftrightarrow> (\<forall>s \<in> set (sh_sessions h). s < sh_next h)"

interpretation sessions: allocator SessionAllocator session_heap_live session_heap_inv
  by unfold_locales
    (auto simp: SessionAllocator_def SessionAllocator_malloc_def SessionAllocator_free_def session_heap_live_def
      session_heap_inv_def less_Suc_eq)

section \<open>SessionPool\<close>

definition SessionPool_new :: "nat \<Rightarrow> memory_pool" where
  "SessionPool_new n = MemoryPool_new n True True"

definition SessionPool_cancel :: "session_heap \<times> memory_pool \<Rightarrow> session_heap \<times> memory_pool" where
  "SessionPool_cancel hp =
     (let (r, h) = MemoryPool_forEachActiveResources
            (\<lambda>s. modify (\<lambda>h. h\<lparr>sh_disconnects := sh_disconnects h @ [s]\<rparr>)) (snd hp) (fst hp)
      in (h, snd hp))"

section \<open>CachedSessionManager\<close>

datatype manager_event = SessionAcquired nat | SessionReleased nat

record session_manager =
  sessionPool :: "session_heap \<times> memory_pool"
  sm_hasCallback :: bool
  sm_events :: "manager_event list"

definition CachedSessionManager_new :: "nat \<Rightarrow> bool \<Rightarrow> session_heap \<Rightarrow> session_manager" where
  "CachedSessionManager_new n callback h =
     \<lparr>sessionPool = (h, SessionPool_new n), sm_hasCallback = callback, sm_events = []\<rparr>"

definition CachedSessionManager_initialize :: "session_manager \<Rightarrow> session_manager" where
  "CachedSessionManager_initialize m =
     m\<lparr>sessionPool := MemoryPool_initialize SessionAllocator (sessionPool m)\<rparr>"

definition getActiveSessionCount :: "session_manager \<Rightarrow> nat" where
  "getActiveSessionCount m = length (activeResources (snd (sessionPool m)))"

definition getInactiveSessionCount :: "session_manager \<Rightarrow> nat" where
  "getInactiveSessionCount m = length (inactiveResources (snd (sessionPool m)))"

definition isSafeToDelete :: "session_manager \<Rightarrow> bool" where
  "isSafeToDelete m \<longleftrightarrow> getActiveSessionCount m = 0"

definition getSessionCount :: "session_manager \<Rightarrow> nat" where
  "getSessionCount m = getActiveSessionCount m"

definition getTotalSessionCount :: "session_manager \<Rightarrow> nat" where
  "getTotalSessionCount m = getActiveSessionCount m + getInactiveSessionCount m"

definition tell :: "manager_event \<Rightarrow> session_manager \<Rightarrow> session_manager" where
  "tell e m = (if sm_hasCallback m then m\<lparr>sm_events := sm_events m @ [e]\<rparr> else m)"

definition CachedSessionManager_acquire :: "(session_manager, nat option) prog" where
  "CachedSessionManager_acquire =
     bind (zoom sessionPool (\<lambda>hp m. m\<lparr>sessionPool := hp\<rparr>) (MemoryPool_acquire SessionAllocator)) (\<lambda>session.
     case session of
       None \<Rightarrow> ret None
     | Some s \<Rightarrow>
         bind (gets getActiveSessionCount) (\<lambda>sessionCount.
         bind (modify (tell (SessionAcquired sessionCount))) (\<lambda>_.
         ret (Some s))))"

definition CachedSessionManager_release :: "nat \<Rightarrow> session_manager \<Rightarrow> session_manager" where
  "CachedSessionManager_release session m =
     (let (h, p) = sessionPool m;
          m = m\<lparr>sessionPool := (h, MemoryPool_release session p)\<rparr>;
          sessionCount = getActiveSessionCount m
      in tell (SessionReleased sessionCount) m)"

definition CachedSessionManager_cancel :: "session_manager \<Rightarrow> session_manager" where
  "CachedSessionManager_cancel m = m\<lparr>sessionPool := SessionPool_cancel (sessionPool m)\<rparr>"

text \<open>\<open>waitForDone\<close> polls; \<open>at i\<close> is the manager as other threads have left it after \<open>i\<close> pauses.  The
  result is the number of pauses, if the loop ends.\<close>

partial_function (option) CachedSessionManager_waitForDone :: "(nat \<Rightarrow> session_manager) \<Rightarrow> nat \<Rightarrow> nat option" where
  "CachedSessionManager_waitForDone at i =
     (if \<not> isSafeToDelete (at i) then CachedSessionManager_waitForDone at (Suc i) else Some i)"

section \<open>The set of sessions in use\<close>

definition in_use :: "session_manager \<Rightarrow> nat set" where
  "in_use m = set (activeResources (snd (sessionPool m)))"

definition manager_inv :: "session_manager \<Rightarrow> bool" where
  "manager_inv m \<longleftrightarrow> pool_inv session_heap_live session_heap_inv (sessionPool m) \<and> growable (snd (sessionPool m))"

lemma count_in_use: "manager_inv m \<Longrightarrow> getActiveSessionCount m = card (in_use m)"
  by (simp add: manager_inv_def pool_inv_def pool_wf_def getActiveSessionCount_def in_use_def distinct_card)

lemma tell_simps [simp]: "sessionPool (tell e m) = sessionPool m" "in_use (tell e m) = in_use m"
  "manager_inv (tell e m) = manager_inv m" "sm_hasCallback (tell e m) = sm_hasCallback m"
  "sm_events (tell e m) = sm_events m @ (if sm_hasCallback m then [e] else [])"
  by (simp_all add: tell_def in_use_def manager_inv_def)

lemma acquire_growable:
  "MemoryPool_acquire alloc (h, p) = (r, (h', p')) \<Longrightarrow> growable p' = growable p"
  by (auto simp: MemoryPool_acquire_def MemoryPool_prepareResources_def MemoryPool_insertActiveResource_def
      notify_def Let_def split: if_splits prod.splits list.splits)

lemma initialize_inv:
  assumes "session_heap_inv h"
  shows "manager_inv (CachedSessionManager_initialize (CachedSessionManager_new n callback h))"
    and "in_use (CachedSessionManager_initialize (CachedSessionManager_new n callback h)) = {}"
proof -
  obtain h' p' where p': "MemoryPool_prepareResources SessionAllocator (h, SessionPool_new n) = (h', p')" by fastforce
  have "pool_inv session_heap_live session_heap_inv (h, SessionPool_new n)"
    unfolding SessionPool_new_def by (rule sessions.new_inv [OF assms])
  from sessions.prepareResources_props(1,2,5) [OF this p'] p'
  show "manager_inv (CachedSessionManager_initialize (CachedSessionManager_new n callback h))"
    and "in_use (CachedSessionManager_initialize (CachedSessionManager_new n callback h)) = {}"
    by (simp_all add: manager_inv_def in_use_def CachedSessionManager_initialize_def CachedSessionManager_new_def
        MemoryPool_initialize_def SessionPool_new_def MemoryPool_new_def)
qed

lemma for_each_disconnect:
  "for_each (\<lambda>s. modify (\<lambda>h. h\<lparr>sh_disconnects := sh_disconnects h @ [s]\<rparr>)) ss h =
    (Inr (), h\<lparr>sh_disconnects := sh_disconnects h @ ss\<rparr>)"
  by (induction ss arbitrary: h) (simp_all add: bind_def prog_defs)

lemma acquire_adds:
  assumes "manager_inv m"
  shows "\<exists>s m'. CachedSessionManager_acquire m = (Inr (Some s), m') \<and> manager_inv m' \<and> s \<notin> in_use m \<and>
    in_use m' = insert s (in_use m) \<and>
    sm_events m' = sm_events m @ (if sm_hasCallback m then [SessionAcquired (card (in_use m'))] else [])"
proof -
  obtain h p where hp: "sessionPool m = (h, p)" by fastforce
  with assms obtain s h' p' where acq: "MemoryPool_acquire SessionAllocator (h, p) = (Inr (Some s), (h', p'))"
    "pool_inv session_heap_live session_heap_inv (h', p')" "s \<notin> set (activeResources p)"
    "set (activeResources p') = insert s (set (activeResources p))"
    using sessions.acquire_fresh [of h p] by (auto simp: manager_inv_def)
  let ?m = "m\<lparr>sessionPool := (h', p')\<rparr>"
  have inv: "manager_inv ?m" using assms acq(2) acquire_growable [OF acq(1)] by (simp add: manager_inv_def hp)
  have "CachedSessionManager_acquire m = (Inr (Some s), tell (SessionAcquired (card (in_use ?m))) ?m)"
    using acq(1) by (simp add: CachedSessionManager_acquire_def bind_def prog_defs zoom_def hp count_in_use [OF inv])
  moreover have "s \<notin> in_use m" "in_use ?m = insert s (in_use m)"
    using acq(3,4) by (simp_all add: in_use_def hp)
  ultimately show ?thesis using inv by simp
qed

lemma release_removes:
  assumes "manager_inv m"
  shows "manager_inv (CachedSessionManager_release s m) \<and> in_use (CachedSessionManager_release s m) = in_use m - {s} \<and>
    sm_events (CachedSessionManager_release s m) =
      sm_events m @ (if sm_hasCallback m then [SessionReleased (card (in_use m - {s}))] else [])"
proof -
  obtain h p where hp: "sessionPool m = (h, p)" by fastforce
  let ?m = "m\<lparr>sessionPool := (h, MemoryPool_release s p)\<rparr>"
  have wf: "pool_wf p" "distinct (activeResources p)"
    using assms by (simp_all add: manager_inv_def pool_inv_def pool_wf_def hp)
  have "growable (MemoryPool_release s p) = growable p" by (simp add: MemoryPool_release_def Let_def)
  then have inv: "manager_inv ?m" using assms sessions.release_inv [of h p s] by (simp add: manager_inv_def hp)
  have "in_use ?m = in_use m - {s}"
    using release_props(2,3) [OF wf(1), of s] wf(2) by (cases "s \<in> set (activeResources p)") (simp_all add: in_use_def hp)
  moreover have "CachedSessionManager_release s m = tell (SessionReleased (card (in_use ?m))) ?m"
    by (simp add: CachedSessionManager_release_def hp Let_def count_in_use [OF inv])
  ultimately show ?thesis using inv by simp
qed

lemma cancel_disconnects:
  assumes "manager_inv m"
  shows "manager_inv (CachedSessionManager_cancel m) \<and> in_use (CachedSessionManager_cancel m) = in_use m \<and>
    sh_disconnects (fst (sessionPool (CachedSessionManager_cancel m))) =
      sh_disconnects (fst (sessionPool m)) @ sorted_list_of_set (in_use m)"
proof -
  obtain h p where hp: "sessionPool m = (h, p)" by fastforce
  have "SessionPool_cancel (h, p) = (h\<lparr>sh_disconnects := sh_disconnects h @ activeResources p\<rparr>, p)"
    by (simp add: SessionPool_cancel_def MemoryPool_forEachActiveResources_def for_each_disconnect)
  moreover have "sorted_list_of_set (set (activeResources p)) = activeResources p"
    using assms by (intro sorted_distinct_set_unique) (simp_all add: manager_inv_def pool_inv_def pool_wf_def hp)
  ultimately show ?thesis
    using assms
    by (simp add: CachedSessionManager_cancel_def manager_inv_def in_use_def hp pool_inv_def session_heap_inv_def
        session_heap_live_def)
qed

text \<open>The wait ends exactly when other threads release every session some time, at the first pause after
  which none is in use.\<close>

lemma waitForDone_ends:
  assumes "i \<le> k" and "isSafeToDelete (at k)" and "\<forall>j. i \<le> j \<and> j < k \<longrightarrow> \<not> isSafeToDelete (at j)"
  shows "CachedSessionManager_waitForDone at i = Some k"
  using assms
proof (induction "k - i" arbitrary: i)
  case 0
  then show ?case by (subst CachedSessionManager_waitForDone.simps) simp
next
  case (Suc n)
  then have "\<not> isSafeToDelete (at i)" "CachedSessionManager_waitForDone at (Suc i) = Some k" by simp_all
  then show ?case by (subst CachedSessionManager_waitForDone.simps) simp
qed

section \<open>Properties\<close>

text \<open>C40: the session manager implements a set of sessions.  Whatever was done before, \<open>acquire\<close> succeeds with
  a session that was not in use and adds it, \<open>release\<close> takes the session out, \<open>cancel\<close> disconnects
  every session in use once and releases none, and the callback is told the number in use.\<close>

theorem session_manager_refines:
  assumes "manager_inv m"
  shows "(\<exists>s m'. CachedSessionManager_acquire m = (Inr (Some s), m') \<and> manager_inv m' \<and> s \<notin> in_use m \<and>
      in_use m' = insert s (in_use m) \<and>
      sm_events m' = sm_events m @ (if sm_hasCallback m then [SessionAcquired (card (in_use m'))] else [])) \<and>
    (\<forall>s. manager_inv (CachedSessionManager_release s m) \<and> in_use (CachedSessionManager_release s m) = in_use m - {s} \<and>
      sm_events (CachedSessionManager_release s m) =
        sm_events m @ (if sm_hasCallback m then [SessionReleased (card (in_use m - {s}))] else [])) \<and>
    manager_inv (CachedSessionManager_cancel m) \<and> in_use (CachedSessionManager_cancel m) = in_use m \<and>
    sh_disconnects (fst (sessionPool (CachedSessionManager_cancel m))) =
      sh_disconnects (fst (sessionPool m)) @ sorted_list_of_set (in_use m)"
  using acquire_adds [OF assms] release_removes [OF assms] cancel_disconnects [OF assms] by blast

definition demo_manager :: session_manager where
  "demo_manager = CachedSessionManager_initialize
     (CachedSessionManager_new 4 True \<lparr>sh_next = 0, sh_sessions = [], sh_disconnects = []\<rparr>)"

theorem session_manager_refines_witness:
  "(\<exists>s m'. CachedSessionManager_acquire demo_manager = (Inr (Some s), m') \<and> manager_inv m' \<and> in_use m' = {s} \<and>
      sm_events m' = sm_events demo_manager @
        (if sm_hasCallback demo_manager then [SessionAcquired (card (in_use m'))] else [])) \<and>
    in_use (CachedSessionManager_release 0 demo_manager) = {}"
proof -
  have "manager_inv demo_manager" "in_use demo_manager = {}"
    unfolding demo_manager_def by (rule initialize_inv; simp add: session_heap_inv_def)+
  with session_manager_refines [OF this(1)] show ?thesis by auto
qed

end
