(* ===== verification/Database_Pool.thy ===== *)
theory Database_Pool
  imports Sne_Prelude
begin

text \<open>
  \<open>DatabasePool\<close> (src/database/DatabasePool.cpp), the pool of database connections that threads share.
  Every operation holds the mutex, so it is one step; \<open>acquire\<close> gives the mutex up only while it waits
  on the condition variable, which the step relation shows as a thread that waits and tries again.
  The connections themselves (ADO) are addresses here; what the operations call on them is recorded.
\<close>

section \<open>The pool\<close>

record pool_item =
  it_database :: nat
  isIdle :: bool

datatype database_call = DatabaseClose nat | TaskRun nat

record database_pool =
  databases :: "pool_item list"
  idleDatabase :: nat
  db_calls :: "database_call list"

definition DatabasePool_new :: database_pool where
  "DatabasePool_new = \<lparr>databases = [], idleDatabase = 0, db_calls = []\<rparr>"

text \<open>\<open>created\<close> lists what the factory creates, with the result of \<open>open\<close>, one for each connection that
  the configuration asks for.\<close>

fun DatabasePool_open_loop :: "(nat \<times> bool) list \<Rightarrow> database_pool \<Rightarrow> bool \<times> database_pool" where
  "DatabasePool_open_loop [] p = (True, p)"
| "DatabasePool_open_loop ((db, opened) # created) p =
     (if \<not> opened then (False, p)
      else DatabasePool_open_loop created (p\<lparr>databases := databases p @ [\<lparr>it_database = db, isIdle = True\<rparr>]\<rparr>))"

definition DatabasePool_open :: "(nat \<times> bool) list \<Rightarrow> database_pool \<Rightarrow> bool \<times> database_pool" where
  "DatabasePool_open created p =
     (case DatabasePool_open_loop created p of
        (False, p) \<Rightarrow> (False, p)
      | (True, p) \<Rightarrow> (True, p\<lparr>idleDatabase := length created\<rparr>))"

definition DatabasePool_close :: "database_pool \<Rightarrow> database_pool" where
  "DatabasePool_close p = p\<lparr>db_calls := db_calls p @ map (\<lambda>i. DatabaseClose (it_database i)) (databases p)\<rparr>"

definition DatabasePool_enumerate :: "database_pool \<Rightarrow> database_pool" where
  "DatabasePool_enumerate p = p\<lparr>db_calls := db_calls p @ map (\<lambda>i. TaskRun (it_database i)) (databases p)\<rparr>"

definition DatabasePool_enumerateIdleDatabases :: "database_pool \<Rightarrow> database_pool" where
  "DatabasePool_enumerateIdleDatabases p =
     p\<lparr>db_calls := db_calls p @ map (\<lambda>i. TaskRun (it_database i)) (filter isIdle (databases p))\<rparr>"

fun take_idle :: "pool_item list \<Rightarrow> nat option \<times> pool_item list" where
  "take_idle [] = (None, [])"
| "take_idle (item # items) =
     (if isIdle item then (Some (it_database item), item\<lparr>isIdle := False\<rparr> # items)
      else let (db, items) = take_idle items in (db, item # items))"

text \<open>The part of \<open>acquire\<close> after the wait; it returns null when the count is wrong.\<close>

definition DatabasePool_acquire :: "database_pool \<Rightarrow> nat option \<times> database_pool" where
  "DatabasePool_acquire p =
     (let p = p\<lparr>idleDatabase := idleDatabase p - 1\<rparr>;
          (db, items) = take_idle (databases p)
      in (db, p\<lparr>databases := items\<rparr>))"

fun give_back :: "nat \<Rightarrow> pool_item list \<Rightarrow> bool \<times> pool_item list" where
  "give_back db [] = (False, [])"
| "give_back db (item # items) =
     (if it_database item = db then (True, item\<lparr>isIdle := True\<rparr> # items)
      else let (found, items) = give_back db items in (found, item # items))"

definition DatabasePool_release :: "nat \<Rightarrow> database_pool \<Rightarrow> database_pool" where
  "DatabasePool_release db p =
     (let (found, items) = give_back db (databases p)
      in if found then p\<lparr>databases := items, idleDatabase := idleDatabase p + 1\<rparr> else p)"

section \<open>Threads that use the pool\<close>

text \<open>A thread that called \<open>acquire\<close> waits while no connection is idle; a thread holds the connection it
  got until it releases it.\<close>

record pool_system =
  pool :: database_pool
  waiters :: "nat list"
  holders :: "(nat \<times> nat option) list"

inductive pool_step :: "pool_system \<Rightarrow> pool_system \<Rightarrow> bool" where
  wait: "idleDatabase (pool s) = 0 \<Longrightarrow> pool_step s (s\<lparr>waiters := waiters s @ [t]\<rparr>)"
| acquire: "0 < idleDatabase (pool s) \<Longrightarrow> DatabasePool_acquire (pool s) = (db, p) \<Longrightarrow>
    pool_step s (s\<lparr>pool := p, holders := (t, db) # holders s\<rparr>)"
| wake: "waiters s = ts @ t # ts' \<Longrightarrow> 0 < idleDatabase (pool s) \<Longrightarrow> DatabasePool_acquire (pool s) = (db, p) \<Longrightarrow>
    pool_step s (s\<lparr>pool := p, waiters := ts @ ts', holders := (t, db) # holders s\<rparr>)"
| release: "holders s = hs @ (t, Some db) # hs' \<Longrightarrow>
    pool_step s (s\<lparr>pool := DatabasePool_release db (pool s), holders := hs @ hs'\<rparr>)"
| enumerate: "pool_step s (s\<lparr>pool := DatabasePool_enumerate (pool s)\<rparr>)"
| enumerateIdle: "pool_step s (s\<lparr>pool := DatabasePool_enumerateIdleDatabases (pool s)\<rparr>)"

definition pool_start :: "database_pool \<Rightarrow> pool_system" where
  "pool_start p = \<lparr>pool = p, waiters = [], holders = []\<rparr>"

section \<open>The invariant\<close>

definition idle_dbs :: "pool_item list \<Rightarrow> nat list" where
  "idle_dbs items = map it_database (filter isIdle items)"

definition busy_dbs :: "pool_item list \<Rightarrow> nat list" where
  "busy_dbs items = map it_database (filter (\<lambda>i. \<not> isIdle i) items)"

text \<open>The count is right, and the connections in use are those of the holders, each held once.\<close>

definition pool_ok :: "nat list \<Rightarrow> pool_system \<Rightarrow> bool" where
  "pool_ok dbs s \<longleftrightarrow> map it_database (databases (pool s)) = dbs \<and> distinct dbs \<and>
     idleDatabase (pool s) = length (idle_dbs (databases (pool s))) \<and>
     distinct (map snd (holders s)) \<and> set (map snd (holders s)) = Some ` set (busy_dbs (databases (pool s)))"

lemma take_idle_some:
  assumes "idle_dbs items \<noteq> []" and "distinct (map it_database items)"
  obtains db items' where "take_idle items = (Some db, items')" and "map it_database items' = map it_database items"
    and "db \<in> set (idle_dbs items)" and "Suc (length (idle_dbs items')) = length (idle_dbs items)"
    and "set (busy_dbs items') = insert db (set (busy_dbs items))" and "db \<notin> set (busy_dbs items)"
  using assms
proof (induction items arbitrary: thesis)
  case Nil
  then show ?case by (simp add: idle_dbs_def)
next
  case (Cons item items)
  show ?case
  proof (cases "isIdle item")
    case True
    with Cons.prems(3) show ?thesis
      by (intro Cons.prems(1) [of "it_database item" "item\<lparr>isIdle := False\<rparr> # items"])
        (auto simp: idle_dbs_def busy_dbs_def)
  next
    case False
    with Cons.prems(2,3) have "idle_dbs items \<noteq> []" "distinct (map it_database items)"
      by (simp_all add: idle_dbs_def)
    from Cons.IH [OF _ this] obtain db items' where ih: "take_idle items = (Some db, items')"
      "map it_database items' = map it_database items" "db \<in> set (idle_dbs items)"
      "Suc (length (idle_dbs items')) = length (idle_dbs items)"
      "set (busy_dbs items') = insert db (set (busy_dbs items))" "db \<notin> set (busy_dbs items)" by blast
    have "db \<in> it_database ` set items" using ih(3) by (auto simp: idle_dbs_def)
    moreover have "it_database item \<notin> it_database ` set items" using Cons.prems(3) by simp
    ultimately have "db \<noteq> it_database item" by blast
    with ih False show ?thesis
      by (intro Cons.prems(1) [of db "item # items'"]) (auto simp: idle_dbs_def busy_dbs_def)
  qed
qed

lemma give_back_busy:
  assumes "db \<in> set (busy_dbs items)" and "distinct (map it_database items)"
  obtains items' where "give_back db items = (True, items')" and "map it_database items' = map it_database items"
    and "length (idle_dbs items') = Suc (length (idle_dbs items))"
    and "set (busy_dbs items') = set (busy_dbs items) - {db}"
  using assms
proof (induction items arbitrary: thesis)
  case Nil
  then show ?case by (simp add: busy_dbs_def)
next
  case (Cons item items)
  show ?case
  proof (cases "it_database item = db")
    case True
    with Cons.prems(2,3) have "\<not> isIdle item" by (auto simp: busy_dbs_def split: if_splits)
    moreover have "db \<notin> set (busy_dbs items)" using True Cons.prems(3) by (auto simp: busy_dbs_def)
    ultimately show ?thesis
      using True by (intro Cons.prems(1) [of "item\<lparr>isIdle := True\<rparr> # items"])
        (auto simp: idle_dbs_def busy_dbs_def)
  next
    case False
    with Cons.prems(2,3) have "db \<in> set (busy_dbs items)" "distinct (map it_database items)"
      by (auto simp: busy_dbs_def split: if_splits)
    from Cons.IH [OF _ this] obtain items' where "give_back db items = (True, items')"
      "map it_database items' = map it_database items" "length (idle_dbs items') = Suc (length (idle_dbs items))"
      "set (busy_dbs items') = set (busy_dbs items) - {db}" by blast
    with False show ?thesis
      by (intro Cons.prems(1) [of "item # items'"]) (auto simp: idle_dbs_def busy_dbs_def)
  qed
qed

lemma acquire_ok:
  assumes "pool_ok dbs s" and "0 < idleDatabase (pool s)" and "DatabasePool_acquire (pool s) = (r, p)"
  shows "pool_ok dbs (s\<lparr>pool := p, holders := (t, r) # holders s\<rparr>)"
    and "\<exists>db. r = Some db \<and> db \<in> set (idle_dbs (databases (pool s)))"
proof -
  from assms(1,2) have "idle_dbs (databases (pool s)) \<noteq> []" "distinct (map it_database (databases (pool s)))"
    by (auto simp: pool_ok_def)
  from take_idle_some [OF this] obtain db items' where t: "take_idle (databases (pool s)) = (Some db, items')"
    "map it_database items' = map it_database (databases (pool s))" "db \<in> set (idle_dbs (databases (pool s)))"
    "Suc (length (idle_dbs items')) = length (idle_dbs (databases (pool s)))"
    "set (busy_dbs items') = insert db (set (busy_dbs (databases (pool s))))"
    "db \<notin> set (busy_dbs (databases (pool s)))" by blast
  with assms(3) have r: "r = Some db" "databases p = items'" "idleDatabase p = idleDatabase (pool s) - 1"
    by (auto simp: DatabasePool_acquire_def)
  show "pool_ok dbs (s\<lparr>pool := p, holders := (t, r) # holders s\<rparr>)"
    using assms(1) t r by (auto simp: pool_ok_def)
  show "\<exists>db. r = Some db \<and> db \<in> set (idle_dbs (databases (pool s)))" using r(1) t(3) by blast
qed

lemma release_ok:
  assumes "pool_ok dbs s" and "holders s = hs @ (t, Some db) # hs'"
  shows "pool_ok dbs (s\<lparr>pool := DatabasePool_release db (pool s), holders := hs @ hs'\<rparr>)"
proof -
  have "Some db \<in> set (map snd (holders s))" using assms(2) by simp
  then have "Some db \<in> Some ` set (busy_dbs (databases (pool s)))"
    using assms(1) unfolding pool_ok_def by (simp only:)
  then have "db \<in> set (busy_dbs (databases (pool s)))" "distinct (map it_database (databases (pool s)))"
    using assms(1) by (auto simp: pool_ok_def)
  from give_back_busy [OF this] obtain items' where g: "give_back db (databases (pool s)) = (True, items')"
    "map it_database items' = map it_database (databases (pool s))"
    "length (idle_dbs items') = Suc (length (idle_dbs (databases (pool s))))"
    "set (busy_dbs items') = set (busy_dbs (databases (pool s))) - {db}" by blast
  have "set (map snd (hs @ hs')) = set (map snd (holders s)) - {Some db}"
    using assms by (auto simp: pool_ok_def)
  then have "set (map snd (hs @ hs')) = Some ` set (busy_dbs items')"
    using assms(1) g(4) by (auto simp: pool_ok_def)
  moreover have "distinct (map snd (hs @ hs'))" using assms by (auto simp: pool_ok_def)
  ultimately show ?thesis
    using assms(1) g by (simp add: pool_ok_def DatabasePool_release_def del: set_map)
qed

lemma pool_step_ok: "pool_step s s' \<Longrightarrow> pool_ok dbs s \<Longrightarrow> pool_ok dbs s'"
proof (induction rule: pool_step.induct)
  case (acquire s db p t)
  from acquire_ok(1) [OF acquire.prems acquire.hyps] show ?case .
next
  case (wake s ts t ts' db p)
  from acquire_ok(1) [OF wake.prems wake.hyps(2,3), of t] show ?case by (simp add: pool_ok_def)
next
  case (release s hs t db hs')
  from release_ok [OF release.prems release.hyps] show ?case .
qed (simp_all add: pool_ok_def DatabasePool_enumerate_def DatabasePool_enumerateIdleDatabases_def)

lemma pool_steps_ok: "pool_step\<^sup>*\<^sup>* s s' \<Longrightarrow> pool_ok dbs s \<Longrightarrow> pool_ok dbs s'"
  by (induction rule: rtranclp_induct) (auto intro: pool_step_ok)

lemma open_loop:
  "DatabasePool_open_loop created p = (True, p') \<Longrightarrow>
    databases p' = databases p @ map (\<lambda>(db, _). \<lparr>it_database = db, isIdle = True\<rparr>) created"
  by (induction created p rule: DatabasePool_open_loop.induct) (auto split: if_splits)

lemma open_ok:
  assumes "DatabasePool_open created DatabasePool_new = (True, p)" and "distinct (map fst created)"
  shows "pool_ok (map fst created) (pool_start p)"
proof -
  obtain p1 where p1: "DatabasePool_open_loop created DatabasePool_new = (True, p1)" "p = p1\<lparr>idleDatabase := length created\<rparr>"
    using assms(1) by (auto simp: DatabasePool_open_def split: prod.splits bool.splits)
  from open_loop [OF p1(1)] have items: "databases p = map (\<lambda>(db, _). \<lparr>it_database = db, isIdle = True\<rparr>) created"
    by (simp add: p1(2) DatabasePool_new_def)
  have "filter isIdle (databases p) = databases p" "filter (\<lambda>i. \<not> isIdle i) (databases p) = []"
    using items by (auto simp: filter_id_conv filter_empty_conv)
  moreover have "map it_database (databases p) = map fst created" using items by auto
  ultimately show ?thesis
    using assms(2) by (simp add: pool_ok_def pool_start_def idle_dbs_def busy_dbs_def p1(2))
qed

section \<open>Properties\<close>

text \<open>C39: database connections are never shared.  Whatever the threads do with a pool that was opened, the
  count of idle connections is the number of connections that nobody holds, no connection is held
  twice, and the next \<open>acquire\<close> that does not have to wait gets a connection that nobody holds, never
  null.\<close>

theorem database_pool_exclusive:
  assumes "DatabasePool_open created DatabasePool_new = (True, p)" and "distinct (map fst created)"
    and "pool_step\<^sup>*\<^sup>* (pool_start p) s"
  shows "idleDatabase (pool s) + length (holders s) = length created \<and> distinct (map snd (holders s)) \<and>
    (0 < idleDatabase (pool s) \<longrightarrow> (\<exists>db p'. DatabasePool_acquire (pool s) = (Some db, p') \<and>
      db \<in> set (map fst created) \<and> Some db \<notin> set (map snd (holders s))))"
proof -
  let ?items = "databases (pool s)"
  have ok: "pool_ok (map fst created) s" using pool_steps_ok [OF assms(3) open_ok [OF assms(1,2)]] .
  then have hold: "distinct (map snd (holders s))" "set (map snd (holders s)) = Some ` set (busy_dbs ?items)"
    "idleDatabase (pool s) = length (idle_dbs ?items)" "map it_database ?items = map fst created"
    by (simp_all add: pool_ok_def)
  have "distinct (busy_dbs ?items)"
    using hold(4) assms(2) unfolding busy_dbs_def by (metis distinct_map_filter)
  then have "length (holders s) = length (busy_dbs ?items)"
    using hold(1,2) by (metis card_image distinct_card inj_Some length_map)
  then have "idleDatabase (pool s) + length (holders s) = length created"
    using hold(3) sum_length_filter_compl [of isIdle ?items] arg_cong [OF hold(4), of length]
    by (simp add: idle_dbs_def busy_dbs_def)
  moreover have "\<exists>db p'. DatabasePool_acquire (pool s) = (Some db, p') \<and> db \<in> set (map fst created) \<and>
      Some db \<notin> set (map snd (holders s))" if "0 < idleDatabase (pool s)"
  proof -
    obtain r p' where a: "DatabasePool_acquire (pool s) = (r, p')" by fastforce
    from acquire_ok(2) [OF ok that a] obtain db where db: "r = Some db" "db \<in> set (idle_dbs ?items)" by blast
    have "db \<in> set (map it_database ?items)" using db(2) by (auto simp: idle_dbs_def)
    moreover from acquire_ok(1) [OF ok that a, of 0] have "Some db \<notin> set (map snd (holders s))"
      using db(1) by (simp add: pool_ok_def)
    ultimately show ?thesis using a db(1) hold(4) by auto
  qed
  ultimately show ?thesis using hold(1) by blast
qed

text \<open>Two connections and one thread that takes one.\<close>

definition demo_pool :: database_pool where
  "demo_pool = \<lparr>databases = [\<lparr>it_database = 10, isIdle = True\<rparr>, \<lparr>it_database = 11, isIdle = True\<rparr>],
     idleDatabase = 2, db_calls = []\<rparr>"

definition demo_pool_taken :: database_pool where
  "demo_pool_taken = \<lparr>databases = [\<lparr>it_database = 10, isIdle = False\<rparr>, \<lparr>it_database = 11, isIdle = True\<rparr>],
     idleDatabase = 1, db_calls = []\<rparr>"

theorem database_pool_exclusive_witness:
  "pool_step\<^sup>*\<^sup>* (pool_start demo_pool) \<lparr>pool = demo_pool_taken, waiters = [], holders = [(1, Some 10)]\<rparr> \<and>
    (\<exists>db p'. DatabasePool_acquire demo_pool_taken = (Some db, p') \<and> db \<in> {10, 11} \<and> db \<noteq> 10)"
proof -
  have "DatabasePool_acquire demo_pool = (Some 10, demo_pool_taken)"
    by (simp add: DatabasePool_acquire_def demo_pool_def demo_pool_taken_def)
  then have "pool_step (pool_start demo_pool) \<lparr>pool = demo_pool_taken, waiters = [], holders = [(1, Some 10)]\<rparr>"
    using pool_step.acquire [of "pool_start demo_pool" "Some 10" demo_pool_taken 1]
    by (simp add: pool_start_def demo_pool_def)
  then have run: "pool_step\<^sup>*\<^sup>* (pool_start demo_pool)
      \<lparr>pool = demo_pool_taken, waiters = [], holders = [(1, Some 10)]\<rparr>" by (rule r_into_rtranclp)
  have "DatabasePool_open [(10, True), (11, True)] DatabasePool_new = (True, demo_pool)"
    by (simp add: DatabasePool_open_def DatabasePool_new_def demo_pool_def)
  from database_pool_exclusive [OF this _ run] run show ?thesis by (simp add: demo_pool_taken_def)
qed

end
