(* ===== verification/Bit_Stream.thy ===== *)
theory Bit_Stream
  imports Memory_Block
begin

text \<open>
  The bit-packed streams: \<open>writeBitsImpl\<close> and \<open>OBitStream\<close> (src/core/stream/detail/OBitStream.cpp),
  \<open>readBitsImpl\<close> and \<open>IBitStream\<close> (IBitStream.cpp), with the bit arithmetic of
  include/sne/core/utility/Bits.h.  The specification is a list of bits: writing \<open>n\<close> bits
  of a value appends its \<open>n\<close> low bits, reading takes them off the front; the byte-level
  loops are proved to implement it over any buffer that meets \<open>stream_buffer\<close>.
  The templates over \<open>uint32_t\<close> and \<open>uint64_t\<close> are polymorphic in the word length.
\<close>

unbundle bit_operations_syntax

section \<open>Bits.h\<close>

definition toBytes :: "int \<Rightarrow> int" where
  "toBytes bitCount = (if bitCount < 0 then 0 else (bitCount + 7) div 8)"

definition isEnoughBits :: "nat \<Rightarrow> int \<Rightarrow> bool" where
  "isEnoughBits bits bitCount \<longleftrightarrow> 0 < bitCount \<and> bitCount \<le> int bits"

text \<open>\<open>MaxNumber\<close> computes its two enumerators by template recursion; \<open>getMaxNumberOf\<close> is
  the loop, in the arithmetic of a 64-bit \<open>size_t\<close>.\<close>

fun MaxNumber_power :: "nat \<Rightarrow> nat" where
  "MaxNumber_power 0 = 0"
| "MaxNumber_power (Suc 0) = 1"
| "MaxNumber_power (Suc (Suc n)) = 2 * MaxNumber_power (Suc n)"

fun MaxNumber_value :: "nat \<Rightarrow> nat" where
  "MaxNumber_value 0 = 0"
| "MaxNumber_value (Suc 0) = 1"
| "MaxNumber_value (Suc (Suc n)) = 2 * MaxNumber_power (Suc (Suc n)) - 1"

fun getMaxNumberOf_loop :: "nat \<Rightarrow> u64 \<Rightarrow> u64" where
  "getMaxNumberOf_loop 0 maxNumber = maxNumber"
| "getMaxNumberOf_loop (Suc b) maxNumber = getMaxNumberOf_loop b (maxNumber * 2)"

definition getMaxNumberOf :: "nat \<Rightarrow> u64" where
  "getMaxNumberOf bitCount = getMaxNumberOf_loop bitCount 1 - 1"

lemma MaxNumber_power_eq: "MaxNumber_power (Suc n) = 2 ^ n"
  by (induction n) auto

lemma MaxNumber_value_eq: "MaxNumber_value n = 2 ^ n - 1"
  by (induction n rule: MaxNumber_value.induct) (auto simp: MaxNumber_power_eq)

lemma getMaxNumberOf_loop_eq: "getMaxNumberOf_loop n m = m * 2 ^ n"
  by (induction n arbitrary: m) (auto simp: ac_simps)

lemma getMaxNumberOf_eq: "getMaxNumberOf n = mask n"
  by (simp add: getMaxNumberOf_def getMaxNumberOf_loop_eq mask_eq_decr_exp)

section \<open>OBitStream: writing bits\<close>

text \<open>The counter \<open>totalBitCount_\<close> is an \<open>int\<close> that would overflow after \<open>2\<close> to the 31 bits in one stream; here it has no bound.\<close>

record 'b obitstream =
  ob_buffer :: 'b
  ob_useUtf8 :: bool
  holdingBitCount :: nat
  totalBitCount :: int

definition obs_new :: "'b \<Rightarrow> bool \<Rightarrow> 'b obitstream" where
  "obs_new streamBuffer shouldUseUtf8ForString =
     \<lparr>ob_buffer = streamBuffer, ob_useUtf8 = shouldUseUtf8ForString,
      holdingBitCount = 0, totalBitCount = 0\<rparr>"

definition on_obuf :: "('b, 'a) prog \<Rightarrow> ('b obitstream, 'a) prog" where
  "on_obuf = zoom ob_buffer (\<lambda>b s. s\<lparr>ob_buffer := b\<rparr>)"

definition resetUnusedBits :: "'a::len word \<Rightarrow> nat \<Rightarrow> 'a word" where
  "resetUnusedBits value bitCount =
     (if bitCount < LENGTH('a) then value AND (push_bit bitCount 1 - 1) else value)"

fun writeBits_loop :: "'b stream_buffer_ops \<Rightarrow> 'a::len word \<Rightarrow> nat \<Rightarrow> ('b, unit) prog" where
  "writeBits_loop ops theValue leftBitCount =
     bind (sb_push ops (ucast theValue)) (\<lambda>_.
       if 8 < leftBitCount
       then writeBits_loop ops (drop_bit 8 theValue) (leftBitCount - 8) else skip)"

declare writeBits_loop.simps [simp del]

definition writeBitsImpl ::
    "'b stream_buffer_ops \<Rightarrow> 'a::len word \<Rightarrow> int \<Rightarrow> ('b obitstream, unit) prog" where
  "writeBitsImpl ops value bitCount =
     (if \<not> isEnoughBits LENGTH('a) bitCount
      then throw (StreamingException ''invalid bitCount'')
      else let n = nat bitCount; theValue = resetUnusedBits value n in
        bind (gets id) (\<lambda>s.
        bind (if 0 < holdingBitCount s
              then if sb_empty ops (ob_buffer s)
                   then throw (StreamingException ''buffer is empty'')
                   else on_obuf (bind (sb_back ops) (\<lambda>last.
                     sb_set_back ops (last OR ucast (push_bit (holdingBitCount s) theValue))))
              else on_obuf (sb_push ops (ucast theValue))) (\<lambda>_.
        let bitShiftCount = 8 - holdingBitCount s in
        bind (when_do (bitShiftCount < n)
               (on_obuf (writeBits_loop ops (drop_bit bitShiftCount theValue) (n - bitShiftCount))))
             (\<lambda>_.
        modify (\<lambda>s. s\<lparr>holdingBitCount := (holdingBitCount s + n) mod 8,
                      totalBitCount := totalBitCount s + bitCount\<rparr>)))))"

definition obs_align :: "'b stream_buffer_ops \<Rightarrow> ('b obitstream, unit) prog" where
  "obs_align ops = bind (gets holdingBitCount) (\<lambda>h.
     when_do (0 < h) (writeBitsImpl ops (0 :: u32) (8 - int h)))"

text \<open>\<open>reset\<close> leaves \<open>holdingBitCount_\<close> as it is.\<close>

definition obs_reset :: "'b stream_buffer_ops \<Rightarrow> bool \<Rightarrow> ('b obitstream, unit) prog" where
  "obs_reset ops resetBuffer =
     bind (when_do resetBuffer (on_obuf (sb_reset ops))) (\<lambda>_.
       modify (\<lambda>s. s\<lparr>totalBitCount := 0\<rparr>))"

definition obs_writeRaw :: "'b stream_buffer_ops \<Rightarrow> byte list \<Rightarrow> ('b obitstream, unit) prog" where
  "obs_writeRaw ops buffer =
     bind (obs_align ops) (\<lambda>_.
     bind (on_obuf (sb_copyFrom ops buffer)) (\<lambda>_.
     modify (\<lambda>s. s\<lparr>totalBitCount := totalBitCount s + int (length buffer) * 8\<rparr>)))"

definition obs_getTotalSize :: "'b stream_buffer_ops \<Rightarrow> 'b obitstream \<Rightarrow> nat" where
  "obs_getTotalSize ops s = sb_size ops (ob_buffer s)"

section \<open>IBitStream: reading bits\<close>

record 'b ibitstream =
  ib_buffer :: 'b
  ib_useUtf8 :: bool
  bitReadCount :: nat

definition ibs_new :: "'b \<Rightarrow> bool \<Rightarrow> 'b ibitstream" where
  "ibs_new streamBuffer shouldUseUtf8ForString =
     \<lparr>ib_buffer = streamBuffer, ib_useUtf8 = shouldUseUtf8ForString, bitReadCount = 0\<rparr>"

definition on_ibuf :: "('b, 'a) prog \<Rightarrow> ('b ibitstream, 'a) prog" where
  "on_ibuf = zoom ib_buffer (\<lambda>b s. s\<lparr>ib_buffer := b\<rparr>)"

fun readBits_loop :: "'b stream_buffer_ops \<Rightarrow> 'a::len word \<Rightarrow> nat \<Rightarrow> nat \<Rightarrow> ('b, 'a word) prog" where
  "readBits_loop ops result shiftCount leftBitCount =
     (if 0 < leftBitCount then
        bind (sb_pop ops) (\<lambda>_.
        bind (sb_front ops) (\<lambda>c.
        readBits_loop ops (result OR push_bit shiftCount (ucast c)) (shiftCount + 8)
          (leftBitCount - 8)))
      else ret result)"

declare readBits_loop.simps [simp del]

text \<open>
  The mask of the result is \<open>(1 << bitCount) - 1\<close> in \<open>int\<close>: it has no defined value when
  \<open>bitCount\<close> is 31 or more and below the width of \<open>DataType\<close>.
\<close>

definition intMask :: "nat \<Rightarrow> ('s, 'a::len word) prog" where
  "intMask n = (if n < 31 then ret (push_bit n 1 - 1)
                else throw (UndefinedBehaviour ''(1 << bitCount) - 1''))"

definition readBitsImpl ::
    "'b stream_buffer_ops \<Rightarrow> int \<Rightarrow> ('b ibitstream, 'a::len word) prog" where
  "readBitsImpl ops bitCount =
     (if \<not> isEnoughBits LENGTH('a) bitCount
      then throw (StreamingException ''invalid bitCount'')
      else let n = nat bitCount in
        bind (gets id) (\<lambda>s.
        let shiftCount = 8 - bitReadCount s; leftBitCount = bitCount - int shiftCount in
        if sb_size ops (ib_buffer s) < nat (toBytes leftBitCount + 1)
        then throw (StreamingException ''buffer is not enough'')
        else
        bind (on_ibuf (sb_front ops)) (\<lambda>c.
        bind (on_ibuf (readBits_loop ops (drop_bit (bitReadCount s) (ucast c)) shiftCount
                (nat leftBitCount))) (\<lambda>result.
        bind (modify (\<lambda>s. s\<lparr>bitReadCount := (bitReadCount s + n) mod 8\<rparr>)) (\<lambda>_.
        bind (gets bitReadCount) (\<lambda>r.
        bind (when_do (r = 0) (on_ibuf (sb_pop ops))) (\<lambda>_.
        if n < LENGTH('a) then bind (intMask n) (\<lambda>m. ret (result AND m))
        else ret result)))))))"

definition ibs_align :: "'b stream_buffer_ops \<Rightarrow> ('b ibitstream, unit) prog" where
  "ibs_align ops = bind (gets bitReadCount) (\<lambda>r.
     bind (when_do (0 < r) (on_ibuf (sb_pop ops))) (\<lambda>_.
     modify (\<lambda>s. s\<lparr>bitReadCount := 0\<rparr>)))"

definition ibs_reset :: "'b stream_buffer_ops \<Rightarrow> bool \<Rightarrow> ('b ibitstream, unit) prog" where
  "ibs_reset ops resetBuffer =
     bind (when_do resetBuffer (on_ibuf (sb_reset ops))) (\<lambda>_.
       modify (\<lambda>s. s\<lparr>bitReadCount := 0\<rparr>))"

definition ibs_readRaw :: "'b stream_buffer_ops \<Rightarrow> nat \<Rightarrow> ('b ibitstream, byte list) prog" where
  "ibs_readRaw ops n = bind (ibs_align ops) (\<lambda>_. on_ibuf (sb_copyTo ops n))"

definition ibs_getTotalBitCount :: "'b stream_buffer_ops \<Rightarrow> 'b ibitstream \<Rightarrow> nat" where
  "ibs_getTotalBitCount ops s = sb_size ops (ib_buffer s) * 8"

section \<open>Correctness of writing\<close>

lemma resetUnusedBits_eq: "resetUnusedBits v n = take_bit n v"
proof (cases "n < LENGTH('a)")
  case True
  have "push_bit n 1 - 1 = (mask n :: 'a word)"
    by (simp add: mask_eq_decr_exp push_bit_eq_mult)
  with True show ?thesis by (simp add: resetUnusedBits_def take_bit_eq_mask)
next
  case False
  then show ?thesis by (simp add: resetUnusedBits_def take_bit_word_eq_self)
qed

lemma bits_of_take_bit_pad:
  "n \<le> m \<Longrightarrow> bits_of m (take_bit n v) = bits_of n v @ replicate (m - n) False"
  by (rule nth_equalityI) (auto simp: nth_bits_of bit_take_bit_iff nth_append)

lemma bytes_of_Suc: "bytes_of (Suc m) v = ucast v # bytes_of m (drop_bit 8 v)"
  by (simp add: bytes_of_def map_upt_Suc drop_bit_drop_bit add.commute del: upt_Suc)

text \<open>The number of bytes the write loop pushes for \<open>n\<close> bits, and the padding it leaves.\<close>

abbreviation byte_count :: "nat \<Rightarrow> nat" where
  "byte_count n \<equiv> (n + 7) div 8"

abbreviation pad_count :: "nat \<Rightarrow> nat" where
  "pad_count n \<equiv> (8 - n mod 8) mod 8"

lemma byte_count_bits: "8 * byte_count n = n + pad_count n"
proof -
  define q r where "q = n div 8" and "r = n mod 8"
  then have n: "n = 8 * q + r" and "r < 8"
    by simp_all
  then have "r = 0 \<or> r = 1 \<or> r = 2 \<or> r = 3 \<or> r = 4 \<or> r = 5 \<or> r = 6 \<or> r = 7"
    by arith
  moreover have "byte_count n = q + byte_count r" and "n mod 8 = r"
    using div_mult_self4 [of 8 q "r + 7"] n \<open>r < 8\<close> by (simp_all add: add.assoc)
  ultimately show ?thesis
    by (elim disjE) (simp_all add: n)
qed

lemma byte_count_range: "n \<le> 8 * byte_count n" "8 * byte_count n < n + 8"
  unfolding byte_count_bits by simp_all

lemma held_range:
  fixes h m K :: nat
  assumes "m - (8 - h) \<le> K" and "K < m - (8 - h) + 8" and "0 < m" and "0 < h" and "h < 8"
  shows "m \<le> (if 8 - h < m then 8 - h + K else 8 - h) \<and>
    (if 8 - h < m then 8 - h + K else 8 - h) < m + 8"
  using assms by auto

lemma byte_count_step: "8 < n \<Longrightarrow> byte_count n = Suc (byte_count (n - 8))"
proof -
  assume "8 < n"
  then obtain m where "n = m + 8"
    using less_imp_add_positive by (metis add.commute)
  then show ?thesis
    using div_add_self2 [of 8 "m + 7"] by (simp add: ac_simps)
qed

lemma byte_count_small: "0 < n \<Longrightarrow> n \<le> 8 \<Longrightarrow> byte_count n = Suc 0"
  by (simp add: div_nat_eqI)

lemma zoom_fst_snd [simp]:
  "fst (zoom g p m s) = fst (m (g s))" "snd (zoom g p m s) = p (snd (m (g s))) s"
  by (simp_all add: zoom_def split: prod.splits)

context stream_buffer
begin

lemma writeBits_loop_Inr:
  assumes "invar b" and "0 < n" and "writeBits_loop ops v n b = (Inr u, b')"
  shows "invar b' \<and> contents b' = contents b @ bytes_of (byte_count n) v"
  using assms
proof (induction n arbitrary: v b rule: less_induct)
  case (less n)
  from less.prems(3) obtain x b1 where push: "sb_push ops (ucast v) b = (Inr x, b1)"
    and rest: "(if 8 < n then writeBits_loop ops (drop_bit 8 v) (n - 8) else skip) b1 = (Inr u, b')"
    by (subst (asm) writeBits_loop.simps) (auto elim!: bind_InrE)
  from push_Inr [OF less.prems(1) push] have b1: "invar b1" "contents b1 = contents b @ [ucast v]"
    by auto
  show ?case
  proof (cases "8 < n")
    case True
    with rest less.IH [of "n - 8" b1 "drop_bit 8 v"] b1
    have "invar b' \<and> contents b' = contents b @ ucast v # bytes_of (byte_count (n - 8)) (drop_bit 8 v)"
      by simp
    then show ?thesis
      by (simp only: byte_count_step [OF True] bytes_of_Suc)
  next
    case False
    with rest b1 less.prems(2) show ?thesis
      by (simp add: byte_count_small bytes_of_Suc skip_def bytes_of_def [of 0])
  qed
qed

end

text \<open>
  The bits an output stream stands for: everything in the buffer but the unused high bits
  of the last byte, which are zero.
\<close>

definition obs_rel :: "('b \<Rightarrow> bool) \<Rightarrow> ('b \<Rightarrow> byte list) \<Rightarrow> 'b obitstream \<Rightarrow> bool list \<Rightarrow> bool" where
  "obs_rel invar contents s bs \<longleftrightarrow> invar (ob_buffer s) \<and> holdingBitCount s = length bs mod 8 \<and>
     bits_of_bytes (contents (ob_buffer s)) = bs @ replicate (pad_count (length bs)) False"

lemma pad_unique:
  assumes "8 dvd t + k" and "k < 8"
  shows "k = pad_count (t :: nat)"
proof -
  define q r where "q = t div 8" and "r = t mod 8"
  then have t: "t = 8 * q + r" and r: "r < 8"
    by simp_all
  from assms(1) have "8 dvd r + k"
    using dvd_add_right_iff [of 8 "8 * q" "r + k"] by (simp add: t add.assoc)
  with r assms(2) have "r + k = 0 \<or> r + k = 8"
    by (auto simp: dvd_def)
  with r assms(2) show ?thesis
    by (cases "r = 0") (auto simp: r_def [symmetric] mod_less)
qed

lemma obs_pad:
  assumes "bits_of_bytes c = bs @ bits_of k (take_bit n v)" and "n \<le> k" and "k < n + 8"
  shows "bits_of_bytes c = (bs @ bits_of n v) @ replicate (pad_count (length bs + n)) False"
proof -
  have "8 * length c = length bs + k"
    using assms(1) by (metis length_append length_bits_of length_bits_of_bytes)
  then have "8 dvd (length bs + n) + (k - n)"
    using assms(2) by (simp add: dvd_def) metis
  then have "k - n = pad_count (length bs + n)"
    using assms(2,3) by (intro pad_unique) auto
  with assms(1,2) show ?thesis
    by (simp add: bits_of_take_bit_pad)
qed

lemma or_held_bits:
  assumes "bits_of 8 l = lb @ replicate (8 - h) False" and "length lb = h" and "h < 8"
    and "8 \<le> LENGTH('a)"
  shows "bits_of 8 (l OR ucast (push_bit h (t :: 'a::len word)) :: byte) = lb @ bits_of (8 - h) t"
proof (rule nth_equalityI)
  fix i
  assume "i < length (bits_of 8 (l OR ucast (push_bit h t) :: byte))"
  then have i: "i < 8" by simp
  have "bit l i = (lb @ replicate (8 - h) False) ! i"
    using assms(1) i by (metis nth_bits_of)
  with i assms(2-4) show "bits_of 8 (l OR ucast (push_bit h t) :: byte) ! i =
      (lb @ bits_of (8 - h) t) ! i"
    by (auto simp: nth_bits_of nth_append bit_or_iff bit_ucast_iff bit_push_bit_iff)
qed (use assms in simp)

lemma held_byte:
  assumes "bits_of_bytes c = bs @ replicate (8 - h) False" and "length bs mod 8 = h" and "0 < h"
    and "c \<noteq> []"
  obtains lb where "bs = bits_of_bytes (butlast c) @ lb" and "length lb = h"
    and "bits_of 8 (last c) = lb @ replicate (8 - h) False"
proof -
  have h: "h < 8" using assms(2) by auto
  have split: "bits_of_bytes (butlast c) @ bits_of 8 (last c) = bs @ replicate (8 - h) False"
    using assms(1,4) by (metis append_butlast_last_id bits_of_bytes_append bits_of_bytes_Cons
        bits_of_bytes_Nil append_Nil2)
  from arg_cong [OF this, of length] h
  have "length bs = length (bits_of_bytes (butlast c)) + h"
    by simp
  with split have "bs = bits_of_bytes (butlast c) @ drop (8 * length (butlast c)) bs"
    by (metis (no_types) append_eq_append_conv_if append_take_drop_id le_add1
        length_bits_of_bytes)
  moreover from this split
  have "bits_of 8 (last c) = drop (8 * length (butlast c)) bs @ replicate (8 - h) False"
    by (metis append.assoc same_append_eq)
  moreover have "length (drop (8 * length (butlast c)) bs) = h"
    using \<open>length bs = _\<close> by simp
  ultimately show thesis using that by blast
qed

context stream_buffer
begin

lemma writeBits_empty_hold:
  assumes "invar b" and "bits_of_bytes (contents b) = bs" and "0 < n"
    and "sb_push ops (ucast t) b = (Inr u, b1)"
    and "when_do (8 < n) (writeBits_loop ops (drop_bit 8 t) (n - 8)) b1 = (Inr u', b2)"
  shows "invar b2 \<and> bits_of_bytes (contents b2) = bs @ bits_of (8 * byte_count n) t"
proof -
  from push_Inr [OF assms(1,4)] have b1: "invar b1" "contents b1 = contents b @ [ucast t]"
    by auto
  have "invar b2 \<and> contents b2 = contents b @ bytes_of (byte_count n) t"
  proof (cases "8 < n")
    case True
    with assms(5) writeBits_loop_Inr [OF b1(1), of "n - 8" "drop_bit 8 t" u' b2] b1(2)
    have "invar b2 \<and> contents b2 = contents b @ ucast t # bytes_of (byte_count (n - 8)) (drop_bit 8 t)"
      by (simp add: when_do_def)
    then show ?thesis
      by (simp only: byte_count_step [OF True] bytes_of_Suc)
  next
    case False
    with assms(3,5) b1 show ?thesis
      by (simp add: when_do_def skip_def byte_count_small bytes_of_Suc bytes_of_def [of 0])
  qed
  then show ?thesis
    using assms(2) by (simp add: bits_of_bytes_append bits_of_bytes_of)
qed

lemma writeBits_held:
  fixes t :: "'a::len word"
  assumes "invar b" and "bits_of_bytes (contents b) = bs @ replicate (8 - h) False"
    and "length bs mod 8 = h" and "0 < h" and "contents b \<noteq> []" and "8 \<le> LENGTH('a)"
    and "b1 = snd (sb_set_back ops (last (contents b) OR ucast (push_bit h t)) b)"
    and "when_do (8 - h < n) (writeBits_loop ops (drop_bit (8 - h) t) (n - (8 - h))) b1 = (Inr u', b2)"
  shows "invar b2 \<and> bits_of_bytes (contents b2) =
    bs @ bits_of (if 8 - h < n then 8 - h + 8 * byte_count (n - (8 - h)) else 8 - h) t"
proof -
  have h: "h < 8" using assms(3) by auto
  obtain lb where lb: "bs = bits_of_bytes (butlast (contents b)) @ lb" "length lb = h"
    "bits_of 8 (last (contents b)) = lb @ replicate (8 - h) False"
    using held_byte [OF assms(2-5)] by metis
  have b1: "invar b1" "bits_of_bytes (contents b1) = bs @ bits_of (8 - h) t"
    using set_back_invar [OF assms(1,5)] set_back_contents [OF assms(1,5)] assms(7)
      or_held_bits [OF lb(3,2) h assms(6)] lb(1)
    by (simp_all add: bits_simps)
  show ?thesis
  proof (cases "8 - h < n")
    case True
    with assms(8) writeBits_loop_Inr [OF b1(1), of "n - (8 - h)" "drop_bit (8 - h) t" u' b2] b1(2)
    show ?thesis
      by (simp add: when_do_def bits_of_bytes_append bits_of_bytes_of bits_of_add [of "8 - h"])
  next
    case False
    with assms(8) b1 show ?thesis
      by (simp add: when_do_def skip_def)
  qed
qed

lemma obs_rel_nonempty:
  "obs_rel invar contents s bs \<Longrightarrow> 0 < holdingBitCount s \<Longrightarrow> contents (ob_buffer s) \<noteq> []"
  by (auto simp: obs_rel_def)

lemma writeBitsImpl_fresh_eq:
  assumes "isEnoughBits LENGTH('a) n" and "holdingBitCount s = 0"
  shows "writeBitsImpl ops (v :: 'a::len word) n s =
    (case bind (sb_push ops (ucast (take_bit (nat n) v)))
            (\<lambda>_. when_do (8 < nat n)
               (writeBits_loop ops (drop_bit 8 (take_bit (nat n) v)) (nat n - 8))) (ob_buffer s) of
       (Inl e, b) \<Rightarrow> (Inl e, s\<lparr>ob_buffer := b\<rparr>)
     | (Inr u, b) \<Rightarrow> (Inr (), s\<lparr>ob_buffer := b, holdingBitCount := nat n mod 8,
         totalBitCount := totalBitCount s + n\<rparr>))"
  using assms
  by (simp add: writeBitsImpl_def resetUnusedBits_eq on_obuf_def zoom_def bind_def when_do_def
      gets_def modify_def skip_def Let_def split: prod.split sum.split)

lemma writeBitsImpl_held_eq:
  assumes "isEnoughBits LENGTH('a) n" and "0 < holdingBitCount s" and "invar (ob_buffer s)"
    and "contents (ob_buffer s) \<noteq> []"
  shows "writeBitsImpl ops (v :: 'a::len word) n s =
    (case when_do (8 - holdingBitCount s < nat n)
            (writeBits_loop ops (drop_bit (8 - holdingBitCount s) (take_bit (nat n) v))
               (nat n - (8 - holdingBitCount s)))
            (snd (sb_set_back ops (last (contents (ob_buffer s)) OR
               ucast (push_bit (holdingBitCount s) (take_bit (nat n) v))) (ob_buffer s))) of
       (Inl e, b) \<Rightarrow> (Inl e, s\<lparr>ob_buffer := b\<rparr>)
     | (Inr u, b) \<Rightarrow> (Inr (), s\<lparr>ob_buffer := b, holdingBitCount := (holdingBitCount s + nat n) mod 8,
         totalBitCount := totalBitCount s + n\<rparr>))"
proof -
  let ?x = "last (contents (ob_buffer s)) OR ucast (push_bit (holdingBitCount s) (take_bit (nat n) v))"
  have "bind (sb_back ops) (\<lambda>l. sb_set_back ops (l OR ucast (push_bit (holdingBitCount s)
      (take_bit (nat n) v)))) (ob_buffer s) = (Inr (), snd (sb_set_back ops ?x (ob_buffer s)))"
    using run_set_back [OF assms(3,4), of ?x] by (simp add: bind_def back_law [OF assms(3,4)])
  then show ?thesis
    using assms
    by (simp add: writeBitsImpl_def resetUnusedBits_eq on_obuf_def zoom_def bind_def [of "gets _"]
        bind_def [of "\<lambda>s. case _ s of _ \<Rightarrow> _"] when_do_def bind_def [of "if _ then _ else _"] bind_def [of "zoom _ _ _"]
        empty_law gets_def modify_def skip_def Let_def split: prod.split sum.split)
qed

lemma writeBitsImpl_fresh:
  fixes v :: "'a::len word"
  assumes "isEnoughBits LENGTH('a) n" and "holdingBitCount s = 0" and "invar (ob_buffer s)"
    and "bits_of_bytes (contents (ob_buffer s)) = bs"
    and "writeBitsImpl ops v n s = (Inr u, s')"
  shows "\<exists>b. s' = s\<lparr>ob_buffer := b, holdingBitCount := nat n mod 8,
      totalBitCount := totalBitCount s + n\<rparr> \<and> invar b \<and>
    bits_of_bytes (contents b) = bs @ bits_of (8 * byte_count (nat n)) (take_bit (nat n) v)"
proof -
  let ?t = "take_bit (nat n) v"
  from assms(5) obtain u2 b2 where
    run: "bind (sb_push ops (ucast ?t)) (\<lambda>_. when_do (8 < nat n)
      (writeBits_loop ops (drop_bit 8 ?t) (nat n - 8))) (ob_buffer s) = (Inr u2, b2)" and
    s': "s' = s\<lparr>ob_buffer := b2, holdingBitCount := nat n mod 8,
      totalBitCount := totalBitCount s + n\<rparr>"
    unfolding writeBitsImpl_fresh_eq [OF assms(1,2)]
    by (auto split: prod.splits sum.splits)
  from run obtain u1 b1 where "sb_push ops (ucast ?t) (ob_buffer s) = (Inr u1, b1)"
    and "when_do (8 < nat n) (writeBits_loop ops (drop_bit 8 ?t) (nat n - 8)) b1 = (Inr u2, b2)"
    by (rule bind_InrE)
  from writeBits_empty_hold [OF assms(3,4) _ this] assms(1) s' show ?thesis
    by (auto simp: isEnoughBits_def)
qed

lemma writeBitsImpl_held:
  fixes v :: "'a::len word"
  assumes "isEnoughBits LENGTH('a) n" and "8 \<le> LENGTH('a)" and "h = holdingBitCount s" and "0 < h"
    and "invar (ob_buffer s)" and "contents (ob_buffer s) \<noteq> []" and "length bs mod 8 = h"
    and "bits_of_bytes (contents (ob_buffer s)) = bs @ replicate (8 - h) False"
    and "writeBitsImpl ops v n s = (Inr u, s')"
  shows "\<exists>b. s' = s\<lparr>ob_buffer := b, holdingBitCount := (h + nat n) mod 8,
      totalBitCount := totalBitCount s + n\<rparr> \<and> invar b \<and> bits_of_bytes (contents b) =
    bs @ bits_of (if 8 - h < nat n then 8 - h + 8 * byte_count (nat n - (8 - h)) else 8 - h)
      (take_bit (nat n) v)"
proof -
  let ?t = "take_bit (nat n) v"
  from assms(9) obtain u2 b2 where
    run: "when_do (8 - h < nat n) (writeBits_loop ops (drop_bit (8 - h) ?t) (nat n - (8 - h)))
      (snd (sb_set_back ops (last (contents (ob_buffer s)) OR ucast (push_bit h ?t)) (ob_buffer s))) =
      (Inr u2, b2)" and
    s': "s' = s\<lparr>ob_buffer := b2, holdingBitCount := (h + nat n) mod 8,
      totalBitCount := totalBitCount s + n\<rparr>"
    unfolding writeBitsImpl_held_eq [OF assms(1) assms(4) [unfolded assms(3)] assms(5,6)]
    by (auto simp: assms(3) split: prod.splits sum.splits)
  from writeBits_held [OF assms(5,8,7,4,6,2) refl run] s' show ?thesis
    by blast
qed

theorem writeBitsImpl_Inr:
  fixes v :: "'a::len word"
  assumes rel: "obs_rel invar contents s bs" and len: "8 \<le> LENGTH('a)"
    and run: "writeBitsImpl ops v n s = (Inr u, s')"
  shows "isEnoughBits LENGTH('a) n \<and> obs_rel invar contents s' (bs @ bits_of (nat n) v) \<and>
    totalBitCount s' = totalBitCount s + n \<and> ob_useUtf8 s' = ob_useUtf8 s"
proof -
  define h where "h = holdingBitCount s"
  from rel have inv: "invar (ob_buffer s)" and h: "length bs mod 8 = h"
    and bits: "bits_of_bytes (contents (ob_buffer s)) = bs @ replicate (pad_count (length bs)) False"
    by (simp_all add: obs_rel_def h_def)
  from run have enough: "isEnoughBits LENGTH('a) n"
    by (auto simp: writeBitsImpl_def throw_def split: if_splits)
  then have m: "0 < nat n" by (simp add: isEnoughBits_def)
  obtain b k where s': "s' = s\<lparr>ob_buffer := b, holdingBitCount := (h + nat n) mod 8,
      totalBitCount := totalBitCount s + n\<rparr>" and b: "invar b"
      "bits_of_bytes (contents b) = bs @ bits_of k (take_bit (nat n) v)"
      and k: "nat n \<le> k" "k < nat n + 8"
  proof (cases "0 < h")
    case False
    with h bits have c: "bits_of_bytes (contents (ob_buffer s)) = bs" by simp
    have h0: "holdingBitCount s = 0" using False by (simp add: h_def)
    from writeBitsImpl_fresh [OF enough h0 inv c run]
    obtain b where "s' = s\<lparr>ob_buffer := b, holdingBitCount := nat n mod 8,
      totalBitCount := totalBitCount s + n\<rparr>" "invar b"
      "bits_of_bytes (contents b) = bs @ bits_of (8 * byte_count (nat n)) (take_bit (nat n) v)"
      by blast
    then show thesis
      using False that [of b "8 * byte_count (nat n)"] byte_count_range [of "nat n"] by simp
  next
    case True
    with h bits have c: "bits_of_bytes (contents (ob_buffer s)) = bs @ replicate (8 - h) False"
      by simp
    have ne: "contents (ob_buffer s) \<noteq> []"
      using obs_rel_nonempty [OF rel] True by (simp add: h_def)
    have "h < 8" using h by auto
    let ?k = "if 8 - h < nat n then 8 - h + 8 * byte_count (nat n - (8 - h)) else 8 - h"
    from writeBitsImpl_held [OF enough len h_def True inv ne h c run]
    obtain b where "s' = s\<lparr>ob_buffer := b, holdingBitCount := (h + nat n) mod 8,
      totalBitCount := totalBitCount s + n\<rparr>" "invar b"
      "bits_of_bytes (contents b) = bs @ bits_of ?k (take_bit (nat n) v)"
      by blast
    moreover have "nat n \<le> ?k" "?k < nat n + 8"
      using held_range [OF byte_count_range m True \<open>h < 8\<close>] by blast+
    ultimately show thesis
      using that by blast
  qed
  have "bits_of_bytes (contents b) =
      (bs @ bits_of (nat n) v) @ replicate (pad_count (length bs + nat n)) False"
    by (rule obs_pad [OF b(2) k])
  with enough b(1) h show ?thesis
    unfolding s' obs_rel_def by (simp add: mod_add_left_eq flip: h)
qed

end

text \<open>Over a buffer that grows on demand a write with a valid bit count succeeds.\<close>

context growing_stream_buffer
begin

lemma writeBits_loop_grows: "invar b \<Longrightarrow> fst (writeBits_loop ops v n b) = Inr ()"
proof (induction n arbitrary: v b rule: less_induct)
  case (less n)
  then show ?case
    by (subst writeBits_loop.simps)
      (simp add: bind_run [where x = "()"] push_grows push_invar skip_def)
qed

lemma writeBitsImpl_grows:
  fixes v :: "'a::len word"
  assumes rel: "obs_rel invar contents s bs" and enough: "isEnoughBits LENGTH('a) n"
  shows "fst (writeBitsImpl ops v n s) = Inr ()"
proof -
  from rel have inv: "invar (ob_buffer s)" by (simp add: obs_rel_def)
  let ?t = "take_bit (nat n) v"
  show ?thesis
  proof (cases "0 < holdingBitCount s")
    case False
    have "fst (bind (sb_push ops (ucast ?t)) (\<lambda>_. when_do (8 < nat n)
        (writeBits_loop ops (drop_bit 8 ?t) (nat n - 8))) (ob_buffer s)) = Inr ()"
      using inv by (simp add: bind_run [where x = "()"] push_grows push_invar when_do_def
          skip_def writeBits_loop_grows)
    with False enough show ?thesis
      by (auto simp: writeBitsImpl_fresh_eq split: prod.split sum.split)
  next
    case True
    note ne = obs_rel_nonempty [OF rel True]
    let ?b = "snd (sb_set_back ops (last (contents (ob_buffer s)) OR
      ucast (push_bit (holdingBitCount s) ?t)) (ob_buffer s))"
    have "fst (when_do (8 - holdingBitCount s < nat n) (writeBits_loop ops
        (drop_bit (8 - holdingBitCount s) ?t) (nat n - (8 - holdingBitCount s))) ?b) = Inr ()"
      using set_back_invar [OF inv ne] by (simp add: when_do_def skip_def writeBits_loop_grows)
    then show ?thesis
      by (auto simp: writeBitsImpl_held_eq [OF enough True inv ne] split: prod.split sum.split)
  qed
qed

lemma writeBitsImpl_run:
  fixes v :: "'a::len word"
  assumes "obs_rel invar contents s bs" and "isEnoughBits LENGTH('a) n" and "8 \<le> LENGTH('a)"
  shows "\<exists>s'. writeBitsImpl ops v n s = (Inr (), s') \<and>
    obs_rel invar contents s' (bs @ bits_of (nat n) v) \<and>
    totalBitCount s' = totalBitCount s + n \<and> ob_useUtf8 s' = ob_useUtf8 s"
proof -
  let ?s = "snd (writeBitsImpl ops v n s)"
  have "writeBitsImpl ops v n s = (Inr (), ?s)"
    using writeBitsImpl_grows [OF assms(1,2), of v] by (simp add: prod_eq_iff)
  from writeBitsImpl_Inr [OF assms(1,3) this] this show ?thesis by blast
qed

end

section \<open>Correctness of reading\<close>

text \<open>The bits an input stream has still to deliver: the buffer without the low
  \<open>bitReadCount_\<close> bits of its front byte.\<close>

definition ibs_bits :: "('b \<Rightarrow> byte list) \<Rightarrow> 'b ibitstream \<Rightarrow> bool list" where
  "ibs_bits contents s = drop (bitReadCount s) (bits_of_bytes (contents (ib_buffer s)))"

definition ibs_inv :: "('b \<Rightarrow> bool) \<Rightarrow> ('b \<Rightarrow> byte list) \<Rightarrow> 'b ibitstream \<Rightarrow> bool" where
  "ibs_inv invar contents s \<longleftrightarrow> invar (ib_buffer s) \<and> bitReadCount s < 8 \<and>
     (0 < bitReadCount s \<longrightarrow> contents (ib_buffer s) \<noteq> [])"

lemma byte_count_pop: "0 < m \<Longrightarrow> byte_count (m - 8) + (if m mod 8 = 0 then 1 else 0) = m div 8"
proof -
  assume m: "0 < m"
  define q r where "q = m div 8" and "r = m mod 8"
  then have mq: "m = 8 * q + r" and r: "r < 8" by simp_all
  show ?thesis
  proof (cases q)
    case 0
    with m mq r show ?thesis by simp
  next
    case (Suc p)
    then have "m - 8 = 8 * p + r" using mq by simp
    then have "byte_count (m - 8) = p + (r + 7) div 8"
      using div_mult_self4 [of 8 p "r + 7"] by (simp add: add.assoc)
    moreover have "(r + 7) div 8 + (if r = 0 then 1 else 0) = 1"
      using byte_count_small [of r] r by auto
    ultimately show ?thesis
      using Suc by (simp flip: q_def r_def)
  qed
qed

lemma word_of_bytes_Cons:
  "word_of_bytes (c # cs) = (ucast c OR push_bit 8 (word_of_bytes cs) :: 'a::len word)"
proof (rule bit_word_eqI)
  fix i
  assume "i < LENGTH('a)"
  then show "bit (word_of_bytes (c # cs) :: 'a word) i =
      bit (ucast c OR push_bit 8 (word_of_bytes cs) :: 'a word) i"
    using bit_imp_le_length [of c i]
    by (cases "i < 8") (auto simp: word_of_bytes_def bit_word_of_bits bits_simps nth_append
        bit_or_iff bit_push_bit_iff bit_ucast_iff)
qed

lemma bit_word_of_bytes_Cons:
  fixes c :: byte
  assumes "8 \<le> LENGTH('a)" and "r < 8"
  shows "bit (drop_bit r (ucast c) OR push_bit (8 - r) (word_of_bytes cs) :: 'a::len word) i \<longleftrightarrow>
    i < LENGTH('a) \<and> i < 8 - r + 8 * length cs \<and> drop r (bits_of_bytes (c # cs)) ! i"
proof (cases "i < 8 - r")
  case True
  with assms show ?thesis
    by (auto simp: bit_or_iff bit_drop_bit_eq bit_ucast_iff bit_push_bit_iff bits_simps nth_append)
next
  case False
  have c: "\<not> bit (ucast c :: 'a word) (r + i)"
    using False assms(2) bit_imp_le_length [of c "r + i"] by (auto simp: bit_ucast_iff)
  have "drop r (bits_of_bytes (c # cs)) ! i = bits_of_bytes cs ! (i - (8 - r))"
    if "i < 8 - r + 8 * length cs"
    using False assms(2) that by (simp add: bits_simps nth_append)
  with False assms c show ?thesis
    by (auto simp: bit_or_iff bit_drop_bit_eq bit_push_bit_iff word_of_bytes_def bit_word_of_bits)
qed

lemma read_value:
  fixes c :: byte
  assumes "8 \<le> LENGTH('a)" and "r < 8" and "n \<le> 8 - r + 8 * length cs"
  shows "take_bit n (drop_bit r (ucast c) OR push_bit (8 - r) (word_of_bytes cs) :: 'a::len word) =
    word_of_bits (take n (drop r (bits_of_bytes (c # cs))))"
  by (rule bit_word_eqI)
    (use assms in \<open>auto simp: bit_take_bit_iff bit_word_of_bytes_Cons bit_word_of_bits simp del: take_bit_or\<close>)

lemma toBytes_left: "nat (toBytes (int n - int k) + 1) = Suc (byte_count (n - k))"
proof (cases "n < k")
  case True
  then show ?thesis by (simp add: toBytes_def)
next
  case False
  then have "int n - int k + 7 = int (n - k + 7)" and "\<not> int n - int k < 0" by auto
  moreover have "int (n - k + 7) div 8 = int (byte_count (n - k))"
    by (simp add: zdiv_int)
  ultimately show ?thesis
    by (simp add: toBytes_def)
qed

context stream_buffer
begin

lemma front_pop:
  assumes "invar b" and "Suc 0 < length (contents b)"
  shows "bind (sb_pop ops) (\<lambda>_. bind (sb_front ops) f) b =
    f (hd (tl (contents b))) (snd (sb_pop ops b))"
proof -
  have "contents (snd (sb_pop ops b)) \<noteq> []"
    using assms by (cases "contents b") (auto simp: pop_contents)
  with assms(1) show ?thesis
    by (simp add: bind_run [where x = "()"] pop_ok bind_def [where m = "sb_front ops"] front_law
        pop_invar pop_contents)
qed

lemma readBits_loop_run:
  fixes r :: "'a::len word"
  assumes "invar b" and "byte_count n < length (contents b)"
  shows "\<exists>b'. readBits_loop ops r sh n b =
      (Inr (r OR push_bit sh (word_of_bytes (take (byte_count n) (tl (contents b))))), b') \<and>
    invar b' \<and> contents b' = drop (byte_count n) (contents b)"
  using assms
proof (induction n arbitrary: r sh b rule: less_induct)
  case (less n)
  show ?case
  proof (cases "n = 0")
    case True
    with less.prems show ?thesis
      by (subst readBits_loop.simps)
        (simp add: ret_def word_of_bytes_def word_of_bits_def)
  next
    case False
    let ?b = "snd (sb_pop ops b)"
    obtain k where k: "byte_count n = Suc k" "byte_count (n - 8) = k"
      using byte_count_step [of n] byte_count_small [of n] False by (cases "8 < n") auto
    with less.prems obtain x c cs where xs: "contents b = x # c # cs"
      by (cases "contents b"; cases "tl (contents b)") auto
    have b: "invar ?b" "contents ?b = c # cs"
      using less.prems(1) xs by (simp_all add: pop_invar pop_contents)
    have "readBits_loop ops r sh n b =
        readBits_loop ops (r OR push_bit sh (ucast c)) (sh + 8) (n - 8) ?b"
      using False less.prems(1) xs by (subst readBits_loop.simps) (simp add: front_pop)
    moreover have "k < length (contents ?b)" using less.prems(2) k xs b by simp
    moreover have "(r OR push_bit sh (ucast c)) OR push_bit (sh + 8) (word_of_bytes (take k cs)) =
        r OR push_bit sh (word_of_bytes (c # take k cs))"
      by (simp add: word_of_bytes_Cons or.assoc)
    ultimately show ?thesis
      using less.IH [of "n - 8" ?b "r OR push_bit sh (ucast c)" "sh + 8"] False b k xs
      by simp
  qed
qed

lemma readBitsImpl_eq:
  fixes res :: "'a::len word"
  assumes enough: "isEnoughBits LENGTH('a) n" and r: "bitReadCount s < 8"
    and size: "byte_count (nat n - (8 - bitReadCount s)) < sb_size ops (ib_buffer s)"
    and front: "sb_front ops (ib_buffer s) = (Inr c, ib_buffer s)"
    and loop: "readBits_loop ops (drop_bit (bitReadCount s) (ucast c)) (8 - bitReadCount s)
      (nat n - (8 - bitReadCount s)) (ib_buffer s) = (Inr res, b1)"
    and inv: "invar b1"
  shows "readBitsImpl ops n s =
    (if nat n < LENGTH('a) \<and> \<not> nat n < 31 then Inl (UndefinedBehaviour ''(1 << bitCount) - 1'')
     else Inr (take_bit (nat n) res),
     s\<lparr>ib_buffer := if (bitReadCount s + nat n) mod 8 = 0 then snd (sb_pop ops b1) else b1,
       bitReadCount := (bitReadCount s + nat n) mod 8\<rparr>)"
proof -
  have n: "n = int (nat n)" "nat (n - int (8 - bitReadCount s)) = nat n - (8 - bitReadCount s)"
    using enough by (simp_all add: isEnoughBits_def nat_diff_distrib)
  have "nat (toBytes (n - int (8 - bitReadCount s)) + 1) = Suc (byte_count (nat n - (8 - bitReadCount s)))"
    using toBytes_left [of "nat n"] n(1) by metis
  moreover have "res AND (2 ^ nat n - 1) = take_bit (nat n) res"
    by (simp add: take_bit_eq_mask mask_eq_decr_exp)
  moreover have "\<not> nat n < LENGTH('a) \<Longrightarrow> take_bit (nat n) res = res"
    by (simp add: take_bit_word_eq_self)
  moreover obtain b2 where "sb_pop ops b1 = (Inr (), b2)"
    using run_pop [OF inv] by metis
  ultimately show ?thesis
    using enough size front loop
    by (simp add: readBitsImpl_def n(2) on_ibuf_def zoom_def bind_def gets_def modify_def when_do_def
        skip_def ret_def throw_def intMask_def Let_def)
qed

lemma readBitsImpl_steps:
  fixes dummy :: "'a::len itself"
  assumes inv: "ibs_inv invar contents s" and enough: "isEnoughBits LENGTH('a) n"
    and len: "8 \<le> LENGTH('a)" and avail: "nat n \<le> length (ibs_bits contents s)"
  shows "\<exists>s'. readBitsImpl ops n s =
    (if nat n < LENGTH('a) \<and> \<not> nat n < 31 then Inl (UndefinedBehaviour ''(1 << bitCount) - 1'')
     else Inr (word_of_bits (take (nat n) (ibs_bits contents s)) :: 'a word), s') \<and>
    ibs_inv invar contents s' \<and> ibs_bits contents s' = drop (nat n) (ibs_bits contents s) \<and>
    bitReadCount s' = (bitReadCount s + nat n) mod 8 \<and> ib_useUtf8 s' = ib_useUtf8 s"
proof -
  define r m b where "r = bitReadCount s" and "m = r + nat n" and "b = ib_buffer s"
  define L where "L = byte_count (nat n - (8 - r))"
  have n: "0 < nat n" using enough by (simp add: isEnoughBits_def)
  have r: "r < 8" and b: "invar b" using inv by (simp_all add: ibs_inv_def r_def b_def)
  have m8: "m \<le> 8 * length (contents b)" and m0: "0 < m" and m: "nat n - (8 - r) = m - 8"
    using avail n r by (auto simp: ibs_bits_def m_def r_def b_def)
  have L: "L < length (contents b)"
    using byte_count_range(2) [of "m - 8"] m8 m0 unfolding L_def m by (cases "8 < m") auto
  then obtain c cs where xs: "contents b = c # cs" by (cases "contents b") auto
  obtain b1 where loop: "readBits_loop ops (drop_bit r (ucast c)) (8 - r) (nat n - (8 - r)) b =
      (Inr (drop_bit r (ucast c) OR push_bit (8 - r) (word_of_bytes (take L cs)) :: 'a word), b1)"
    and b1: "invar b1" "contents b1 = drop L (contents b)"
    using readBits_loop_run [OF b, of "nat n - (8 - r)"] L xs unfolding L_def by fastforce
  define b2 where "b2 = (if m mod 8 = 0 then snd (sb_pop ops b1) else b1)"
  have b2: "invar b2" "contents b2 = drop (m div 8) (contents b)"
    using b1 byte_count_pop [OF m0] unfolding m [symmetric] L_def [symmetric]
    by (auto simp: b2_def pop_invar pop_contents drop_Suc tl_drop simp flip: drop_Suc)
  define s' where "s' = s\<lparr>ib_buffer := b2, bitReadCount := m mod 8\<rparr>"
  have rd: "take_bit (nat n) (drop_bit r (ucast c) OR push_bit (8 - r) (word_of_bytes (take L cs)) :: 'a word)
      = word_of_bits (take (nat n) (ibs_bits contents s))"
  proof -
    have "m - 8 \<le> 8 * L" "length (take L cs) = L"
      using byte_count_range(1) [of "m - 8"] L xs unfolding L_def m by simp_all
    then have "nat n \<le> 8 - r + 8 * length (take L cs)"
      unfolding m_def by simp
    moreover have "take (nat n) (ibs_bits contents s) =
        take (nat n) (drop r (bits_of_bytes (c # take L cs)))"
    proof -
      have "bits_of_bytes (contents b) = bits_of_bytes (c # take L cs) @ bits_of_bytes (drop L cs)"
        unfolding xs by (simp flip: bits_of_bytes_append)
      then show ?thesis
        using calculation r by (simp add: ibs_bits_def flip: r_def b_def)
    qed
    ultimately show ?thesis
      using read_value [OF len r] by simp
  qed
  have "readBitsImpl ops n s =
    (if nat n < LENGTH('a) \<and> \<not> nat n < 31 then Inl (UndefinedBehaviour ''(1 << bitCount) - 1'')
     else Inr (word_of_bits (take (nat n) (ibs_bits contents s)) :: 'a word), s')"
    unfolding rd [symmetric] s'_def b2_def m_def r_def
    using loop L b xs front_law [OF b] size_law [OF b] b1(1) r
    by (intro readBitsImpl_eq [OF enough]) (simp_all add: b_def [symmetric] r_def [symmetric] L_def)
  moreover have "ibs_bits contents s' = drop (nat n) (ibs_bits contents s)"
  proof -
    have "drop (m mod 8) (bits_of_bytes (drop (m div 8) (contents b))) = drop m (bits_of_bytes (contents b))"
      by (simp flip: drop_bits_of_bytes)
    then show ?thesis
      by (simp add: ibs_bits_def s'_def b2(2)) (simp add: m_def b_def r_def add.commute)
  qed
  moreover have "ibs_inv invar contents s'"
  proof -
    have "m mod 8 = 0 \<or> m div 8 < length (contents b)"
      using m8 mult_div_mod_eq [of 8 m] by linarith
    then show ?thesis
      using b2 by (auto simp: ibs_inv_def s'_def)
  qed
  ultimately show ?thesis
    by (auto simp: s'_def m_def r_def)
qed

lemma readBitsImpl_short:
  fixes dummy :: "'a::len itself"
  assumes "ibs_inv invar contents s" and "isEnoughBits LENGTH('a) n"
    and "length (ibs_bits contents s) < nat n"
  shows "(readBitsImpl ops n s :: (sne_error + 'a word) \<times> _) =
    (Inl (StreamingException ''buffer is not enough''), s)"
proof -
  define r where "r = bitReadCount s"
  have n: "n = int (nat n)" using assms(2) by (simp add: isEnoughBits_def)
  have r: "r < 8" and b: "invar (ib_buffer s)" using assms(1) by (simp_all add: ibs_inv_def r_def)
  have "8 * length (contents (ib_buffer s)) < r + nat n"
    using assms(1,3) r by (cases "contents (ib_buffer s)") (auto simp: ibs_bits_def ibs_inv_def r_def)
  then have "length (contents (ib_buffer s)) < Suc (byte_count (nat n - (8 - r)))"
    using byte_count_range(1) [of "nat n - (8 - r)"] r by linarith
  moreover have "nat (toBytes (n - int (8 - r)) + 1) = Suc (byte_count (nat n - (8 - r)))"
    using toBytes_left [of "nat n"] n by metis
  ultimately show ?thesis
    using assms(2) size_law [OF b]
    by (simp add: readBitsImpl_def bind_def gets_def throw_def Let_def flip: r_def)
qed

end

end
