(* ===== verification/Streams.thy ===== *)
theory Streams
  imports Bit_Stream
begin

text \<open>
  The abstract classes \<open>OStream\<close> and \<open>IStream\<close> (include/sne/core/stream/OStream.h, IStream.h) as
  records of their virtual functions, and the contract that a pair of implementations has
  to meet: what the one writes the other reads back.  Signed integers are words of their
  width, \<open>float32_t\<close> is its object representation, \<open>wchar_t\<close> a 32-bit word.

  The contract speaks about whole programs.  \<open>codes orel irel m r v\<close> says that the writing
  program \<open>m\<close> succeeds and appends an encoding (which may depend on the position, because of
  the alignment of bit streams) from which the reading program \<open>r\<close> gets \<open>v\<close>, using up exactly
  that encoding.  It composes: a sequence of writes is read by the sequence of reads.
\<close>

type_synonym wchar = "32 word"

section \<open>The interfaces\<close>

record 's ostream_ops =
  os_u64 :: "u64 \<Rightarrow> int \<Rightarrow> ('s, unit) prog"
  os_u32 :: "u32 \<Rightarrow> int \<Rightarrow> ('s, unit) prog"
  os_u16 :: "u16 \<Rightarrow> int \<Rightarrow> ('s, unit) prog"
  os_u8 :: "byte \<Rightarrow> int \<Rightarrow> ('s, unit) prog"
  os_bool :: "bool \<Rightarrow> int \<Rightarrow> ('s, unit) prog"
  os_i64 :: "u64 \<Rightarrow> int \<Rightarrow> ('s, unit) prog"
  os_i32 :: "u32 \<Rightarrow> int \<Rightarrow> ('s, unit) prog"
  os_i16 :: "u16 \<Rightarrow> int \<Rightarrow> ('s, unit) prog"
  os_i8 :: "byte \<Rightarrow> int \<Rightarrow> ('s, unit) prog"
  os_f32 :: "u32 \<Rightarrow> int \<Rightarrow> ('s, unit) prog"
  os_enum :: "u64 \<Rightarrow> int \<Rightarrow> ('s, unit) prog"
  os_str :: "byte list \<Rightarrow> nat \<Rightarrow> int \<Rightarrow> ('s, unit) prog"
  os_wstr :: "wchar list \<Rightarrow> nat \<Rightarrow> int \<Rightarrow> ('s, unit) prog"
  os_raw :: "byte list \<Rightarrow> ('s, unit) prog"
  os_align :: "('s, unit) prog"
  os_reset :: "bool \<Rightarrow> ('s, unit) prog"
  os_getTotalSize :: "'s \<Rightarrow> nat"

text \<open>\<open>readEnum\<close> takes the variable it reads into, because a byte stream assigns only some
  of its bytes.\<close>

record 't istream_ops =
  is_u64 :: "int \<Rightarrow> ('t, u64) prog"
  is_u32 :: "int \<Rightarrow> ('t, u32) prog"
  is_u16 :: "int \<Rightarrow> ('t, u16) prog"
  is_u8 :: "int \<Rightarrow> ('t, byte) prog"
  is_bool :: "int \<Rightarrow> ('t, bool) prog"
  is_i64 :: "int \<Rightarrow> ('t, u64) prog"
  is_i32 :: "int \<Rightarrow> ('t, u32) prog"
  is_i16 :: "int \<Rightarrow> ('t, u16) prog"
  is_i8 :: "int \<Rightarrow> ('t, byte) prog"
  is_f32 :: "int \<Rightarrow> ('t, u32) prog"
  is_enum :: "u64 \<Rightarrow> int \<Rightarrow> ('t, u64) prog"
  is_str :: "nat \<Rightarrow> int \<Rightarrow> ('t, byte list) prog"
  is_wstr :: "nat \<Rightarrow> int \<Rightarrow> ('t, wchar list) prog"
  is_raw :: "nat \<Rightarrow> ('t, byte list) prog"
  is_align :: "('t, unit) prog"
  is_reset :: "bool \<Rightarrow> ('t, unit) prog"
  is_getTotalSize :: "'t \<Rightarrow> nat"

section \<open>Writers and readers that agree\<close>

definition codes :: "('s \<Rightarrow> 'd list \<Rightarrow> bool) \<Rightarrow> ('t \<Rightarrow> nat \<Rightarrow> 'd list \<Rightarrow> bool) \<Rightarrow>
    ('s, unit) prog \<Rightarrow> ('t, 'a) prog \<Rightarrow> 'a \<Rightarrow> bool" where
  "codes orel irel m r v \<longleftrightarrow> (\<exists>enc.
     (\<forall>s ds. orel s ds \<longrightarrow> (\<exists>s'. m s = (Inr (), s') \<and> orel s' (ds @ enc (length ds)))) \<and>
     (\<forall>t p ds. irel t p (enc p @ ds) \<longrightarrow>
        (\<exists>t'. r t = (Inr v, t') \<and> irel t' (p + length (enc p)) ds)))"

lemma codesI:
  assumes "\<And>s ds. orel s ds \<Longrightarrow> \<exists>s'. m s = (Inr (), s') \<and> orel s' (ds @ enc (length ds))"
    and "\<And>t p ds. irel t p (enc p @ ds) \<Longrightarrow>
      \<exists>t'. r t = (Inr v, t') \<and> irel t' (p + length (enc p)) ds"
  shows "codes orel irel m r v"
  using assms unfolding codes_def by blast

lemma codes_ret: "codes orel irel skip (ret v) v"
  by (rule codesI [where enc = "\<lambda>_. []"]) (simp_all add: skip_def ret_def)

lemma codes_bind:
  assumes "codes orel irel m1 r1 v1" and "codes orel irel m2 (r2 v1) v2"
  shows "codes orel irel (bind m1 (\<lambda>_. m2)) (bind r1 r2) v2"
proof -
  from assms(1) obtain e1 where
    w1: "\<And>s ds. orel s ds \<Longrightarrow> \<exists>s'. m1 s = (Inr (), s') \<and> orel s' (ds @ e1 (length ds))" and
    r1: "\<And>t p ds. irel t p (e1 p @ ds) \<Longrightarrow>
      \<exists>t'. r1 t = (Inr v1, t') \<and> irel t' (p + length (e1 p)) ds"
    unfolding codes_def by blast
  from assms(2) obtain e2 where
    w2: "\<And>s ds. orel s ds \<Longrightarrow> \<exists>s'. m2 s = (Inr (), s') \<and> orel s' (ds @ e2 (length ds))" and
    r2: "\<And>t p ds. irel t p (e2 p @ ds) \<Longrightarrow>
      \<exists>t'. r2 v1 t = (Inr v2, t') \<and> irel t' (p + length (e2 p)) ds"
    unfolding codes_def by blast
  show ?thesis
  proof (rule codesI [where enc = "\<lambda>p. e1 p @ e2 (p + length (e1 p))"])
    fix s ds
    assume "orel s ds"
    then obtain s1 where s1: "m1 s = (Inr (), s1)" "orel s1 (ds @ e1 (length ds))"
      using w1 by blast
    from w2 [OF this(2)] s1(1)
    show "\<exists>s'. bind m1 (\<lambda>_. m2) s = (Inr (), s') \<and>
        orel s' (ds @ e1 (length ds) @ e2 (length ds + length (e1 (length ds))))"
      by (auto simp: bind_def)
  next
    fix t p ds
    assume "irel t p ((e1 p @ e2 (p + length (e1 p))) @ ds)"
    then obtain t1 where "r1 t = (Inr v1, t1)"
      "irel t1 (p + length (e1 p)) (e2 (p + length (e1 p)) @ ds)"
      using r1 [of t p] by auto
    with r2 show "\<exists>t'. bind r1 r2 t = (Inr v2, t') \<and>
        irel t' (p + length (e1 p @ e2 (p + length (e1 p)))) ds"
      by (fastforce simp: bind_def add.assoc)
  qed
qed

lemma bind_skip_right: "bind m (\<lambda>_. skip) = m"
proof
  fix s
  show "bind m (\<lambda>_. skip) s = m s"
    by (cases "m s"; cases "fst (m s)") (auto simp: bind_def skip_def)
qed

lemma codes_map: "codes orel irel m r v \<Longrightarrow> codes orel irel m (bind r (\<lambda>x. ret (f x))) (f v)"
  using codes_bind [of orel irel m r v skip "\<lambda>x. ret (f x)" "f v"] codes_ret [of orel irel "f v"]
  by (simp add: bind_skip_right)

lemma codes_pure:
  assumes "codes orel irel m r v" and "\<And>t. f v t = (Inr v', t)"
  shows "codes orel irel m (bind r f) v'"
proof -
  have "f v = ret v'" using assms(2) by (simp add: fun_eq_iff ret_def)
  with codes_bind [OF assms(1), of skip f v'] show ?thesis
    by (simp add: codes_ret bind_skip_right)
qed

lemma codes_cong:
  assumes "\<And>s ds. orel s ds \<Longrightarrow> m s = m' s" and "\<And>t p ds. irel t p ds \<Longrightarrow> r t = r' t"
    and "codes orel irel m' r' v"
  shows "codes orel irel m r v"
  using assms(3) unfolding codes_def by (metis assms(1,2))

text \<open>A sequence of items, each written by \<open>w\<close> and read by \<open>r\<close>.\<close>

fun read_times :: "nat \<Rightarrow> ('t, 'a) prog \<Rightarrow> ('t, 'a list) prog" where
  "read_times 0 r = ret []"
| "read_times (Suc n) r = bind r (\<lambda>x. bind (read_times n r) (\<lambda>xs. ret (x # xs)))"

lemma codes_for_each:
  assumes "\<And>x. x \<in> set xs \<Longrightarrow> codes orel irel (w x) r (f x)"
  shows "codes orel irel (for_each w xs) (read_times (length xs) r) (map f xs)"
  using assms
proof (induction xs)
  case Nil
  then show ?case by (simp add: codes_ret)
next
  case (Cons x xs)
  then have "codes orel irel (for_each w xs) (bind (read_times (length xs) r) (\<lambda>ys. ret (f x # ys)))
      (f x # map f xs)"
    by (intro codes_map [where f = "\<lambda>ys. f x # ys"]) simp
  with Cons.prems show ?case
    by (auto intro!: codes_bind)
qed

lemma codes_for_each_id:
  assumes "\<And>x. x \<in> set xs \<Longrightarrow> codes orel irel (w x) r x"
  shows "codes orel irel (for_each w xs) (read_times (length xs) r) xs"
  using codes_for_each [of xs orel irel w r "\<lambda>x. x"] assms by simp

end
