(* ===== verification/Unicode.thy ===== *)
theory Unicode
  imports Streams
begin

text \<open>
  The UTF-8 conversions of src/core/utility/Unicode.cpp for the platforms on which
  \<open>wchar_t\<close> is a signed 32-bit integer.  \<open>char\<close> values are bytes (the code only looks at
  them after a conversion to \<open>uint8_t\<close> or under a mask).  Strings that come from \<open>toUtf8\<close> are
  decoded by \<open>fromUtf8\<close> to what they were made from.
\<close>

definition invalidLeadingOctet :: "byte \<Rightarrow> bool" where
  "invalidLeadingOctet octet \<longleftrightarrow> 0x7f < octet \<and> octet < 0xc0 \<or> 0xfd < octet"

definition invalidContinuingOctet :: "byte \<Rightarrow> bool" where
  "invalidContinuingOctet octet \<longleftrightarrow> octet < 0x80 \<or> 0xbf < octet"

definition getOctetCount :: "byte \<Rightarrow> nat" where
  "getOctetCount leadOctet =
     (if leadOctet \<le> 0x7f then 1
      else if 0xc0 \<le> leadOctet \<and> leadOctet \<le> 0xdf then 2
      else if 0xe0 \<le> leadOctet \<and> leadOctet \<le> 0xef then 3
      else if 0xf0 \<le> leadOctet \<and> leadOctet \<le> 0xf7 then 4
      else if 0xf8 \<le> leadOctet \<and> leadOctet \<le> 0xfb then 5
      else 6)"

definition getContOctetCount :: "byte \<Rightarrow> nat" where
  "getContOctetCount leadOctet = getOctetCount leadOctet - 1"

definition getContOctetOutCount :: "wchar \<Rightarrow> nat" where
  "getContOctetOutCount wc =
     (if sint wc < 0x80 then 0
      else if sint wc < 0x800 then 1
      else if sint wc < 0x10000 then 2
      else if sint wc < 0x200000 then 3
      else if sint wc < 0x4000000 then 4
      else 5)"

definition outModifierTable :: "wchar list" where
  "outModifierTable = [0x00, 0xc0, 0xe0, 0xf0, 0xf8, 0xfc]"

text \<open>The octets of one character: the leading octet, then one for each step of
  \<open>shiftExponent\<close> down from \<open>6 * contOctetCount\<close>.\<close>

fun contOctets :: "wchar \<Rightarrow> nat \<Rightarrow> byte list" where
  "contOctets wc 0 = []"
| "contOctets wc (Suc k) = ucast (0x80 + (signed_drop_bit (6 * k) wc AND 0x3f)) # contOctets wc k"

definition octetsOf :: "wchar \<Rightarrow> byte list" where
  "octetsOf wc =
     (let contOctetCount = getContOctetOutCount wc in
      ucast (outModifierTable ! contOctetCount + signed_drop_bit (6 * contOctetCount) wc)
        # contOctets wc contOctetCount)"

text \<open>The test \<open>wc > numeric_limits<wchar_t>::max()\<close> never holds, so the loop sees every
  character.\<close>

definition toUtf8 :: "wchar list \<Rightarrow> byte list" where
  "toUtf8 ucs = concat (map octetsOf ucs)"

definition inModifierTable :: "wchar list" where
  "inModifierTable = [0xff, 0x1f, 0x0f, 0x07, 0x03, 0x01]"

definition minvalTable :: "int list" where
  "minvalTable = [0, 0x80, 0x800, 0x10000, 0x110000, 0x4000000]"

fun contChar :: "wchar \<Rightarrow> byte list \<Rightarrow> wchar option" where
  "contChar wc [] = Some wc"
| "contChar wc (contOctet # rest) =
     (if invalidContinuingOctet contOctet then None
      else contChar (push_bit 6 wc OR (ucast contOctet AND 0x3f)) rest)"

text \<open>Decoding stops at the first octet it cannot use and returns what it has.\<close>

fun fromUtf8 :: "byte list \<Rightarrow> wchar list" where
  "fromUtf8 [] = []"
| "fromUtf8 (octet # rest) =
     (if invalidLeadingOctet octet then []
      else let contOctetCount = getContOctetCount octet in
        if contOctetCount \<le> length rest then
          (case contChar (ucast octet AND inModifierTable ! contOctetCount)
                  (take contOctetCount rest) of
             None \<Rightarrow> []
           | Some wc \<Rightarrow>
               if sint wc < minvalTable ! contOctetCount then []
               else wc # fromUtf8 (drop contOctetCount rest))
        else [])"

section \<open>Round trip\<close>

lemma length_contOctets [simp]: "length (contOctets wc k) = k"
  by (induction k) auto

lemma signed_drop_bit_nonneg: "0 \<le> sint wc \<Longrightarrow> signed_drop_bit n wc = drop_bit n wc"
  for wc :: wchar
  using bit_last_iff [of wc]
  by (intro bit_word_eqI) (auto simp: bit_signed_drop_bit_iff bit_drop_bit_eq dest: bit_imp_le_length)

lemma ucast_of_unat: "(ucast w :: 'b::len word) = word_of_nat (unat w)"
  by (simp add: unsigned_ucast_eq of_nat_unat)

lemma unat_octet_of_nat: "k < 256 \<Longrightarrow> unat (ucast (word_of_nat k :: wchar) :: byte) = k"
  by (simp add: unsigned_of_nat take_bit_nat_eq_self)

lemma unat_octet_add:
  "t + n < 256 \<Longrightarrow> unat (ucast (word_of_nat t + word_of_nat n :: wchar) :: byte) = t + n"
  using unat_octet_of_nat [of "t + n"] by simp

lemma mask6: "(0x3f :: 'a::len word) = mask 6"
  by (simp add: mask_eq_decr_exp)

lemma cont_octet:
  fixes x :: wchar
  defines "o8 \<equiv> ucast (0x80 + (x AND 0x3f)) :: byte"
  shows "\<not> invalidContinuingOctet o8" and "ucast o8 AND 0x3f = x AND (0x3f :: wchar)"
proof -
  define n where "n = unat (x AND 0x3f)"
  have n: "n < 64"
    using take_bit_nat_less_exp [of 6 "unat x"]
    by (simp add: n_def mask6 unsigned_take_bit_eq flip: take_bit_eq_mask)
  have x: "x AND 0x3f = word_of_nat n" by (simp add: n_def)
  have u: "unat o8 = 128 + n"
    using unat_octet_add [of 128 n] n by (simp add: o8_def x)
  then show "\<not> invalidContinuingOctet o8"
    using n by (simp add: invalidContinuingOctet_def word_less_nat_alt)
  have "(ucast o8 :: wchar) = word_of_nat (128 + n)"
    using u by (metis ucast_of_unat)
  moreover have "(128 + n) mod 64 = n" using n mod_mult_self4 [of 64 2 n] by simp
  then have "take_bit 6 (128 + n) = n"
    by (simp add: take_bit_eq_mod)
  then have "take_bit 6 (word_of_nat (128 + n) :: wchar) = word_of_nat n"
    by (metis take_bit_of_nat)
  ultimately show "ucast o8 AND 0x3f = x AND (0x3f :: wchar)"
    unfolding x by (simp add: mask6 flip: take_bit_eq_mask)
qed

lemma contChar_contOctets:
  assumes "0 \<le> sint wc"
  shows "contChar (drop_bit (6 * k) wc) (contOctets wc k) = Some wc"
proof (induction k)
  case 0
  then show ?case by simp
next
  case (Suc k)
  have "push_bit 6 (drop_bit (6 * Suc k) wc) OR (drop_bit (6 * k) wc AND 0x3f) = drop_bit (6 * k) wc"
    by (rule bit_word_eqI)
      (auto simp: mask6 bit_or_iff bit_and_iff bit_push_bit_iff bit_drop_bit_eq bit_mask_iff add.commute)
  with Suc cont_octet [of "drop_bit (6 * k) wc"] show ?case
    by (simp add: signed_drop_bit_nonneg [OF assms])
qed

text \<open>The leading octet determines its count and carries the high bits.\<close>

lemma lead_octet:
  assumes "c < 6" and "unat x < [0x80, 0x20, 0x10, 0x08, 0x04, 0x02] ! c"
  defines "l \<equiv> ucast (outModifierTable ! c + x) :: byte"
  shows "\<not> invalidLeadingOctet l" and "getContOctetCount l = c"
    and "ucast l AND inModifierTable ! c = x"
proof -
  define n where "n = unat x"
  have x: "x = word_of_nat n" by (simp add: n_def)
  have c: "c = 0 \<or> c = 1 \<or> c = 2 \<or> c = 3 \<or> c = 4 \<or> c = 5"
    using assms(1) by arith
  define t where "t = [0x00, 0xc0, 0xe0, 0xf0, 0xf8, 0xfc :: nat] ! c"
  have tn: "t + n < 256" using c assms(2) by (auto simp: t_def n_def)
  have "outModifierTable ! c = word_of_nat t"
    using c by (auto simp: t_def outModifierTable_def)
  then have u: "unat l = t + n"
    using unat_octet_add [OF tn] by (simp add: l_def x)
  have L: "n < [0x80, 0x20, 0x10, 0x08, 0x04, 0x02] ! c" using assms(2) by (simp add: n_def)
  show "\<not> invalidLeadingOctet l" and "getContOctetCount l = c"
    using c L u
    by (auto simp: t_def invalidLeadingOctet_def getContOctetCount_def getOctetCount_def
        word_less_nat_alt word_le_nat_alt)
  define m where "m = [8, 5, 4, 3, 2, 1 :: nat] ! c"
  have "inModifierTable ! c = mask m"
    using c by (auto simp: m_def inModifierTable_def mask_eq_decr_exp)
  moreover have "(ucast l :: wchar) = word_of_nat (t + n)"
    using u by (metis ucast_of_unat)
  moreover have "take_bit m (t + n) = n"
    using c L mod_mult_self4 [of 32 6 n] mod_mult_self4 [of 16 14 n] mod_mult_self4 [of 8 30 n]
      mod_mult_self4 [of 4 62 n] mod_mult_self4 [of 2 126 n]
    by (auto simp: m_def t_def take_bit_eq_mod)
  then have "take_bit m (word_of_nat (t + n) :: wchar) = word_of_nat n"
    by (metis take_bit_of_nat)
  ultimately show "ucast l AND inModifierTable ! c = x"
    unfolding x by (simp flip: take_bit_eq_mask)
qed

lemma out_count:
  assumes "0 \<le> sint wc"
  defines "c \<equiv> getContOctetOutCount wc"
  shows "c < 6" and "unat (drop_bit (6 * c) wc) < [0x80, 0x20, 0x10, 0x08, 0x04, 0x02] ! c"
    and "\<not> sint wc < minvalTable ! c"
proof -
  show "c < 6" by (simp add: c_def getContOctetOutCount_def)
  show "\<not> sint wc < minvalTable ! c"
    using assms(1) by (simp add: c_def getContOctetOutCount_def minvalTable_def)
  have lt: "sint wc < 2 ^ 31"
    using sint_lt [of wc] by simp
  define u where "u = unat wc"
  have "sint wc = int u"
    using assms(1) lt by (simp add: u_def uint_sint take_bit_int_eq_self)
  moreover have "unat (drop_bit (6 * c) wc) = u div 2 ^ (6 * c)"
    unfolding u_def
    using unsigned_less [of wc, where ?'a = nat]
    by (simp add: unsigned_drop_bit_eq take_bit_nat_eq_self flip: drop_bit_eq_div)
  moreover note lt
  ultimately show "unat (drop_bit (6 * c) wc) < [0x80, 0x20, 0x10, 0x08, 0x04, 0x02] ! c"
    using assms(1) by (auto simp: c_def getContOctetOutCount_def div_less_iff_less_mult split: if_splits)
qed

lemma fromUtf8_octetsOf:
  assumes "0 \<le> sint wc"
  shows "fromUtf8 (octetsOf wc @ rest) = wc # fromUtf8 rest"
  using lead_octet [OF out_count(1,2) [OF assms]] out_count(3) [OF assms]
    contChar_contOctets [OF assms, of "getContOctetOutCount wc"]
  by (simp add: octetsOf_def Let_def signed_drop_bit_nonneg [OF assms])

lemma fromUtf8_toUtf8:
  "\<forall>wc \<in> set ucs. 0 \<le> sint wc \<Longrightarrow> fromUtf8 (toUtf8 ucs) = ucs"
  by (induction ucs) (simp_all add: toUtf8_def fromUtf8_octetsOf)

lemma length_toUtf8: "length (toUtf8 ucs) \<le> 6 * length ucs" "length ucs \<le> length (toUtf8 ucs)"
  by (induction ucs) (auto simp: toUtf8_def octetsOf_def Let_def getContOctetOutCount_def)

section \<open>Properties\<close>

text \<open>\<open>fromUtf8\<close> gives back every string of non-negative characters from its encoding by
  \<open>toUtf8\<close>.\<close>

lemma utf8_roundtrip: "\<forall>wc \<in> set ucs. 0 \<le> sint wc \<Longrightarrow> fromUtf8 (toUtf8 ucs) = ucs"
  by (rule fromUtf8_toUtf8)

end
