(* ===== verification/Stream_Codec.thy ===== *)
theory Stream_Codec
  imports Unicode
begin

text \<open>
  The contract between \<open>OStream\<close> and \<open>IStream\<close>: every \<open>write\<close> overload is undone by the \<open>read\<close>
  overload of the same type and bit count.  The side conditions are those under which the
  code keeps the promise: the value fits into the bit count; the bit count is one for which
  the reader's mask is defined (below 31, or the full width); a string fits into its
  length field, its maximum and the 16-bit length of the raw overload.  An empty string is
  covered only by implementations with \<open>empty_ok\<close>: the bit stream aligns after writing one but
  not after reading one.
\<close>

section \<open>Bit counts and values\<close>

definition streamable :: "nat \<Rightarrow> nat \<Rightarrow> int \<Rightarrow> bool" where
  "streamable width stream_width n \<longleftrightarrow>
     isEnoughBits width n \<and> (nat n < 31 \<or> nat n = stream_width)"

definition fits :: "int \<Rightarrow> 'a::len word \<Rightarrow> bool" where
  "fits n v \<longleftrightarrow> take_bit (nat n) v = v"

definition fits_signed :: "int \<Rightarrow> 'a::len word \<Rightarrow> bool" where
  "fits_signed n v \<longleftrightarrow> signed_take_bit (nat n - 1) v = v"

definition str_fits :: "nat \<Rightarrow> int \<Rightarrow> 'a list \<Rightarrow> bool" where
  "str_fits maxLength sizeBits cs \<longleftrightarrow> (sizeBits = 8 \<or> sizeBits = 16) \<and>
     length cs \<le> maxLength \<and> length cs < 2 ^ nat sizeBits"

definition wstr_fits :: "nat \<Rightarrow> int \<Rightarrow> wchar list \<Rightarrow> bool" where
  "wstr_fits maxLength sizeBits cs \<longleftrightarrow> str_fits maxLength sizeBits (toUtf8 cs) \<and>
     4 * length cs < 65536 \<and> (\<forall>wc \<in> set cs. 0 \<le> sint wc)"

text \<open>The enumeration readers of IStream.h: a variable of 64 bits is read and cast to the
  type of the enumeration, which keeps its \<open>Bits<T>::size\<close> low bits.\<close>

definition enum_read :: "'t istream_ops \<Rightarrow> u64 \<Rightarrow> int \<Rightarrow> ('t, u64) prog" where
  "enum_read IS aValue bits = bind (is_enum IS aValue bits) (\<lambda>v. ret (take_bit (nat bits) v))"

section \<open>The contract\<close>

locale stream_codec =
  fixes OS :: "'s ostream_ops" and IS :: "'t istream_ops"
    and orel :: "'s \<Rightarrow> 'd list \<Rightarrow> bool" and irel :: "'t \<Rightarrow> nat \<Rightarrow> 'd list \<Rightarrow> bool"
    and empty_ok :: bool
  assumes codes_u64: "streamable 64 64 n \<Longrightarrow> fits n v64 \<Longrightarrow>
      codes orel irel (os_u64 OS v64 n) (is_u64 IS n) v64"
    and codes_u32: "streamable 32 32 n \<Longrightarrow> fits n v32 \<Longrightarrow>
      codes orel irel (os_u32 OS v32 n) (is_u32 IS n) v32"
    and codes_u16: "streamable 16 32 n \<Longrightarrow> fits n v16 \<Longrightarrow>
      codes orel irel (os_u16 OS v16 n) (is_u16 IS n) v16"
    and codes_u8: "streamable 8 32 n \<Longrightarrow> fits n v8 \<Longrightarrow>
      codes orel irel (os_u8 OS v8 n) (is_u8 IS n) v8"
    and codes_bool: "streamable 1 32 n \<Longrightarrow> codes orel irel (os_bool OS b n) (is_bool IS n) b"
    and codes_i64: "streamable 64 64 n \<Longrightarrow> fits_signed n v64 \<Longrightarrow>
      codes orel irel (os_i64 OS v64 n) (is_i64 IS n) v64"
    and codes_i32: "streamable 32 32 n \<Longrightarrow> fits_signed n v32 \<Longrightarrow>
      codes orel irel (os_i32 OS v32 n) (is_i32 IS n) v32"
    and codes_i16: "streamable 16 32 n \<Longrightarrow> fits_signed n v16 \<Longrightarrow>
      codes orel irel (os_i16 OS v16 n) (is_i16 IS n) v16"
    and codes_i8: "streamable 8 32 n \<Longrightarrow> fits_signed n v8 \<Longrightarrow>
      codes orel irel (os_i8 OS v8 n) (is_i8 IS n) v8"
    and codes_f32: "codes orel irel (os_f32 OS v32 32) (is_f32 IS 32) v32"
    and codes_enum: "streamable 64 64 n \<Longrightarrow> fits n v64 \<Longrightarrow>
      codes orel irel (os_enum OS v64 n) (enum_read IS g n) v64"
    and codes_str: "str_fits maxLength n cs \<Longrightarrow> cs \<noteq> [] \<or> empty_ok \<Longrightarrow>
      codes orel irel (os_str OS cs maxLength n) (is_str IS maxLength n) cs"
    and codes_wstr: "wstr_fits maxLength n ws \<Longrightarrow> ws \<noteq> [] \<or> empty_ok \<Longrightarrow>
      codes orel irel (os_wstr OS ws maxLength n) (is_wstr IS maxLength n) ws"
    and codes_raw: "length bs < 65536 \<Longrightarrow> codes orel irel (os_raw OS bs) (is_raw IS (length bs)) bs"
    and codes_align: "codes orel irel (os_align OS) (is_align IS) ()"

section \<open>Facts the two implementations share\<close>

lemma fits_full [simp]: "LENGTH('a) \<le> nat n \<Longrightarrow> fits n (v :: 'a::len word)"
  by (simp add: fits_def take_bit_word_eq_self)

lemma fits_signed_full [simp]:
  "LENGTH('a) \<le> nat n \<Longrightarrow> fits_signed n (v :: 'a::len word)"
  unfolding fits_signed_def
  by (rule bit_word_eqI) (auto simp: bit_signed_take_bit_iff min_def le_less)

lemma str_fits_length:
  assumes "str_fits maxLength n cs"
  shows "length cs < 65536" and "min (length cs) maxLength = length cs"
    and "take maxLength cs = cs"
  using assms by (auto simp: str_fits_def)

lemma unat_of_length: "k < 65536 \<Longrightarrow> unat (word_of_nat k :: u32) = k"
  "k < 65536 \<Longrightarrow> unat (word_of_nat k :: u16) = k"
  "k < 65536 \<Longrightarrow> unat (ucast (word_of_nat k :: u32) :: u16) = k"
  by (simp_all add: unsigned_of_nat take_bit_nat_eq_self)

lemma fits_length: "str_fits maxLength n cs \<Longrightarrow> fits n (word_of_nat (length cs) :: u32)"
  by (simp add: fits_def str_fits_def take_bit_of_nat take_bit_nat_eq_self)

text \<open>\<open>wchar_t\<close> arrays as memory.\<close>

fun wchars_of_bytes :: "byte list \<Rightarrow> wchar list" where
  "wchars_of_bytes (a # b # c # d # rest) = word_of_bytes [a, b, c, d] # wchars_of_bytes rest"
| "wchars_of_bytes _ = []"

definition bytes_of_wchars :: "wchar list \<Rightarrow> byte list" where
  "bytes_of_wchars ws = concat (map (bytes_of 4) ws)"

lemma length_bytes_of_wchars [simp]: "length (bytes_of_wchars ws) = 4 * length ws"
  by (induction ws) (simp_all add: bytes_of_wchars_def)

lemma wchars_of_bytes_append:
  "length xs = 4 \<Longrightarrow> wchars_of_bytes (xs @ ys) = word_of_bytes xs # wchars_of_bytes ys"
  by (cases xs; cases "tl xs"; cases "tl (tl xs)"; cases "tl (tl (tl xs))") auto

lemma wchars_of_bytes_of_wchars [simp]: "wchars_of_bytes (bytes_of_wchars ws) = ws"
  by (induction ws)
    (simp_all add: bytes_of_wchars_def wchars_of_bytes_append word_of_bytes_bytes_of)

lemma codes_cut:
  assumes "codes orel irel m r v" and "length v \<le> maxLength"
  shows "codes orel irel m
    (bind r (\<lambda>value. ret (if maxLength < length value then take maxLength value else value))) v"
  using assms(2) by (intro codes_pure [OF assms(1)]) (simp add: ret_def)

lemma wstr_fits_length:
  assumes "wstr_fits maxLength n ws"
  shows "str_fits maxLength n ws" and "str_fits maxLength n (toUtf8 ws)"
    and "fromUtf8 (toUtf8 ws) = ws" and "4 * length ws < 65536" and "take maxLength ws = ws"
    and "\<not> maxLength < length ws"
  using assms length_toUtf8(2) [of ws] fromUtf8_toUtf8 [of ws]
  by (auto simp: wstr_fits_def str_fits_def)

end
