(* ===== verification/Bit_Codec.thy ===== *)
theory Bit_Codec
  imports Stream_Codec Memory_Block
begin

text \<open>
  The typed operations of \<open>OBitStream\<close> and \<open>IBitStream\<close> (include/sne/core/stream/detail/OBitStream.h,
  IBitStream.h and the string overloads of the .cpp files), assembled into \<open>OStream\<close> and
  \<open>IStream\<close> records.  Over every growing buffer the pair meets the contract \<open>stream_codec\<close>;
  in particular over memory blocks.
\<close>

section \<open>OBitStream\<close>

definition obs_str :: "'b stream_buffer_ops \<Rightarrow> byte list \<Rightarrow> nat \<Rightarrow> int \<Rightarrow> ('b obitstream, unit) prog"
  where
  "obs_str ops value maxLength sizeBitCount =
     (let strLen = word_of_nat (min (length value) maxLength) :: u32 in
      bind (writeBitsImpl ops strLen sizeBitCount) (\<lambda>_.
      obs_writeRaw ops (take (unat (ucast strLen :: u16)) value)))"

definition obs_wstr :: "'b stream_buffer_ops \<Rightarrow> wchar list \<Rightarrow> nat \<Rightarrow> int \<Rightarrow> ('b obitstream, unit) prog"
  where
  "obs_wstr ops value maxLength sizeBitCount = bind (gets ob_useUtf8) (\<lambda>shouldUseUtf8ForString.
     if shouldUseUtf8ForString then
       let realValue = if maxLength < length value then take maxLength value else value;
           utf8 = toUtf8 realValue;
           strLen = word_of_nat (min (length utf8) maxLength) :: u32 in
       bind (writeBitsImpl ops strLen sizeBitCount) (\<lambda>_.
       obs_writeRaw ops (take (unat (ucast strLen :: u16)) utf8))
     else
       let strLen = word_of_nat (min (length value) maxLength) :: u32 in
       bind (writeBitsImpl ops strLen sizeBitCount) (\<lambda>_.
       obs_writeRaw ops (take (unat (word_of_nat (unat strLen * 4) :: u16)) (bytes_of_wchars value))))"

definition obs_ops :: "'b stream_buffer_ops \<Rightarrow> 'b obitstream ostream_ops" where
  "obs_ops ops =
     \<lparr>os_u64 = (\<lambda>value bitCount. writeBitsImpl ops value bitCount),
      os_u32 = (\<lambda>value bitCount. writeBitsImpl ops value bitCount),
      os_u16 = (\<lambda>value bitCount. writeBitsImpl ops (ucast value :: u32) bitCount),
      os_u8 = (\<lambda>value bitCount. writeBitsImpl ops (ucast value :: u32) bitCount),
      os_bool = (\<lambda>value bitCount. writeBitsImpl ops (of_bool value :: u32) bitCount),
      os_i64 = (\<lambda>value bitCount. writeBitsImpl ops value bitCount),
      os_i32 = (\<lambda>value bitCount. writeBitsImpl ops value bitCount),
      os_i16 = (\<lambda>value bitCount. writeBitsImpl ops (scast value :: u32) bitCount),
      os_i8 = (\<lambda>value bitCount. writeBitsImpl ops (scast value :: u32) bitCount),
      os_f32 = (\<lambda>value bitCount. writeBitsImpl ops value 32),
      os_enum = (\<lambda>value bitCount. writeBitsImpl ops value bitCount),
      os_str = obs_str ops,
      os_wstr = obs_wstr ops,
      os_raw = obs_writeRaw ops,
      os_align = obs_align ops,
      os_reset = obs_reset ops,
      os_getTotalSize = obs_getTotalSize ops\<rparr>"

section \<open>IBitStream\<close>

definition readNumeric :: "'b stream_buffer_ops \<Rightarrow> int \<Rightarrow> ('b ibitstream, 'a::len word) prog" where
  "readNumeric ops bitCount =
     bind (readBitsImpl ops bitCount) (\<lambda>numeric :: u32. ret (ucast numeric))"

definition signExtend :: "nat \<Rightarrow> int \<Rightarrow> 'a::len word \<Rightarrow> ('s, 'a word) prog" where
  "signExtend bits bitCount value =
     (if bitCount < int bits then
        bind (intMask (nat bitCount)) (\<lambda>mask.
        let sign = drop_bit (nat bitCount - 1) (value AND mask) in
        ret (if sign \<noteq> 0 then value OR NOT mask else value))
      else ret value)"

definition readSignedNumeric :: "'b stream_buffer_ops \<Rightarrow> int \<Rightarrow> ('b ibitstream, 'a::len word) prog"
  where
  "readSignedNumeric ops bitCount =
     bind (readBitsImpl ops bitCount) (\<lambda>numeric :: u32.
     bind (signExtend LENGTH('a) bitCount numeric) (\<lambda>numeric.
     ret (ucast numeric)))"

definition ibs_i64 :: "'b stream_buffer_ops \<Rightarrow> int \<Rightarrow> ('b ibitstream, u64) prog" where
  "ibs_i64 ops bitCount =
     bind (readBitsImpl ops bitCount) (\<lambda>value. signExtend 64 bitCount value)"

definition ibs_bool :: "'b stream_buffer_ops \<Rightarrow> int \<Rightarrow> ('b ibitstream, bool) prog" where
  "ibs_bool ops bitCount =
     bind (readNumeric ops bitCount) (\<lambda>numeric :: u32. ret (numeric \<noteq> 0))"

text \<open>A string is resized to the announced length (filled with zeros) before the raw bytes
  are read over its front.\<close>

definition ibs_chars :: "'b stream_buffer_ops \<Rightarrow> nat \<Rightarrow> nat \<Rightarrow> ('b ibitstream, byte list) prog" where
  "ibs_chars ops bufSize length16 =
     bind (ibs_readRaw ops length16) (\<lambda>xs. ret (xs @ replicate (bufSize - length16) 0))"

definition ibs_str :: "'b stream_buffer_ops \<Rightarrow> nat \<Rightarrow> int \<Rightarrow> ('b ibitstream, byte list) prog" where
  "ibs_str ops maxLength sizeBits =
     bind (readNumeric ops sizeBits) (\<lambda>strLen :: u32.
     if 0 < strLen then
       bind (ibs_chars ops (unat strLen) (unat (ucast strLen :: u16))) (\<lambda>value.
       ret (if maxLength < length value then take maxLength value else value))
     else ret [])"

definition ibs_wstr :: "'b stream_buffer_ops \<Rightarrow> nat \<Rightarrow> int \<Rightarrow> ('b ibitstream, wchar list) prog" where
  "ibs_wstr ops maxLength sizeBits =
     bind (readNumeric ops sizeBits) (\<lambda>strLen :: u32.
     if 0 < strLen then
       bind (gets ib_useUtf8) (\<lambda>shouldUseUtf8ForString.
       bind (if shouldUseUtf8ForString
             then bind (ibs_chars ops (unat strLen) (unat (ucast strLen :: u16)))
                    (\<lambda>utf8. ret (fromUtf8 utf8))
             else bind (ibs_chars ops (4 * unat strLen) (unat (word_of_nat (unat strLen * 4) :: u16)))
                    (\<lambda>bytes. ret (wchars_of_bytes bytes))) (\<lambda>value.
       ret (if maxLength < length value then take maxLength value else value)))
     else ret [])"

definition ibs_ops :: "'b stream_buffer_ops \<Rightarrow> 'b ibitstream istream_ops" where
  "ibs_ops ops =
     \<lparr>is_u64 = readBitsImpl ops,
      is_u32 = readNumeric ops,
      is_u16 = readNumeric ops,
      is_u8 = readNumeric ops,
      is_bool = ibs_bool ops,
      is_i64 = ibs_i64 ops,
      is_i32 = readSignedNumeric ops,
      is_i16 = readSignedNumeric ops,
      is_i8 = readSignedNumeric ops,
      is_f32 = readNumeric ops,
      is_enum = (\<lambda>_. readBitsImpl ops),
      is_str = ibs_str ops,
      is_wstr = ibs_wstr ops,
      is_raw = ibs_readRaw ops,
      is_align = ibs_align ops,
      is_reset = ibs_reset ops,
      is_getTotalSize = (\<lambda>s. nat (toBytes (int (ibs_getTotalBitCount ops s))))\<rparr>"

section \<open>The contract holds\<close>

definition obs_at :: "('b \<Rightarrow> bool) \<Rightarrow> ('b \<Rightarrow> byte list) \<Rightarrow> bool \<Rightarrow> 'b obitstream \<Rightarrow> bool list \<Rightarrow> bool" where
  "obs_at invar contents utf8 s bs \<longleftrightarrow> obs_rel invar contents s bs \<and> ob_useUtf8 s = utf8"

definition ibs_at ::
    "('b \<Rightarrow> bool) \<Rightarrow> ('b \<Rightarrow> byte list) \<Rightarrow> bool \<Rightarrow> 'b ibitstream \<Rightarrow> nat \<Rightarrow> bool list \<Rightarrow> bool" where
  "ibs_at invar contents utf8 s p bs \<longleftrightarrow> ibs_inv invar contents s \<and> bitReadCount s = p mod 8 \<and>
     ibs_bits contents s = bs \<and> ib_useUtf8 s = utf8"

lemma word_of_bits_append_take [simp]:
  "word_of_bits (take n (bits_of n v @ bs)) = take_bit n (v :: 'a::len word)"
  by (simp add: word_of_bits_bits_of)

lemma word_of_bits_word:
  assumes "n \<le> LENGTH('b)"
  shows "word_of_bits (bits_of n (v :: 'a::len word)) = (ucast (take_bit n v) :: 'b::len word)"
  by (rule bit_word_eqI)
    (use assms in \<open>auto simp: bit_word_of_bits nth_bits_of bit_ucast_iff bit_take_bit_iff\<close>)

lemma signed_take_bit_or:
  fixes v :: "'a::len word"
  assumes "Suc m < LENGTH('a)"
  shows "(if drop_bit m (take_bit (Suc m) v AND mask (Suc m)) \<noteq> 0
    then take_bit (Suc m) v OR NOT (mask (Suc m)) else take_bit (Suc m) v) = signed_take_bit m v"
proof -
  have "drop_bit m (take_bit (Suc m) v AND mask (Suc m)) = of_bool (bit v m)"
    by (rule bit_word_eqI)
      (auto simp: bit_drop_bit_eq bit_and_iff bit_take_bit_iff bit_mask_iff bit_of_bool_iff
        dest: bit_imp_le_length)
  then show ?thesis
    using assms
    by (auto intro!: bit_word_eqI simp: bit_or_iff bit_not_iff bit_mask_iff bit_take_bit_iff
      bit_signed_take_bit_iff min_def less_Suc_eq_le not_less_eq_eq le_antisym split: if_splits
      dest: le_antisym) (metis le_less Suc_leI)
qed

lemma ucast_signed_take_bit:
  "(ucast (signed_take_bit (LENGTH('a) - Suc 0) v) :: 'a::len word) = ucast (take_bit LENGTH('a) v)"
  by (rule bit_word_eqI)
    (auto simp: bit_ucast_iff bit_take_bit_iff bit_signed_take_bit_iff min_absorb1 Suc_leI
      dest: bit_imp_le_length)

lemma signExtend_run:
  fixes v :: "'a::len word"
  assumes "0 < n" and "n < 31 \<or> int bits \<le> n" and "bits \<le> LENGTH('a)"
  shows "signExtend bits n (take_bit (nat n) v) t =
    (Inr (if n < int bits then signed_take_bit (nat n - 1) v else take_bit (nat n) v), t)"
proof -
  have "push_bit (nat n) 1 - 1 = (mask (nat n) :: 'a word)"
    by (simp add: mask_eq_decr_exp push_bit_eq_mult)
  moreover have "nat n < LENGTH('a)" if "n < int bits"
    using that assms by linarith
  ultimately show ?thesis
    using assms signed_take_bit_or [of "nat n - 1" v]
    by (auto simp: signExtend_def intMask_def bind_def ret_def Let_def simp del: push_bit_of_1)
qed

context growing_stream_buffer
begin

lemma codes_bits:
  fixes v :: "'a::len word"
  assumes "streamable LENGTH('a) LENGTH('a) n" and "8 \<le> LENGTH('a)"
  shows "codes (obs_at invar contents u) (ibs_at invar contents u)
    (writeBitsImpl ops v n) (readBitsImpl ops n) (take_bit (nat n) v)"
proof (rule codesI [where enc = "\<lambda>_. bits_of (nat n) v"])
  from assms(1) have enough: "isEnoughBits LENGTH('a) n" by (simp add: streamable_def)
  show "\<exists>s'. writeBitsImpl ops v n s = (Inr (), s') \<and> obs_at invar contents u s' (ds @ bits_of (nat n) v)"
    if "obs_at invar contents u s ds" for s ds
    using writeBitsImpl_run [OF _ enough assms(2), of s ds v] that by (auto simp: obs_at_def)
  show "\<exists>t'. readBitsImpl ops n t = (Inr (take_bit (nat n) v), t') \<and>
      ibs_at invar contents u t' (p + length (bits_of (nat n) v)) ds"
    if "ibs_at invar contents u t p (bits_of (nat n) v @ ds)" for t p ds
    using readBitsImpl_steps [where 'a = 'a, OF _ enough assms(2), of t] that assms(1)
    by (auto simp: ibs_at_def streamable_def mod_add_left_eq word_of_bits_bits_of)
qed

lemma codes_numeric:
  assumes "streamable 32 32 n"
  shows "codes (obs_at invar contents u) (ibs_at invar contents u)
    (writeBitsImpl ops (v :: u32) n) (readNumeric ops n) (ucast (take_bit (nat n) v))"
  unfolding readNumeric_def using assms by (intro codes_map codes_bits) simp_all

lemma codes_signed:
  assumes "streamable 32 32 n" and "n \<le> int LENGTH('a)" and "n < 31 \<or> n = int LENGTH('a)"
    and "LENGTH('a) \<le> 32"
  shows "codes (obs_at invar contents u) (ibs_at invar contents u)
    (writeBitsImpl ops (v :: u32) n) (readSignedNumeric ops n)
    (ucast (signed_take_bit (nat n - 1) v) :: 'a::len word)"
  unfolding readSignedNumeric_def
proof (rule codes_pure [OF codes_bits])
  fix t :: "'b ibitstream"
  have "0 < n" using assms(1) by (simp add: streamable_def isEnoughBits_def)
  show "bind (signExtend LENGTH('a) n (take_bit (nat n) v)) (\<lambda>numeric. ret (ucast numeric)) t =
      (Inr (ucast (signed_take_bit (nat n - 1) v) :: 'a word), t)"
    using assms signExtend_run [OF \<open>0 < n\<close>, of "LENGTH('a)" v t]
    by (auto simp: bind_def ret_def ucast_signed_take_bit)
qed (use assms in simp_all)

lemma obs_align_run:
  assumes s: "obs_at invar contents u s ds"
  shows "\<exists>s'. obs_align ops s = (Inr (), s') \<and>
    obs_at invar contents u s' (ds @ replicate (pad_count (length ds)) False)"
proof -
  define h where "h = length ds mod 8"
  have h: "holdingBitCount s = h" "h < 8" using s by (simp_all add: obs_at_def obs_rel_def h_def)
  show ?thesis
  proof (cases "h = 0")
    case True
    with s h show ?thesis
      by (simp add: obs_align_def prog_simps h_def)
  next
    case False
    then have "isEnoughBits 32 (8 - int h)" using h by (simp add: isEnoughBits_def)
    moreover have "bits_of (8 - h) (0 :: u32) = replicate (8 - h) False"
      by (rule nth_equalityI) (simp_all add: nth_bits_of)
    moreover have "nat (8 - int h) = 8 - h" using h by simp
    ultimately show ?thesis
      using writeBitsImpl_run [of s ds "8 - int h" "0 :: u32"] s h False
      by (auto simp: obs_align_def prog_simps obs_at_def simp flip: h_def)
  qed
qed

lemma ibs_align_run:
  assumes t: "ibs_at invar contents u t p (replicate (pad_count p) False @ ds)"
  shows "\<exists>t'. ibs_align ops t = (Inr (), t') \<and> ibs_at invar contents u t' (p + pad_count p) ds"
proof -
  define r where "r = p mod 8"
  have r: "bitReadCount t = r" "r < 8" and inv: "ibs_inv invar contents t" "invar (ib_buffer t)"
    using t by (simp_all add: ibs_at_def ibs_inv_def r_def)
  show ?thesis
  proof (cases "r = 0")
    case True
    with t r show ?thesis
      by (auto simp: ibs_align_def prog_simps ibs_at_def ibs_inv_def ibs_bits_def r_def)
  next
    case False
    then obtain c cs where c: "contents (ib_buffer t) = c # cs"
      using inv r by (cases "contents (ib_buffer t)") (auto simp: ibs_inv_def)
    let ?t = "t\<lparr>ib_buffer := snd (sb_pop ops (ib_buffer t)), bitReadCount := 0\<rparr>"
    have "drop (8 - r) (ibs_bits contents t) = ds"
      using t r False by (simp add: ibs_at_def flip: r_def)
    then have "bits_of_bytes cs = ds"
      using r c by (simp add: ibs_bits_def bits_simps)
    then have "ibs_at invar contents u ?t (p + pad_count p) ds"
      using t inv c
      by (simp add: ibs_at_def ibs_inv_def ibs_bits_def pop_invar pop_contents flip: byte_count_bits)
    moreover have "ibs_align ops t = (Inr (), ?t)"
      using r False inv
      by (simp add: ibs_align_def prog_simps on_ibuf_def bind_run [where x = "()"] pop_ok)
    ultimately show ?thesis by blast
  qed
qed

lemma codes_obs_align:
  "codes (obs_at invar contents u) (ibs_at invar contents u) (obs_align ops) (ibs_align ops) ()"
  using obs_align_run ibs_align_run
  by (intro codesI [where enc = "\<lambda>p. replicate (pad_count p) False"]) auto

lemma obs_copy_run:
  assumes "obs_at invar contents u s ds" and "length ds mod 8 = 0"
  shows "\<exists>b. sb_copyFrom ops xs (ob_buffer s) = (Inr (), b) \<and>
    obs_at invar contents u (s\<lparr>ob_buffer := b, totalBitCount := k\<rparr>) (ds @ bits_of_bytes xs)"
proof -
  let ?b = "snd (sb_copyFrom ops xs (ob_buffer s))"
  have inv: "invar (ob_buffer s)" using assms by (simp add: obs_at_def obs_rel_def)
  note run = run_copyFrom [OF inv, of xs]
  with copyFrom_Inr [OF inv run] assms
  have "obs_at invar contents u (s\<lparr>ob_buffer := ?b, totalBitCount := k\<rparr>) (ds @ bits_of_bytes xs)"
    by (simp add: obs_at_def obs_rel_def bits_simps mod_add_eq [symmetric])
  with run show ?thesis by blast
qed

lemma ibs_copy_run:
  assumes t: "ibs_at invar contents u t p (bits_of_bytes xs @ ds)" and p: "p mod 8 = 0"
  shows "\<exists>t'. on_ibuf (sb_copyTo ops (length xs)) t = (Inr xs, t') \<and>
    ibs_at invar contents u t' (p + 8 * length xs) ds"
proof -
  let ?c = "contents (ib_buffer t)"
  have inv: "invar (ib_buffer t)" and bits: "bits_of_bytes ?c = bits_of_bytes xs @ ds"
    and r: "bitReadCount t = 0"
    using t p by (auto simp: ibs_at_def ibs_inv_def ibs_bits_def)
  from arg_cong [OF bits, of length] have len: "length xs \<le> length ?c" by simp
  from arg_cong [OF bits, of "take (8 * length xs)"] have "take (length xs) ?c = xs"
    using bits_of_bytes_inject by (simp add: take_bits_of_bytes)
  moreover from arg_cong [OF bits, of "drop (8 * length xs)"]
  have ds: "bits_of_bytes (drop (length xs) ?c) = ds"
    by (simp add: drop_bits_of_bytes)
  ultimately obtain b where b: "sb_copyTo ops (length xs) (ib_buffer t) = (Inr xs, b)"
    using run_copyTo [OF inv len] by metis
  have "invar b" "contents b = drop (length xs) ?c"
    using copyTo_contents [OF inv len] copyTo_invar [OF inv, of "length xs"] b by simp_all
  then have "ibs_at invar contents u (t\<lparr>ib_buffer := b\<rparr>) (p + 8 * length xs) ds"
    using t p r ds by (simp add: ibs_at_def ibs_inv_def ibs_bits_def)
  with b show ?thesis
    by (simp add: on_ibuf_def zoom_def)
qed

lemma codes_obs_raw:
  "codes (obs_at invar contents u) (ibs_at invar contents u) (obs_writeRaw ops xs)
    (ibs_readRaw ops (length xs)) xs"
proof (rule codesI [where enc = "\<lambda>p. replicate (pad_count p) False @ bits_of_bytes xs"])
  fix s ds
  assume "obs_at invar contents u s ds"
  from obs_align_run [OF this] obtain s1 where s1: "obs_align ops s = (Inr (), s1)"
    "obs_at invar contents u s1 (ds @ replicate (pad_count (length ds)) False)" by blast
  moreover have "length (ds @ replicate (pad_count (length ds)) False) mod 8 = 0"
    by (simp flip: byte_count_bits)
  ultimately show "\<exists>s'. obs_writeRaw ops xs s = (Inr (), s') \<and> obs_at invar contents u s'
      (ds @ replicate (pad_count (length ds)) False @ bits_of_bytes xs)"
    using obs_copy_run [OF s1(2), of xs "totalBitCount s1 + int (length xs) * 8"]
    by (auto simp: obs_writeRaw_def on_obuf_def zoom_def bind_def modify_def)
next
  fix t p ds
  assume "ibs_at invar contents u t p ((replicate (pad_count p) False @ bits_of_bytes xs) @ ds)"
  then obtain t1 where t1: "ibs_align ops t = (Inr (), t1)"
    "ibs_at invar contents u t1 (p + pad_count p) (bits_of_bytes xs @ ds)"
    using ibs_align_run [of u t p "bits_of_bytes xs @ ds"] by auto
  moreover have "(p + pad_count p) mod 8 = 0"
    by (simp flip: byte_count_bits)
  ultimately show "\<exists>t'. ibs_readRaw ops (length xs) t = (Inr xs, t') \<and> ibs_at invar contents u t'
      (p + length (replicate (pad_count p) False @ bits_of_bytes xs)) ds"
    using ibs_copy_run [OF t1(2)] by (simp add: ibs_readRaw_def bind_def add.assoc)
qed

lemma codes_ibs_chars:
  "codes (obs_at invar contents u) (ibs_at invar contents u) (obs_writeRaw ops xs)
    (ibs_chars ops (length xs) (length xs)) xs"
  using codes_map [OF codes_obs_raw, where f = "\<lambda>xs. xs @ []"] by (simp add: ibs_chars_def)

lemma codes_sized:
  assumes "k = word_of_nat (length cs)" and "str_fits maxLength n cs"
    and "codes (obs_at invar contents u) (ibs_at invar contents u) m (r k) v"
  shows "codes (obs_at invar contents u) (ibs_at invar contents u)
    (bind (writeBitsImpl ops (k :: u32) n) (\<lambda>_. m)) (bind (readNumeric ops n) r) v"
proof (rule codes_bind)
  have "streamable 32 32 n"
    using assms(2) by (auto simp: str_fits_def streamable_def isEnoughBits_def)
  with fits_length [OF assms(2)]
  show "codes (obs_at invar contents u) (ibs_at invar contents u)
      (writeBitsImpl ops k n) (readNumeric ops n) k"
    using codes_numeric [where 'a = 32 and v = k and n = n and u = u] assms(1) by (simp add: fits_def)
qed (rule assms(3))

lemma codes_obs_str:
  assumes "str_fits maxLength n cs" and "cs \<noteq> []"
  shows "codes (obs_at invar contents u) (ibs_at invar contents u) (obs_str ops cs maxLength n)
    (ibs_str ops maxLength n) cs"
  unfolding obs_str_def ibs_str_def Let_def str_fits_length [OF assms(1)]
proof (rule codes_sized [OF refl assms(1)], goal_cases)
  case 1
  note len = str_fits_length(1) [OF assms(1)]
  have "(0 :: u32) < word_of_nat (length cs)"
    using unat_of_length(1) [OF len] assms(2) by (simp add: word_less_nat_alt)
  moreover have "length cs \<le> maxLength" using assms(1) by (simp add: str_fits_def)
  ultimately show ?case
    unfolding unat_of_length [OF len] by (simp add: codes_cut codes_ibs_chars)
qed

lemma codes_utf8_tail:
  assumes "wstr_fits maxLength n ws" and "ws \<noteq> []"
  shows "codes (obs_at invar contents True) (ibs_at invar contents True) (obs_wstr ops ws maxLength n)
    (ibs_wstr ops maxLength n) ws"
proof -
  note w = wstr_fits_length [OF assms(1)]
  let ?k = "word_of_nat (length (toUtf8 ws)) :: u32"
  note len = str_fits_length [OF w(2)]
  have k: "0 < ?k"
    using unat_of_length(1) [OF len(1)] assms(2) length_toUtf8(2) [of ws]
    by (cases "toUtf8 ws") (auto simp: word_less_nat_alt)
  have "codes (obs_at invar contents True) (ibs_at invar contents True)
      (bind (writeBitsImpl ops ?k n) (\<lambda>_. obs_writeRaw ops (toUtf8 ws)))
      (ibs_wstr ops maxLength n) ws"
    unfolding ibs_wstr_def
  proof (rule codes_sized [OF refl w(2)], simp only: k if_True, rule codes_cong [OF refl])
    show "codes (obs_at invar contents True) (ibs_at invar contents True) (obs_writeRaw ops (toUtf8 ws))
        (bind (bind (ibs_chars ops (length (toUtf8 ws)) (length (toUtf8 ws))) (\<lambda>utf8. ret (fromUtf8 utf8)))
          (\<lambda>value. ret (if maxLength < length value then take maxLength value else value))) ws"
      using w(6) codes_map [OF codes_ibs_chars [where xs = "toUtf8 ws"], where f = fromUtf8]
      by (intro codes_cut) (simp_all add: w(3))
  qed (simp add: ibs_at_def bind_gets unat_of_length [OF len(1)])
  then show ?thesis
    by (rule codes_cong [rotated 2])
      (simp_all add: obs_wstr_def obs_at_def bind_gets w(5,6) Let_def len unat_of_length [OF len(1)])
qed

lemma codes_wchar_tail:
  assumes "wstr_fits maxLength n ws" and "ws \<noteq> []"
  shows "codes (obs_at invar contents False) (ibs_at invar contents False) (obs_wstr ops ws maxLength n)
    (ibs_wstr ops maxLength n) ws"
proof -
  note w = wstr_fits_length [OF assms(1)]
  let ?k = "word_of_nat (length ws) :: u32"
  note len = str_fits_length [OF w(1)]
  have k: "0 < ?k"
    using unat_of_length(1) [OF len(1)] assms(2) by (simp add: word_less_nat_alt)
  have k4: "unat (word_of_nat (length ws * 4) :: u16) = 4 * length ws"
    using unat_of_length(2) [OF w(4)] by (simp only: mult.commute)
  then have k4': "unat (word_of_nat (length ws) * 4 :: u16) = 4 * length ws"
    by simp
  have k16: "(ucast ?k :: u16) = word_of_nat (length ws)"
    using len(1) by (simp add: unsigned_of_nat take_bit_nat_eq_self)
  have "codes (obs_at invar contents False) (ibs_at invar contents False)
      (bind (writeBitsImpl ops ?k n) (\<lambda>_. obs_writeRaw ops (bytes_of_wchars ws)))
      (ibs_wstr ops maxLength n) ws"
    unfolding ibs_wstr_def
  proof (rule codes_sized [OF refl w(1)], simp only: k if_True, rule codes_cong [OF refl])
    show "codes (obs_at invar contents False) (ibs_at invar contents False)
        (obs_writeRaw ops (bytes_of_wchars ws))
        (bind (bind (ibs_chars ops (4 * length ws) (4 * length ws)) (\<lambda>bytes. ret (wchars_of_bytes bytes)))
          (\<lambda>value. ret (if maxLength < length value then take maxLength value else value))) ws"
      using w(6) codes_map [OF codes_ibs_chars [where xs = "bytes_of_wchars ws"], where f = wchars_of_bytes]
      by (intro codes_cut) simp_all
  qed (simp add: ibs_at_def bind_gets unat_of_length [OF len(1)] k4')
  then show ?thesis
    by (rule codes_cong [rotated 2])
      (simp_all add: obs_wstr_def obs_at_def bind_gets Let_def len unat_of_length [OF len(1)] k4' k16)
qed

lemma codes_narrow:
  fixes v :: "'a::len word"
  assumes "streamable LENGTH('a) 32 n" and "fits n v" and "LENGTH('a) \<le> 32"
  shows "codes (obs_at invar contents u) (ibs_at invar contents u)
    (writeBitsImpl ops (ucast v :: u32) n) (readNumeric ops n) v"
proof -
  have "(ucast (take_bit (nat n) (ucast v :: u32)) :: 'a word) = v"
    using assms(2,3) by (simp add: fits_def unsigned_ucast_eq take_bit_word_eq_self flip: unsigned_take_bit_eq)
  moreover have "streamable 32 32 n"
    using assms by (auto simp: streamable_def isEnoughBits_def)
  ultimately show ?thesis
    using codes_numeric [where 'a = 'a and v = "ucast v" and n = n and u = u] by simp
qed

lemma codes_narrow_signed:
  fixes v :: "'a::len word"
  assumes "streamable LENGTH('a) 32 n" and "fits_signed n v" and "LENGTH('a) < 31 \<or> LENGTH('a) = 32"
  shows "codes (obs_at invar contents u) (ibs_at invar contents u)
    (writeBitsImpl ops (scast v :: u32) n) (readSignedNumeric ops n) v"
proof -
  have n: "0 < nat n" "nat n \<le> LENGTH('a)"
    using assms(1) by (auto simp: streamable_def isEnoughBits_def)
  have "(ucast (signed_take_bit (nat n - 1) (scast v :: u32)) :: 'a word) = signed_take_bit (nat n - 1) v"
  proof (rule bit_word_eqI)
    fix i
    have "min (LENGTH('a) - Suc 0) (min i (nat n - Suc 0)) = min i (nat n - Suc 0)"
      using n(2) by auto
    moreover assume "i < LENGTH('a)"
    ultimately show "bit (ucast (signed_take_bit (nat n - 1) (scast v :: u32)) :: 'a word) i =
        bit (signed_take_bit (nat n - 1) v) i"
      using n assms(3) by (auto simp: bit_ucast_iff bit_signed_take_bit_iff bit_signed_iff)
  qed
  moreover have "streamable 32 32 n"
    using assms by (auto simp: streamable_def isEnoughBits_def)
  moreover have "n \<le> int LENGTH('a)" "n < 31 \<or> n = int LENGTH('a)"
    using assms by (auto simp: streamable_def isEnoughBits_def)
  ultimately show ?thesis
    using codes_signed [where 'a = 'a and v = "scast v" and n = n and u = u] assms(2,3)
    by (auto simp: fits_signed_def)
qed

lemma codes_ibs_i64:
  assumes "streamable 64 64 n" and "fits_signed n v"
  shows "codes (obs_at invar contents u) (ibs_at invar contents u)
    (writeBitsImpl ops v n) (ibs_i64 ops n) v"
  unfolding ibs_i64_def
proof (rule codes_pure [OF codes_bits])
  have "0 < n" "n < 31 \<or> 64 \<le> n" "n \<le> 64"
    using assms(1) by (auto simp: streamable_def isEnoughBits_def)
  with assms(2) show "signExtend 64 n (take_bit (nat n) v) t = (Inr v, t)" for t :: "'b ibitstream"
    using signExtend_run [of n 64 v t]
    by (auto simp: fits_signed_def take_bit_word_eq_self)
qed (use assms in simp_all)

lemma codes_ibs_bool:
  assumes "streamable 1 32 n"
  shows "codes (obs_at invar contents u) (ibs_at invar contents u)
    (writeBitsImpl ops (of_bool b :: u32) n) (ibs_bool ops n) b"
  unfolding ibs_bool_def
proof (rule codes_pure [OF codes_numeric])
  from assms have n: "n = 1" by (simp add: streamable_def isEnoughBits_def)
  show "streamable 32 32 n" by (simp add: n streamable_def isEnoughBits_def)
  show "ret ((ucast (take_bit (nat n) (of_bool b :: u32)) :: u32) \<noteq> 0) t = (Inr b, t)"
    for t :: "'b ibitstream"
    by (simp add: ret_def n)
qed

lemma bit_stream_codec:
  "stream_codec (obs_ops ops) (ibs_ops ops) (obs_at invar contents u) (ibs_at invar contents u) False"
proof (unfold_locales, goal_cases)
  case (1 n v)
  then show ?case
    using codes_bits [where v = v and n = n and u = u] by (simp add: obs_ops_def ibs_ops_def fits_def)
next
  case (2 n v)
  then show ?case
    using codes_narrow [where v = v and n = n and u = u] by (simp add: obs_ops_def ibs_ops_def)
next
  case (7 n v)
  then show ?case
    using codes_narrow_signed [where v = v and n = n and u = u] by (simp add: obs_ops_def ibs_ops_def)
next
  case (10 v)
  show ?case
    using codes_narrow [where v = v and n = 32 and u = u]
    by (simp add: obs_ops_def ibs_ops_def streamable_def isEnoughBits_def)
next
  case (11 n v g)
  then show ?case
    using codes_map [OF codes_bits [where v = v and n = n and u = u], where f = "take_bit (nat n)"]
    by (simp add: obs_ops_def ibs_ops_def fits_def enum_read_def)
next
  case (13 maxLength n ws)
  then show ?case
    using codes_utf8_tail codes_wchar_tail by (cases u) (simp_all add: obs_ops_def ibs_ops_def)
qed (simp_all add: obs_ops_def ibs_ops_def codes_narrow codes_narrow_signed codes_ibs_i64
    codes_ibs_bool codes_obs_str codes_obs_raw codes_obs_align)

end

text \<open>Memory blocks grow on demand, so the bit streams over them meet the contract.\<close>

interpretation block_bits: stream_codec "obs_ops mbsb_ops" "ibs_ops mbsb_ops"
  "obs_at mb_inv mb_contents u" "ibs_at mb_inv mb_contents u" False for u
  by (rule mbsb.bit_stream_codec)

section \<open>Properties\<close>

text \<open>C24: writing \<open>n\<close> bits of a 64-bit value to an \<open>OBitStream\<close> over a memory block appends the
  \<open>n\<close> low bits of the value to the bits written so far, whatever the position in the last byte,
  and cannot fail when the bit count is valid.\<close>

theorem writeBits_appends:
  fixes v :: u64
  assumes "obs_rel mb_inv mb_contents s bs" and "isEnoughBits 64 n"
  shows "\<exists>s'. writeBitsImpl mbsb_ops v n s = (Inr (), s') \<and>
    obs_rel mb_inv mb_contents s' (bs @ bits_of (nat n) v) \<and>
    totalBitCount s' = totalBitCount s + n"
  using mbsb.writeBitsImpl_run [OF assms(1), of n v] assms(2) by auto

theorem writeBits_appends_witness:
  "\<exists>s'. writeBitsImpl mbsb_ops (5 :: u64) 3 (obs_new (mb_new 4) True) = (Inr (), s') \<and>
    obs_rel mb_inv mb_contents s' (bits_of 3 (5 :: u64)) \<and> totalBitCount s' = 3"
  using writeBits_appends [of "obs_new (mb_new 4) True" "[]" 3 5]
  by (simp add: obs_rel_def obs_new_def isEnoughBits_def)

text \<open>C25: reading \<open>n\<close> bits into a 64-bit variable from an \<open>IBitStream\<close> over a memory block delivers
  the next \<open>n\<close> bits and leaves the rest, for every bit count whose mask is defined.\<close>

theorem readBits_takes:
  assumes "ibs_inv mb_inv mb_contents s" and "streamable 64 64 n"
    and "nat n \<le> length (ibs_bits mb_contents s)"
  shows "\<exists>s'. readBitsImpl mbsb_ops n s =
      (Inr (word_of_bits (take (nat n) (ibs_bits mb_contents s)) :: u64), s') \<and>
    ibs_inv mb_inv mb_contents s' \<and>
    ibs_bits mb_contents s' = drop (nat n) (ibs_bits mb_contents s)"
  using mbsb.readBitsImpl_steps [where 'a = 64, OF assms(1), of n] assms(2,3)
  by (auto simp: streamable_def)

theorem readBits_takes_witness:
  "\<exists>s'. readBitsImpl mbsb_ops 3 (ibs_new (mb_copyFrom [0x2d] (mb_new 4)) True) = (Inr (5 :: u64), s') \<and>
    ibs_bits mb_contents s' = [True, False, True, False, False]"
proof -
  let ?s = "ibs_new (mb_copyFrom [0x2d] (mb_new 4)) True"
  have c: "mb_contents (mb_copyFrom [0x2d] (mb_new 4)) = [0x2d]"
    by (simp add: mb_copyFrom_props)
  have bits: "ibs_bits mb_contents ?s = [True, False, True, True, False, True, False, False]"
    by (simp add: ibs_bits_def ibs_new_def c bits_of_bytes_def bits_of_def upt_rec bit_numeral_simps)
  have "ibs_inv mb_inv mb_contents ?s"
    by (simp add: ibs_inv_def ibs_new_def mb_copyFrom_props)
  from readBits_takes [OF this, of 3] show ?thesis
    by (auto simp: bits streamable_def isEnoughBits_def word_of_bits_def numeral_3_eq_3)
qed

text \<open>A read past the end of the stream throws and consumes nothing.\<close>

lemma readBits_short:
  assumes "ibs_inv mb_inv mb_contents s" and "isEnoughBits 32 n"
    and "length (ibs_bits mb_contents s) < nat n"
  shows "(readBitsImpl mbsb_ops n s :: (sne_error + u32) \<times> _) =
    (Inl (StreamingException ''buffer is not enough''), s)"
  using mbsb.readBitsImpl_short [where 'a = 32] assms by simp

text \<open>The mask of \<open>readBitsImpl\<close> is an \<open>int\<close>, so reading between 31 and 63 bits into a 64-bit
  variable has no defined result although the bits are there.  \<open>readEnum\<close> reads a 32-bit
  enumeration in this way.\<close>

lemma readBits_undefined_mask:
  assumes "ibs_inv mb_inv mb_contents s" and "31 \<le> n" and "n < 64"
    and "nat n \<le> length (ibs_bits mb_contents s)"
  shows "fst (is_enum (ibs_ops mbsb_ops) g n s) =
    Inl (UndefinedBehaviour ''(1 << bitCount) - 1'')"
  using mbsb.readBitsImpl_steps [where 'a = 64, OF assms(1), of n] assms(2-4)
  by (auto simp: isEnoughBits_def ibs_ops_def)

end
