(* ===== verification/Byte_Stream.thy ===== *)
theory Byte_Stream
  imports Stream_Codec Memory_Block
begin

text \<open>
  The byte-wise streams \<open>OByteStream\<close> and \<open>IByteStream\<close> (src/core/stream/detail/OByteStream.cpp,
  IByteStream.cpp and their headers) and the byte order of include/sne/core/utility/Endian.h.
  Bit counts are ignored except by the string length field and the enumerations.  The pair
  meets the contract \<open>stream_codec\<close>, empty strings included.
\<close>

section \<open>Endian.h\<close>

text \<open>\<open>RpcByteOrderImpl::convert\<close> copies the bytes of the object onto itself in reverse, one
  after the other; the model runs it on the object representation.\<close>

fun convert_loop :: "nat \<Rightarrow> nat \<Rightarrow> nat \<Rightarrow> byte list \<Rightarrow> byte list" where
  "convert_loop 0 src dest bs = bs"
| "convert_loop (Suc k) src dest bs = convert_loop k (src + 1) (dest - 1) (bs[dest := bs ! src])"

definition RpcByteOrderImpl_convert :: "byte list \<Rightarrow> byte list" where
  "RpcByteOrderImpl_convert bs = convert_loop (length bs) 0 (length bs - 1) bs"

definition toRpcByteOrder :: "bool \<Rightarrow> byte list \<Rightarrow> byte list" where
  "toRpcByteOrder big_endian bs = (if big_endian then RpcByteOrderImpl_convert bs else bs)"

text \<open>The streams below run on a little-endian machine.\<close>

definition object_bytes :: "'a::len word \<Rightarrow> byte list" where
  "object_bytes v = toRpcByteOrder False (bytes_of (LENGTH('a) div 8) v)"

definition object_value :: "byte list \<Rightarrow> 'a::len word" where
  "object_value bs = word_of_bytes (toRpcByteOrder False bs)"

section \<open>OByteStream\<close>

record 'b obytestream =
  oy_buffer :: 'b
  oy_useUtf8 :: bool

definition oys_new :: "'b \<Rightarrow> bool \<Rightarrow> 'b obytestream" where
  "oys_new streamBuffer shouldUseUtf8ForString =
     \<lparr>oy_buffer = streamBuffer, oy_useUtf8 = shouldUseUtf8ForString\<rparr>"

definition on_oybuf :: "('b, 'a) prog \<Rightarrow> ('b obytestream, 'a) prog" where
  "on_oybuf = zoom oy_buffer (\<lambda>b s. s\<lparr>oy_buffer := b\<rparr>)"

definition oys_writeBytes :: "'b stream_buffer_ops \<Rightarrow> byte list \<Rightarrow> ('b obytestream, unit) prog" where
  "oys_writeBytes ops value = on_oybuf (sb_copyFrom ops value)"

definition oys_writeByte :: "'b stream_buffer_ops \<Rightarrow> byte \<Rightarrow> ('b obytestream, unit) prog" where
  "oys_writeByte ops value = on_oybuf (sb_push ops value)"

definition oys_writeNumeric :: "'b stream_buffer_ops \<Rightarrow> 'a::len word \<Rightarrow> ('b obytestream, unit) prog" where
  "oys_writeNumeric ops value = oys_writeBytes ops (object_bytes value)"

definition oys_writeStringLength ::
    "'b stream_buffer_ops \<Rightarrow> u16 \<Rightarrow> int \<Rightarrow> ('b obytestream, unit) prog" where
  "oys_writeStringLength ops strLen sizeBitCount =
     (if sizeBitCount \<le> 8 then oys_writeNumeric ops (ucast strLen :: byte)
      else oys_writeNumeric ops strLen)"

definition oys_str :: "'b stream_buffer_ops \<Rightarrow> byte list \<Rightarrow> nat \<Rightarrow> int \<Rightarrow> ('b obytestream, unit) prog" where
  "oys_str ops value maxLength sizeBitCount =
     (let strLen = word_of_nat (min (length value) maxLength) :: u16 in
      bind (oys_writeStringLength ops strLen sizeBitCount) (\<lambda>_.
      oys_writeBytes ops (take (unat strLen) value)))"

definition oys_wstr :: "'b stream_buffer_ops \<Rightarrow> wchar list \<Rightarrow> nat \<Rightarrow> int \<Rightarrow> ('b obytestream, unit) prog" where
  "oys_wstr ops value maxLength sizeBitCount = bind (gets oy_useUtf8) (\<lambda>shouldUseUtf8ForString.
     if shouldUseUtf8ForString then
       let realValue = if maxLength < length value then take maxLength value else value;
           utf8 = toUtf8 realValue;
           strLen = word_of_nat (length utf8) :: u16 in
       bind (oys_writeStringLength ops strLen sizeBitCount) (\<lambda>_. oys_writeBytes ops utf8)
     else
       let strLen = word_of_nat (min (length value) maxLength) :: u16 in
       bind (oys_writeStringLength ops strLen sizeBitCount) (\<lambda>_.
       for_each (oys_writeNumeric ops) (take (unat strLen) value)))"

text \<open>\<open>writeEnum\<close> copies the low bytes of a 64-bit object; more than eight would be read from
  behind it.\<close>

definition oys_enum :: "'b stream_buffer_ops \<Rightarrow> u64 \<Rightarrow> int \<Rightarrow> ('b obytestream, unit) prog" where
  "oys_enum ops value bitCount =
     (let bytes = nat ((bitCount + 7) div 8) in
      if bytes \<le> 8 then oys_writeBytes ops (take bytes (bytes_of 8 value))
      else throw (UndefinedBehaviour ''writeEnum past the value''))"

definition oys_reset :: "'b stream_buffer_ops \<Rightarrow> bool \<Rightarrow> ('b obytestream, unit) prog" where
  "oys_reset ops resetBuffer = when_do resetBuffer (on_oybuf (sb_reset ops))"

definition oys_ops :: "'b stream_buffer_ops \<Rightarrow> 'b obytestream ostream_ops" where
  "oys_ops ops =
     \<lparr>os_u64 = (\<lambda>value _. oys_writeNumeric ops value),
      os_u32 = (\<lambda>value _. oys_writeNumeric ops value),
      os_u16 = (\<lambda>value _. oys_writeNumeric ops value),
      os_u8 = (\<lambda>value _. oys_writeByte ops value),
      os_bool = (\<lambda>value _. oys_writeByte ops (of_bool value)),
      os_i64 = (\<lambda>value _. oys_writeNumeric ops value),
      os_i32 = (\<lambda>value _. oys_writeNumeric ops value),
      os_i16 = (\<lambda>value _. oys_writeNumeric ops value),
      os_i8 = (\<lambda>value _. oys_writeByte ops value),
      os_f32 = (\<lambda>value _. oys_writeNumeric ops value),
      os_enum = oys_enum ops,
      os_str = oys_str ops,
      os_wstr = oys_wstr ops,
      os_raw = oys_writeBytes ops,
      os_align = skip,
      os_reset = oys_reset ops,
      os_getTotalSize = (\<lambda>s. sb_size ops (oy_buffer s))\<rparr>"

section \<open>IByteStream\<close>

record 'b ibytestream =
  iy_buffer :: 'b
  iy_useUtf8 :: bool

definition iys_new :: "'b \<Rightarrow> bool \<Rightarrow> 'b ibytestream" where
  "iys_new streamBuffer shouldUseUtf8ForString =
     \<lparr>iy_buffer = streamBuffer, iy_useUtf8 = shouldUseUtf8ForString\<rparr>"

definition on_iybuf :: "('b, 'a) prog \<Rightarrow> ('b ibytestream, 'a) prog" where
  "on_iybuf = zoom iy_buffer (\<lambda>b s. s\<lparr>iy_buffer := b\<rparr>)"

definition iys_readBytes :: "'b stream_buffer_ops \<Rightarrow> nat \<Rightarrow> ('b ibytestream, byte list) prog" where
  "iys_readBytes ops readSize =
     (if 0 < readSize then on_iybuf (sb_copyTo ops readSize) else ret [])"

definition iys_readByte :: "'b stream_buffer_ops \<Rightarrow> ('b ibytestream, byte) prog" where
  "iys_readByte ops = bind (gets iy_buffer) (\<lambda>b.
     if sb_empty ops b then throw (StreamingException ''buffer is empty'')
     else bind (on_iybuf (sb_front ops)) (\<lambda>value.
       bind (on_iybuf (sb_pop ops)) (\<lambda>_. ret value)))"

definition iys_readNumeric :: "'b stream_buffer_ops \<Rightarrow> ('b ibytestream, 'a::len word) prog" where
  "iys_readNumeric ops =
     bind (iys_readBytes ops (LENGTH('a) div 8)) (\<lambda>bs. ret (object_value bs))"

definition iys_readStringSize :: "'b stream_buffer_ops \<Rightarrow> int \<Rightarrow> ('b ibytestream, u32) prog" where
  "iys_readStringSize ops sizeBitCount =
     (if sizeBitCount = 8 then bind (iys_readByte ops) (\<lambda>c. ret (ucast c))
      else bind (iys_readNumeric ops) (\<lambda>word :: u16. ret (ucast word)))"

definition iys_str :: "'b stream_buffer_ops \<Rightarrow> nat \<Rightarrow> int \<Rightarrow> ('b ibytestream, byte list) prog" where
  "iys_str ops maxLength sizeBitCount =
     bind (iys_readStringSize ops sizeBitCount) (\<lambda>strSize.
     if 0 < strSize then
       bind (iys_readBytes ops (unat strSize)) (\<lambda>value.
       ret (if maxLength < length value then take maxLength value else value))
     else ret [])"

definition iys_wstr :: "'b stream_buffer_ops \<Rightarrow> nat \<Rightarrow> int \<Rightarrow> ('b ibytestream, wchar list) prog" where
  "iys_wstr ops maxLength sizeBitCount =
     bind (iys_readStringSize ops sizeBitCount) (\<lambda>strLen.
     if 0 < strLen then
       bind (gets iy_useUtf8) (\<lambda>shouldUseUtf8ForString.
       bind (if shouldUseUtf8ForString
             then bind (iys_readBytes ops (unat strLen)) (\<lambda>utf8. ret (fromUtf8 utf8))
             else read_times (unat strLen) (iys_readNumeric ops)) (\<lambda>value.
       ret (if maxLength < length value then take maxLength value else value)))
     else ret [])"

definition iys_enum :: "'b stream_buffer_ops \<Rightarrow> u64 \<Rightarrow> int \<Rightarrow> ('b ibytestream, u64) prog" where
  "iys_enum ops value bitCount =
     (let bytes = nat ((bitCount + 7) div 8) in
      if bytes \<le> 8
      then bind (iys_readBytes ops bytes) (\<lambda>bs. ret (word_of_bytes (bs @ drop bytes (bytes_of 8 value))))
      else throw (UndefinedBehaviour ''readEnum past the value''))"

definition iys_reset :: "'b stream_buffer_ops \<Rightarrow> bool \<Rightarrow> ('b ibytestream, unit) prog" where
  "iys_reset ops resetBuffer = when_do resetBuffer (on_iybuf (sb_reset ops))"

definition iys_ops :: "'b stream_buffer_ops \<Rightarrow> 'b ibytestream istream_ops" where
  "iys_ops ops =
     \<lparr>is_u64 = (\<lambda>_. iys_readNumeric ops),
      is_u32 = (\<lambda>_. iys_readNumeric ops),
      is_u16 = (\<lambda>_. iys_readNumeric ops),
      is_u8 = (\<lambda>_. iys_readByte ops),
      is_bool = (\<lambda>_. bind (iys_readByte ops) (\<lambda>numeric. ret (numeric \<noteq> 0))),
      is_i64 = (\<lambda>_. iys_readNumeric ops),
      is_i32 = (\<lambda>_. iys_readNumeric ops),
      is_i16 = (\<lambda>_. iys_readNumeric ops),
      is_i8 = (\<lambda>_. iys_readByte ops),
      is_f32 = (\<lambda>_. iys_readNumeric ops),
      is_enum = iys_enum ops,
      is_str = iys_str ops,
      is_wstr = iys_wstr ops,
      is_raw = iys_readBytes ops,
      is_align = skip,
      is_reset = iys_reset ops,
      is_getTotalSize = (\<lambda>s. sb_size ops (iy_buffer s))\<rparr>"

section \<open>The contract holds\<close>

definition oys_at ::
    "('b \<Rightarrow> bool) \<Rightarrow> ('b \<Rightarrow> byte list) \<Rightarrow> bool \<Rightarrow> 'b obytestream \<Rightarrow> byte list \<Rightarrow> bool" where
  "oys_at invar contents utf8 s ds \<longleftrightarrow>
     invar (oy_buffer s) \<and> contents (oy_buffer s) = ds \<and> oy_useUtf8 s = utf8"

definition iys_at ::
    "('b \<Rightarrow> bool) \<Rightarrow> ('b \<Rightarrow> byte list) \<Rightarrow> bool \<Rightarrow> 'b ibytestream \<Rightarrow> nat \<Rightarrow> byte list \<Rightarrow> bool" where
  "iys_at invar contents utf8 s p ds \<longleftrightarrow>
     invar (iy_buffer s) \<and> contents (iy_buffer s) = ds \<and> iy_useUtf8 s = utf8"

lemma object_value_bytes:
  "8 dvd LENGTH('a) \<Longrightarrow> object_value (object_bytes v) = (v :: 'a::len word)"
  by (simp add: object_value_def object_bytes_def toRpcByteOrder_def word_of_bytes_bytes_of)

lemma length_object_bytes [simp]: "length (object_bytes (v :: 'a::len word)) = LENGTH('a) div 8"
  by (simp add: object_bytes_def toRpcByteOrder_def)

lemma enum_bytes:
  fixes v :: u64
  assumes "n \<le> 8 * k" and "k \<le> 8"
  shows "take_bit n (word_of_bytes (take k (bytes_of 8 v) @ bs) :: u64) = take_bit n v"
proof (rule bit_word_eqI)
  fix i
  have "bits_of_bytes (take k (bytes_of 8 v)) = bits_of (8 * k) v"
    using assms(2) by (simp add: bits_of_bytes_of bits_of_take flip: take_bits_of_bytes)
  then show "bit (take_bit n (word_of_bytes (take k (bytes_of 8 v) @ bs) :: u64)) i = bit (take_bit n v) i"
    if "i < LENGTH(64)"
    using that assms
    by (auto simp: bit_take_bit_iff word_of_bytes_def bit_word_of_bits bits_of_bytes_append nth_append
        nth_bits_of)
qed

context growing_stream_buffer
begin

lemma oys_writeBytes_run:
  assumes "oys_at invar contents u s ds"
  shows "\<exists>s'. oys_writeBytes ops xs s = (Inr (), s') \<and> oys_at invar contents u s' (ds @ xs)"
proof -
  obtain b where "sb_copyFrom ops xs (oy_buffer s) = (Inr (), b)"
    using assms run_copyFrom unfolding oys_at_def by metis
  with copyFrom_Inr [OF _ this] assms show ?thesis
    by (simp add: oys_at_def oys_writeBytes_def on_oybuf_def zoom_def)
qed

lemma oys_writeByte_run:
  assumes "oys_at invar contents u s ds"
  shows "\<exists>s'. oys_writeByte ops c s = (Inr (), s') \<and> oys_at invar contents u s' (ds @ [c])"
proof -
  obtain b where "sb_push ops c (oy_buffer s) = (Inr (), b)"
    using assms run_push unfolding oys_at_def by metis
  with push_Inr [OF _ this] assms show ?thesis
    by (simp add: oys_at_def oys_writeByte_def on_oybuf_def zoom_def)
qed

lemma iys_readBytes_run:
  assumes t: "iys_at invar contents u t p (xs @ ds)"
  shows "\<exists>t'. iys_readBytes ops (length xs) t = (Inr xs, t') \<and> iys_at invar contents u t' q ds"
proof -
  have len: "length xs \<le> length (contents (iy_buffer t))" and inv: "invar (iy_buffer t)"
    using t by (simp_all add: iys_at_def)
  have "take (length xs) (contents (iy_buffer t)) = xs" using t by (simp add: iys_at_def)
  then obtain b where b: "sb_copyTo ops (length xs) (iy_buffer t) = (Inr xs, b)"
    using run_copyTo [OF inv len] by metis
  have "invar b" "contents b = ds"
    using copyTo_contents [OF inv len] copyTo_invar [OF inv, of "length xs"] b t
    by (simp_all add: iys_at_def)
  with b t show ?thesis
    by (auto simp: iys_at_def iys_readBytes_def on_iybuf_def zoom_def ret_def)
qed

lemma iys_readByte_run:
  assumes t: "iys_at invar contents u t p (c # ds)"
  shows "\<exists>t'. iys_readByte ops t = (Inr c, t') \<and> iys_at invar contents u t' q ds"
proof -
  have inv: "invar (iy_buffer t)" and c: "contents (iy_buffer t) = c # ds"
    using t by (simp_all add: iys_at_def)
  obtain b where b: "sb_pop ops (iy_buffer t) = (Inr (), b)"
    using run_pop [OF inv] by metis
  have "invar b" "contents b = ds"
    using pop_contents [OF inv] pop_invar [OF inv] b c by simp_all
  with b t c inv show ?thesis
    by (simp add: iys_at_def iys_readByte_def on_iybuf_def zoom_def bind_def gets_def empty_law
        front_law ret_def)
qed

lemma codes_bytes:
  "codes (oys_at invar contents u) (iys_at invar contents u) (oys_writeBytes ops xs)
    (iys_readBytes ops (length xs)) xs"
  using oys_writeBytes_run iys_readBytes_run by (intro codesI [where enc = "\<lambda>_. xs"]) auto

lemma codes_byte:
  "codes (oys_at invar contents u) (iys_at invar contents u) (oys_writeByte ops c)
    (iys_readByte ops) c"
  using oys_writeByte_run iys_readByte_run by (intro codesI [where enc = "\<lambda>_. [c]"]) auto

lemma codes_bytes_byte:
  "codes (oys_at invar contents u) (iys_at invar contents u) (oys_writeBytes ops [c])
    (iys_readByte ops) c"
  using oys_writeBytes_run iys_readByte_run by (intro codesI [where enc = "\<lambda>_. [c]"]) auto

lemma codes_oys_numeric:
  fixes v :: "'a::len word"
  assumes "8 dvd LENGTH('a)"
  shows "codes (oys_at invar contents u) (iys_at invar contents u) (oys_writeNumeric ops v)
    (iys_readNumeric ops) v"
  using codes_map [OF codes_bytes [where u = u and xs = "object_bytes v"], where f = "object_value :: _ \<Rightarrow> 'a word"]
  by (simp add: oys_writeNumeric_def iys_readNumeric_def object_value_bytes [OF assms])

lemma object_bytes_byte: "object_bytes (c :: byte) = [c]"
  by (simp add: object_bytes_def toRpcByteOrder_def bytes_of_def)

lemma codes_oys_length:
  assumes "str_fits maxLength n cs"
  shows "codes (oys_at invar contents u) (iys_at invar contents u)
    (oys_writeStringLength ops (word_of_nat (length cs)) n) (iys_readStringSize ops n)
    (word_of_nat (length cs))"
proof (cases "n = 8")
  case True
  with assms have len: "length cs < 256" by (simp add: str_fits_def)
  have "(ucast (ucast (word_of_nat (length cs) :: u16) :: byte) :: u32) = word_of_nat (length cs)"
    using len by (simp add: unsigned_of_nat take_bit_nat_eq_self)
  then show ?thesis
    using codes_map [OF codes_bytes_byte [where u = u and c = "ucast (word_of_nat (length cs) :: u16)"],
        where f = "ucast :: byte \<Rightarrow> u32"] True
    by (simp add: oys_writeStringLength_def iys_readStringSize_def oys_writeNumeric_def object_bytes_byte)
next
  case False
  with assms have n: "n = 16" by (simp add: str_fits_def)
  have "(ucast (word_of_nat (length cs) :: u16) :: u32) = word_of_nat (length cs)"
    using str_fits_length(1) [OF assms] by (simp add: unsigned_of_nat take_bit_nat_eq_self)
  then show ?thesis
    using codes_map [OF codes_oys_numeric [where u = u and v = "word_of_nat (length cs) :: u16"],
        where f = "ucast :: u16 \<Rightarrow> u32"]
    by (simp add: oys_writeStringLength_def iys_readStringSize_def n)
qed

lemma codes_no_bytes:
  "codes (oys_at invar contents u) (iys_at invar contents u) (oys_writeBytes ops []) (ret v) v"
  using oys_writeBytes_run [where xs = "[]"]
  by (intro codesI [where enc = "\<lambda>_. []"]) (auto simp: ret_def iys_at_def)

lemma codes_oys_sized:
  assumes "str_fits maxLength n cs"
    and "cs \<noteq> [] \<Longrightarrow> codes (oys_at invar contents u) (iys_at invar contents u) m
      (r (word_of_nat (length cs))) v"
    and "cs = [] \<Longrightarrow> codes (oys_at invar contents u) (iys_at invar contents u) m (ret []) v"
  shows "codes (oys_at invar contents u) (iys_at invar contents u)
    (bind (oys_writeStringLength ops (word_of_nat (length cs)) n) (\<lambda>_. m))
    (bind (iys_readStringSize ops n) (\<lambda>k. if 0 < k then r k else ret [])) v"
proof (rule codes_bind [OF codes_oys_length [OF assms(1)]])
  have "(0 :: u32) < word_of_nat (length cs) \<longleftrightarrow> cs \<noteq> []"
    using unat_of_length(1) [OF str_fits_length(1) [OF assms(1)]] by (simp add: word_less_nat_alt)
  then show "codes (oys_at invar contents u) (iys_at invar contents u) m
      (if 0 < (word_of_nat (length cs) :: u32) then r (word_of_nat (length cs)) else ret []) v"
    using assms(2,3) by auto
qed

lemma codes_oys_str:
  assumes "str_fits maxLength n cs"
  shows "codes (oys_at invar contents u) (iys_at invar contents u) (oys_str ops cs maxLength n)
    (iys_str ops maxLength n) cs"
proof -
  note len = str_fits_length [OF assms]
  show ?thesis
    unfolding oys_str_def iys_str_def Let_def len unat_of_length [OF len(1)]
  proof (rule codes_oys_sized [OF assms])
    show "codes (oys_at invar contents u) (iys_at invar contents u)
        (oys_writeBytes ops (take (length cs) cs))
        (bind (iys_readBytes ops (unat (word_of_nat (length cs) :: u32)))
          (\<lambda>value. ret (if maxLength < length value then take maxLength value else value))) cs"
      using assms codes_bytes [where u = u and xs = cs]
      by (intro codes_cut) (simp_all add: str_fits_def unat_of_length(1) [OF len(1)])
  qed (use codes_no_bytes in simp)
qed

lemma codes_oys_utf8:
  assumes "wstr_fits maxLength n ws"
  shows "codes (oys_at invar contents True) (iys_at invar contents True) (oys_wstr ops ws maxLength n)
    (iys_wstr ops maxLength n) ws"
proof -
  note w = wstr_fits_length [OF assms]
  note len = str_fits_length [OF w(2)]
  have "codes (oys_at invar contents True) (iys_at invar contents True)
      (bind (oys_writeStringLength ops (word_of_nat (length (toUtf8 ws))) n)
        (\<lambda>_. oys_writeBytes ops (toUtf8 ws))) (iys_wstr ops maxLength n) ws"
    unfolding iys_wstr_def
  proof (rule codes_oys_sized [OF w(2)])
    show "codes (oys_at invar contents True) (iys_at invar contents True) (oys_writeBytes ops (toUtf8 ws))
        (bind (gets iy_useUtf8) (\<lambda>shouldUseUtf8ForString.
          bind (if shouldUseUtf8ForString
             then bind (iys_readBytes ops (unat (word_of_nat (length (toUtf8 ws)) :: u32)))
                (\<lambda>utf8. ret (fromUtf8 utf8))
             else read_times (unat (word_of_nat (length (toUtf8 ws)) :: u32)) (iys_readNumeric ops))
          (\<lambda>value. ret (if maxLength < length value then take maxLength value else value)))) ws"
    proof (rule codes_cong [OF refl])
      show "codes (oys_at invar contents True) (iys_at invar contents True) (oys_writeBytes ops (toUtf8 ws))
          (bind (bind (iys_readBytes ops (length (toUtf8 ws))) (\<lambda>utf8. ret (fromUtf8 utf8)))
            (\<lambda>value. ret (if maxLength < length value then take maxLength value else value))) ws"
        using w(6) codes_map [OF codes_bytes [where u = True and xs = "toUtf8 ws"], where f = fromUtf8]
        by (intro codes_cut) (simp_all add: w(3))
    qed (simp add: iys_at_def bind_gets unat_of_length [OF len(1)])
  next
    assume "toUtf8 ws = []"
    then show "codes (oys_at invar contents True) (iys_at invar contents True)
        (oys_writeBytes ops (toUtf8 ws)) (ret []) ws"
      using w(3) codes_no_bytes by simp
  qed
  then show ?thesis
    by (rule codes_cong [rotated 2])
      (simp_all add: oys_wstr_def oys_at_def bind_gets w(5,6) Let_def len)
qed

lemma codes_oys_wchars:
  assumes "wstr_fits maxLength n ws"
  shows "codes (oys_at invar contents False) (iys_at invar contents False) (oys_wstr ops ws maxLength n)
    (iys_wstr ops maxLength n) ws"
proof -
  note w = wstr_fits_length [OF assms]
  note len = str_fits_length [OF w(1)]
  have "codes (oys_at invar contents False) (iys_at invar contents False)
      (bind (oys_writeStringLength ops (word_of_nat (length ws)) n)
        (\<lambda>_. for_each (oys_writeNumeric ops) ws)) (iys_wstr ops maxLength n) ws"
    unfolding iys_wstr_def
  proof (rule codes_oys_sized [OF w(1)])
    show "codes (oys_at invar contents False) (iys_at invar contents False)
        (for_each (oys_writeNumeric ops) ws)
        (bind (gets iy_useUtf8) (\<lambda>shouldUseUtf8ForString.
          bind (if shouldUseUtf8ForString
             then bind (iys_readBytes ops (unat (word_of_nat (length ws) :: u32)))
                (\<lambda>utf8. ret (fromUtf8 utf8))
             else read_times (unat (word_of_nat (length ws) :: u32)) (iys_readNumeric ops))
          (\<lambda>value. ret (if maxLength < length value then take maxLength value else value)))) ws"
    proof (rule codes_cong [OF refl])
      show "codes (oys_at invar contents False) (iys_at invar contents False)
          (for_each (oys_writeNumeric ops) ws)
          (bind (read_times (length ws) (iys_readNumeric ops))
            (\<lambda>value. ret (if maxLength < length value then take maxLength value else value))) ws"
        using w(6) codes_for_each [of ws "oys_at invar contents False" "iys_at invar contents False"
            "oys_writeNumeric ops" "iys_readNumeric ops" "\<lambda>x. x"]
        by (intro codes_cut) (simp_all add: codes_oys_numeric)
    qed (simp add: iys_at_def bind_gets unat_of_length [OF len(1)])
  qed (simp add: codes_ret)
  then show ?thesis
    by (rule codes_cong [rotated 2])
      (simp_all add: oys_wstr_def oys_at_def bind_gets Let_def len unat_of_length [OF len(1)])
qed

lemma codes_oys_enum:
  assumes "streamable 64 64 n" and "fits n v"
  shows "codes (oys_at invar contents u) (iys_at invar contents u) (oys_enum ops v n)
    (bind (iys_enum ops g n) (\<lambda>x. ret (take_bit (nat n) x))) v"
proof -
  define k where "k = nat ((n + 7) div 8)"
  have "0 < n" "n \<le> 64" using assms(1) by (simp_all add: streamable_def isEnoughBits_def)
  then have k: "nat n \<le> 8 * k" "k \<le> 8" by (auto simp: k_def)
  then have "take_bit (nat n) (word_of_bytes (take k (bytes_of 8 v) @ drop k (bytes_of 8 g))) = v"
    using assms(2) by (simp add: enum_bytes fits_def)
  with k codes_map [OF codes_map [OF codes_bytes [where u = u and xs = "take k (bytes_of 8 v)"],
      where f = "\<lambda>bs. word_of_bytes (bs @ drop k (bytes_of 8 g)) :: u64"], where f = "take_bit (nat n)"]
  show ?thesis
    by (simp add: oys_enum_def iys_enum_def Let_def flip: k_def)
qed

lemma codes_oys_bool:
  "codes (oys_at invar contents u) (iys_at invar contents u) (oys_writeByte ops (of_bool b))
    (bind (iys_readByte ops) (\<lambda>numeric. ret (numeric \<noteq> 0))) b"
  using codes_map [OF codes_byte [where u = u and c = "of_bool b"], where f = "\<lambda>c. c \<noteq> 0"] by simp

lemma codes_oys_align: "codes orel irel skip skip ()"
proof -
  have "ret () = skip" by (rule ext) (simp add: ret_def skip_def)
  with codes_ret [of orel irel "()"] show ?thesis by metis
qed

lemma byte_stream_codec:
  "stream_codec (oys_ops ops) (iys_ops ops) (oys_at invar contents u) (iys_at invar contents u) True"
proof (unfold_locales, goal_cases)
  case (13 maxLength n ws)
  then show ?case
    using codes_oys_utf8 codes_oys_wchars by (cases u) (simp_all add: oys_ops_def iys_ops_def)
qed (simp_all add: oys_ops_def iys_ops_def enum_read_def codes_oys_numeric codes_byte codes_oys_bool
    codes_oys_enum codes_oys_str codes_bytes codes_oys_align)

end

interpretation block_bytes: stream_codec "oys_ops mbsb_ops" "iys_ops mbsb_ops"
  "oys_at mb_inv mb_contents u" "iys_at mb_inv mb_contents u" True for u
  by (rule mbsb.byte_stream_codec)

section \<open>Properties\<close>

text \<open>On a big-endian machine \<open>RpcByteOrderImpl::convert\<close> does not reverse the bytes of a
  4-byte object: it overwrites the second half with the mirrored first half.\<close>

lemma convert_loses_bytes: "RpcByteOrderImpl_convert [a, b, c, d] = [a, b, b, a]"
  by (simp add: RpcByteOrderImpl_convert_def eval_nat_numeral)

end
