(* ===== verification/Rpc_Types.thy ===== *)
theory Rpc_Types
  imports Bit_Codec Byte_Stream
begin

text \<open>
  The serializable types of the RPC layer: \<open>RpcNumericType\<close> and \<open>RpcStringType\<close>
  (include/sne/srpc/RpcTypes.h), the containers of RpcContainers.h, \<open>operator<<\<close> and
  \<open>operator>>\<close> (OStream.h, IStream.h) as the dispatch over the type.  Templates over an element
  type take the element's writer and reader.  Over every pair of streams that meets
  \<open>stream_codec\<close>, what \<open>operator<<\<close> writes \<open>operator>>\<close> reads back, for every nesting of types.
\<close>

section \<open>RpcContainers.h\<close>

text \<open>The C++ \<open>for\<close> loop of the writers stops after \<open>maxNumber\<close> elements.\<close>

definition RpcContainer_serialize_out ::
    "'s ostream_ops \<Rightarrow> nat \<Rightarrow> ('a \<Rightarrow> ('s, unit) prog) \<Rightarrow> 'a list \<Rightarrow> ('s, unit) prog" where
  "RpcContainer_serialize_out ostream sizeBits write_elem this =
     (if MaxNumber_value sizeBits < length this
      then throw (StreamingException ''container size is too big'')
      else bind (os_u16 ostream (word_of_nat (length this)) (int sizeBits)) (\<lambda>_.
        for_each write_elem (take (MaxNumber_value sizeBits) this)))"

definition RpcContainer_serialize_in ::
    "'t istream_ops \<Rightarrow> nat \<Rightarrow> ('t, 'a) prog \<Rightarrow> ('t, 'a list) prog" where
  "RpcContainer_serialize_in istream sizeBits read_elem =
     bind (is_u16 istream (int sizeBits)) (\<lambda>size.
     if MaxNumber_value sizeBits < unat size
     then throw (StreamingException ''container size is too big'')
     else read_times (unat size) read_elem)"

text \<open>
  The sets and maps are given by \<open>insert\<close> and the order in which their iterators visit the
  elements.  The ordered containers of the standard library are kept as sorted lists:
  \<open>set_insert\<close> ignores a key it has, \<open>multiset_insert\<close> puts it behind its equals; for maps
  the same with respect to the first components.
\<close>

fun ordered_insert :: "bool \<Rightarrow> ('a \<Rightarrow> 'k::linorder) \<Rightarrow> 'a \<Rightarrow> 'a list \<Rightarrow> 'a list" where
  "ordered_insert multi key x [] = [x]"
| "ordered_insert multi key x (y # ys) =
     (if key x < key y then x # y # ys
      else if key x = key y \<and> \<not> multi then y # ys
      else y # ordered_insert multi key x ys)"

definition RBaseSet_serialize_out ::
    "'s ostream_ops \<Rightarrow> nat \<Rightarrow> ('a \<Rightarrow> ('s, unit) prog) \<Rightarrow> 'a list \<Rightarrow> ('s, unit) prog" where
  "RBaseSet_serialize_out ostream sizeBits write_elem this =
     (if MaxNumber_value sizeBits < length this
      then throw (StreamingException ''container size is too big'')
      else bind (os_u16 ostream (word_of_nat (length this)) (int sizeBits)) (\<lambda>_.
        for_each write_elem (take (MaxNumber_value sizeBits) this)))"

definition RBaseSet_serialize_in ::
    "'t istream_ops \<Rightarrow> ('a \<Rightarrow> 'c \<Rightarrow> 'c) \<Rightarrow> 'c \<Rightarrow> nat \<Rightarrow> ('t, 'a) prog \<Rightarrow> ('t, 'c) prog" where
  "RBaseSet_serialize_in istream ins emp sizeBits read_elem =
     bind (is_u16 istream (int sizeBits)) (\<lambda>size.
     if MaxNumber_value sizeBits < unat size
     then throw (StreamingException ''container size is too big'')
     else bind (read_times (unat size) read_elem) (\<lambda>xs. ret (fold ins xs emp)))"

definition RBaseMap_serialize_out ::
    "'s ostream_ops \<Rightarrow> nat \<Rightarrow> ('k \<Rightarrow> ('s, unit) prog) \<Rightarrow> ('v \<Rightarrow> ('s, unit) prog) \<Rightarrow>
     ('k \<times> 'v) list \<Rightarrow> ('s, unit) prog" where
  "RBaseMap_serialize_out ostream sizeBits write_key write_value this =
     (if MaxNumber_value sizeBits < length this
      then throw (StreamingException ''container size is too big'')
      else bind (os_u32 ostream (word_of_nat (length this)) (int sizeBits)) (\<lambda>_.
        for_each (\<lambda>(k, v). bind (write_key k) (\<lambda>_. write_value v))
          (take (MaxNumber_value sizeBits) this)))"

definition RBaseMap_serialize_in ::
    "'t istream_ops \<Rightarrow> ('k \<times> 'v \<Rightarrow> 'c \<Rightarrow> 'c) \<Rightarrow> 'c \<Rightarrow> nat \<Rightarrow> ('t, 'k) prog \<Rightarrow> ('t, 'v) prog \<Rightarrow>
     ('t, 'c) prog" where
  "RBaseMap_serialize_in istream ins emp sizeBits read_key read_value =
     bind (is_u32 istream (int sizeBits)) (\<lambda>size.
     if MaxNumber_value sizeBits < unat size
     then throw (StreamingException ''container size is too big'')
     else bind (read_times (unat size)
                 (bind read_key (\<lambda>k. bind read_value (\<lambda>v. ret (k, v))))) (\<lambda>xs.
       ret (fold ins xs emp)))"

definition RArray_serialize_out :: "('a \<Rightarrow> ('s, unit) prog) \<Rightarrow> 'a list \<Rightarrow> ('s, unit) prog" where
  "RArray_serialize_out write_elem this = for_each write_elem this"

definition RArray_serialize_in :: "nat \<Rightarrow> ('t, 'a) prog \<Rightarrow> ('t, 'a list) prog" where
  "RArray_serialize_in N read_elem = read_times N read_elem"

section \<open>Types and values\<close>

text \<open>
  The fundamental types with the bit count of \<open>RpcNumericType\<close>, strings with the parameters
  of \<open>RpcStringType\<close>, sequences (\<open>RVector\<close>, \<open>RList\<close>; their size field has 16 bits), \<open>RArray\<close>, and
  user-defined types whose \<open>serialize\<close> streams the members in order (as \<open>Vector2\<close>, \<open>Vector3\<close> and
  \<open>Quaternion\<close> of RpcUnity3d.h do).  \<open>T_variant\<close> is a user-defined type whose \<open>serialize\<close> streams a tag of one
  byte and then switches on it (as \<open>Param\<close> of database/proxy/DatabaseRequest.h does): tag \<open>n\<close> selects
  the \<open>n\<close>th type of the list, and under any other tag nothing follows.  \<open>T_set\<close> and \<open>T_map\<close> are the classes over
  \<open>RBaseSet\<close> and \<open>RBaseMap\<close>; their first argument is \<open>insert\<close> of the container, on the elements in the order of
  iteration: \<open>ordered_insert False\<close> for \<open>RSet\<close> and \<open>RMap\<close>, \<open>ordered_insert True\<close> for \<open>RMultiSet\<close> and \<open>RMultiMap\<close>, for
  the hash containers what the library does.
\<close>

datatype rpc_value =
    V_64 u64 | V_32 u32 | V_16 u16 | V_8 byte | V_bool bool
  | V_string "byte list" | V_wstring "wchar list" | V_list "rpc_value list"
  | V_map "(rpc_value \<times> rpc_value) list"

datatype rpc_type =
    T_u64 int | T_u32 int | T_u16 int | T_u8 int | T_bool
  | T_i64 int | T_i32 int | T_i16 int | T_i8 int | T_f32
  | T_enum int
  | T_string nat int | T_wstring nat int
  | T_seq rpc_type | T_array nat rpc_type | T_struct "rpc_type list"
  | T_variant "rpc_type list"
  | T_set "rpc_value \<Rightarrow> rpc_value list \<Rightarrow> rpc_value list" rpc_type
  | T_map "rpc_value \<times> rpc_value \<Rightarrow> (rpc_value \<times> rpc_value) list \<Rightarrow> (rpc_value \<times> rpc_value) list" rpc_type rpc_type

definition T_Vector2 :: rpc_type where "T_Vector2 = T_struct [T_f32, T_f32]"
definition T_Vector3 :: rpc_type where "T_Vector3 = T_struct [T_f32, T_f32, T_f32]"
definition T_Quaternion :: rpc_type where "T_Quaternion = T_struct [T_f32, T_f32, T_f32, T_f32]"

text \<open>\<open>operator<<\<close>.  The C++ types rule out the branches with \<open>ill_typed\<close>.\<close>

definition ill_typed :: "('s, 'a) prog" where
  "ill_typed = throw (UndefinedBehaviour ''ill-typed value'')"

fun stream_out :: "'s ostream_ops \<Rightarrow> rpc_type \<Rightarrow> rpc_value \<Rightarrow> ('s, unit) prog"
  and stream_out_list :: "'s ostream_ops \<Rightarrow> rpc_type list \<Rightarrow> rpc_value list \<Rightarrow> ('s, unit) prog"
  and stream_out_case :: "'s ostream_ops \<Rightarrow> rpc_type list \<Rightarrow> nat \<Rightarrow> rpc_value list \<Rightarrow> ('s, unit) prog" where
  "stream_out os (T_u64 bits) v = (case v of V_64 v \<Rightarrow> os_u64 os v bits | _ \<Rightarrow> ill_typed)"
| "stream_out os (T_u32 bits) v = (case v of V_32 v \<Rightarrow> os_u32 os v bits | _ \<Rightarrow> ill_typed)"
| "stream_out os (T_u16 bits) v = (case v of V_16 v \<Rightarrow> os_u16 os v bits | _ \<Rightarrow> ill_typed)"
| "stream_out os (T_u8 bits) v = (case v of V_8 v \<Rightarrow> os_u8 os v bits | _ \<Rightarrow> ill_typed)"
| "stream_out os T_bool v = (case v of V_bool v \<Rightarrow> os_bool os v 1 | _ \<Rightarrow> ill_typed)"
| "stream_out os (T_i64 bits) v = (case v of V_64 v \<Rightarrow> os_i64 os v bits | _ \<Rightarrow> ill_typed)"
| "stream_out os (T_i32 bits) v = (case v of V_32 v \<Rightarrow> os_i32 os v bits | _ \<Rightarrow> ill_typed)"
| "stream_out os (T_i16 bits) v = (case v of V_16 v \<Rightarrow> os_i16 os v bits | _ \<Rightarrow> ill_typed)"
| "stream_out os (T_i8 bits) v = (case v of V_8 v \<Rightarrow> os_i8 os v bits | _ \<Rightarrow> ill_typed)"
| "stream_out os T_f32 v = (case v of V_32 v \<Rightarrow> os_f32 os v 32 | _ \<Rightarrow> ill_typed)"
| "stream_out os (T_enum bits) v = (case v of V_64 v \<Rightarrow> os_enum os v bits | _ \<Rightarrow> ill_typed)"
| "stream_out os (T_string maxLength sizeBits) v =
     (case v of V_string v \<Rightarrow> os_str os v maxLength sizeBits | _ \<Rightarrow> ill_typed)"
| "stream_out os (T_wstring maxLength sizeBits) v =
     (case v of V_wstring v \<Rightarrow> os_wstr os v maxLength sizeBits | _ \<Rightarrow> ill_typed)"
| "stream_out os (T_seq t) v =
     (case v of V_list vs \<Rightarrow> RpcContainer_serialize_out os 16 (stream_out os t) vs | _ \<Rightarrow> ill_typed)"
| "stream_out os (T_array N t) v =
     (case v of V_list vs \<Rightarrow> RArray_serialize_out (stream_out os t) vs | _ \<Rightarrow> ill_typed)"
| "stream_out os (T_struct ts) v =
     (case v of V_list vs \<Rightarrow> stream_out_list os ts vs | _ \<Rightarrow> ill_typed)"
| "stream_out os (T_variant ts) v =
     (case v of V_list (V_8 tag # vs) \<Rightarrow> bind (os_u8 os tag 8) (\<lambda>_. stream_out_case os ts (unat tag) vs)
      | _ \<Rightarrow> ill_typed)"
| "stream_out os (T_set ins t) v =
     (case v of V_list vs \<Rightarrow> RBaseSet_serialize_out os 16 (stream_out os t) vs | _ \<Rightarrow> ill_typed)"
| "stream_out os (T_map ins k t) v =
     (case v of V_map kvs \<Rightarrow> RBaseMap_serialize_out os 16 (stream_out os k) (stream_out os t) kvs | _ \<Rightarrow> ill_typed)"
| "stream_out_list os [] vs = (case vs of [] \<Rightarrow> skip | _ \<Rightarrow> ill_typed)"
| "stream_out_list os (t # ts) vs =
     (case vs of [] \<Rightarrow> ill_typed
      | v # vs \<Rightarrow> bind (stream_out os t v) (\<lambda>_. stream_out_list os ts vs))"
| "stream_out_case os [] n vs = (case vs of [] \<Rightarrow> skip | _ \<Rightarrow> ill_typed)"
| "stream_out_case os (t # ts) n vs =
     (if n = 1 then (case vs of [v] \<Rightarrow> stream_out os t v | _ \<Rightarrow> ill_typed)
      else stream_out_case os ts (n - 1) vs)"

text \<open>\<open>operator>>\<close>; \<open>g\<close> is what an enumeration is read over.\<close>

fun stream_in :: "'t istream_ops \<Rightarrow> u64 \<Rightarrow> rpc_type \<Rightarrow> ('t, rpc_value) prog"
  and stream_in_list :: "'t istream_ops \<Rightarrow> u64 \<Rightarrow> rpc_type list \<Rightarrow> ('t, rpc_value list) prog"
  and stream_in_case :: "'t istream_ops \<Rightarrow> u64 \<Rightarrow> rpc_type list \<Rightarrow> nat \<Rightarrow> ('t, rpc_value list) prog" where
  "stream_in istr g (T_u64 bits) = bind (is_u64 istr bits) (\<lambda>v. ret (V_64 v))"
| "stream_in istr g (T_u32 bits) = bind (is_u32 istr bits) (\<lambda>v. ret (V_32 v))"
| "stream_in istr g (T_u16 bits) = bind (is_u16 istr bits) (\<lambda>v. ret (V_16 v))"
| "stream_in istr g (T_u8 bits) = bind (is_u8 istr bits) (\<lambda>v. ret (V_8 v))"
| "stream_in istr g T_bool = bind (is_bool istr 1) (\<lambda>v. ret (V_bool v))"
| "stream_in istr g (T_i64 bits) = bind (is_i64 istr bits) (\<lambda>v. ret (V_64 v))"
| "stream_in istr g (T_i32 bits) = bind (is_i32 istr bits) (\<lambda>v. ret (V_32 v))"
| "stream_in istr g (T_i16 bits) = bind (is_i16 istr bits) (\<lambda>v. ret (V_16 v))"
| "stream_in istr g (T_i8 bits) = bind (is_i8 istr bits) (\<lambda>v. ret (V_8 v))"
| "stream_in istr g T_f32 = bind (is_f32 istr 32) (\<lambda>v. ret (V_32 v))"
| "stream_in istr g (T_enum bits) = bind (enum_read istr g bits) (\<lambda>v. ret (V_64 v))"
| "stream_in istr g (T_string maxLength sizeBits) = bind (is_str istr maxLength sizeBits) (\<lambda>v. ret (V_string v))"
| "stream_in istr g (T_wstring maxLength sizeBits) = bind (is_wstr istr maxLength sizeBits) (\<lambda>v. ret (V_wstring v))"
| "stream_in istr g (T_seq t) = bind (RpcContainer_serialize_in istr 16 (stream_in istr g t)) (\<lambda>vs. ret (V_list vs))"
| "stream_in istr g (T_array N t) = bind (RArray_serialize_in N (stream_in istr g t)) (\<lambda>vs. ret (V_list vs))"
| "stream_in istr g (T_struct ts) = bind (stream_in_list istr g ts) (\<lambda>vs. ret (V_list vs))"
| "stream_in istr g (T_variant ts) = bind (is_u8 istr 8) (\<lambda>tag.
     bind (stream_in_case istr g ts (unat tag)) (\<lambda>vs. ret (V_list (V_8 tag # vs))))"
| "stream_in istr g (T_set ins t) =
     bind (RBaseSet_serialize_in istr ins [] 16 (stream_in istr g t)) (\<lambda>vs. ret (V_list vs))"
| "stream_in istr g (T_map ins k t) =
     bind (RBaseMap_serialize_in istr ins [] 16 (stream_in istr g k) (stream_in istr g t)) (\<lambda>kvs. ret (V_map kvs))"
| "stream_in_list istr g [] = ret []"
| "stream_in_list istr g (t # ts) = bind (stream_in istr g t) (\<lambda>v.
     bind (stream_in_list istr g ts) (\<lambda>vs. ret (v # vs)))"
| "stream_in_case istr g [] n = ret []"
| "stream_in_case istr g (t # ts) n =
     (if n = 1 then bind (stream_in istr g t) (\<lambda>v. ret [v]) else stream_in_case istr g ts (n - 1))"

text \<open>The values of a type that survive the trip: numbers fit the number of bits, strings and containers the
  size field, strings are not empty unless \<open>e\<close>, and a set or map has the order of iteration that inserting
  its elements in that order gives.\<close>

fun valid :: "bool \<Rightarrow> rpc_type \<Rightarrow> rpc_value \<Rightarrow> bool"
  and valid_list :: "bool \<Rightarrow> rpc_type list \<Rightarrow> rpc_value list \<Rightarrow> bool"
  and valid_case :: "bool \<Rightarrow> rpc_type list \<Rightarrow> nat \<Rightarrow> rpc_value list \<Rightarrow> bool" where
  "valid e (T_u64 bits) v = (case v of V_64 v \<Rightarrow> streamable 64 64 bits \<and> fits bits v | _ \<Rightarrow> False)"
| "valid e (T_u32 bits) v = (case v of V_32 v \<Rightarrow> streamable 32 32 bits \<and> fits bits v | _ \<Rightarrow> False)"
| "valid e (T_u16 bits) v = (case v of V_16 v \<Rightarrow> streamable 16 32 bits \<and> fits bits v | _ \<Rightarrow> False)"
| "valid e (T_u8 bits) v = (case v of V_8 v \<Rightarrow> streamable 8 32 bits \<and> fits bits v | _ \<Rightarrow> False)"
| "valid e T_bool v = (case v of V_bool v \<Rightarrow> True | _ \<Rightarrow> False)"
| "valid e (T_i64 bits) v = (case v of V_64 v \<Rightarrow> streamable 64 64 bits \<and> fits_signed bits v | _ \<Rightarrow> False)"
| "valid e (T_i32 bits) v = (case v of V_32 v \<Rightarrow> streamable 32 32 bits \<and> fits_signed bits v | _ \<Rightarrow> False)"
| "valid e (T_i16 bits) v = (case v of V_16 v \<Rightarrow> streamable 16 32 bits \<and> fits_signed bits v | _ \<Rightarrow> False)"
| "valid e (T_i8 bits) v = (case v of V_8 v \<Rightarrow> streamable 8 32 bits \<and> fits_signed bits v | _ \<Rightarrow> False)"
| "valid e T_f32 v = (case v of V_32 v \<Rightarrow> True | _ \<Rightarrow> False)"
| "valid e (T_enum bits) v = (case v of V_64 v \<Rightarrow> streamable 64 64 bits \<and> fits bits v | _ \<Rightarrow> False)"
| "valid e (T_string maxLength sizeBits) v =
     (case v of V_string v \<Rightarrow> str_fits maxLength sizeBits v \<and> (v \<noteq> [] \<or> e) | _ \<Rightarrow> False)"
| "valid e (T_wstring maxLength sizeBits) v =
     (case v of V_wstring v \<Rightarrow> wstr_fits maxLength sizeBits v \<and> (v \<noteq> [] \<or> e) | _ \<Rightarrow> False)"
| "valid e (T_seq t) v =
     (case v of V_list vs \<Rightarrow> length vs < 65536 \<and> list_all (valid e t) vs | _ \<Rightarrow> False)"
| "valid e (T_array N t) v =
     (case v of V_list vs \<Rightarrow> length vs = N \<and> list_all (valid e t) vs | _ \<Rightarrow> False)"
| "valid e (T_struct ts) v = (case v of V_list vs \<Rightarrow> valid_list e ts vs | _ \<Rightarrow> False)"
| "valid e (T_variant ts) v =
     (case v of V_list (V_8 tag # vs) \<Rightarrow> valid_case e ts (unat tag) vs | _ \<Rightarrow> False)"
| "valid e (T_set ins t) v =
     (case v of V_list vs \<Rightarrow> length vs < 65536 \<and> list_all (valid e t) vs \<and> fold ins vs [] = vs | _ \<Rightarrow> False)"
| "valid e (T_map ins k t) v =
     (case v of V_map kvs \<Rightarrow> length kvs < 65536 \<and> list_all (valid e k) (map fst kvs) \<and> list_all (valid e t) (map snd kvs) \<and>
        fold ins kvs [] = kvs
      | _ \<Rightarrow> False)"
| "valid_list e [] vs = (vs = [])"
| "valid_list e (t # ts) vs = (case vs of [] \<Rightarrow> False | v # vs \<Rightarrow> valid e t v \<and> valid_list e ts vs)"
| "valid_case e [] n vs = (vs = [])"
| "valid_case e (t # ts) n vs =
     (if n = 1 then (case vs of [v] \<Rightarrow> valid e t v | _ \<Rightarrow> False) else valid_case e ts (n - 1) vs)"

section \<open>Round trips\<close>

lemma ordered_insert_last:
  assumes "\<forall>y \<in> set ys. key y < key x \<or> multi \<and> key y = key x"
  shows "ordered_insert multi key x ys = ys @ [x]"
  using assms by (induction ys) auto

definition in_order :: "bool \<Rightarrow> ('a \<Rightarrow> 'k::linorder) \<Rightarrow> 'a list \<Rightarrow> bool" where
  "in_order multi key xs \<longleftrightarrow> (if multi then sorted (map key xs) else sorted_wrt (<) (map key xs))"

lemma fold_ordered_insert: "in_order multi key xs \<Longrightarrow> fold (ordered_insert multi key) xs [] = xs"
proof (induction xs rule: rev_induct)
  case (snoc x xs)
  then have "in_order multi key xs" and "\<forall>y \<in> set xs. key y < key x \<or> multi \<and> key y = key x"
    by (auto simp: in_order_def sorted_append sorted_wrt_append order.order_iff_strict split: if_splits)
  with snoc.IH show ?case by (simp add: ordered_insert_last)
qed simp

text \<open>So the ordered containers are valid.  Every container that holds what is inserted has, after the trip, the
  same elements, in whatever order.\<close>

lemma ordered_set_valid:
  "in_order multi key vs \<Longrightarrow> length vs < 65536 \<Longrightarrow> list_all (valid e t) vs \<Longrightarrow>
    valid e (T_set (ordered_insert multi key) t) (V_list vs)"
  by (simp add: fold_ordered_insert)

lemma ordered_map_valid:
  "in_order multi (key \<circ> fst) kvs \<Longrightarrow> length kvs < 65536 \<Longrightarrow> list_all (valid e k) (map fst kvs) \<Longrightarrow>
    list_all (valid e t) (map snd kvs) \<Longrightarrow> valid e (T_map (ordered_insert multi (key \<circ> fst)) k t) (V_map kvs)"
  by (simp add: fold_ordered_insert)

lemma fold_insert_contents:
  assumes "\<And>x xs. set (ins x xs) = insert x (set xs)"
  shows "set (fold ins xs ys) = set xs \<union> set ys"
  by (induction xs arbitrary: ys) (auto simp: assms)

context stream_codec
begin

lemma codes_size16:
  assumes "length xs < 65536"
  shows "codes orel irel (os_u16 OS (word_of_nat (length xs)) 16) (is_u16 IS 16) (word_of_nat (length xs))"
  by (rule codes_u16) (simp_all add: streamable_def isEnoughBits_def)

lemma codes_RpcContainer:
  assumes "length xs < 65536" and "\<And>x. x \<in> set xs \<Longrightarrow> codes orel irel (w x) r (f x)"
  shows "codes orel irel (RpcContainer_serialize_out OS 16 w xs) (RpcContainer_serialize_in IS 16 r)
    (map f xs)"
proof -
  have max: "MaxNumber_value 16 = 65535" by (simp add: MaxNumber_value_eq)
  note u = unat_of_length(2) [OF assms(1)]
  have "codes orel irel (bind (os_u16 OS (word_of_nat (length xs)) 16) (\<lambda>_. for_each w xs))
    (bind (is_u16 IS 16) (\<lambda>size. if 65535 < unat size
       then throw (StreamingException ''container size is too big'')
       else read_times (unat size) r)) (map f xs)"
    using assms codes_for_each [OF assms(2)]
    by (intro codes_bind [OF codes_size16]) (simp_all add: u)
  with assms(1) show ?thesis
    by (simp add: RpcContainer_serialize_out_def RpcContainer_serialize_in_def max)
qed

lemma codes_RBaseSet:
  assumes "length xs < 65536"
    and "\<And>x. x \<in> set xs \<Longrightarrow> codes orel irel (w x) r x"
  shows "codes orel irel (RBaseSet_serialize_out OS 16 w xs)
    (RBaseSet_serialize_in IS ins [] 16 r) (fold ins xs [])"
proof -
  have max: "MaxNumber_value 16 = 65535" by (simp add: MaxNumber_value_eq)
  note u = unat_of_length(2) [OF assms(1)]
  have "codes orel irel (for_each w xs) (bind (read_times (length xs) r)
      (\<lambda>xs. ret (fold ins xs []))) (fold ins xs [])"
    by (rule codes_map [OF codes_for_each_id [of xs, OF assms(2)]])
  then have "codes orel irel (bind (os_u16 OS (word_of_nat (length xs)) 16) (\<lambda>_. for_each w xs))
    (bind (is_u16 IS 16) (\<lambda>size. if 65535 < unat size
       then throw (StreamingException ''container size is too big'')
       else bind (read_times (unat size) r) (\<lambda>xs. ret (fold ins xs [])))) (fold ins xs [])"
    using assms(1) by (intro codes_bind [OF codes_size16]) (simp_all add: u)
  with assms(1) show ?thesis
    by (simp add: RBaseSet_serialize_out_def RBaseSet_serialize_in_def max)
qed

lemma codes_RBaseMap:
  assumes "length xs < 65536"
    and "\<And>k v. (k, v) \<in> set xs \<Longrightarrow> codes orel irel (wk k) rk k"
    and "\<And>k v. (k, v) \<in> set xs \<Longrightarrow> codes orel irel (wv v) rv v"
  shows "codes orel irel (RBaseMap_serialize_out OS 16 wk wv xs)
    (RBaseMap_serialize_in IS ins [] 16 rk rv) (fold ins xs [])"
proof -
  let ?w = "\<lambda>(k, v). bind (wk k) (\<lambda>_. wv v)"
  let ?r = "bind rk (\<lambda>k. bind rv (\<lambda>v. ret (k, v)))"
  let ?f = "\<lambda>xs. fold ins xs []"
  have max: "MaxNumber_value 16 = 65535" by (simp add: MaxNumber_value_eq)
  note u = unat_of_length(1) [OF assms(1)]
  have elem: "codes orel irel (?w x) ?r x" if "x \<in> set xs" for x
  proof -
    obtain k v where x: "x = (k, v)" by (cases x)
    with that assms(2,3) show ?thesis
      by (auto intro!: codes_bind codes_map [where f = "\<lambda>v. (k, v)"])
  qed
  have "codes orel irel (for_each ?w xs) (bind (read_times (length xs) ?r) (\<lambda>xs. ret (?f xs))) (?f xs)"
    by (rule codes_map [OF codes_for_each_id [of xs, OF elem]])
  moreover have "codes orel irel (os_u32 OS (word_of_nat (length xs)) 16) (is_u32 IS 16)
      (word_of_nat (length xs))"
    using assms(1) by (intro codes_u32)
      (simp_all add: streamable_def isEnoughBits_def fits_def take_bit_of_nat take_bit_nat_eq_self)
  ultimately have "codes orel irel (bind (os_u32 OS (word_of_nat (length xs)) 16) (\<lambda>_. for_each ?w xs))
    (bind (is_u32 IS 16) (\<lambda>size. if 65535 < unat size
       then throw (StreamingException ''container size is too big'')
       else bind (read_times (unat size) ?r) (\<lambda>xs. ret (?f xs)))) (?f xs)"
    using assms(1) by (elim codes_bind) (simp add: u)
  with assms(1) show ?thesis
    by (simp add: RBaseMap_serialize_out_def RBaseMap_serialize_in_def max)
qed

lemma codes_RArray:
  assumes "length xs = N" and "\<And>x. x \<in> set xs \<Longrightarrow> codes orel irel (w x) r (f x)"
  shows "codes orel irel (RArray_serialize_out w xs) (RArray_serialize_in N r) (map f xs)"
  using codes_for_each [of xs, OF assms(2)] assms(1)
  by (simp add: RArray_serialize_out_def RArray_serialize_in_def)

lemma stream_list_roundtrip:
  assumes "\<And>t v. t \<in> set ts \<Longrightarrow> valid empty_ok t v \<Longrightarrow>
      codes orel irel (stream_out OS t v) (stream_in IS g t) v"
    and "valid_list empty_ok ts vs"
  shows "codes orel irel (stream_out_list OS ts vs) (stream_in_list IS g ts) vs"
  using assms
proof (induction ts arbitrary: vs)
  case Nil
  then show ?case by (cases vs) (simp_all add: codes_ret)
next
  case (Cons t ts)
  then obtain v ws where vs: "vs = v # ws" and v: "valid empty_ok t v" "valid_list empty_ok ts ws"
    by (cases vs) auto
  have "codes orel irel (stream_out_list OS ts ws)
      (bind (stream_in_list IS g ts) (\<lambda>vs. ret (v # vs))) (v # ws)"
    using Cons v(2) by (intro codes_map [where f = "\<lambda>vs. v # vs"]) simp
  with Cons.prems(1) v(1) show ?case
    by (auto simp: vs intro!: codes_bind)
qed

lemma stream_case_roundtrip:
  assumes "\<And>t v. t \<in> set ts \<Longrightarrow> valid empty_ok t v \<Longrightarrow>
      codes orel irel (stream_out OS t v) (stream_in IS g t) v"
    and "valid_case empty_ok ts n vs"
  shows "codes orel irel (stream_out_case OS ts n vs) (stream_in_case IS g ts n) vs"
  using assms
proof (induction ts arbitrary: n)
  case Nil
  then show ?case by (cases vs) (simp_all add: codes_ret)
next
  case (Cons t ts)
  show ?case
  proof (cases "n = 1")
    case True
    with Cons.prems(2) obtain v where "vs = [v]" "valid empty_ok t v"
      by (auto split: list.splits)
    with True Cons.prems(1) show ?thesis by (auto intro!: codes_map [where f = "\<lambda>v. [v]"])
  qed (use Cons in simp)
qed

lemma codes_tag: "codes orel irel (os_u8 OS tag 8) (is_u8 IS 8) tag"
  by (rule codes_u8) (simp_all add: streamable_def isEnoughBits_def)

lemmas codes_V = codes_map [where f = V_64] codes_map [where f = V_32] codes_map [where f = V_16]
  codes_map [where f = V_8] codes_map [where f = V_bool] codes_map [where f = V_string]
  codes_map [where f = V_wstring]

lemma codes_bool1: "codes orel irel (os_bool OS b 1) (is_bool IS 1) b"
  by (rule codes_bool) (simp add: streamable_def isEnoughBits_def)

lemma stream_roundtrip:
  "valid empty_ok t v \<Longrightarrow> codes orel irel (stream_out OS t v) (stream_in IS g t) v"
proof (induction t arbitrary: v)
  case (T_seq t)
  then obtain vs where vs: "v = V_list vs" "length vs < 65536" "\<forall>x \<in> set vs. valid empty_ok t x"
    by (cases v) (auto simp: list_all_iff)
  with T_seq.IH codes_map [OF codes_RpcContainer [where f = "\<lambda>x. x" and w = "stream_out OS t"
        and r = "stream_in IS g t" and xs = vs], where f = V_list]
  show ?case by simp
next
  case (T_array N t)
  then obtain vs where vs: "v = V_list vs" "length vs = N" "\<forall>x \<in> set vs. valid empty_ok t x"
    by (cases v) (auto simp: list_all_iff)
  with T_array.IH codes_map [OF codes_RArray [where f = "\<lambda>x. x" and w = "stream_out OS t"
        and r = "stream_in IS g t" and xs = vs and N = N], where f = V_list]
  show ?case by simp
next
  case (T_struct ts)
  then obtain vs where vs: "v = V_list vs" "valid_list empty_ok ts vs"
    by (cases v) auto
  with T_struct.IH codes_map [OF stream_list_roundtrip [where ts = ts and vs = vs and g = g],
      where f = V_list]
  show ?case by simp
next
  case (T_variant ts)
  then obtain x xs where xs: "v = V_list (x # xs)" by (auto split: rpc_value.split_asm list.split_asm)
  with T_variant.prems obtain tag vs where v: "v = V_list (V_8 tag # vs)" "valid_case empty_ok ts (unat tag) vs"
    by (cases x) auto
  have "codes orel irel (stream_out_case OS ts (unat tag) vs)
      (bind (stream_in_case IS g ts (unat tag)) (\<lambda>vs. ret (V_list (V_8 tag # vs)))) v"
    unfolding v(1) by (rule codes_map [OF stream_case_roundtrip, OF T_variant.IH v(2)])
  with codes_bind [OF codes_tag] show ?case by (simp add: v(1))
next
  case (T_set ins t)
  then obtain vs where vs: "v = V_list vs" "length vs < 65536" "\<forall>x \<in> set vs. valid empty_ok t x" "fold ins vs [] = vs"
    by (cases v) (auto simp: list_all_iff)
  have "codes orel irel (stream_out OS t x) (stream_in IS g t) x" if "x \<in> set vs" for x
    using T_set.IH vs(3) that by blast
  from codes_map [OF codes_RBaseSet [OF vs(2) this, where ins = ins], where f = V_list] vs(1,4) show ?case by simp
next
  case (T_map ins k t)
  then obtain kvs where kvs: "v = V_map kvs" "length kvs < 65536" "fold ins kvs [] = kvs"
    "\<forall>x \<in> set kvs. valid empty_ok k (fst x) \<and> valid empty_ok t (snd x)"
    by (cases v) (auto simp: list_all_iff)
  have "codes orel irel (stream_out OS k a) (stream_in IS g k) a" "codes orel irel (stream_out OS t b) (stream_in IS g t) b"
    if "(a, b) \<in> set kvs" for a b
    using T_map.IH kvs(4) that by fastforce+
  from codes_map [OF codes_RBaseMap [OF kvs(2) this, where ins = ins], where f = V_map] kvs(1,3) show ?case by auto
qed (auto split: rpc_value.splits intro!: codes_V codes_u64 codes_u32 codes_u16 codes_u8 codes_bool1
    codes_i64 codes_i32 codes_i16 codes_i8 codes_f32 codes_enum codes_str codes_wstr)

end

text \<open>Readers and writers of containers with converted elements.\<close>

lemma read_times_map: "read_times n (bind r (\<lambda>v. ret (f v))) = bind (read_times n r) (\<lambda>vs. ret (map f vs))"
  by (induction n) (simp_all add: bind_assoc bind_ret)

lemma RpcContainer_in_map:
  "RpcContainer_serialize_in istr n (bind r (\<lambda>v. ret (f v))) = bind (RpcContainer_serialize_in istr n r) (\<lambda>vs. ret (map f vs))"
  unfolding RpcContainer_serialize_in_def bind_assoc
  by (intro arg_cong [where f = "bind (is_u16 istr (int n))"] ext) (simp add: read_times_map bind_throw)

lemma for_each_map: "for_each w (map f xs) = for_each (\<lambda>x. w (f x)) xs"
  by (induction xs) simp_all

text \<open>
  From the contract to whole runs: a program that writes to a fresh stream over an empty
  block, and its reader on a stream over the block it leaves.
\<close>

lemma codes_run_bits:
  assumes "codes (obs_at mb_inv mb_contents u) (ibs_at mb_inv mb_contents u) m r v"
  shows "\<exists>s t. m (obs_new (mb_new n) u) = (Inr (), s) \<and> r (ibs_new (ob_buffer s) u) = (Inr v, t) \<and>
    length (ibs_bits mb_contents t) < 8"
proof -
  obtain enc where
    w: "\<And>s ds. obs_at mb_inv mb_contents u s ds \<Longrightarrow> \<exists>s'. m s = (Inr (), s') \<and>
      obs_at mb_inv mb_contents u s' (ds @ enc (length ds))" and
    r: "\<And>t p ds. ibs_at mb_inv mb_contents u t p (enc p @ ds) \<Longrightarrow> \<exists>t'. r t = (Inr v, t') \<and>
      ibs_at mb_inv mb_contents u t' (p + length (enc p)) ds"
    using assms unfolding codes_def by blast
  have "obs_at mb_inv mb_contents u (obs_new (mb_new n) u) []"
    by (simp add: obs_at_def obs_rel_def obs_new_def)
  from w [OF this] obtain s where s: "m (obs_new (mb_new n) u) = (Inr (), s)"
    "obs_at mb_inv mb_contents u s (enc 0)" by auto
  then have "ibs_at mb_inv mb_contents u (ibs_new (ob_buffer s) u) 0
      (enc 0 @ replicate (pad_count (length (enc 0))) False)"
    by (simp add: obs_at_def obs_rel_def ibs_at_def ibs_inv_def ibs_bits_def ibs_new_def)
  from r [OF this] s(1) show ?thesis
    by (fastforce simp: ibs_at_def)
qed

lemma codes_run_bytes:
  assumes "codes (oys_at mb_inv mb_contents u) (iys_at mb_inv mb_contents u) m r v"
  shows "\<exists>s t. m (oys_new (mb_new n) u) = (Inr (), s) \<and> r (iys_new (oy_buffer s) u) = (Inr v, t) \<and>
    mb_contents (iy_buffer t) = []"
proof -
  obtain enc where
    w: "\<And>s ds. oys_at mb_inv mb_contents u s ds \<Longrightarrow> \<exists>s'. m s = (Inr (), s') \<and>
      oys_at mb_inv mb_contents u s' (ds @ enc (length ds))" and
    r: "\<And>t p ds. iys_at mb_inv mb_contents u t p (enc p @ ds) \<Longrightarrow> \<exists>t'. r t = (Inr v, t') \<and>
      iys_at mb_inv mb_contents u t' (p + length (enc p)) ds"
    using assms unfolding codes_def by blast
  have "oys_at mb_inv mb_contents u (oys_new (mb_new n) u) []"
    by (simp add: oys_at_def oys_new_def)
  from w [OF this] obtain s where s: "m (oys_new (mb_new n) u) = (Inr (), s)"
    "oys_at mb_inv mb_contents u s (enc 0)" by auto
  then have "iys_at mb_inv mb_contents u (iys_new (oy_buffer s) u) 0 (enc 0 @ [])"
    by (simp add: oys_at_def iys_at_def iys_new_def)
  from r [OF this] s(1) show ?thesis
    by (auto simp: iys_at_def)
qed

section \<open>Properties\<close>

text \<open>C23: a value that \<open>operator<<\<close> writes to an \<open>OBitStream\<close> over an empty block is read back by
  \<open>operator>>\<close> from an \<open>IBitStream\<close> over that block, for every nesting of numbers, strings, sequences, arrays, sets,
  maps, structures and variants; fewer than eight bits of padding remain.  The value must be valid: numbers fit
  their number of bits, which has a defined mask; strings fit their limits and none is empty, since \<open>IBitStream\<close> misreads what
  follows an empty string; a container has fewer than 65536 elements, and a set or map the order of
  iteration that inserting in this order gives, as the ordered ones have.\<close>

theorem bit_stream_roundtrip:
  assumes "valid False t v"
  shows "\<exists>s r. stream_out (obs_ops mbsb_ops) t v (obs_new (mb_new n) u) = (Inr (), s) \<and>
    stream_in (ibs_ops mbsb_ops) g t (ibs_new (ob_buffer s) u) = (Inr v, r) \<and>
    length (ibs_bits mb_contents r) < 8"
  using codes_run_bits [OF block_bits.stream_roundtrip [OF assms]] by blast

text \<open>A structure with a sequence of 10-bit numbers and an \<open>RMap\<close> from bytes to booleans.\<close>

abbreviation demo_map_type :: rpc_type where
  "demo_map_type \<equiv> T_map (ordered_insert False ((\<lambda>v. case v of V_8 w \<Rightarrow> unat w | _ \<Rightarrow> 0) \<circ> fst)) (T_u8 7) T_bool"

theorem bit_stream_roundtrip_witness:
  "\<exists>s r. stream_out (obs_ops mbsb_ops) (T_struct [T_bool, T_seq (T_i16 10), demo_map_type])
      (V_list [V_bool True, V_list [V_16 5, V_16 (- 3)], V_map [(V_8 3, V_bool True), (V_8 9, V_bool False)]])
      (obs_new (mb_new 8) True) = (Inr (), s) \<and>
    stream_in (ibs_ops mbsb_ops) 0 (T_struct [T_bool, T_seq (T_i16 10), demo_map_type]) (ibs_new (ob_buffer s) True) =
      (Inr (V_list [V_bool True, V_list [V_16 5, V_16 (- 3)], V_map [(V_8 3, V_bool True), (V_8 9, V_bool False)]]), r) \<and>
    length (ibs_bits mb_contents r) < 8"
proof (rule bit_stream_roundtrip)
  have "valid False (T_seq (T_i16 10)) (V_list [V_16 5, V_16 (- 3)])" by (simp, code_simp)
  moreover have "valid False demo_map_type (V_map [(V_8 3, V_bool True), (V_8 9, V_bool False)])"
    by (simp add: streamable_def isEnoughBits_def fits_def)
  ultimately show "valid False (T_struct [T_bool, T_seq (T_i16 10), demo_map_type])
      (V_list [V_bool True, V_list [V_16 5, V_16 (- 3)], V_map [(V_8 3, V_bool True), (V_8 9, V_bool False)]])"
    by simp
qed

text \<open>The same over the byte streams, empty strings included, with nothing left in the
  block.\<close>

lemma byte_stream_roundtrip:
  assumes "valid True t v"
  shows "\<exists>s r. stream_out (oys_ops mbsb_ops) t v (oys_new (mb_new n) u) = (Inr (), s) \<and>
    stream_in (iys_ops mbsb_ops) g t (iys_new (oy_buffer s) u) = (Inr v, r) \<and>
    mb_contents (iy_buffer r) = []"
  using codes_run_bytes [OF block_bytes.stream_roundtrip [OF assms]] by blast

text \<open>An \<open>RHashSet\<close>, whose iteration may go in another order after the trip, has the same elements.\<close>

lemma hash_set_roundtrip_bits:
  assumes "length vs < 65536" and "\<forall>x \<in> set vs. valid False t x" and "\<And>x xs. set (ins x xs) = insert x (set xs)"
  shows "\<exists>s r ws. stream_out (obs_ops mbsb_ops) (T_set ins t) (V_list vs) (obs_new (mb_new n) u) = (Inr (), s) \<and>
    stream_in (ibs_ops mbsb_ops) g (T_set ins t) (ibs_new (ob_buffer s) u) = (Inr (V_list ws), r) \<and> set ws = set vs"
proof -
  have "codes (obs_at mb_inv mb_contents u) (ibs_at mb_inv mb_contents u)
      (stream_out (obs_ops mbsb_ops) t x) (stream_in (ibs_ops mbsb_ops) g t) x" if "x \<in> set vs" for x
    using that assms(2) by (intro block_bits.stream_roundtrip) simp
  note codes_run_bits [OF codes_map [OF block_bits.codes_RBaseSet [OF assms(1) this, where ins = ins], where f = V_list], of n]
  with fold_insert_contents [OF assms(3), of vs "[]"] show ?thesis by (simp, blast)
qed

text \<open>An \<open>OBitStream\<close> pads to a byte after writing an empty string, an \<open>IBitStream\<close> does not
  skip the padding after reading one: a field that follows at an unaligned position is lost.\<close>

lemma empty_string_misaligns:
  "fst (stream_in_list (ibs_ops mbsb_ops) 0 [T_bool, T_string 255 8, T_u8 8]
     (ibs_new (ob_buffer (snd (stream_out_list (obs_ops mbsb_ops) [T_bool, T_string 255 8, T_u8 8]
        [V_bool True, V_string [], V_8 255] (obs_new (mb_new 16) False)))) False)) =
   Inr [V_bool True, V_string [], V_8 128]"
  by code_simp

end
