(* ===== verification/Rpc_Network.thy ===== *)
theory Rpc_Network
  imports Rpc_Types
begin

text \<open>
  Remote procedure calls: the forwarding functors and \<open>RpcCommand::marshal\<close> on the sending
  side; \<open>RpcNetwork\<close>, \<open>RpcReceiver\<close>, \<open>RpcEventMap\<close> and the receiving functors on the other
  (include/sne/srpc, src/srpc), and the hash of include/sne/core/utility/Hash.h that names a
  method.  The member function an event calls is the application's: it is the parameter
  \<open>call\<close>, which gets the receiver, the method and the unmarshalled arguments and works on the
  application's state.  The main fact: a command that was marshalled is dispatched to the
  receiver that knows its identifier, with the arguments it was sent with.
\<close>

section \<open>Hash.h\<close>

definition hash_step :: "u32 \<Rightarrow> byte \<Rightarrow> u32" where
  "hash_step h ki =
     (let highorder = h AND 0xf8000000 in
      (push_bit 5 h XOR drop_bit 27 highorder) XOR scast ki)"

definition hash :: "byte list \<Rightarrow> u32" where
  "hash str = foldl hash_step 0 str"

section \<open>Forwarding\<close>

text \<open>\<open>ForwardingFunctorT\<close> has a specialization for each number of parameters up to eight;
  each streams its parameters in order.\<close>

definition ForwardingFunctorT_marshal ::
    "'s ostream_ops \<Rightarrow> rpc_type list \<Rightarrow> rpc_value list \<Rightarrow> ('s, unit) prog" where
  "ForwardingFunctorT_marshal ostream TList ps = stream_out_list ostream TList ps"

definition RpcCommand_marshal ::
    "'s ostream_ops \<Rightarrow> u32 \<Rightarrow> rpc_type list \<Rightarrow> rpc_value list \<Rightarrow> ('s, unit) prog" where
  "RpcCommand_marshal ostream rpcId TList ps =
     bind (os_u32 ostream rpcId 32) (\<lambda>_.
     bind (ForwardingFunctorT_marshal ostream TList ps) (\<lambda>_.
     os_align ostream))"

section \<open>Receiving\<close>

text \<open>
  An event is its list of parameter types.  \<open>RpcEventMap\<close> is a hash map, of which the code
  uses \<open>emplace\<close> (which keeps an entry that is there), \<open>find\<close>, \<open>empty\<close> and a traversal.
\<close>

type_synonym rpc_event_map = "(u32 \<times> rpc_type list) list"

definition RpcEventMap_insert :: "u32 \<Rightarrow> rpc_type list \<Rightarrow> rpc_event_map \<Rightarrow> rpc_event_map" where
  "RpcEventMap_insert rpcId event m = (if map_of m rpcId = None then m @ [(rpcId, event)] else m)"

definition RpcEventMap_getRpcEvent :: "rpc_event_map \<Rightarrow> u32 \<Rightarrow> rpc_type list option" where
  "RpcEventMap_getRpcEvent m rpcId = map_of m rpcId"

definition RpcEventMap_isEmpty :: "rpc_event_map \<Rightarrow> bool" where
  "RpcEventMap_isEmpty m \<longleftrightarrow> m = []"

record rpc_receiver =
  defaultEventMap :: rpc_event_map
  eventMap :: rpc_event_map
  rr_network :: "nat option"

definition RpcReceiver_new :: "rpc_event_map \<Rightarrow> rpc_receiver" where
  "RpcReceiver_new defaults = \<lparr>defaultEventMap = defaults, eventMap = [], rr_network = None\<rparr>"

definition RpcReceiver_cloneRpcEvents :: "rpc_receiver \<Rightarrow> rpc_receiver" where
  "RpcReceiver_cloneRpcEvents r =
     r\<lparr>eventMap := fold (\<lambda>(rpcId, event). RpcEventMap_insert rpcId event) (defaultEventMap r) (eventMap r)\<rparr>"

text \<open>What a dispatch touches: the input stream, the application, the receivers.\<close>

record ('t, 'w) rpc_world =
  rw_istream :: 't
  rw_app :: 'w
  rw_receivers :: "nat \<Rightarrow> rpc_receiver"

definition on_istream :: "('t, 'a) prog \<Rightarrow> (('t, 'w) rpc_world, 'a) prog" where
  "on_istream = zoom rw_istream (\<lambda>t s. s\<lparr>rw_istream := t\<rparr>)"

definition on_app :: "('w, 'a) prog \<Rightarrow> (('t, 'w) rpc_world, 'a) prog" where
  "on_app = zoom rw_app (\<lambda>w s. s\<lparr>rw_app := w\<rparr>)"

definition ReceivingFunctorT_unmarshal ::
    "'t istream_ops \<Rightarrow> u64 \<Rightarrow> rpc_type list \<Rightarrow> ('t, rpc_value list) prog" where
  "ReceivingFunctorT_unmarshal istream g TList = stream_in_list istream g TList"

definition RpcEvent_dispatch ::
    "'t istream_ops \<Rightarrow> u64 \<Rightarrow> (nat \<Rightarrow> u32 \<Rightarrow> rpc_value list \<Rightarrow> ('w, unit) prog) \<Rightarrow>
     nat \<Rightarrow> u32 \<Rightarrow> rpc_type list \<Rightarrow> (('t, 'w) rpc_world, unit) prog" where
  "RpcEvent_dispatch istream g call this rpcId TList =
     bind (on_istream (ReceivingFunctorT_unmarshal istream g TList)) (\<lambda>ps.
     on_app (call this rpcId ps))"

definition RpcReceiver_handleEvent ::
    "'t istream_ops \<Rightarrow> u64 \<Rightarrow> (nat \<Rightarrow> u32 \<Rightarrow> rpc_value list \<Rightarrow> ('w, unit) prog) \<Rightarrow>
     nat \<Rightarrow> u32 \<Rightarrow> rpc_type list \<Rightarrow> (('t, 'w) rpc_world, bool) prog" where
  "RpcReceiver_handleEvent istream g call this rpcId TList =
     bind (RpcEvent_dispatch istream g call this rpcId TList) (\<lambda>_.
     bind (on_istream (is_align istream)) (\<lambda>_.
     ret True))"

definition RpcReceiver_handle ::
    "'t istream_ops \<Rightarrow> u64 \<Rightarrow> (nat \<Rightarrow> u32 \<Rightarrow> rpc_value list \<Rightarrow> ('w, unit) prog) \<Rightarrow>
     nat \<Rightarrow> u32 \<Rightarrow> (('t, 'w) rpc_world, bool) prog" where
  "RpcReceiver_handle istream g call this rpcId =
     bind (gets (\<lambda>s. RpcEventMap_isEmpty (eventMap (rw_receivers s this)))) (\<lambda>shouldClone.
     bind (when_do shouldClone (modify (\<lambda>s. s\<lparr>rw_receivers :=
       (rw_receivers s)(this := RpcReceiver_cloneRpcEvents (rw_receivers s this))\<rparr>))) (\<lambda>_.
     bind (gets (\<lambda>s. RpcEventMap_getRpcEvent (eventMap (rw_receivers s this)) rpcId)) (\<lambda>rpcEvent.
     case rpcEvent of
       None \<Rightarrow> ret False
     | Some TList \<Rightarrow> RpcReceiver_handleEvent istream g call this rpcId TList)))"

text \<open>\<open>receivers_\<close> of \<open>RpcNetwork\<close>: the receivers in the order of their registration.\<close>

definition RpcNetwork_registerRpcReceiver :: "nat \<Rightarrow> nat list \<Rightarrow> nat list" where
  "RpcNetwork_registerRpcReceiver receiver receivers = receivers @ [receiver]"

definition RpcNetwork_unregisterRpcReceiver :: "nat \<Rightarrow> nat list \<Rightarrow> nat list" where
  "RpcNetwork_unregisterRpcReceiver receiver receivers = remove1 receiver receivers"

fun RpcNetwork_handleMessage ::
    "'t istream_ops \<Rightarrow> u64 \<Rightarrow> (nat \<Rightarrow> u32 \<Rightarrow> rpc_value list \<Rightarrow> ('w, unit) prog) \<Rightarrow>
     nat list \<Rightarrow> u32 \<Rightarrow> (('t, 'w) rpc_world, bool) prog" where
  "RpcNetwork_handleMessage istream g call [] rpcId = ret False"
| "RpcNetwork_handleMessage istream g call (receiver # receivers) rpcId =
     bind (RpcReceiver_handle istream g call receiver rpcId) (\<lambda>handled.
     if handled then ret True
     else RpcNetwork_handleMessage istream g call receivers rpcId)"

definition RpcNetwork_onReceive ::
    "'t istream_ops \<Rightarrow> u64 \<Rightarrow> (nat \<Rightarrow> u32 \<Rightarrow> rpc_value list \<Rightarrow> ('w, unit) prog) \<Rightarrow>
     nat list \<Rightarrow> (('t, 'w) rpc_world, unit) prog" where
  "RpcNetwork_onReceive istream g call receivers =
     bind (on_istream (is_u32 istream 32)) (\<lambda>rpcId.
     bind (RpcNetwork_handleMessage istream g call receivers rpcId) (\<lambda>handled.
     if handled then skip else throw (UnknownRpcMethodException rpcId)))"

section \<open>Events of a receiver\<close>

text \<open>The events a receiver answers: its own, or the defaults it clones when it has none.\<close>

definition events_of :: "rpc_receiver \<Rightarrow> u32 \<Rightarrow> rpc_type list option" where
  "events_of r = map_of (if eventMap r = [] then defaultEventMap r else eventMap r)"

lemma map_of_insert: "map_of (RpcEventMap_insert k e m) k' =
    (if k' = k \<and> map_of m k = None then Some e else map_of m k')"
  by (auto simp: RpcEventMap_insert_def map_add_def split: option.splits)

lemma map_of_fold_insert:
  "map_of (fold (\<lambda>(k, e). RpcEventMap_insert k e) ds m) k =
     (case map_of m k of None \<Rightarrow> map_of ds k | Some e \<Rightarrow> Some e)"
  by (induction ds arbitrary: m) (auto simp: map_of_insert split: option.splits)

lemma cloned_events:
  "eventMap r = [] \<Longrightarrow> map_of (eventMap (RpcReceiver_cloneRpcEvents r)) = events_of r"
  by (rule ext) (simp add: RpcReceiver_cloneRpcEvents_def map_of_fold_insert events_of_def)

definition cloned :: "rpc_receiver \<Rightarrow> rpc_receiver" where
  "cloned r = (if eventMap r = [] then RpcReceiver_cloneRpcEvents r else r)"

lemma events_of_cloned: "map_of (eventMap (cloned r)) = events_of r"
  by (auto simp: cloned_def cloned_events events_of_def)

lemma RpcReceiver_handle_eq:
  "RpcReceiver_handle istream g call this rpcId s =
     (let s' = s\<lparr>rw_receivers := (rw_receivers s)(this := cloned (rw_receivers s this))\<rparr> in
      case events_of (rw_receivers s this) rpcId of
        None \<Rightarrow> (Inr False, s')
      | Some TList \<Rightarrow> RpcReceiver_handleEvent istream g call this rpcId TList s')"
proof (cases "eventMap (rw_receivers s this) = []")
  case True
  then show ?thesis
    by (simp add: RpcReceiver_handle_def bind_def gets_def modify_def when_do_def ret_def
        RpcEventMap_isEmpty_def RpcEventMap_getRpcEvent_def cloned_def Let_def cloned_events
        split: option.split)
next
  case False
  then have "events_of (rw_receivers s this) = map_of (eventMap (rw_receivers s this))"
    and "(rw_receivers s)(this := cloned (rw_receivers s this)) = rw_receivers s"
    by (simp_all add: events_of_def cloned_def)
  with False show ?thesis
    by (simp add: RpcReceiver_handle_def bind_def gets_def when_do_def skip_def ret_def
        RpcEventMap_isEmpty_def RpcEventMap_getRpcEvent_def Let_def split: option.split)
qed

lemma events_of_cloned_eq: "events_of (cloned r) = events_of r"
  using events_of_cloned [of r]
  by (auto simp: events_of_def cloned_def RpcReceiver_cloneRpcEvents_def)

text \<open>Receivers that do not know the method are asked first and leave the stream alone.\<close>

lemma handleMessage_skip:
  assumes "\<forall>r \<in> set rs. events_of (rw_receivers s r) rpcId = None"
  shows "\<exists>s'. RpcNetwork_handleMessage istream g call (rs @ rs') rpcId s =
      RpcNetwork_handleMessage istream g call rs' rpcId s' \<and>
    rw_istream s' = rw_istream s \<and> rw_app s' = rw_app s \<and>
    (\<forall>r. events_of (rw_receivers s' r) = events_of (rw_receivers s r))"
  using assms
proof (induction rs arbitrary: s)
  case Nil
  then show ?case by auto
next
  case (Cons r rs)
  let ?s = "s\<lparr>rw_receivers := (rw_receivers s)(r := cloned (rw_receivers s r))\<rparr>"
  have same: "events_of (rw_receivers ?s r') = events_of (rw_receivers s r')" for r'
    by (simp add: events_of_cloned_eq)
  then obtain s' where "RpcNetwork_handleMessage istream g call (rs @ rs') rpcId ?s =
      RpcNetwork_handleMessage istream g call rs' rpcId s'"
    "rw_istream s' = rw_istream ?s" "rw_app s' = rw_app ?s"
    "\<forall>r. events_of (rw_receivers s' r) = events_of (rw_receivers ?s r)"
    using Cons.IH [of ?s] Cons.prems by (metis list.set_intros(2))
  moreover have "RpcReceiver_handle istream g call r rpcId s = (Inr False, ?s)"
    using Cons.prems by (simp add: RpcReceiver_handle_eq Let_def)
  ultimately show ?case
    using same by (auto simp: bind_def)
qed

section \<open>Dispatch\<close>

text \<open>The reads that one call makes from the stream.\<close>

definition read_call :: "'t istream_ops \<Rightarrow> u64 \<Rightarrow> rpc_type list \<Rightarrow> ('t, u32 \<times> rpc_value list) prog" where
  "read_call istream g TList =
     bind (is_u32 istream 32) (\<lambda>rpcId.
     bind (stream_in_list istream g TList) (\<lambda>ps.
     bind (is_align istream) (\<lambda>_. ret (rpcId, ps))))"

lemma onReceive_dispatch:
  assumes "read_call istream g TList (rw_istream s) = (Inr (rpcId, ps), t)"
    and "\<forall>r \<in> set rs. events_of (rw_receivers s r) rpcId = None"
    and "events_of (rw_receivers s r) rpcId = Some TList"
    and "call r rpcId ps (rw_app s) = (Inr (), w)"
  shows "\<exists>s'. RpcNetwork_onReceive istream g call (rs @ r # rs') s = (Inr (), s') \<and>
    rw_istream s' = t \<and> rw_app s' = w \<and> (\<forall>x. events_of (rw_receivers s' x) = events_of (rw_receivers s x))"
proof -
  obtain t1 t2 where t1: "is_u32 istream 32 (rw_istream s) = (Inr rpcId, t1)"
    and t2: "stream_in_list istream g TList t1 = (Inr ps, t2)"
    and t3: "is_align istream t2 = (Inr (), t)"
    using assms(1) by (auto simp: read_call_def ret_def elim!: bind_InrE)
  let ?s1 = "s\<lparr>rw_istream := t1\<rparr>"
  obtain s' where skip: "RpcNetwork_handleMessage istream g call (rs @ r # rs') rpcId ?s1 =
      RpcNetwork_handleMessage istream g call (r # rs') rpcId s'"
    and s': "rw_istream s' = t1" "rw_app s' = rw_app s" "events_of (rw_receivers s' r) rpcId = Some TList"
      "\<forall>x. events_of (rw_receivers s' x) = events_of (rw_receivers s x)"
    using handleMessage_skip [of rs ?s1 rpcId istream g call "r # rs'"] assms(2,3) by auto
  have "\<exists>s''. RpcReceiver_handle istream g call r rpcId s' = (Inr True, s'') \<and>
      rw_istream s'' = t \<and> rw_app s'' = w \<and>
      (\<forall>x. events_of (rw_receivers s'' x) = events_of (rw_receivers s x))"
    using s' t2 t3 assms(4)
    by (simp add: events_of_cloned_eq RpcReceiver_handle_eq Let_def RpcReceiver_handleEvent_def RpcEvent_dispatch_def
        ReceivingFunctorT_unmarshal_def on_istream_def on_app_def zoom_def bind_def ret_def)
  then show ?thesis
    using t1 skip
    by (auto simp: RpcNetwork_onReceive_def on_istream_def zoom_def bind_def ret_def skip_def)
qed

lemma onReceive_unknown:
  assumes "is_u32 istream 32 (rw_istream s) = (Inr rpcId, t)"
    and "\<forall>r \<in> set rs. events_of (rw_receivers s r) rpcId = None"
  shows "\<exists>s'. RpcNetwork_onReceive istream g call rs s = (Inl (UnknownRpcMethodException rpcId), s') \<and>
    rw_istream s' = t \<and> rw_app s' = rw_app s"
  using handleMessage_skip [of rs "s\<lparr>rw_istream := t\<rparr>" rpcId istream g call "[]"] assms
  by (auto simp: RpcNetwork_onReceive_def on_istream_def zoom_def bind_def throw_def ret_def)

context stream_codec
begin

lemma codes_RpcCommand:
  assumes "valid_list empty_ok TList ps"
  shows "codes orel irel (RpcCommand_marshal OS rpcId TList ps) (read_call IS g TList) (rpcId, ps)"
proof -
  have "codes orel irel (os_u32 OS rpcId 32) (is_u32 IS 32) rpcId"
    by (rule codes_u32) (simp_all add: streamable_def isEnoughBits_def)
  moreover have "codes orel irel (stream_out_list OS TList ps) (stream_in_list IS g TList) ps"
    using stream_list_roundtrip stream_roundtrip assms by blast
  moreover have "codes orel irel (os_align OS) (bind (is_align IS) (\<lambda>_. ret (rpcId, ps))) (rpcId, ps)"
    by (rule codes_map [OF codes_align])
  ultimately show ?thesis
    unfolding RpcCommand_marshal_def ForwardingFunctorT_marshal_def read_call_def
    by (intro codes_bind)
qed

end

section \<open>The hash\<close>

text \<open>One step rotates the state by five bits and adds the character.\<close>

definition hash_rotate :: "u32 \<Rightarrow> u32" where
  "hash_rotate h = push_bit 5 h XOR drop_bit 27 (h AND 0xf8000000)"

lemma hash_step_rotate: "hash_step h k = hash_rotate h XOR scast k"
  by (simp add: hash_step_def hash_rotate_def Let_def)

lemma hash_rotate_alt: "hash_rotate h = push_bit 5 h XOR drop_bit 27 h"
proof -
  have "drop_bit 27 (h AND 0xf8000000) = drop_bit 27 h AND mask 5"
    by (simp add: mask_eq_decr_exp)
  also have "\<dots> = drop_bit 27 h"
    by (rule bit_word_eqI) (auto simp: bit_and_iff bit_drop_bit_eq bit_mask_iff dest: bit_imp_le_length)
  finally show ?thesis by (simp only: hash_rotate_def)
qed

lemma bit_hash_rotate: "i < 32 \<Longrightarrow> bit (hash_rotate h) ((i + 5) mod 32) = bit h i"
  by (cases "i < 27")
    (auto simp: hash_rotate_alt bit_xor_iff bit_push_bit_iff bit_drop_bit_eq mod_if
      dest: bit_imp_le_length)

lemma xor_cancel: "a XOR c = b XOR c \<Longrightarrow> a = b" "c XOR a = c XOR b \<Longrightarrow> a = b"
  for a b c :: "'a::len word"
  by (auto simp: bit_eq_iff bit_xor_iff)

lemma hash_step_inject: "hash_step h k = hash_step h' k \<Longrightarrow> h = h'"
  unfolding hash_step_rotate
proof (rule bit_word_eqI)
  assume "hash_rotate h XOR scast k = hash_rotate h' XOR scast k"
  then have eq: "hash_rotate h = hash_rotate h'"
    by (rule xor_cancel)
  show "bit h i = bit h' i" if "i < LENGTH(32)" for i
    using that bit_hash_rotate [of i h] bit_hash_rotate [of i h'] eq by simp
qed

lemma scast_byte_back: "ucast (scast a :: u32) = (a :: byte)"
proof (rule bit_word_eqI)
  fix n
  assume "n < LENGTH(8)"
  then have "min 7 n = n" "n < 32" by simp_all
  then show "bit (ucast (scast a :: u32) :: byte) n = bit a n"
    by (auto simp: bit_ucast_iff bit_signed_iff dest: bit_imp_le_length)
qed

lemma scast_byte_inject: "(scast a :: u32) = scast b \<Longrightarrow> a = b" for a b :: byte
  by (metis (no_types) scast_byte_back)

lemma foldl_hash_inject: "foldl hash_step h xs = foldl hash_step h' xs \<Longrightarrow> h = h'"
  by (induction xs arbitrary: h h') (auto dest: hash_step_inject)

lemma hash_differs:
  assumes "a \<noteq> b"
  shows "hash (xs @ a # ys) \<noteq> hash (xs @ b # ys)"
proof
  assume "hash (xs @ a # ys) = hash (xs @ b # ys)"
  then have "hash_step (foldl hash_step 0 xs) a = hash_step (foldl hash_step 0 xs) b"
    by (auto simp: hash_def dest: foldl_hash_inject)
  then have "(scast a :: u32) = scast b"
    unfolding hash_step_rotate by (rule xor_cancel)
  then have "a = b" by (rule scast_byte_inject)
  with assms show False by contradiction
qed

section \<open>Properties\<close>

text \<open>A remote call marshalled by \<open>RpcCommand\<close> into a block over an \<open>OBitStream\<close> and received
  by an \<open>RpcNetwork\<close> over an \<open>IBitStream\<close> on that block is dispatched to the first registered
  receiver that knows the identifier: its method runs once, with the arguments sent.\<close>

lemma rpc_call_over_bits:
  assumes "valid_list False TList ps"
    and "\<forall>r \<in> set rs. events_of (receivers r) rpcId = None"
    and "events_of (receivers r) rpcId = Some TList"
    and "call r rpcId ps w = (Inr (), w')"
  shows "\<exists>s s'. RpcCommand_marshal (obs_ops mbsb_ops) rpcId TList ps (obs_new (mb_new n) u) = (Inr (), s) \<and>
    RpcNetwork_onReceive (ibs_ops mbsb_ops) g call (rs @ r # rs')
      \<lparr>rw_istream = ibs_new (ob_buffer s) u, rw_app = w, rw_receivers = receivers\<rparr> = (Inr (), s') \<and>
    rw_app s' = w' \<and> length (ibs_bits mb_contents (rw_istream s')) < 8"
proof -
  obtain s t where run: "RpcCommand_marshal (obs_ops mbsb_ops) rpcId TList ps (obs_new (mb_new n) u) = (Inr (), s)"
    "read_call (ibs_ops mbsb_ops) g TList (ibs_new (ob_buffer s) u) = (Inr (rpcId, ps), t)"
    "length (ibs_bits mb_contents t) < 8"
    using codes_run_bits [OF block_bits.codes_RpcCommand [OF assms(1)]] by blast
  then show ?thesis
    using onReceive_dispatch [of "ibs_ops mbsb_ops" g TList
        "\<lparr>rw_istream = ibs_new (ob_buffer s) u, rw_app = w, rw_receivers = receivers\<rparr>"
        rpcId ps t rs r call w' rs'] assms(2-4)
    by auto
qed

text \<open>The same over the byte streams, with nothing left in the block.\<close>

lemma rpc_call_over_bytes:
  assumes "valid_list True TList ps"
    and "\<forall>r \<in> set rs. events_of (receivers r) rpcId = None"
    and "events_of (receivers r) rpcId = Some TList"
    and "call r rpcId ps w = (Inr (), w')"
  shows "\<exists>s s'. RpcCommand_marshal (oys_ops mbsb_ops) rpcId TList ps (oys_new (mb_new n) u) = (Inr (), s) \<and>
    RpcNetwork_onReceive (iys_ops mbsb_ops) g call (rs @ r # rs')
      \<lparr>rw_istream = iys_new (oy_buffer s) u, rw_app = w, rw_receivers = receivers\<rparr> = (Inr (), s') \<and>
    rw_app s' = w' \<and> mb_contents (iy_buffer (rw_istream s')) = []"
proof -
  obtain s t where run: "RpcCommand_marshal (oys_ops mbsb_ops) rpcId TList ps (oys_new (mb_new n) u) = (Inr (), s)"
    "read_call (iys_ops mbsb_ops) g TList (iys_new (oy_buffer s) u) = (Inr (rpcId, ps), t)"
    "mb_contents (iy_buffer t) = []"
    using codes_run_bytes [OF block_bytes.codes_RpcCommand [OF assms(1)]] by blast
  then show ?thesis
    using onReceive_dispatch [of "iys_ops mbsb_ops" g TList
        "\<lparr>rw_istream = iys_new (oy_buffer s) u, rw_app = w, rw_receivers = receivers\<rparr>"
        rpcId ps t rs r call w' rs'] assms(2-4)
    by auto
qed

text \<open>A call no registered receiver knows throws \<open>UnknownRpcMethodException\<close> with the
  identifier that was read, and runs nothing of the application.\<close>

lemma rpc_unknown_method:
  assumes "is_u32 istream 32 (rw_istream s) = (Inr rpcId, t)"
    and "\<forall>r \<in> set rs. events_of (rw_receivers s r) rpcId = None"
  shows "\<exists>s'. RpcNetwork_onReceive istream g call rs s = (Inl (UnknownRpcMethodException rpcId), s') \<and>
    rw_istream s' = t \<and> rw_app s' = rw_app s"
  by (rule onReceive_unknown [OF assms])

text \<open>Method names that differ in one character have different identifiers.\<close>

lemma hash_separates: "a \<noteq> b \<Longrightarrow> hash (xs @ a # ys) \<noteq> hash (xs @ b # ys)"
  by (rule hash_differs)

end
