(* ===== verification/Sgp_Protocol.thy ===== *)
theory Sgp_Protocol
  imports Rpc_Network Memory_Pool
begin

text \<open>
  The Simple Game Protocol's packets (include/sne/sgp/protocol): the packet header, the
  message types and the interface \<open>PacketCoder\<close> with the plain client/server coder
  \<open>CsPacketCoder\<close>.  A coder is a record of operations on the state of the coder object; the
  class' non-virtual helpers are functions of such a record.  The locale \<open>packet_codec\<close> is the
  contract that the marshaller of a session relies on: what one endpoint encodes the other,
  in step with it, decodes.
\<close>

section \<open>Messages and headers\<close>

text \<open>\<open>MessageType\<close> is an enumeration over \<open>int\<close>; \<open>mtUnknown\<close> is -1.\<close>

type_synonym message_type = int

definition mtUnknown :: message_type where
  "mtUnknown = -1"

definition isValidMessage :: "message_type \<Rightarrow> bool" where
  "isValidMessage mt \<longleftrightarrow> 0 \<le> mt \<and> mt \<le> 255"

definition csmtSystem_heartbeat :: message_type where
  "csmtSystem_heartbeat = 0"

definition csmtSystem_exchangeSeed :: message_type where
  "csmtSystem_exchangeSeed = 1"

definition csmtSystem_exchangePublicKey :: message_type where
  "csmtSystem_exchangePublicKey = 2"

definition csmtSystem_confirmSeed :: message_type where
  "csmtSystem_confirmSeed = 3"

definition csmtSystemLast :: message_type where
  "csmtSystemLast = 4"

definition csmtRpc :: message_type where
  "csmtRpc = 21"

definition isSystemMessage :: "message_type \<Rightarrow> bool" where
  "isSystemMessage mt \<longleftrightarrow> csmtSystem_heartbeat \<le> mt \<and> mt < csmtSystemLast"

definition isRpcMessage :: "message_type \<Rightarrow> bool" where
  "isRpcMessage mt \<longleftrightarrow> csmtRpc = mt"

lemmas message_type_defs = mtUnknown_def isValidMessage_def csmtSystem_heartbeat_def
  csmtSystem_exchangeSeed_def csmtSystem_exchangePublicKey_def csmtSystem_confirmSeed_def
  csmtSystemLast_def csmtRpc_def isSystemMessage_def isRpcMessage_def

text \<open>\<open>packet::put\<close> and \<open>packet::get\<close> access a primitive object in place; the position is its
  offset from \<open>base()\<close>.\<close>

definition mb_poke :: "nat \<Rightarrow> byte list \<Rightarrow> memory_block \<Rightarrow> memory_block" where
  "mb_poke offset bs mb = mb\<lparr>mb_buffer :=
     take offset (mb_buffer mb) @ bs @ drop (offset + length bs) (mb_buffer mb)\<rparr>"

definition packet_put :: "'a::len word \<Rightarrow> nat \<Rightarrow> memory_block \<Rightarrow> memory_block" where
  "packet_put value offset = mb_poke offset (object_bytes value)"

definition packet_get :: "nat \<Rightarrow> memory_block \<Rightarrow> 'a::len word" where
  "packet_get offset mb = object_value (take (LENGTH('a) div 8) (drop offset (mb_buffer mb)))"

record cs_packet_header =
  bodySize :: u16
  messageType :: message_type

definition CsPacketHeader_new :: cs_packet_header where
  "CsPacketHeader_new = \<lparr>bodySize = 0, messageType = mtUnknown\<rparr>"

definition AbstractPacketHeader_getHeaderSize :: nat where
  "AbstractPacketHeader_getHeaderSize = 2"

definition CsPacketHeader_getHeaderSize :: nat where
  "CsPacketHeader_getHeaderSize = AbstractPacketHeader_getHeaderSize + 1"

definition CsPacketHeader_reset :: "cs_packet_header \<Rightarrow> cs_packet_header" where
  "CsPacketHeader_reset h = h\<lparr>bodySize := 0, messageType := mtUnknown\<rparr>"

text \<open>An unsigned body size is never negative, so the message type decides.\<close>

definition AbstractPacketHeader_isValid :: "cs_packet_header \<Rightarrow> bool" where
  "AbstractPacketHeader_isValid h \<longleftrightarrow> bodySize h \<ge> 0"

definition CsPacketHeader_isValid :: "cs_packet_header \<Rightarrow> bool" where
  "CsPacketHeader_isValid h \<longleftrightarrow> AbstractPacketHeader_isValid h \<and> isValidMessage (messageType h)"

definition CsPacketHeader_write :: "cs_packet_header \<Rightarrow> nat \<Rightarrow> memory_block \<Rightarrow> memory_block" where
  "CsPacketHeader_write h offset mb =
     packet_put (word_of_int (messageType h) :: byte) (offset + AbstractPacketHeader_getHeaderSize)
       (packet_put (bodySize h) offset mb)"

definition CsPacketHeader_read :: "nat \<Rightarrow> memory_block \<Rightarrow> cs_packet_header \<Rightarrow> cs_packet_header" where
  "CsPacketHeader_read offset mb h =
     h\<lparr>bodySize := packet_get offset mb,
       messageType := uint (packet_get (offset + AbstractPacketHeader_getHeaderSize) mb :: byte)\<rparr>"

section \<open>PacketCoder\<close>

text \<open>
  The virtual operations.  \<open>encode\<close> and \<open>decode\<close> work on a block and may change the coder;
  \<open>encode\<close> may change the header it is given.  Seeds are strings, here of bytes; time is what
  the steady clock shows, in milliseconds, and is an argument.
\<close>

type_synonym seed = "byte list"

record 'c packet_coder_ops =
  pc_reset :: "nat \<Rightarrow> 'c \<Rightarrow> 'c"
  pc_generateCipherSeed :: "'c \<Rightarrow> seed \<times> seed"
  pc_setEncryptSeed :: "seed \<Rightarrow> 'c \<Rightarrow> 'c"
  pc_setDecryptSeed :: "seed \<Rightarrow> 'c \<Rightarrow> 'c"
  pc_readHeader :: "'c \<Rightarrow> memory_block \<Rightarrow> cs_packet_header \<Rightarrow> bool \<times> cs_packet_header"
  pc_encode :: "memory_block \<Rightarrow> cs_packet_header \<Rightarrow> 'c \<Rightarrow> bool \<times> memory_block \<times> cs_packet_header \<times> 'c"
  pc_decode :: "memory_block \<Rightarrow> 'c \<Rightarrow> bool \<times> memory_block \<times> 'c"
  pc_extendCipherKeyTimeLimit :: "nat \<Rightarrow> 'c \<Rightarrow> 'c"
  pc_getHeaderSize :: "'c \<Rightarrow> nat"
  pc_getDefaultPacketSize :: "'c \<Rightarrow> nat"
  pc_getMaxPacketBodySize :: "'c \<Rightarrow> nat"
  pc_getDefaultPacketPoolSize :: "'c \<Rightarrow> nat"
  pc_shouldExchangeCipherSeed :: "'c \<Rightarrow> bool"
  pc_isCipherKeyExpired :: "nat \<Rightarrow> 'c \<Rightarrow> bool"
  pc_hasPacketCipher :: "'c \<Rightarrow> bool"

definition PacketCoder_reserveHeader :: "nat \<Rightarrow> memory_block \<Rightarrow> memory_block" where
  "PacketCoder_reserveHeader headerSize mb = mb_advance_wr headerSize (mb_reset mb)"

definition PacketCoder_advanceToBody :: "nat \<Rightarrow> memory_block \<Rightarrow> memory_block" where
  "PacketCoder_advanceToBody headerSize mb = mb_set_rd headerSize mb"

text \<open>The body size is cut to the 16 bits of its field.\<close>

definition PacketCoder_getBodySize :: "nat \<Rightarrow> memory_block \<Rightarrow> u16" where
  "PacketCoder_getBodySize headerSize mb = word_of_int (int (mb_length mb) - int headerSize)"

definition PacketCoder_isValidPacket :: "nat \<Rightarrow> memory_block \<Rightarrow> bool" where
  "PacketCoder_isValidPacket headerSize mb \<longleftrightarrow> headerSize \<le> mb_length mb"

definition PacketCoder_readHeader ::
    "nat \<Rightarrow> memory_block \<Rightarrow> cs_packet_header \<Rightarrow> bool \<times> cs_packet_header" where
  "PacketCoder_readHeader headerSize mb header =
     (if mb_length mb < headerSize then (False, header)
      else let header = CsPacketHeader_read (rd_ptr mb) mb header
           in (CsPacketHeader_isValid header, header))"

definition PacketCoder_encode ::
    "nat \<Rightarrow> memory_block \<Rightarrow> cs_packet_header \<Rightarrow> 'c \<Rightarrow> bool \<times> memory_block \<times> cs_packet_header \<times> 'c" where
  "PacketCoder_encode headerSize mb header coder =
     (if \<not> CsPacketHeader_isValid header then (False, mb, header, coder)
      else if \<not> PacketCoder_isValidPacket headerSize mb then (False, mb, header, coder)
      else (CsPacketHeader_isValid header, CsPacketHeader_write header 0 mb, header, coder))"

definition PacketCoder_decode :: "memory_block \<Rightarrow> 'c \<Rightarrow> bool \<times> memory_block \<times> 'c" where
  "PacketCoder_decode mb coder = (True, mb, coder)"

section \<open>CsPacketCoder\<close>

text \<open>The plain coder has no state.\<close>

definition CsPacketCoder :: "unit packet_coder_ops" where
  "CsPacketCoder = \<lparr>
     pc_reset = (\<lambda>_ c. c),
     pc_generateCipherSeed = (\<lambda>_. ([], [])),
     pc_setEncryptSeed = (\<lambda>_ c. c),
     pc_setDecryptSeed = (\<lambda>_ c. c),
     pc_readHeader = (\<lambda>_. PacketCoder_readHeader CsPacketHeader_getHeaderSize),
     pc_encode = PacketCoder_encode CsPacketHeader_getHeaderSize,
     pc_decode = PacketCoder_decode,
     pc_extendCipherKeyTimeLimit = (\<lambda>_ c. c),
     pc_getHeaderSize = (\<lambda>_. CsPacketHeader_getHeaderSize),
     pc_getDefaultPacketSize = (\<lambda>_. 2 * 1024),
     pc_getMaxPacketBodySize = (\<lambda>_. 65535 - CsPacketHeader_getHeaderSize),
     pc_getDefaultPacketPoolSize = (\<lambda>_. 10),
     pc_shouldExchangeCipherSeed = (\<lambda>_. False),
     pc_isCipherKeyExpired = (\<lambda>_ _. False),
     pc_hasPacketCipher = (\<lambda>_. False)\<rparr>"

section \<open>The contract of a packet coder\<close>

text \<open>The header that a packet on the wire starts with, and what a block becomes when it is
  decoded.\<close>

definition wire_header :: "nat \<Rightarrow> message_type \<Rightarrow> byte list" where
  "wire_header n mt = bytes_of 2 (word_of_nat n :: u16) @ [word_of_int mt]"

text \<open>A block that carries exactly some bytes from its base.\<close>

definition carries :: "memory_block \<Rightarrow> byte list \<Rightarrow> bool" where
  "carries mb bs \<longleftrightarrow> rd_ptr mb = 0 \<and> wr_ptr mb = length bs \<and> take (length bs) (mb_buffer mb) = bs"

text \<open>
  \<open>sync e d\<close> says that what the endpoint \<open>e\<close> encodes next \<open>d\<close> can decode; \<open>padded\<close> is what a
  coder makes of a body (a cipher fills its last block).
\<close>

locale packet_codec =
  fixes ops :: "'c packet_coder_ops" and hsize :: nat and sync :: "'c \<Rightarrow> 'c \<Rightarrow> bool"
    and padded :: "byte list \<Rightarrow> byte list"
  assumes headerSize: "pc_getHeaderSize ops c = hsize"
    and headerSize_ge: "3 \<le> hsize"
    and readHeader: "mb_inv mb \<Longrightarrow> hsize \<le> mb_length mb \<Longrightarrow>
      pc_readHeader ops c mb h = (True, CsPacketHeader_read (rd_ptr mb) mb h)"
    and encode: "sync e d\<^sub>0 \<Longrightarrow> carries mb (hdr @ body) \<Longrightarrow> length hdr = hsize \<Longrightarrow>
      length (padded body) < 65536 \<Longrightarrow> isValidMessage mt \<Longrightarrow>
      \<exists>mb' h' e' packet.
        pc_encode ops mb \<lparr>bodySize = PacketCoder_getBodySize hsize mb, messageType = mt\<rparr> e =
          (True, mb', h', e') \<and>
        carries mb' packet \<and> length packet = hsize + length (padded body) \<and>
        take 3 packet = wire_header (length (padded body)) mt \<and>
        (\<forall>d rb. sync e d \<longrightarrow> carries rb packet \<longrightarrow>
           (\<exists>rb' d' hdr'. pc_decode ops rb d = (True, rb', d') \<and>
              carries rb' (hdr' @ padded body) \<and> length hdr' = hsize \<and> sync e' d'))"

section \<open>Headers on the wire\<close>

lemma carriesD:
  assumes "carries mb bs"
  shows "mb_inv mb" and "mb_contents mb = bs" and "mb_length mb = length bs" and "rd_ptr mb = 0"
    and "length bs \<le> length (mb_buffer mb)"
proof -
  have "length (take (length bs) (mb_buffer mb)) = length bs"
    using assms unfolding carries_def by metis
  then show "length bs \<le> length (mb_buffer mb)" by simp
  with assms show "mb_inv mb" and "mb_contents mb = bs" and "mb_length mb = length bs"
    and "rd_ptr mb = 0"
    by (simp_all add: carries_def mb_query_defs)
qed

lemma carries_iff: "carries mb bs \<longleftrightarrow> mb_inv mb \<and> rd_ptr mb = 0 \<and> mb_contents mb = bs"
  by (auto simp: carriesD) (auto simp: carries_def mb_query_defs)

lemma mb_poke_carries:
  assumes "carries mb (xs @ ys @ zs)" and "length ys' = length ys"
  shows "carries (mb_poke (length xs) ys' mb) (xs @ ys' @ zs)"
proof -
  obtain rest where "mb_buffer mb = (xs @ ys @ zs) @ rest"
    using assms(1) unfolding carries_def by (metis append_take_drop_id)
  with assms show ?thesis
    by (simp add: carries_def mb_poke_def)
qed

lemma object_bytes_u8: "object_bytes (c :: byte) = [c]"
  by (simp add: object_bytes_def toRpcByteOrder_def bytes_of_def)

lemma object_bytes_u16: "object_bytes (v :: u16) = bytes_of 2 v"
  by (simp add: object_bytes_def toRpcByteOrder_def)

lemma CsPacketHeader_write_carries:
  assumes "carries mb (hdr @ zs)" and "length hdr = 3"
  shows "carries (CsPacketHeader_write h 0 mb)
    (bytes_of 2 (bodySize h) @ [word_of_int (messageType h)] @ zs)"
proof -
  obtain a b c where hdr: "hdr = [a, b] @ [c]"
    using assms(2) by (auto simp: numeral_3_eq_3 length_Suc_conv)
  have "carries (packet_put (bodySize h) 0 mb) (bytes_of 2 (bodySize h) @ [c] @ zs)"
    using mb_poke_carries [of mb "[]" "[a, b]" "[c] @ zs" "bytes_of 2 (bodySize h)"] assms(1) hdr
    by (simp add: packet_put_def object_bytes_u16)
  from mb_poke_carries [OF this, of "[word_of_int (messageType h)]"] show ?thesis
    by (simp add: CsPacketHeader_write_def packet_put_def [where 'a = 8] object_bytes_u8
        AbstractPacketHeader_getHeaderSize_def numeral_2_eq_2)
qed

lemma CsPacketHeader_read_wire:
  assumes "mb_inv mb" and "take 3 (mb_contents mb) = wire_header n mt"
    and "n < 65536" and "isValidMessage mt"
  shows "CsPacketHeader_read (rd_ptr mb) mb h = \<lparr>bodySize = word_of_nat n, messageType = mt\<rparr>"
proof -
  let ?buf = "drop (rd_ptr mb) (mb_buffer mb)"
  have "take 3 (mb_contents mb) = take 3 ?buf"
  proof -
    have "length (take 3 (mb_contents mb)) = 3" by (simp add: assms(2) wire_header_def)
    then have "3 \<le> wr_ptr mb - rd_ptr mb"
      using assms(1) by (simp add: mb_query_defs)
    then show ?thesis by (simp add: mb_contents_def min_def)
  qed
  then have t: "take 3 ?buf = bytes_of 2 (word_of_nat n :: u16) @ [word_of_int mt]"
    using assms(2) by (simp add: wire_header_def)
  then have "take 2 (take 3 ?buf) = bytes_of 2 (word_of_nat n :: u16)"
    and "drop 2 (take 3 ?buf) = [word_of_int mt]"
    by simp_all
  then have "take 2 ?buf = bytes_of 2 (word_of_nat n :: u16)"
    and "take 1 (drop (rd_ptr mb + 2) (mb_buffer mb)) = [word_of_int mt]"
    by (simp_all add: drop_take add.commute)
  moreover have "uint (word_of_int mt :: byte) = mt"
    using assms(4) by (simp add: isValidMessage_def uint_word_of_int take_bit_int_eq_self)
  ultimately show ?thesis
    by (simp add: CsPacketHeader_read_def packet_get_def object_value_def toRpcByteOrder_def
        AbstractPacketHeader_getHeaderSize_def word_of_bytes_bytes_of
        word_of_bytes_bytes_of [of 1 "word_of_int mt :: byte", unfolded bytes_of_def, simplified])
qed

lemma CsPacketHeader_read_valid: "CsPacketHeader_isValid (CsPacketHeader_read offset mb h)"
proof -
  have "uint (b :: byte) \<le> 255" for b using uint_lt2p [of b] by simp
  then show ?thesis
    by (simp add: CsPacketHeader_isValid_def CsPacketHeader_read_def isValidMessage_def
        AbstractPacketHeader_isValid_def)
qed

lemma getBodySize_carries:
  "carries mb (hdr @ body) \<Longrightarrow> length hdr = hsize \<Longrightarrow>
    PacketCoder_getBodySize hsize mb = word_of_nat (length body)"
  by (simp add: PacketCoder_getBodySize_def carriesD)

interpretation cs_codec: packet_codec CsPacketCoder 3 "\<lambda>_ _. True" "\<lambda>body. body"
proof (unfold_locales, goal_cases)
  case (3 mb c h)
  then show ?case
    by (simp add: CsPacketCoder_def PacketCoder_readHeader_def CsPacketHeader_read_valid Let_def
        CsPacketHeader_getHeaderSize_def AbstractPacketHeader_getHeaderSize_def)
next
  case (4 e d0 mb hdr body mt)
  let ?h = "\<lparr>bodySize = PacketCoder_getBodySize 3 mb, messageType = mt\<rparr>"
  let ?packet = "wire_header (length body) mt @ body"
  have "pc_encode CsPacketCoder mb ?h e = (True, CsPacketHeader_write ?h 0 mb, ?h, e)"
    using 4 by (simp add: CsPacketCoder_def PacketCoder_encode_def CsPacketHeader_isValid_def
        AbstractPacketHeader_isValid_def PacketCoder_isValidPacket_def carriesD
        CsPacketHeader_getHeaderSize_def AbstractPacketHeader_getHeaderSize_def)
  moreover have "carries (CsPacketHeader_write ?h 0 mb) ?packet"
    using CsPacketHeader_write_carries [OF 4(2,3), of ?h] 4(2,3)
    by (simp add: wire_header_def getBodySize_carries)
  moreover have "pc_decode CsPacketCoder rb d = (True, rb, d)" for rb d
    by (simp add: CsPacketCoder_def PacketCoder_decode_def)
  moreover have "length (wire_header (length body) mt) = 3"
    by (simp add: wire_header_def)
  ultimately show ?case
    by (intro exI [of _ "CsPacketHeader_write ?h 0 mb"] exI [of _ ?h] exI [of _ e] exI [of _ ?packet])
      auto
qed (simp_all add: CsPacketCoder_def CsPacketHeader_getHeaderSize_def
    AbstractPacketHeader_getHeaderSize_def)

end
