(* ===== verification/Sgp_Marshaller.thy ===== *)
theory Sgp_Marshaller
  imports Sgp_Protocol
begin

text \<open>
  \<open>SgpMarshaller\<close> (src/sgp/session/SgpMarshaller.cpp): it turns messages into packets and cuts
  the received byte stream into messages.  The coder is a parameter, used through the contract
  \<open>packet_codec\<close>; the callback of \<open>unmarshal\<close> is the session's and works on the coder (a
  handler may set new cipher seeds), the message block and the state behind it.  The main fact
  is that framing is lossless: however the network cuts the bytes that one endpoint
  marshalled, the other endpoint's callback gets exactly the messages sent, in order.
\<close>

section \<open>The marshaller\<close>

record 'c sgp_marshaller =
  packetHeaderSize :: nat
  packetCoder :: 'c
  headerForReceive :: cs_packet_header
  recvBlock :: memory_block
  msgBlock :: memory_block

text \<open>The constructor takes the two blocks from the session's block manager.\<close>

definition SgpMarshaller_new :: "'c packet_coder_ops \<Rightarrow> 'c \<Rightarrow> memory_block \<Rightarrow> memory_block \<Rightarrow> 'c sgp_marshaller" where
  "SgpMarshaller_new ops coder recv msg =
     \<lparr>packetHeaderSize = pc_getHeaderSize ops coder, packetCoder = coder,
      headerForReceive = CsPacketHeader_new, recvBlock = recv, msgBlock = msg\<rparr>"

definition SgpMarshaller_reset :: "'c packet_coder_ops \<Rightarrow> nat \<Rightarrow> 'c sgp_marshaller \<Rightarrow> 'c sgp_marshaller" where
  "SgpMarshaller_reset ops now m =
     m\<lparr>packetCoder := pc_reset ops now (packetCoder m),
       headerForReceive := CsPacketHeader_reset (headerForReceive m),
       recvBlock := mb_reset (recvBlock m), msgBlock := mb_reset (msgBlock m)\<rparr>"

definition SgpMarshaller_marshal ::
    "'c packet_coder_ops \<Rightarrow> memory_block \<Rightarrow> message_type \<Rightarrow> 'c \<Rightarrow> bool \<times> memory_block \<times> 'c" where
  "SgpMarshaller_marshal ops mb mt coder =
     (let headerSize = pc_getHeaderSize ops coder in
      if \<not> PacketCoder_isValidPacket headerSize mb then (False, mb, coder)
      else
        let header = \<lparr>bodySize = PacketCoder_getBodySize headerSize mb, messageType = mt\<rparr>;
            (encoded, mb, header, coder) = pc_encode ops mb header coder
        in if encoded then (True, mb, coder) else (False, mb, coder))"

definition SgpMarshaller_isPacketHeaderArrived :: "'c sgp_marshaller \<Rightarrow> bool" where
  "SgpMarshaller_isPacketHeaderArrived m \<longleftrightarrow> packetHeaderSize m \<le> mb_length (recvBlock m)"

definition SgpMarshaller_isMessageArrived :: "'c sgp_marshaller \<Rightarrow> bool" where
  "SgpMarshaller_isMessageArrived m \<longleftrightarrow>
     packetHeaderSize m + unat (bodySize (headerForReceive m)) \<le> mb_length (recvBlock m)"

definition SgpMarshaller_parseHeader ::
    "'c packet_coder_ops \<Rightarrow> 'c sgp_marshaller \<Rightarrow> bool \<times> 'c sgp_marshaller" where
  "SgpMarshaller_parseHeader ops m =
     (if CsPacketHeader_isValid (headerForReceive m) then (True, m)
      else let (read, header) = pc_readHeader ops (packetCoder m) (recvBlock m) (headerForReceive m)
           in (read, m\<lparr>headerForReceive := header\<rparr>))"

definition SgpMarshaller_parseMessage ::
    "'c packet_coder_ops \<Rightarrow> 'c sgp_marshaller \<Rightarrow> bool \<times> 'c sgp_marshaller" where
  "SgpMarshaller_parseMessage ops m =
     (let messageSize = packetHeaderSize m + unat (bodySize (headerForReceive m));
          packet = take messageSize (drop (rd_ptr (recvBlock m)) (mb_buffer (recvBlock m)));
          msg = mb_copyFrom packet (mb_size messageSize (mb_reset (msgBlock m)));
          recv = mb_crunch (mb_advance_rd messageSize (recvBlock m));
          (decoded, msg, coder) = pc_decode ops msg (packetCoder m);
          m = m\<lparr>packetCoder := coder, recvBlock := recv, msgBlock := msg\<rparr>
      in if \<not> decoded then (False, m)
         else
           let m = m\<lparr>msgBlock := PacketCoder_advanceToBody (pc_getHeaderSize ops coder) (msgBlock m)\<rparr>
           in (isValidMessage (messageType (headerForReceive m)), m))"

text \<open>The exceptions derived from \<open>core::Exception\<close>, which \<open>unmarshal\<close> catches.\<close>

definition is_core_exception :: "sne_error \<Rightarrow> bool" where
  "is_core_exception e \<longleftrightarrow> (case e of
     StreamingException _ \<Rightarrow> True | UnknownRpcMethodException _ \<Rightarrow> True | NotDefinedConfigError _ _ \<Rightarrow> True
   | _ \<Rightarrow> False)"

text \<open>The loop of \<open>unmarshal\<close>; the state is the marshaller, the number of messages received so
  far and the state that the callback works on.\<close>

type_synonym ('c, 'a) message_callback = "message_type \<Rightarrow> ('c \<times> memory_block \<times> 'a, bool) prog"

partial_function (option) SgpMarshaller_unmarshal ::
    "'c packet_coder_ops \<Rightarrow> ('c, 'a) message_callback \<Rightarrow> 'c sgp_marshaller \<times> nat \<times> 'a \<Rightarrow>
     ((sne_error + bool) \<times> 'c sgp_marshaller \<times> nat \<times> 'a) option" where
  "SgpMarshaller_unmarshal ops callback s =
     (case s of (m, receivedMessageCount, a) \<Rightarrow>
      if \<not> SgpMarshaller_isPacketHeaderArrived m then Some (Inr True, s)
      else
        (case SgpMarshaller_parseHeader ops m of (parsed, m) \<Rightarrow>
         if \<not> parsed then Some (Inr False, m, receivedMessageCount, a)
         else if \<not> SgpMarshaller_isMessageArrived m then Some (Inr True, m, receivedMessageCount, a)
         else
           (case SgpMarshaller_parseMessage ops m of (parsed, m) \<Rightarrow>
            if \<not> parsed then Some (Inr False, m, receivedMessageCount, a)
            else
              (case callback (messageType (headerForReceive m)) (packetCoder m, msgBlock m, a) of
                 (r, coder, msg, a) \<Rightarrow>
                   (case r of
                      Inl e \<Rightarrow>
                        Some (if is_core_exception e then Inr False else Inl e,
                              m\<lparr>packetCoder := coder, msgBlock := msg\<rparr>, receivedMessageCount + 1, a)
                    | Inr handled \<Rightarrow>
                        if \<not> handled
                        then Some (Inr False, m\<lparr>packetCoder := coder, msgBlock := msg\<rparr>,
                                   receivedMessageCount + 1, a)
                        else SgpMarshaller_unmarshal ops callback
                               (m\<lparr>packetCoder := coder, msgBlock := msg,
                                  headerForReceive := CsPacketHeader_reset (headerForReceive m)\<rparr>,
                                receivedMessageCount + 1, a))))))"

text \<open>\<open>acquireSendBlock\<close> dereferences what the manager returns.\<close>

definition SgpMarshaller_acquireSendBlock ::
    "'c packet_coder_ops \<Rightarrow> 'c \<Rightarrow> nat \<Rightarrow> (block_heap \<times> memory_pool, nat) prog" where
  "SgpMarshaller_acquireSendBlock ops coder manager =
     bind (MemoryBlockManager_acquire manager) (\<lambda>mblock.
       case mblock of
         None \<Rightarrow> throw (UndefinedBehaviour ''null memory block'')
       | Some p \<Rightarrow> bind (modify (\<lambda>(h, pool).
           (h\<lparr>bh_blocks := (bh_blocks h)(p := map_option
               (PacketCoder_reserveHeader (pc_getHeaderSize ops coder)) (bh_blocks h p))\<rparr>, pool)))
           (\<lambda>_. ret p))"

section \<open>Both ends of a connection\<close>

text \<open>What an endpoint puts on the wire for a list of messages: each body is written behind
  the reserved header of a fresh block of \<open>n\<close> bytes and marshalled.\<close>

definition send_block :: "nat \<Rightarrow> nat \<Rightarrow> byte list \<Rightarrow> memory_block" where
  "send_block headerSize n body = mb_copyFrom body (PacketCoder_reserveHeader headerSize (mb_new n))"

fun marshal_all ::
    "'c packet_coder_ops \<Rightarrow> nat \<Rightarrow> (message_type \<times> byte list) list \<Rightarrow> 'c \<Rightarrow> (byte list \<times> 'c) option" where
  "marshal_all ops n [] c = Some ([], c)"
| "marshal_all ops n ((mt, body) # ms) c =
     (case SgpMarshaller_marshal ops (send_block (pc_getHeaderSize ops c) n body) mt c of
        (ok, mb, c) \<Rightarrow>
          if \<not> ok then None
          else map_option (\<lambda>(bs, c). (mb_contents mb @ bs, c)) (marshal_all ops n ms c))"

text \<open>What a session does with each piece of data that arrives: it is appended to the receive
  block and unmarshalled; an error ends the connection.\<close>

fun receive_all ::
    "'c packet_coder_ops \<Rightarrow> ('c, 'a) message_callback \<Rightarrow> byte list list \<Rightarrow>
     'c sgp_marshaller \<times> nat \<times> 'a \<Rightarrow> ((sne_error + bool) \<times> 'c sgp_marshaller \<times> nat \<times> 'a) option" where
  "receive_all ops callback [] s = Some (Inr True, s)"
| "receive_all ops callback (chunk # chunks) (m, n, a) =
     (case SgpMarshaller_unmarshal ops callback
            (m\<lparr>recvBlock := mb_copyFrom chunk (recvBlock m)\<rparr>, n, a) of
        None \<Rightarrow> None
      | Some (r, s) \<Rightarrow> if r = Inr True then receive_all ops callback chunks s else Some (r, s))"

section \<open>The loop ends\<close>

lemma mb_length_crunch [simp]: "mb_length (mb_crunch mb) = mb_length mb"
  by (simp add: mb_crunch_def Let_def mb_length_def)

lemma mb_length_advance_rd [simp]: "mb_length (mb_advance_rd n mb) = mb_length mb - n"
  by (simp add: mb_advance_rd_def mb_length_def)

lemma parseHeader_recvBlock [simp]:
  "recvBlock (snd (SgpMarshaller_parseHeader ops m)) = recvBlock m"
  "packetHeaderSize (snd (SgpMarshaller_parseHeader ops m)) = packetHeaderSize m"
  by (simp_all add: SgpMarshaller_parseHeader_def split_beta)

lemma parseMessage_consumes:
  assumes "SgpMarshaller_parseMessage ops m = (ok, m')"
  shows "recvBlock m' = mb_crunch (mb_advance_rd
      (packetHeaderSize m + unat (bodySize (headerForReceive m))) (recvBlock m))"
    and "packetHeaderSize m' = packetHeaderSize m"
  using assms by (auto simp: SgpMarshaller_parseMessage_def Let_def split_beta split: if_splits)

lemma unmarshal_total:
  assumes "0 < packetHeaderSize m"
  shows "\<exists>r. SgpMarshaller_unmarshal ops callback (m, n, a) = Some r"
  using assms
proof (induction "mb_length (recvBlock m)" arbitrary: m n a rule: less_induct)
  case less
  obtain ok m1 where ph: "SgpMarshaller_parseHeader ops m = (ok, m1)" by fastforce
  then have m1: "recvBlock m1 = recvBlock m" "packetHeaderSize m1 = packetHeaderSize m"
    using parseHeader_recvBlock [of ops m] by simp_all
  obtain ok2 m2 where pm: "SgpMarshaller_parseMessage ops m1 = (ok2, m2)" by fastforce
  note m2 = parseMessage_consumes [OF pm]
  obtain r coder msg a' where cb:
    "callback (messageType (headerForReceive m2)) (packetCoder m2, msgBlock m2, a) = (r, coder, msg, a')"
    by (cases "callback (messageType (headerForReceive m2)) (packetCoder m2, msgBlock m2, a)") auto
  let ?m3 = "m2\<lparr>packetCoder := coder, msgBlock := msg,
    headerForReceive := CsPacketHeader_reset (headerForReceive m2)\<rparr>"
  have step: "\<exists>y. SgpMarshaller_unmarshal ops callback (?m3, n + 1, a') = Some y"
    if "SgpMarshaller_isMessageArrived m1"
    using that less.prems m1 m2
    by (intro less.hyps) (auto simp: SgpMarshaller_isMessageArrived_def)
  show ?case
    using step by (subst SgpMarshaller_unmarshal.simps) (simp add: ph pm cb split: sum.split)
qed

section \<open>Framing\<close>

lemma carries_message_block: "carries (mb_copyFrom packet (mb_size n (mb_reset mb))) packet"
proof -
  have "mb_inv (mb_size n (mb_reset mb))" and "mb_contents (mb_size n (mb_reset mb)) = []"
    and "rd_ptr (mb_size n (mb_reset mb)) = 0"
    by (simp_all add: mb_size_def mb_reset_def mb_query_defs)
  then show ?thesis by (simp add: carries_iff mb_copyFrom_props)
qed

lemma take_recv: "mb_inv mb \<Longrightarrow> n \<le> mb_length mb \<Longrightarrow>
    take n (drop (rd_ptr mb) (mb_buffer mb)) = take n (mb_contents mb)"
  by (simp add: mb_contents_def mb_length_def min_def)

lemma carries_advance:
  "carries mb (hdr @ body) \<Longrightarrow> mb_inv (PacketCoder_advanceToBody (length hdr) mb) \<and>
    mb_contents (PacketCoder_advanceToBody (length hdr) mb) = body"
  by (auto simp: carries_def PacketCoder_advanceToBody_def mb_set_rd_def mb_inv_def mb_contents_alt
      dest: arg_cong [of _ _ length])

lemma carries_send_block:
  assumes "headerSize \<le> n"
  shows "\<exists>hdr. carries (send_block headerSize n body) (hdr @ body) \<and> length hdr = headerSize"
proof -
  let ?mb = "PacketCoder_reserveHeader headerSize (mb_new n)"
  have "mb_inv ?mb" and "rd_ptr ?mb = 0" and "length (mb_contents ?mb) = headerSize"
    using assms mb_inv_new(3) [of n]
    by (simp_all add: PacketCoder_reserveHeader_def mb_advance_wr_def mb_reset_def mb_query_defs)
  then show ?thesis
    by (intro exI [of _ "mb_contents ?mb"]) (simp add: send_block_def carries_iff mb_copyFrom_props)
qed

context packet_codec
begin

text \<open>The bytes that decode, starting in step with the sender's state \<open>e\<close>, to a list of
  messages.\<close>

inductive wire :: "'c \<Rightarrow> (message_type \<times> byte list) list \<Rightarrow> byte list \<Rightarrow> 'c \<Rightarrow> bool" where
  wire_Nil: "wire e [] [] e"
| wire_Cons: "length packet = hsize + length body \<Longrightarrow> length body < 65536 \<Longrightarrow> isValidMessage mt \<Longrightarrow>
    take 3 packet = wire_header (length body) mt \<Longrightarrow>
    (\<And>d rb. sync e d \<Longrightarrow> carries rb packet \<Longrightarrow>
       \<exists>rb' d' hdr'. pc_decode ops rb d = (True, rb', d') \<and>
         carries rb' (hdr' @ body) \<and> length hdr' = hsize \<and> sync e\<^sub>1 d') \<Longrightarrow>
    wire e\<^sub>1 ms bs e' \<Longrightarrow> wire e ((mt, body) # ms) (packet @ bs) e'"

inductive_simps wire_Nil_iff: "wire e [] bs e'"
inductive_cases wire_ConsE: "wire e ((mt, body) # ms) bs e'"

lemma wire_body_bound: "wire e ((mt, body) # ms) bs e' \<Longrightarrow> length body < 65536"
  by (erule wire_ConsE) simp

lemma wire_append: "wire e ms bs e\<^sub>1 \<Longrightarrow> wire e\<^sub>1 ms' bs' e' \<Longrightarrow> wire e (ms @ ms') (bs @ bs') e'"
  by (induction rule: wire.induct) (simp, simp, rule wire_Cons, blast+)

lemma marshal_wire:
  assumes "sync e d" and "carries mb (hdr @ body)" and "length hdr = hsize"
    and "isValidMessage mt" and "length (padded body) < 65536"
  obtains mb' e\<^sub>1 packet d' where "SgpMarshaller_marshal ops mb mt e = (True, mb', e\<^sub>1)"
    and "carries mb' packet" and "wire e [(mt, padded body)] packet e\<^sub>1" and "sync e\<^sub>1 d'"
proof -
  obtain mb' h' e\<^sub>1 packet where enc:
    "pc_encode ops mb \<lparr>bodySize = PacketCoder_getBodySize hsize mb, messageType = mt\<rparr> e =
       (True, mb', h', e\<^sub>1)"
    "carries mb' packet" "length packet = hsize + length (padded body)"
    "take 3 packet = wire_header (length (padded body)) mt"
    "\<And>d rb. sync e d \<Longrightarrow> carries rb packet \<Longrightarrow>
       \<exists>rb' d' hdr'. pc_decode ops rb d = (True, rb', d') \<and>
         carries rb' (hdr' @ padded body) \<and> length hdr' = hsize \<and> sync e\<^sub>1 d'"
    using encode [OF assms(1-3,5,4)] by blast
  obtain d' where d': "sync e\<^sub>1 d'" using enc(5) [OF assms(1) enc(2)] by blast
  have "SgpMarshaller_marshal ops mb mt e = (True, mb', e\<^sub>1)"
    using enc(1) assms(2,3)
    by (simp add: SgpMarshaller_marshal_def headerSize PacketCoder_isValidPacket_def carriesD)
  moreover have "wire e ((mt, padded body) # []) (packet @ []) e\<^sub>1"
    by (rule wire_Cons [OF enc(3) assms(5,4) enc(4) _ wire_Nil], rule enc(5))
  ultimately show ?thesis using that [OF _ enc(2) _ d'] by simp
qed

lemma marshal_all_wire:
  assumes "sync e d" and "hsize \<le> n"
    and "\<forall>(mt, body) \<in> set ms. isValidMessage mt \<and> length (padded body) < 65536"
  shows "\<exists>bs e'. marshal_all ops n ms e = Some (bs, e') \<and> wire e (map (map_prod id padded) ms) bs e'"
  using assms
proof (induction ms arbitrary: e d)
  case Nil
  then show ?case by (auto intro: wire_Nil)
next
  case (Cons msg ms)
  obtain mt body where msg: "msg = (mt, body)" by fastforce
  let ?mb = "send_block hsize n body"
  obtain hdr where hdr: "carries ?mb (hdr @ body)" "length hdr = hsize"
    using carries_send_block [OF Cons.prems(2)] by blast
  have ok: "isValidMessage mt" "length (padded body) < 65536" using Cons.prems(3) msg by auto
  obtain mb' e\<^sub>1 packet d' where m: "SgpMarshaller_marshal ops ?mb mt e = (True, mb', e\<^sub>1)"
    "carries mb' packet" "wire e [(mt, padded body)] packet e\<^sub>1" "sync e\<^sub>1 d'"
    by (rule marshal_wire [OF Cons.prems(1) hdr ok])
  with Cons.IH [OF m(4)] Cons.prems obtain bs e' where
    ih: "marshal_all ops n ms e\<^sub>1 = Some (bs, e')" "wire e\<^sub>1 (map (map_prod id padded) ms) bs e'"
    by (metis (no_types, lifting) list.set_intros(2))
  have "marshal_all ops n (msg # ms) e = Some (packet @ bs, e')"
    using ih(1) m(1,2) by (simp add: msg headerSize carriesD)
  moreover have "wire e (map (map_prod id padded) (msg # ms)) (packet @ bs) e'"
    using wire_append [OF m(3) ih(2)] by (simp only: msg list.map map_prod_simp id_apply append.simps)
  ultimately show ?case by blast
qed

text \<open>The state between two pieces of data: \<open>ms\<close> are the messages still to be delivered, of
  which the bytes in the block and the bytes \<open>future\<close> are what is left.\<close>

definition receiving :: "'c sgp_marshaller \<Rightarrow> 'c \<Rightarrow> (message_type \<times> byte list) list \<Rightarrow> byte list \<Rightarrow> 'c \<Rightarrow> bool" where
  "receiving m e ms future e' \<longleftrightarrow> mb_inv (recvBlock m) \<and> packetHeaderSize m = hsize \<and>
     sync e (packetCoder m) \<and> wire e ms (mb_contents (recvBlock m) @ future) e' \<and>
     (CsPacketHeader_isValid (headerForReceive m) \<longrightarrow> (\<exists>mt body ms'. ms = (mt, body) # ms' \<and>
        hsize \<le> mb_length (recvBlock m) \<and>
        headerForReceive m = \<lparr>bodySize = word_of_nat (length body), messageType = mt\<rparr>))"

text \<open>The callback takes the messages \<open>ms\<close> one after the other, keeps the coder in step, and ends
  in a state with \<open>Q\<close>.\<close>

fun handles :: "('c, 'a) message_callback \<Rightarrow> (message_type \<times> byte list) list \<Rightarrow> ('a \<Rightarrow> bool) \<Rightarrow> 'a \<Rightarrow> bool" where
  "handles callback [] Q a \<longleftrightarrow> Q a"
| "handles callback ((mt, body) # ms) Q a \<longleftrightarrow> (\<forall>c mb. mb_inv mb \<longrightarrow> mb_contents mb = body \<longrightarrow>
     (\<exists>c' mb' a'. callback mt (c, mb, a) = (Inr True, c', mb', a') \<and> (\<forall>e. sync e c \<longrightarrow> sync e c') \<and>
        handles callback ms Q a'))"

definition accepting :: "('c, 'a) message_callback \<Rightarrow> (message_type \<Rightarrow> byte list \<Rightarrow> 'a \<Rightarrow> 'a) \<Rightarrow> bool" where
  "accepting callback f \<longleftrightarrow> (\<forall>mt mb c a. mb_inv mb \<longrightarrow>
     (\<exists>c' mb'. callback mt (c, mb, a) = (Inr True, c', mb', f mt (mb_contents mb) a) \<and>
        (\<forall>e. sync e c \<longrightarrow> sync e c')))"

lemma accepting_handles:
  "accepting callback f \<Longrightarrow> handles callback ms (\<lambda>a'. a' = fold (\<lambda>(mt, body). f mt body) ms a) a"
proof (induction ms arbitrary: a)
  case (Cons msg ms)
  obtain mt body where "msg = (mt, body)" by fastforce
  with Cons show ?case by (auto simp: accepting_def) metis
qed simp

text \<open>Nothing more can be taken out of the receive block.\<close>

definition starved :: "'c sgp_marshaller \<Rightarrow> (message_type \<times> byte list) list \<Rightarrow> bool" where
  "starved m ms \<longleftrightarrow> (case ms of [] \<Rightarrow> True
     | (mt, body) # ms' \<Rightarrow> mb_length (recvBlock m) < hsize + length body)"

lemma not_reset_valid [simp]: "\<not> CsPacketHeader_isValid (CsPacketHeader_reset h)"
  by (simp add: CsPacketHeader_isValid_def CsPacketHeader_reset_def message_type_defs)

lemma parseHeader_receiving:
  assumes rec: "receiving m e ((mt, body) # ms) future e'"
    and arrived: "hsize \<le> mb_length (recvBlock m)"
  shows "SgpMarshaller_parseHeader ops m =
      (True, m\<lparr>headerForReceive := \<lparr>bodySize = word_of_nat (length body), messageType = mt\<rparr>\<rparr>)"
proof (cases "CsPacketHeader_isValid (headerForReceive m)")
  case True
  with rec have "headerForReceive m = \<lparr>bodySize = word_of_nat (length body), messageType = mt\<rparr>"
    by (auto simp: receiving_def)
  with True show ?thesis
    by (simp add: SgpMarshaller_parseHeader_def)
next
  case False
  from rec have inv: "mb_inv (recvBlock m)"
    and w: "wire e ((mt, body) # ms) (mb_contents (recvBlock m) @ future) e'"
    by (simp_all add: receiving_def)
  from w obtain packet bs where p: "mb_contents (recvBlock m) @ future = packet @ bs"
    "length packet = hsize + length body" "take 3 packet = wire_header (length body) mt"
    "length body < 65536" "isValidMessage mt"
    by (auto elim: wire.cases)
  have "take 3 (mb_contents (recvBlock m)) = wire_header (length body) mt"
    using arg_cong [OF p(1), of "take 3"] p(2,3) arrived headerSize_ge inv by simp
  from CsPacketHeader_read_wire [OF inv this p(4,5)]
  show ?thesis
    using False readHeader [OF inv arrived] by (simp add: SgpMarshaller_parseHeader_def)
qed

text \<open>One message taken out of the receive block.\<close>

lemma parseMessage_receiving:
  assumes inv: "mb_inv (recvBlock m)" and hs: "packetHeaderSize m = hsize"
    and w: "wire e ((mt, body) # ms) (mb_contents (recvBlock m) @ future) e'"
    and syn: "sync e (packetCoder m)"
    and hd: "headerForReceive m = \<lparr>bodySize = word_of_nat (length body), messageType = mt\<rparr>"
    and arrived: "hsize + length body \<le> mb_length (recvBlock m)"
  shows "\<exists>m' e\<^sub>1. SgpMarshaller_parseMessage ops m = (True, m') \<and>
    mb_inv (recvBlock m') \<and> packetHeaderSize m' = hsize \<and> sync e\<^sub>1 (packetCoder m') \<and>
    wire e\<^sub>1 ms (mb_contents (recvBlock m') @ future) e' \<and>
    mb_inv (msgBlock m') \<and> mb_contents (msgBlock m') = body \<and>
    headerForReceive m' = headerForReceive m \<and>
    mb_length (recvBlock m') = mb_length (recvBlock m) - (hsize + length body)"
proof -
  from w obtain packet bs e\<^sub>1 where p: "mb_contents (recvBlock m) @ future = packet @ bs"
    "length packet = hsize + length body" "length body < 65536" "isValidMessage mt"
    "wire e\<^sub>1 ms bs e'"
    and dec: "\<And>d rb. sync e d \<Longrightarrow> carries rb packet \<Longrightarrow>
       \<exists>rb' d' hdr'. pc_decode ops rb d = (True, rb', d') \<and>
         carries rb' (hdr' @ body) \<and> length hdr' = hsize \<and> sync e\<^sub>1 d'"
    by (auto elim: wire.cases)
  let ?n = "hsize + length body"
  have size: "packetHeaderSize m + unat (bodySize (headerForReceive m)) = ?n"
    using p(3) by (simp add: hs hd unsigned_of_nat take_bit_nat_eq_self)
  have len: "?n \<le> length (mb_contents (recvBlock m))" using arrived inv by simp
  have pk: "take ?n (mb_contents (recvBlock m)) = packet"
    and rest: "drop ?n (mb_contents (recvBlock m)) @ future = bs"
    using arg_cong [OF p(1), of "take ?n"] arg_cong [OF p(1), of "drop ?n"] p(2) len by simp_all
  obtain rb' d' hdr' where d: "pc_decode ops (mb_copyFrom packet (mb_size ?n (mb_reset (msgBlock m))))
      (packetCoder m) = (True, rb', d')" "carries rb' (hdr' @ body)" "length hdr' = hsize" "sync e\<^sub>1 d'"
    using dec [OF syn carries_message_block] by blast
  let ?recv = "mb_crunch (mb_advance_rd ?n (recvBlock m))"
  let ?m' = "m\<lparr>packetCoder := d', recvBlock := ?recv,
    msgBlock := PacketCoder_advanceToBody hsize rb'\<rparr>"
  have "isValidMessage (messageType (headerForReceive m))" using p(4) hd by simp
  then have "SgpMarshaller_parseMessage ops m = (True, ?m')"
    using d(1) take_recv [OF inv arrived]
    by (simp add: SgpMarshaller_parseMessage_def size pk Let_def headerSize)
  moreover have "mb_inv ?recv" "mb_contents ?recv = drop ?n (mb_contents (recvBlock m))"
    using mb_advance_rd_props [OF inv arrived] by (simp_all add: mb_crunch_props)
  moreover have "mb_inv (msgBlock ?m')" "mb_contents (msgBlock ?m') = body"
    using carries_advance [OF d(2)] d(3) by simp_all
  ultimately show ?thesis
    using rest p(5) d(4) hs by (intro exI [of _ ?m'] exI [of _ e\<^sub>1]) simp
qed

lemma unmarshal_receiving:
  assumes "receiving m e ms future e'" and "handles callback ms Q a"
  shows "\<exists>m' e\<^sub>1 k a'. SgpMarshaller_unmarshal ops callback (m, n, a) = Some (Inr True, m', n + k, a') \<and>
    handles callback (drop k ms) Q a' \<and>
    receiving m' e\<^sub>1 (drop k ms) future e' \<and> starved m' (drop k ms) \<and> k \<le> length ms"
  using assms
proof (induction ms arbitrary: m e n a)
  case Nil
  then have "mb_contents (recvBlock m) = []"
    by (simp add: receiving_def wire_Nil_iff)
  with Nil(1) have "mb_length (recvBlock m) = 0"
    by (metis length_mb_contents list.size(3) receiving_def)
  then have "SgpMarshaller_unmarshal ops callback (m, n, a) = Some (Inr True, m, n, a)"
    using Nil headerSize_ge
    by (subst SgpMarshaller_unmarshal.simps)
      (simp add: SgpMarshaller_isPacketHeaderArrived_def receiving_def)
  with Nil show ?case by (auto simp: starved_def)
next
  case (Cons msg ms)
  obtain mt body where msg: "msg = (mt, body)" by fastforce
  note rec = Cons.prems(1) [unfolded receiving_def msg]
  let ?h = "\<lparr>bodySize = word_of_nat (length body), messageType = mt\<rparr>"
  let ?m1 = "m\<lparr>headerForReceive := ?h\<rparr>"
  from rec have lb: "length body < 65536" using wire_body_bound by metis
  consider (short) "mb_length (recvBlock m) < hsize"
    | (part) "hsize \<le> mb_length (recvBlock m)" "mb_length (recvBlock m) < hsize + length body"
    | (full) "hsize + length body \<le> mb_length (recvBlock m)" by linarith
  then show ?case
  proof cases
    case short
    then have "SgpMarshaller_unmarshal ops callback (m, n, a) = Some (Inr True, m, n, a)"
      using rec by (subst SgpMarshaller_unmarshal.simps)
        (simp add: SgpMarshaller_isPacketHeaderArrived_def)
    with Cons.prems short show ?thesis
      by (intro exI [of _ m] exI [of _ e] exI [of _ 0] exI [of _ a]) (simp add: starved_def msg)
  next
    case part
    then have "SgpMarshaller_unmarshal ops callback (m, n, a) = Some (Inr True, ?m1, n, a)"
      using rec lb by (subst SgpMarshaller_unmarshal.simps)
        (simp add: SgpMarshaller_isPacketHeaderArrived_def SgpMarshaller_isMessageArrived_def
          parseHeader_receiving [OF Cons.prems(1) [unfolded msg] part(1)] unsigned_of_nat
          take_bit_nat_eq_self)
    moreover have "receiving ?m1 e (msg # ms) future e'"
      using rec part(1) by (simp add: receiving_def msg)
    ultimately show ?thesis
      using part Cons.prems(2)
      by (intro exI [of _ ?m1] exI [of _ e] exI [of _ 0] exI [of _ a]) (simp add: starved_def msg)
  next
    case full
    then have arr: "hsize \<le> mb_length (recvBlock m)" by simp
    obtain m2 e\<^sub>1 where m2: "SgpMarshaller_parseMessage ops ?m1 = (True, m2)"
      "mb_inv (recvBlock m2)" "packetHeaderSize m2 = hsize" "sync e\<^sub>1 (packetCoder m2)"
      "wire e\<^sub>1 ms (mb_contents (recvBlock m2) @ future) e'"
      "mb_inv (msgBlock m2)" "mb_contents (msgBlock m2) = body" "headerForReceive m2 = ?h"
      using parseMessage_receiving [of ?m1 e mt body ms future e'] rec full by auto
    obtain c' mb' a1 where cb: "callback mt (packetCoder m2, msgBlock m2, a) = (Inr True, c', mb', a1)"
      "sync e\<^sub>1 c'" "handles callback ms Q a1"
      using Cons.prems(2) m2(4,6,7) unfolding msg handles.simps by metis
    let ?m3 = "m2\<lparr>packetCoder := c', msgBlock := mb',
      headerForReceive := CsPacketHeader_reset (headerForReceive m2)\<rparr>"
    have step: "SgpMarshaller_unmarshal ops callback (m, n, a) =
        SgpMarshaller_unmarshal ops callback (?m3, n + 1, a1)"
      using rec full lb m2(1,8) cb(1)
      by (subst SgpMarshaller_unmarshal.simps)
        (simp add: SgpMarshaller_isPacketHeaderArrived_def SgpMarshaller_isMessageArrived_def
          parseHeader_receiving [OF Cons.prems(1) [unfolded msg] arr] unsigned_of_nat
          take_bit_nat_eq_self)
    have "receiving ?m3 e\<^sub>1 ms future e'"
      using m2 cb(2) by (simp add: receiving_def)
    from Cons.IH [OF this cb(3), of "n + 1"] obtain m' e2 k a' where
      "SgpMarshaller_unmarshal ops callback (?m3, n + 1, a1) = Some (Inr True, m', n + 1 + k, a')"
      "handles callback (drop k ms) Q a'"
      "receiving m' e2 (drop k ms) future e'" "starved m' (drop k ms)" "k \<le> length ms"
      by blast
    then show ?thesis
      by (intro exI [of _ m'] exI [of _ e2] exI [of _ "Suc k"] exI [of _ a']) (simp add: step msg)
  qed
qed

lemma receiving_chunk:
  "receiving m e ms (chunk @ future) e' \<Longrightarrow>
    receiving (m\<lparr>recvBlock := mb_copyFrom chunk (recvBlock m)\<rparr>) e ms future e'"
  by (auto simp: receiving_def mb_copyFrom_props mb_length_def)

lemma starved_end:
  assumes rec: "receiving m e ms [] e'" and st: "starved m ms"
  shows "ms = [] \<and> mb_contents (recvBlock m) = [] \<and> e = e'"
proof (cases ms)
  case Nil
  with rec show ?thesis by (simp add: receiving_def wire_Nil_iff)
next
  case (Cons msg ms')
  obtain mt body where msg: "msg = (mt, body)" by fastforce
  from rec have inv: "mb_inv (recvBlock m)" and "wire e ms (mb_contents (recvBlock m)) e'"
    by (simp_all add: receiving_def)
  then have "hsize + length body \<le> length (mb_contents (recvBlock m))"
    unfolding Cons msg by (auto elim!: wire_ConsE simp del: length_mb_contents)
  with st inv show ?thesis by (simp add: starved_def Cons msg)
qed

lemma receive_all_receiving:
  assumes "receiving m e ms (concat chunks) e'" and "starved m ms" and "handles callback ms Q a"
  shows "\<exists>m' a'. receive_all ops callback chunks (m, n, a) = Some (Inr True, m', n + length ms, a') \<and> Q a' \<and>
    mb_contents (recvBlock m') = [] \<and> sync e' (packetCoder m')"
  using assms
proof (induction chunks arbitrary: m e ms n a)
  case Nil
  with starved_end [of m e ms e'] show ?case by (auto simp: receiving_def)
next
  case (Cons chunk chunks)
  from Cons.prems(1) have "receiving (m\<lparr>recvBlock := mb_copyFrom chunk (recvBlock m)\<rparr>) e ms (concat chunks) e'"
    by (simp add: receiving_chunk)
  from unmarshal_receiving [OF this Cons.prems(3), of n] obtain m1 e\<^sub>1 k a1 where u:
    "SgpMarshaller_unmarshal ops callback (m\<lparr>recvBlock := mb_copyFrom chunk (recvBlock m)\<rparr>, n, a) =
      Some (Inr True, m1, n + k, a1)" "handles callback (drop k ms) Q a1"
    "receiving m1 e\<^sub>1 (drop k ms) (concat chunks) e'" "starved m1 (drop k ms)" "k \<le> length ms"
    by blast
  from Cons.IH [OF u(3,4,2), of "n + k"] u(1,5) show ?case by simp
qed

text \<open>A fresh endpoint in step with the sender receives what is on the wire.\<close>

lemma delivery:
  assumes "sync e d" and "wire e ms (concat chunks) e'" and "handles callback ms Q a"
    and "mb_inv recv" and "mb_contents recv = []"
  shows "\<exists>m' a'. receive_all ops callback chunks (SgpMarshaller_new ops d recv msg, 0, a) =
      Some (Inr True, m', length ms, a') \<and> Q a' \<and>
    mb_contents (recvBlock m') = [] \<and> sync e' (packetCoder m')"
proof -
  let ?m = "SgpMarshaller_new ops d recv msg"
  have "receiving ?m e ms (concat chunks) e'"
    using assms(1,2,4,5)
    by (simp add: receiving_def SgpMarshaller_new_def headerSize CsPacketHeader_new_def
        CsPacketHeader_isValid_def message_type_defs)
  moreover have "starved ?m ms"
    using headerSize_ge assms(4,5) length_mb_contents [OF assms(4)]
    by (simp add: starved_def SgpMarshaller_new_def split: list.split)
  ultimately show ?thesis
    using receive_all_receiving [of ?m e ms chunks e' callback Q a 0] assms(3) by simp
qed

lemma fold_padded: "fold (\<lambda>(mt, body). f mt body) (map (map_prod id padded) ms) a =
    fold (\<lambda>(mt, body). f mt (padded body)) ms a"
  by (induction ms arbitrary: a) auto

lemma framing:
  assumes "sync e d" and "hsize \<le> n"
    and "\<forall>(mt, body) \<in> set ms. isValidMessage mt \<and> length (padded body) < 65536"
    and "accepting callback f" and "mb_inv recv" and "mb_contents recv = []"
  shows "\<exists>bs e'. marshal_all ops n ms e = Some (bs, e') \<and>
    (\<forall>chunks. concat chunks = bs \<longrightarrow> (\<exists>m'.
      receive_all ops callback chunks (SgpMarshaller_new ops d recv msg, 0, a) =
        Some (Inr True, m', length ms, fold (\<lambda>(mt, body). f mt (padded body)) ms a) \<and>
      mb_contents (recvBlock m') = [] \<and> sync e' (packetCoder m')))"
proof -
  obtain bs e' where bs: "marshal_all ops n ms e = Some (bs, e')"
    "wire e (map (map_prod id padded) ms) bs e'"
    using marshal_all_wire [OF assms(1-3)] by blast
  then show ?thesis
    using delivery [OF assms(1) _ accepting_handles [OF assms(4), where a = a] assms(5,6), where msg = msg]
    by (fastforce simp: fold_padded)
qed

end

section \<open>Properties\<close>

text \<open>C26: framing is lossless.  The bytes that an endpoint with a \<open>CsPacketCoder\<close> marshals for a
  list of messages, cut into pieces in any way and received piece by piece, make the peer's
  callback run once for each message, in order, on its type and its body; nothing is left in
  the receive block.\<close>

theorem sgp_framing:
  assumes "3 \<le> n"
    and "\<forall>(mt, body) \<in> set ms. isValidMessage mt \<and> length body < 65536"
    and "\<forall>mt mb a. mb_inv mb \<longrightarrow>
      (\<exists>mb'. callback mt ((), mb, a) = (Inr True, (), mb', f mt (mb_contents mb) a))"
  shows "\<exists>bs. marshal_all CsPacketCoder n ms () = Some (bs, ()) \<and>
    (\<forall>chunks. concat chunks = bs \<longrightarrow> (\<exists>m'.
      receive_all CsPacketCoder callback chunks
          (SgpMarshaller_new CsPacketCoder () (mb_new k) (mb_new k), 0, a) =
        Some (Inr True, m', length ms, fold (\<lambda>(mt, body). f mt body) ms a) \<and>
      mb_contents (recvBlock m') = []))"
  using assms cs_codec.framing [where e = "()" and d = "()" and n = n and ms = ms and callback = callback
      and f = f and recv = "mb_new k" and msg = "mb_new k" and a = a]
  by (auto simp: cs_codec.accepting_def)

theorem sgp_framing_witness:
  "\<exists>bs. marshal_all CsPacketCoder 16 [(21, [7, 8]), (0, [])] () = Some (bs, ()) \<and>
    (\<forall>chunks. concat chunks = bs \<longrightarrow> (\<exists>m'.
      receive_all CsPacketCoder (\<lambda>mt (c, mb, a). (Inr True, c, mb, a @ [(mt, mb_contents mb)])) chunks
          (SgpMarshaller_new CsPacketCoder () (mb_new 16) (mb_new 16), 0, []) =
        Some (Inr True, m', length [(21 :: int, [7 :: byte, 8]), (0, [])],
          fold (\<lambda>(mt, body). (\<lambda>mt body a. a @ [(mt, body)]) mt body) [(21, [7, 8]), (0, [])] []) \<and>
      mb_contents (recvBlock m') = []))"
  by (rule sgp_framing) (simp_all add: isValidMessage_def)

text \<open>C27: \<open>unmarshal\<close> returns, whatever bytes arrive and whatever the coder and the callback do:
  every turn of its loop takes at least a header out of the receive block.\<close>

theorem unmarshal_returns:
  "0 < packetHeaderSize m \<Longrightarrow> \<exists>r. SgpMarshaller_unmarshal ops callback (m, n, a) = Some r"
  by (rule unmarshal_total)

theorem unmarshal_returns_witness:
  "\<exists>r. SgpMarshaller_unmarshal CsPacketCoder (\<lambda>mt s. (Inr True, s))
    (SgpMarshaller_new CsPacketCoder () (mb_copyFrom [0, 0, 5, 1] (mb_new 8)) (mb_new 8), 0, ()) = Some r"
  by (rule unmarshal_returns)
    (simp add: SgpMarshaller_new_def CsPacketCoder_def CsPacketHeader_getHeaderSize_def
      AbstractPacketHeader_getHeaderSize_def)

text \<open>The body size of a packet is a 16-bit field that nothing guards: a body of 65536 bytes or
  more is marshalled without an error, and the header announces fewer bytes than follow.\<close>

lemma marshal_oversized:
  assumes "carries mb (hdr @ body)" and "length hdr = 3" and "65536 \<le> length body"
    and "isValidMessage mt"
  shows "\<exists>mb'. SgpMarshaller_marshal CsPacketCoder mb mt () = (True, mb', ()) \<and>
    carries mb' (wire_header (length body) mt @ body) \<and>
    unat (packet_get 0 mb' :: u16) < length body"
proof -
  let ?h = "\<lparr>bodySize = PacketCoder_getBodySize 3 mb, messageType = mt\<rparr>"
  let ?mb' = "CsPacketHeader_write ?h 0 mb"
  have "SgpMarshaller_marshal CsPacketCoder mb mt () = (True, ?mb', ())"
    using assms by (simp add: SgpMarshaller_marshal_def CsPacketCoder_def PacketCoder_encode_def
        CsPacketHeader_isValid_def AbstractPacketHeader_isValid_def PacketCoder_isValidPacket_def
        carriesD CsPacketHeader_getHeaderSize_def AbstractPacketHeader_getHeaderSize_def)
  moreover have "carries ?mb' (wire_header (length body) mt @ body)"
    using CsPacketHeader_write_carries [OF assms(1,2), of ?h] assms(1,2)
    by (simp add: wire_header_def getBodySize_carries)
  moreover have "unat (packet_get 0 ?mb' :: u16) < 65536"
    by (rule order.strict_trans2 [OF unsigned_less]) simp
  ultimately show ?thesis using assms(3) by fastforce
qed

lemma carries_send_block_cs: "carries (send_block 3 16 body) ([0, 0, 0] @ body)"
proof -
  let ?mb = "PacketCoder_reserveHeader 3 (mb_new 16)"
  have "mb_contents ?mb = [0, 0, 0]" and "mb_inv ?mb" and "rd_ptr ?mb = 0" by code_simp+
  then show ?thesis
    by (simp add: send_block_def carries_iff mb_copyFrom_props)
qed

end
