(* ===== verification/Block_Cipher.thy ===== *)
theory Block_Cipher
  imports Sgp_Marshaller
begin

text \<open>
  The block ciphers of src/security/cipher: \<open>BlockCipherAlgorithm\<close> and \<open>BlockCipherImpl\<close>
  (BlockCipherImpl.h) and the choice of BlockCipherFactory.cpp.  The engines are classes of
  the Crypto++ library: an engine is a parameter, a record of its constants and of what
  \<open>ProcessBlock\<close> makes of a block under a key; that the decryption engine inverts the
  encryption engine is the hypothesis \<open>engine_pair\<close>.  An engine object's state is the key it
  was given last.
\<close>

section \<open>BlockCipherAlgorithm\<close>

type_synonym key = u32

record block_engine =
  DEFAULT_KEYLENGTH :: nat
  BLOCKSIZE :: nat
  ProcessBlock :: "byte list \<Rightarrow> byte list \<Rightarrow> byte list"

record block_cipher_algorithm =
  engine_key :: "byte list"
  prevUpdatedKey :: key

definition BlockCipherAlgorithm_precondition :: "block_engine \<Rightarrow> byte list \<Rightarrow> bool" where
  "BlockCipherAlgorithm_precondition E input \<longleftrightarrow> 0 < length input \<and> length input mod BLOCKSIZE E = 0"

text \<open>Each element of the key array is the truth value of \<open>(cipherKey >> i) || (cipherKey << i)\<close>.\<close>

definition engine_key_of :: "block_engine \<Rightarrow> key \<Rightarrow> byte list" where
  "engine_key_of E cipherKey = concat (map
     (\<lambda>i. bytes_of 4 (of_bool (drop_bit i cipherKey \<noteq> 0 \<or> push_bit i cipherKey \<noteq> 0) :: key))
     [0..<DEFAULT_KEYLENGTH E div 4])"

definition BlockCipherAlgorithm_updateKey ::
    "block_engine \<Rightarrow> key \<Rightarrow> block_cipher_algorithm \<Rightarrow> block_cipher_algorithm" where
  "BlockCipherAlgorithm_updateKey E cipherKey a =
     (if cipherKey = prevUpdatedKey a then a
      else a\<lparr>engine_key := engine_key_of E cipherKey, prevUpdatedKey := cipherKey\<rparr>)"

definition BlockCipherAlgorithm_new :: "block_engine \<Rightarrow> block_cipher_algorithm" where
  "BlockCipherAlgorithm_new E =
     BlockCipherAlgorithm_updateKey E 0 \<lparr>engine_key = [], prevUpdatedKey = 0xFFFFFFFF\<rparr>"

text \<open>The loop of \<open>process\<close>; \<open>BLOCKSIZE\<close> is a positive constant of every engine.\<close>

function BlockCipherAlgorithm_process ::
    "block_engine \<Rightarrow> block_cipher_algorithm \<Rightarrow> byte list \<Rightarrow> byte list" where
  "BlockCipherAlgorithm_process E a input =
     (if input = [] \<or> BLOCKSIZE E = 0 then []
      else ProcessBlock E (engine_key a) (take (BLOCKSIZE E) input) @
           BlockCipherAlgorithm_process E a (drop (BLOCKSIZE E) input))"
  by pat_completeness auto

termination
  by (relation "measure (\<lambda>(_, _, input). length input)") auto

declare BlockCipherAlgorithm_process.simps [simp del]

section \<open>BlockCipherImpl\<close>

record block_cipher =
  encryptor :: block_cipher_algorithm
  decryptor :: block_cipher_algorithm

definition BlockCipherImpl_new :: "block_engine \<Rightarrow> block_engine \<Rightarrow> block_cipher" where
  "BlockCipherImpl_new E D =
     \<lparr>encryptor = BlockCipherAlgorithm_new E, decryptor = BlockCipherAlgorithm_new D\<rparr>"

definition BlockCipherImpl_getBlockSize :: "block_engine \<Rightarrow> nat" where
  "BlockCipherImpl_getBlockSize E = BLOCKSIZE E"

text \<open>The result is written over the input; a refused input stays as it is.\<close>

definition BlockCipherImpl_encrypt ::
    "block_engine \<Rightarrow> byte list \<Rightarrow> key \<Rightarrow> block_cipher \<Rightarrow> bool \<times> byte list \<times> block_cipher" where
  "BlockCipherImpl_encrypt E input cipherKey c =
     (if \<not> BlockCipherAlgorithm_precondition E input then (False, input, c)
      else let a = BlockCipherAlgorithm_updateKey E cipherKey (encryptor c)
           in (True, BlockCipherAlgorithm_process E a input, c\<lparr>encryptor := a\<rparr>))"

definition BlockCipherImpl_decrypt ::
    "block_engine \<Rightarrow> byte list \<Rightarrow> key \<Rightarrow> block_cipher \<Rightarrow> bool \<times> byte list \<times> block_cipher" where
  "BlockCipherImpl_decrypt D input cipherKey c =
     (if \<not> BlockCipherAlgorithm_precondition D input then (False, input, c)
      else let a = BlockCipherAlgorithm_updateKey D cipherKey (decryptor c)
           in (True, BlockCipherAlgorithm_process D a input, c\<lparr>decryptor := a\<rparr>))"

section \<open>BlockCipherFactory\<close>

definition BlockCipherFactory_isValidCipher :: "string \<Rightarrow> bool" where
  "BlockCipherFactory_isValidCipher cipher \<longleftrightarrow> cipher = ''tea'' \<or> cipher = ''aes''"

text \<open>The factory returns a null pointer for another name; the engines of the two algorithms
  are given as pairs of an encryption and a decryption engine.\<close>

definition BlockCipherFactory_create ::
    "block_engine \<times> block_engine \<Rightarrow> block_engine \<times> block_engine \<Rightarrow> string \<Rightarrow>
     ((block_engine \<times> block_engine) \<times> block_cipher) option" where
  "BlockCipherFactory_create TEA AES cipher =
     (if cipher = ''tea'' then Some (TEA, BlockCipherImpl_new (fst TEA) (snd TEA))
      else if cipher = ''aes'' then Some (AES, BlockCipherImpl_new (fst AES) (snd AES))
      else None)"

section \<open>What the engines promise\<close>

definition engine_pair :: "block_engine \<Rightarrow> block_engine \<Rightarrow> bool" where
  "engine_pair E D \<longleftrightarrow> 0 < BLOCKSIZE E \<and> BLOCKSIZE D = BLOCKSIZE E \<and>
     DEFAULT_KEYLENGTH D = DEFAULT_KEYLENGTH E \<and>
     (\<forall>k b. length b = BLOCKSIZE E \<longrightarrow>
        length (ProcessBlock E k b) = BLOCKSIZE E \<and> ProcessBlock D k (ProcessBlock E k b) = b)"

text \<open>The engine of an algorithm has the key that \<open>prevUpdatedKey_\<close> says it has.\<close>

definition keyed :: "block_engine \<Rightarrow> block_cipher_algorithm \<Rightarrow> bool" where
  "keyed E a \<longleftrightarrow> engine_key a = engine_key_of E (prevUpdatedKey a)"

lemma keyed_new: "keyed E (BlockCipherAlgorithm_new E)"
  by (simp add: keyed_def BlockCipherAlgorithm_new_def BlockCipherAlgorithm_updateKey_def)

lemma updateKey_keyed:
  "keyed E a \<Longrightarrow> engine_key (BlockCipherAlgorithm_updateKey E k a) = engine_key_of E k \<and>
    keyed E (BlockCipherAlgorithm_updateKey E k a)"
  by (auto simp: keyed_def BlockCipherAlgorithm_updateKey_def)

lemma engine_key_of_pair: "engine_pair E D \<Longrightarrow> engine_key_of D k = engine_key_of E k"
  by (simp add: engine_key_of_def engine_pair_def)

lemma process_Nil [simp]: "BlockCipherAlgorithm_process E a [] = []"
  by (simp add: BlockCipherAlgorithm_process.simps)

lemma process_block:
  assumes "0 < BLOCKSIZE E" and "length b = BLOCKSIZE E"
  shows "BlockCipherAlgorithm_process E a (b @ input) =
    ProcessBlock E (engine_key a) b @ BlockCipherAlgorithm_process E a input"
  using assms by (subst BlockCipherAlgorithm_process.simps) auto

lemma process_key_cong:
  "engine_key a = engine_key b \<Longrightarrow>
    BlockCipherAlgorithm_process E a input = BlockCipherAlgorithm_process E b input"
  by (induction E a input rule: BlockCipherAlgorithm_process.induct)
    (subst (1 2) BlockCipherAlgorithm_process.simps, simp)

lemma process_inverse:
  assumes pair: "engine_pair E D" and key: "engine_key b = engine_key a"
    and "length input mod BLOCKSIZE E = 0"
  shows "length (BlockCipherAlgorithm_process E a input) = length input \<and>
    BlockCipherAlgorithm_process D b (BlockCipherAlgorithm_process E a input) = input"
  using assms(3)
proof (induction "length input" arbitrary: input rule: less_induct)
  case less
  have bs: "0 < BLOCKSIZE E" "BLOCKSIZE D = BLOCKSIZE E" using pair by (simp_all add: engine_pair_def)
  show ?case
  proof (cases "input = []")
    case False
    with less.prems bs(1) have ge: "BLOCKSIZE E \<le> length input"
      by (metis dvd_imp_le length_greater_0_conv mod_0_imp_dvd)
    let ?b = "take (BLOCKSIZE E) input" and ?rest = "drop (BLOCKSIZE E) input"
    have len: "length ?b = BLOCKSIZE E" using ge by simp
    have "length ?rest mod BLOCKSIZE E = 0"
      using less.prems ge by (simp add: mod_diff_left_eq le_mod_geq)
    with less.hyps [of ?rest] bs(1) False ge have ih:
      "length (BlockCipherAlgorithm_process E a ?rest) = length ?rest"
      "BlockCipherAlgorithm_process D b (BlockCipherAlgorithm_process E a ?rest) = ?rest"
      by (simp_all del: length_drop add: length_drop [of "BLOCKSIZE E" input])
    have blk: "length (ProcessBlock E (engine_key a) ?b) = BLOCKSIZE E"
      "ProcessBlock D (engine_key a) (ProcessBlock E (engine_key a) ?b) = ?b"
      using pair len by (simp_all add: engine_pair_def)
    have enc: "BlockCipherAlgorithm_process E a input =
        ProcessBlock E (engine_key a) ?b @ BlockCipherAlgorithm_process E a ?rest"
      using process_block [OF bs(1) len, of a ?rest] by simp
    show ?thesis
      using ih blk bs ge process_block [of D "ProcessBlock E (engine_key a) ?b" b]
      by (simp add: enc key)
  qed simp
qed

section \<open>Encryption and decryption\<close>

lemma encrypt_run:
  assumes "engine_pair E D" and "keyed E (encryptor c)" and "input \<noteq> []"
    and "length input mod BLOCKSIZE E = 0"
  obtains result c' where "BlockCipherImpl_encrypt E input k c = (True, result, c')"
    and "length result = length input" and "keyed E (encryptor c')" and "decryptor c' = decryptor c"
    and "result = BlockCipherAlgorithm_process E \<lparr>engine_key = engine_key_of E k, prevUpdatedKey = k\<rparr> input"
proof -
  let ?a = "BlockCipherAlgorithm_updateKey E k (encryptor c)"
  have a: "engine_key ?a = engine_key_of E k" "keyed E ?a" "prevUpdatedKey ?a = k"
    using updateKey_keyed [OF assms(2), of k]
    by (auto simp: BlockCipherAlgorithm_updateKey_def)
  then have "?a = \<lparr>engine_key = engine_key_of E k, prevUpdatedKey = k\<rparr>" by simp
  with a that [of "BlockCipherAlgorithm_process E ?a input" "c\<lparr>encryptor := ?a\<rparr>"] show thesis
    using assms process_inverse [OF assms(1) refl assms(4), of ?a]
    by (simp add: BlockCipherImpl_encrypt_def BlockCipherAlgorithm_precondition_def Let_def)
qed

lemma decrypt_run:
  assumes "engine_pair E D" and "keyed D (decryptor c)" and "input \<noteq> []"
    and "length input mod BLOCKSIZE E = 0"
    and "result = BlockCipherAlgorithm_process E \<lparr>engine_key = engine_key_of E k, prevUpdatedKey = k\<rparr> input"
  obtains c' where "BlockCipherImpl_decrypt D result k c = (True, input, c')"
    and "keyed D (decryptor c')" and "encryptor c' = encryptor c"
proof -
  let ?a = "BlockCipherAlgorithm_updateKey D k (decryptor c)"
  have a: "engine_key ?a = engine_key_of E k" "keyed D ?a"
    using updateKey_keyed [OF assms(2), of k] engine_key_of_pair [OF assms(1)] by simp_all
  have "length result = length input" "BlockCipherAlgorithm_process D ?a result = input"
    using process_inverse [OF assms(1) _ assms(4), of ?a "\<lparr>engine_key = engine_key_of E k, prevUpdatedKey = k\<rparr>"]
      a(1) assms(5) by simp_all
  with a that [of "c\<lparr>decryptor := ?a\<rparr>"] show thesis
    using assms(1,3,4)
    by (auto simp: BlockCipherImpl_decrypt_def BlockCipherAlgorithm_precondition_def engine_pair_def)
qed

lemma engine_key_of_nonzero:
  assumes "k \<noteq> 0" and "DEFAULT_KEYLENGTH E \<le> 64"
  shows "engine_key_of E k = concat (replicate (DEFAULT_KEYLENGTH E div 4) [1, 0, 0, 0])"
proof -
  have nz: "drop_bit i k \<noteq> 0 \<or> push_bit i k \<noteq> 0" if "i < DEFAULT_KEYLENGTH E div 4" for i
  proof -
    from assms(1) obtain j where j: "bit k j"
      by (auto simp: bit_eq_iff)
    then have "j < 32" using bit_imp_le_length [of k j] by simp
    from that assms(2) have i: "i \<le> 16" by simp
    show ?thesis
    proof (cases "i \<le> j")
      case True
      then have "bit (drop_bit i k) (j - i)" using j by (simp add: bit_drop_bit_eq)
      then show ?thesis by auto
    next
      case False
      then have "bit (push_bit i k) (j + i)" using j i \<open>j < 32\<close> by (simp add: bit_push_bit_iff)
      then show ?thesis by auto
    qed
  qed
  have "bytes_of 4 (1 :: key) = [1, 0, 0, 0]" by code_simp
  then have "map (\<lambda>i. bytes_of 4 (of_bool (drop_bit i k \<noteq> 0 \<or> push_bit i k \<noteq> 0) :: key))
      [0..<DEFAULT_KEYLENGTH E div 4] = map (\<lambda>_. [1, 0, 0, 0]) [0..<DEFAULT_KEYLENGTH E div 4]"
    by (intro map_cong refl) (use nz in auto)
  then show ?thesis by (simp add: engine_key_of_def map_replicate_const)
qed

section \<open>Properties\<close>

text \<open>What a block cipher encrypts under a key a block cipher of the other side decrypts under
  the same key, whatever the two were used for before.\<close>

lemma block_cipher_roundtrip:
  assumes "engine_pair E D" and "keyed E (encryptor c)" and "keyed D (decryptor d)"
    and "input \<noteq> []" and "length input mod BLOCKSIZE E = 0"
  shows "\<exists>result c' d'. BlockCipherImpl_encrypt E input k c = (True, result, c') \<and>
    BlockCipherImpl_decrypt D result k d = (True, input, d') \<and> length result = length input \<and>
    keyed E (encryptor c') \<and> keyed D (decryptor d')"
  using assms by (metis encrypt_run decrypt_run)

text \<open>An engine for the witnesses: it adds the first byte of the key to every byte.\<close>

definition shift_engine :: "(byte \<Rightarrow> byte \<Rightarrow> byte) \<Rightarrow> block_engine" where
  "shift_engine f = \<lparr>DEFAULT_KEYLENGTH = 16, BLOCKSIZE = 8,
     ProcessBlock = (\<lambda>k b. map (\<lambda>x. f x (case k of [] \<Rightarrow> 5 | y # _ \<Rightarrow> y)) b)\<rparr>"

lemma shift_engine_pair: "engine_pair (shift_engine (+)) (shift_engine (-))"
  by (simp add: engine_pair_def shift_engine_def comp_def)

text \<open>C32: the key schedule joins the shifted keys with a logical instead of a bitwise or, so all
  cipher keys but zero give the engine the same key: two ciphers with different keys encrypt
  alike.\<close>

theorem cipher_keys_collapse:
  assumes "engine_pair E D" and "DEFAULT_KEYLENGTH E \<le> 64" and "keyed E (encryptor c)"
    and "keyed E (encryptor d)" and "k \<noteq> 0" and "k' \<noteq> 0"
    and "input \<noteq> []" and "length input mod BLOCKSIZE E = 0"
  shows "fst (snd (BlockCipherImpl_encrypt E input k c)) = fst (snd (BlockCipherImpl_encrypt E input k' d))"
proof -
  have "engine_key (BlockCipherAlgorithm_updateKey E k (encryptor c)) =
      engine_key (BlockCipherAlgorithm_updateKey E k' (encryptor d))"
    using assms by (simp add: updateKey_keyed engine_key_of_nonzero)
  then have "BlockCipherAlgorithm_process E (BlockCipherAlgorithm_updateKey E k (encryptor c)) input =
      BlockCipherAlgorithm_process E (BlockCipherAlgorithm_updateKey E k' (encryptor d)) input"
    by (rule process_key_cong)
  with assms(7,8) show ?thesis
    by (simp add: BlockCipherImpl_encrypt_def BlockCipherAlgorithm_precondition_def Let_def)
qed

theorem cipher_keys_collapse_witness:
  "fst (snd (BlockCipherImpl_encrypt (shift_engine (+)) (replicate 8 0) 77
      (BlockCipherImpl_new (shift_engine (+)) (shift_engine (-))))) =
   fst (snd (BlockCipherImpl_encrypt (shift_engine (+)) (replicate 8 0) 0x20100301
      (BlockCipherImpl_new (shift_engine (+)) (shift_engine (-)))))"
  by (rule cipher_keys_collapse [OF shift_engine_pair])
    (simp_all add: BlockCipherImpl_new_def keyed_new shift_engine_def)

end
