(* ===== verification/Secure_Packet_Coder.thy ===== *)
theory Secure_Packet_Coder
  imports Block_Cipher
begin

text \<open>
  \<open>SecurePacketCoder\<close> (src/sgp/protocol/security), the coder that decorates another with a
  fingerprint, a checksum and a block cipher, and the generators of its cipher keys
  (CipherKeyGenerator.cpp).  The engines of Crypto++, the CRC and the \<open>rand48\<close> generator of Boost
  and \<open>clock()\<close> are parameters, collected in the record \<open>secure_env\<close>; the members that are
  constants of the object are written as their initialisers.  The coder over a \<open>CsPacketCoder\<close>
  meets the contract \<open>packet_codec\<close>, so the framing theorem of the marshaller holds for
  encrypted sessions as well.
\<close>

record 'r secure_env =
  rand48_seed :: "u32 \<Rightarrow> 'r"
  rand48_next :: "'r \<Rightarrow> u32 \<times> 'r"
  crc32 :: "byte list \<Rightarrow> u32"
  enc_engine :: block_engine
  dec_engine :: block_engine
  clock_ticks :: u32

section \<open>CipherKeyGenerator\<close>

text \<open>The static generator keeps two keys, the dynamic one two random number generators.\<close>

datatype 'r cipher_key_generator =
    StaticCipherKeyGenerator (encryptSeed: u32) (decryptSeed: u32)
  | DynamicCipherKeyGenerator (encryptKey: 'r) (decryptKey: 'r)

definition CipherKeyGenerator_create :: "'r secure_env \<Rightarrow> bool \<Rightarrow> 'r cipher_key_generator" where
  "CipherKeyGenerator_create env useDynamicKey =
     (if useDynamicKey
      then DynamicCipherKeyGenerator (rand48_seed env 0x19720212) (rand48_seed env 0x19720212)
      else StaticCipherKeyGenerator 0x20100301 0x20100301)"

fun CipherKeyGenerator_reset :: "'r secure_env \<Rightarrow> 'r cipher_key_generator \<Rightarrow> 'r cipher_key_generator" where
  "CipherKeyGenerator_reset env (StaticCipherKeyGenerator _ _) = CipherKeyGenerator_create env False"
| "CipherKeyGenerator_reset env (DynamicCipherKeyGenerator _ _) = CipherKeyGenerator_create env True"

fun setEncryptCipherKey :: "'r secure_env \<Rightarrow> key \<Rightarrow> 'r cipher_key_generator \<Rightarrow> 'r cipher_key_generator" where
  "setEncryptCipherKey env newKey (StaticCipherKeyGenerator e d) = StaticCipherKeyGenerator newKey d"
| "setEncryptCipherKey env newKey (DynamicCipherKeyGenerator e d) =
     DynamicCipherKeyGenerator (rand48_seed env newKey) d"

fun setDecryptCipherKey :: "'r secure_env \<Rightarrow> key \<Rightarrow> 'r cipher_key_generator \<Rightarrow> 'r cipher_key_generator" where
  "setDecryptCipherKey env newKey (StaticCipherKeyGenerator e d) = StaticCipherKeyGenerator e newKey"
| "setDecryptCipherKey env newKey (DynamicCipherKeyGenerator e d) =
     DynamicCipherKeyGenerator e (rand48_seed env newKey)"

fun getEncryptCipherKey :: "'r secure_env \<Rightarrow> 'r cipher_key_generator \<Rightarrow> key \<times> 'r cipher_key_generator" where
  "getEncryptCipherKey env (StaticCipherKeyGenerator e d) = (e, StaticCipherKeyGenerator e d)"
| "getEncryptCipherKey env (DynamicCipherKeyGenerator e d) =
     (case rand48_next env e of (k, e) \<Rightarrow> (k, DynamicCipherKeyGenerator e d))"

fun getDecryptCipherKey :: "'r secure_env \<Rightarrow> 'r cipher_key_generator \<Rightarrow> key \<times> 'r cipher_key_generator" where
  "getDecryptCipherKey env (StaticCipherKeyGenerator e d) = (d, StaticCipherKeyGenerator e d)"
| "getDecryptCipherKey env (DynamicCipherKeyGenerator e d) =
     (case rand48_next env d of (k, d) \<Rightarrow> (k, DynamicCipherKeyGenerator e d))"

section \<open>Seeds as strings\<close>

text \<open>\<open>formatString("%d", n)\<close> and \<open>atoi\<close>.  A number that does not fit an \<open>int\<close>, for which
  \<open>atoi\<close> is undefined, is taken modulo its width.\<close>

fun dec_digits :: "nat \<Rightarrow> byte list" where
  "dec_digits n = (if n < 10 then [48 + word_of_nat n]
     else dec_digits (n div 10) @ [48 + word_of_nat (n mod 10)])"

declare dec_digits.simps [simp del]

definition format_d :: "u32 \<Rightarrow> byte list" where
  "format_d v = (if sint v < 0 then 45 # dec_digits (nat (- sint v)) else dec_digits (nat (sint v)))"

definition is_digit :: "byte \<Rightarrow> bool" where
  "is_digit c \<longleftrightarrow> 48 \<le> c \<and> c \<le> 57"

definition is_space :: "byte \<Rightarrow> bool" where
  "is_space c \<longleftrightarrow> c = 32 \<or> (9 \<le> c \<and> c \<le> 13)"

definition atoi :: "byte list \<Rightarrow> int" where
  "atoi s =
     (let s = dropWhile is_space s;
          digits = (if s \<noteq> [] \<and> (hd s = 45 \<or> hd s = 43) then tl s else s);
          n = foldl (\<lambda>n c. 10 * n + (unat c - 48)) 0 (takeWhile is_digit digits)
      in if s \<noteq> [] \<and> hd s = 45 then - int n else int n)"

definition toCipherKey :: "seed \<Rightarrow> key" where
  "toCipherKey seed = word_of_int (atoi seed)"

section \<open>SecurePacketCoder\<close>

definition getFingerPrint :: "key \<Rightarrow> u16" where
  "getFingerPrint cipherKey = ucast (drop_bit 5 cipherKey)"

definition getCheckSum :: "'r secure_env \<Rightarrow> byte list \<Rightarrow> u16 \<Rightarrow> u32" where
  "getCheckSum env bytes fingerPrint = crc32 env bytes OR ucast fingerPrint"

definition AdditionalPacketHeader_headerSize :: nat where
  "AdditionalPacketHeader_headerSize = 2 + 4"

definition AdditionalPacketHeader_write :: "u16 \<Rightarrow> u32 \<Rightarrow> nat \<Rightarrow> memory_block \<Rightarrow> memory_block" where
  "AdditionalPacketHeader_write fingerPrint checkSum to mb =
     packet_put checkSum (to + 2) (packet_put fingerPrint to mb)"

definition AdditionalPacketHeader_read :: "nat \<Rightarrow> memory_block \<Rightarrow> u16 \<times> u32" where
  "AdditionalPacketHeader_read src mb = (packet_get src mb, packet_get (src + 2) mb)"

record ('c, 'r) secure_packet_coder =
  component :: 'c
  cipherKeyGenerator :: "'r cipher_key_generator"
  cipher :: block_cipher
  cipherKeyPeriod :: nat
  cipherKeyTimeLimit :: nat

text \<open>The time limit has no initialiser; a \<open>time_point\<close> is the epoch by default.\<close>

definition SecurePacketCoder_new ::
    "'r secure_env \<Rightarrow> 'c \<Rightarrow> nat \<Rightarrow> bool \<Rightarrow> ('c, 'r) secure_packet_coder" where
  "SecurePacketCoder_new env c period useDynamicKey =
     \<lparr>component = c, cipherKeyGenerator = CipherKeyGenerator_create env useDynamicKey,
      cipher = BlockCipherImpl_new (enc_engine env) (dec_engine env),
      cipherKeyPeriod = period, cipherKeyTimeLimit = 0\<rparr>"

definition rawPacketHeaderSize :: "'c packet_coder_ops \<Rightarrow> ('c, 'r) secure_packet_coder \<Rightarrow> nat" where
  "rawPacketHeaderSize ops s = pc_getHeaderSize ops (component s)"

definition securePacketHeaderSize :: "'c packet_coder_ops \<Rightarrow> ('c, 'r) secure_packet_coder \<Rightarrow> nat" where
  "securePacketHeaderSize ops s = rawPacketHeaderSize ops s + AdditionalPacketHeader_headerSize"

definition SecurePacketCoder_extendCipherKeyTimeLimit ::
    "nat \<Rightarrow> ('c, 'r) secure_packet_coder \<Rightarrow> ('c, 'r) secure_packet_coder" where
  "SecurePacketCoder_extendCipherKeyTimeLimit now s = s\<lparr>cipherKeyTimeLimit := now + cipherKeyPeriod s\<rparr>"

definition SecurePacketCoder_reset ::
    "'c packet_coder_ops \<Rightarrow> 'r secure_env \<Rightarrow> nat \<Rightarrow> ('c, 'r) secure_packet_coder \<Rightarrow> ('c, 'r) secure_packet_coder" where
  "SecurePacketCoder_reset ops env now s =
     SecurePacketCoder_extendCipherKeyTimeLimit now
       (s\<lparr>component := pc_reset ops now (component s),
          cipherKeyGenerator := CipherKeyGenerator_reset env (cipherKeyGenerator s)\<rparr>)"

definition SecurePacketCoder_generateCipherSeed :: "'r secure_env \<Rightarrow> seed \<times> seed" where
  "SecurePacketCoder_generateCipherSeed env =
     (let (encryptSeed, generator) = rand48_next env (rand48_seed env (clock_ticks env));
          (decryptSeed, generator) = rand48_next env generator
      in (format_d encryptSeed, format_d decryptSeed))"

definition SecurePacketCoder_setEncryptSeed ::
    "'r secure_env \<Rightarrow> seed \<Rightarrow> ('c, 'r) secure_packet_coder \<Rightarrow> ('c, 'r) secure_packet_coder" where
  "SecurePacketCoder_setEncryptSeed env seed s =
     s\<lparr>cipherKeyGenerator := setEncryptCipherKey env (toCipherKey seed) (cipherKeyGenerator s)\<rparr>"

definition SecurePacketCoder_setDecryptSeed ::
    "'r secure_env \<Rightarrow> seed \<Rightarrow> ('c, 'r) secure_packet_coder \<Rightarrow> ('c, 'r) secure_packet_coder" where
  "SecurePacketCoder_setDecryptSeed env seed s =
     s\<lparr>cipherKeyGenerator := setDecryptCipherKey env (toCipherKey seed) (cipherKeyGenerator s)\<rparr>"

definition SecurePacketCoder_readHeader ::
    "'c packet_coder_ops \<Rightarrow> ('c, 'r) secure_packet_coder \<Rightarrow> memory_block \<Rightarrow> cs_packet_header \<Rightarrow>
     bool \<times> cs_packet_header" where
  "SecurePacketCoder_readHeader ops s mb header = pc_readHeader ops (component s) mb header"

definition SecurePacketCoder_align :: "nat \<Rightarrow> nat \<Rightarrow> memory_block \<Rightarrow> memory_block" where
  "SecurePacketCoder_align cipherBlockSize headerSize mb =
     (if cipherBlockSize = 0 then mb
      else let m = (mb_length mb - headerSize) mod cipherBlockSize in
        if 0 < m then
          let delta = cipherBlockSize - m;
              mb = mb_reserve delta mb
          in mb_advance_wr delta (mb_poke (wr_ptr mb) (replicate delta 0) mb)
        else mb)"

text \<open>The bytes between an offset from \<open>base()\<close> and \<open>wr_ptr()\<close>.\<close>

definition mb_from :: "nat \<Rightarrow> memory_block \<Rightarrow> byte list" where
  "mb_from offset mb = take (wr_ptr mb - offset) (drop offset (mb_buffer mb))"

definition SecurePacketCoder_encode ::
    "'c packet_coder_ops \<Rightarrow> 'r secure_env \<Rightarrow> memory_block \<Rightarrow> cs_packet_header \<Rightarrow> ('c, 'r) secure_packet_coder \<Rightarrow>
     bool \<times> memory_block \<times> cs_packet_header \<times> ('c, 'r) secure_packet_coder" where
  "SecurePacketCoder_encode ops env mb header s =
     (let headerSize = securePacketHeaderSize ops s in
      if mb_length mb < headerSize then (False, mb, header, s)
      else
        let mb = SecurePacketCoder_align (BLOCKSIZE (enc_engine env)) headerSize mb;
            header = header\<lparr>bodySize := PacketCoder_getBodySize headerSize mb\<rparr>;
            (cipherKey, generator) = getEncryptCipherKey env (cipherKeyGenerator s);
            s = s\<lparr>cipherKeyGenerator := generator\<rparr>;
            fingerPrint = getFingerPrint cipherKey;
            body = mb_from headerSize mb;
            checkSum = getCheckSum env body fingerPrint;
            (encrypted, body, ciph) =
              (if 0 < length body then BlockCipherImpl_encrypt (enc_engine env) body cipherKey (cipher s)
               else (True, body, cipher s));
            s = s\<lparr>cipher := ciph\<rparr>;
            mb = mb_poke headerSize body mb
        in if \<not> encrypted then (False, mb, header, s)
           else
             let (encoded, mb, header, c) = pc_encode ops mb header (component s);
                 s = s\<lparr>component := c\<rparr>
             in if \<not> encoded then (False, mb, header, s)
                else (True, AdditionalPacketHeader_write fingerPrint checkSum (rawPacketHeaderSize ops s) mb,
                      header, s))"

definition SecurePacketCoder_decode ::
    "'c packet_coder_ops \<Rightarrow> 'r secure_env \<Rightarrow> memory_block \<Rightarrow> ('c, 'r) secure_packet_coder \<Rightarrow>
     bool \<times> memory_block \<times> ('c, 'r) secure_packet_coder" where
  "SecurePacketCoder_decode ops env mb s =
     (let (decoded, mb, c) = pc_decode ops mb (component s);
          s = s\<lparr>component := c\<rparr>
      in if \<not> decoded then (False, mb, s)
         else
           let (theirFingerPrint, theirCheckSum) = AdditionalPacketHeader_read (rawPacketHeaderSize ops s) mb;
               (cipherKey, generator) = getDecryptCipherKey env (cipherKeyGenerator s);
               s = s\<lparr>cipherKeyGenerator := generator\<rparr>;
               fingerPrint = getFingerPrint cipherKey
           in if fingerPrint \<noteq> theirFingerPrint then (False, mb, s)
              else
                let headerSize = securePacketHeaderSize ops s;
                    body = mb_from headerSize mb;
                    (decrypted, body, ciph) =
                      (if 0 < length body then BlockCipherImpl_decrypt (dec_engine env) body cipherKey (cipher s)
                       else (True, body, cipher s));
                    s = s\<lparr>cipher := ciph\<rparr>;
                    mb = mb_poke headerSize body mb
                in if \<not> decrypted then (False, mb, s)
                   else (getCheckSum env body fingerPrint = theirCheckSum, mb, s))"

definition SecurePacketCoder_isCipherKeyExpired :: "nat \<Rightarrow> ('c, 'r) secure_packet_coder \<Rightarrow> bool" where
  "SecurePacketCoder_isCipherKeyExpired now s \<longleftrightarrow>
     (if \<not> 0 < cipherKeyPeriod s then False else cipherKeyTimeLimit s \<le> now)"

definition SecurePacketCoder ::
    "'c packet_coder_ops \<Rightarrow> 'r secure_env \<Rightarrow> ('c, 'r) secure_packet_coder packet_coder_ops" where
  "SecurePacketCoder ops env = \<lparr>
     pc_reset = SecurePacketCoder_reset ops env,
     pc_generateCipherSeed = (\<lambda>_. SecurePacketCoder_generateCipherSeed env),
     pc_setEncryptSeed = SecurePacketCoder_setEncryptSeed env,
     pc_setDecryptSeed = SecurePacketCoder_setDecryptSeed env,
     pc_readHeader = SecurePacketCoder_readHeader ops,
     pc_encode = SecurePacketCoder_encode ops env,
     pc_decode = SecurePacketCoder_decode ops env,
     pc_extendCipherKeyTimeLimit = SecurePacketCoder_extendCipherKeyTimeLimit,
     pc_getHeaderSize = securePacketHeaderSize ops,
     pc_getDefaultPacketSize = (\<lambda>s. pc_getDefaultPacketSize ops (component s)),
     pc_getMaxPacketBodySize = (\<lambda>s. pc_getMaxPacketBodySize ops (component s) - AdditionalPacketHeader_headerSize),
     pc_getDefaultPacketPoolSize = (\<lambda>s. pc_getDefaultPacketPoolSize ops (component s)),
     pc_shouldExchangeCipherSeed = (\<lambda>s. 0 < cipherKeyPeriod s),
     pc_isCipherKeyExpired = SecurePacketCoder_isCipherKeyExpired,
     pc_hasPacketCipher = (\<lambda>_. True)\<rparr>"

section \<open>Seeds survive the trip through their decimal form\<close>

lemma digit_byte:
  assumes "d < 10"
  shows "unat (48 + word_of_nat d :: byte) = 48 + d" and "is_digit (48 + word_of_nat d)"
    and "48 + word_of_nat d \<noteq> (45 :: byte)" and "48 + word_of_nat d \<noteq> (43 :: byte)"
    and "\<not> is_space (48 + word_of_nat d)"
proof -
  have "\<forall>d \<in> set [0..<10]. unat (48 + word_of_nat d :: byte) = 48 + d \<and> is_digit (48 + word_of_nat d) \<and>
      48 + word_of_nat d \<noteq> (45 :: byte) \<and> 48 + word_of_nat d \<noteq> (43 :: byte) \<and>
      \<not> is_space (48 + word_of_nat d)" by code_simp
  moreover have "d \<in> set [0..<10]" using assms by simp
  ultimately have "unat (48 + word_of_nat d :: byte) = 48 + d \<and> is_digit (48 + word_of_nat d) \<and>
      48 + word_of_nat d \<noteq> (45 :: byte) \<and> 48 + word_of_nat d \<noteq> (43 :: byte) \<and>
      \<not> is_space (48 + word_of_nat d)" by blast
  then show "unat (48 + word_of_nat d :: byte) = 48 + d" and "is_digit (48 + word_of_nat d)"
    and "48 + word_of_nat d \<noteq> (45 :: byte)" and "48 + word_of_nat d \<noteq> (43 :: byte)"
    and "\<not> is_space (48 + word_of_nat d)" by simp_all
qed

lemma dec_digits_digits: "\<forall>c \<in> set (dec_digits n). is_digit c"
proof (induction n rule: dec_digits.induct)
  case (1 n)
  then show ?case
    by (subst dec_digits.simps) (auto simp: digit_byte)
qed

lemma dec_digits_hd: "dec_digits n \<noteq> [] \<and> hd (dec_digits n) \<noteq> 45 \<and> hd (dec_digits n) \<noteq> 43 \<and>
    \<not> is_space (hd (dec_digits n))"
proof (induction n rule: dec_digits.induct)
  case (1 n)
  then show ?case
    by (cases "n < 10"; subst (1 2 3 4) dec_digits.simps) (auto simp: digit_byte)
qed

lemma dec_digits_value: "foldl (\<lambda>n c. 10 * n + (unat c - 48)) 0 (dec_digits n) = n"
proof (induction n rule: dec_digits.induct)
  case (1 n)
  then show ?case
    by (cases "n < 10"; subst dec_digits.simps) (auto simp: digit_byte)
qed

lemma atoi_dec_digits: "atoi (dec_digits n) = int n" "atoi (45 # dec_digits n) = - int n"
proof -
  have t: "takeWhile is_digit (dec_digits n) = dec_digits n"
    using dec_digits_digits by (subst takeWhile_eq_all_conv)
  have "dropWhile is_space (dec_digits n) = dec_digits n"
    using dec_digits_hd [of n] by (cases "dec_digits n") auto
  then show "atoi (dec_digits n) = int n"
    using dec_digits_hd [of n] dec_digits_value [of n] by (simp add: atoi_def Let_def t)
  have "\<not> is_space 45" by (simp add: is_space_def)
  then show "atoi (45 # dec_digits n) = - int n"
    using dec_digits_value [of n] by (simp add: atoi_def Let_def t)
qed

lemma toCipherKey_format_d: "toCipherKey (format_d v) = v"
proof -
  have "atoi (format_d v) = sint v"
    by (simp add: format_d_def atoi_dec_digits)
  then show ?thesis by (simp add: toCipherKey_def)
qed

section \<open>Blocks of a packet\<close>

definition pad_to :: "nat \<Rightarrow> byte list \<Rightarrow> byte list" where
  "pad_to bs body = body @ replicate ((bs - length body mod bs) mod bs) 0"

lemma pad_to_aligned: "0 < bs \<Longrightarrow> length (pad_to bs body) mod bs = 0"
proof (cases "length body mod bs = 0")
  case False
  assume "0 < bs"
  then have "length body mod bs < bs" by simp
  then have "length body + (bs - length body mod bs) = bs * (length body div bs + 1)"
    using mult_div_mod_eq [of bs "length body"] by (simp only: distrib_left mult_1_right)
  moreover have "length (pad_to bs body) = length body + (bs - length body mod bs)"
    using False \<open>length body mod bs < bs\<close> by (simp add: pad_to_def)
  ultimately show ?thesis by simp
qed (simp add: pad_to_def)

lemma align_carries:
  assumes "0 < bs" and "carries mb (hdr @ body)" and "length hdr = headerSize"
  shows "carries (SecurePacketCoder_align bs headerSize mb) (hdr @ pad_to bs body)"
proof -
  let ?m = "length body mod bs"
  have len: "mb_length mb - headerSize = length body" using assms by (simp add: carriesD)
  have copy: "mb_advance_wr n (mb_poke (wr_ptr (mb_reserve n mb)) (replicate n 0) (mb_reserve n mb)) =
      mb_copyFrom (replicate n 0) mb" for n
    by (simp add: mb_advance_wr_def mb_poke_def mb_copyFrom_def Let_def)
  show ?thesis
  proof (cases "0 < ?m")
    case True
    then have "pad_to bs body = body @ replicate (bs - ?m) 0"
      using assms(1) by (simp add: pad_to_def)
    moreover have "SecurePacketCoder_align bs headerSize mb = mb_copyFrom (replicate (bs - ?m) 0) mb"
      using True assms(1) copy by (simp add: SecurePacketCoder_align_def len Let_def)
    ultimately show ?thesis
      using assms(2) by (simp add: carries_iff mb_copyFrom_props)
  qed (use assms in \<open>simp add: pad_to_def SecurePacketCoder_align_def len\<close>)
qed

lemma mb_from_carries: "carries mb (hdr @ body) \<Longrightarrow> mb_from (length hdr) mb = body"
  unfolding carries_def mb_from_def
  by (metis append_eq_conv_conj drop_take length_append)

lemma packet_get_carries:
  fixes v :: "'a::len word"
  assumes "carries mb (xs @ bytes_of n v @ ys)" and "8 * n = LENGTH('a)"
  shows "packet_get (length xs) mb = v"
proof -
  obtain rest where "mb_buffer mb = (xs @ bytes_of n v @ ys) @ rest"
    using assms(1) unfolding carries_def by (metis append_take_drop_id)
  moreover have "LENGTH('a) div 8 = n" using assms(2) by (metis nonzero_mult_div_cancel_left zero_neq_numeral)
  ultimately have "packet_get (length xs) mb = (word_of_bytes (bytes_of n v) :: 'a word)"
    by (simp add: packet_get_def object_value_def toRpcByteOrder_def)
  then show ?thesis using assms(2) by (simp add: word_of_bytes_bytes_of)
qed

lemma packet_put_carries:
  fixes v :: "'a::len word"
  assumes "carries mb (xs @ ys @ zs)" and "8 * length ys = LENGTH('a)"
  shows "carries (packet_put v (length xs) mb) (xs @ bytes_of (length ys) v @ zs)"
proof -
  have "object_bytes v = bytes_of (length ys) v"
    using assms(2) unfolding object_bytes_def toRpcByteOrder_def
    by (metis nonzero_mult_div_cancel_left zero_neq_numeral)
  then show ?thesis
    using mb_poke_carries [OF assms(1), of "bytes_of (length ys) v"] by (simp add: packet_put_def)
qed

lemma AdditionalPacketHeader_write_carries:
  assumes "carries mb (xs @ ys @ zs)" and "length ys = 6"
  shows "carries (AdditionalPacketHeader_write fp cs (length xs) mb) (xs @ bytes_of 2 fp @ bytes_of 4 cs @ zs)"
proof -
  obtain ys1 ys2 where ys: "ys = ys1 @ ys2" "length ys1 = 2" "length ys2 = 4"
    using that [of "take 2 ys" "drop 2 ys"] assms(2) by simp
  have "carries (packet_put fp (length xs) mb) (xs @ bytes_of 2 fp @ ys2 @ zs)"
    using packet_put_carries [of mb xs ys1 "ys2 @ zs" fp] assms(1) ys by simp
  from packet_put_carries [of _ "xs @ bytes_of 2 fp" ys2 zs cs] this ys(3) show ?thesis
    by (simp add: AdditionalPacketHeader_write_def)
qed

section \<open>Endpoints in step\<close>

fun in_step :: "'r cipher_key_generator \<Rightarrow> 'r cipher_key_generator \<Rightarrow> bool" where
  "in_step (StaticCipherKeyGenerator e _) (StaticCipherKeyGenerator _ d) \<longleftrightarrow> e = d"
| "in_step (DynamicCipherKeyGenerator e _) (DynamicCipherKeyGenerator _ d) \<longleftrightarrow> e = d"
| "in_step _ _ \<longleftrightarrow> False"

definition secure_sync :: "'r secure_env \<Rightarrow> ('c, 'r) secure_packet_coder \<Rightarrow> ('c, 'r) secure_packet_coder \<Rightarrow> bool" where
  "secure_sync env e d \<longleftrightarrow> keyed (enc_engine env) (encryptor (cipher e)) \<and>
     keyed (dec_engine env) (decryptor (cipher d)) \<and>
     in_step (cipherKeyGenerator e) (cipherKeyGenerator d)"

lemma in_step_keys:
  assumes "getEncryptCipherKey env g = (k, g1)" and "in_step g g'"
  obtains g1' where "getDecryptCipherKey env g' = (k, g1')" and "in_step g1 g1'"
  using assms by (cases g; cases g') (auto split: prod.splits)

lemma in_step_create: "in_step (CipherKeyGenerator_create env u) (CipherKeyGenerator_create env u)"
  by (simp add: CipherKeyGenerator_create_def)

lemma secure_sync_new:
  "secure_sync env (SecurePacketCoder_new env c p u) (SecurePacketCoder_new env c' p' u)"
  by (simp add: secure_sync_def SecurePacketCoder_new_def BlockCipherImpl_new_def keyed_new in_step_create)

lemma secure_header_sizes: "rawPacketHeaderSize CsPacketCoder s = 3" "securePacketHeaderSize CsPacketCoder s = 9"
  by (simp_all add: rawPacketHeaderSize_def securePacketHeaderSize_def AdditionalPacketHeader_headerSize_def
      CsPacketCoder_def CsPacketHeader_getHeaderSize_def AbstractPacketHeader_getHeaderSize_def)

text \<open>The cipher step of both directions; an empty body is left alone.\<close>

lemma cipher_step:
  assumes pair: "engine_pair E D" and key: "keyed E (encryptor c)" and al: "length p mod BLOCKSIZE E = 0"
  obtains q c' where "(if 0 < length p then BlockCipherImpl_encrypt E p k c else (True, p, c)) = (True, q, c')"
    and "length q = length p" and "keyed E (encryptor c')" and "decryptor c' = decryptor c"
    and "\<And>d. keyed D (decryptor d) \<Longrightarrow> \<exists>d'.
      (if 0 < length q then BlockCipherImpl_decrypt D q k d else (True, q, d)) = (True, p, d') \<and>
      keyed D (decryptor d')"
proof (cases "p = []")
  case True
  with that [of "[]" c] key show ?thesis by auto
next
  case False
  from encrypt_run [OF pair key False al, of k] obtain q c' where q:
    "BlockCipherImpl_encrypt E p k c = (True, q, c')" "length q = length p"
    "keyed E (encryptor c')" "decryptor c' = decryptor c"
    "q = BlockCipherAlgorithm_process E \<lparr>engine_key = engine_key_of E k, prevUpdatedKey = k\<rparr> p" by metis
  have "\<exists>d'. BlockCipherImpl_decrypt D q k d = (True, p, d') \<and> keyed D (decryptor d')"
    if "keyed D (decryptor d)" for d
    using decrypt_run [OF pair that False al q(5)] by metis
  with that [of q c'] q False show ?thesis by auto
qed

lemma cs_decode: "pc_decode CsPacketCoder mb c = (True, mb, c)"
  by (simp add: CsPacketCoder_def PacketCoder_decode_def)

lemma component_unit: "d\<lparr>component := u\<rparr> = d" for d :: "(unit, 'r) secure_packet_coder"
  by (cases d) simp

lemma cs_encode_run:
  assumes "carries mb (hdr @ body)" and "length hdr = 3" and "CsPacketHeader_isValid h"
  shows "\<exists>mb'. pc_encode CsPacketCoder mb h c = (True, mb', h, c) \<and>
    carries mb' (bytes_of 2 (bodySize h) @ [word_of_int (messageType h)] @ body)"
  using assms CsPacketHeader_write_carries [OF assms(1,2), of h]
  by (simp add: CsPacketCoder_def PacketCoder_encode_def PacketCoder_isValidPacket_def carriesD
      CsPacketHeader_getHeaderSize_def AbstractPacketHeader_getHeaderSize_def)

lemma secure_encode:
  fixes e :: "(unit, 'r) secure_packet_coder"
  assumes pair: "engine_pair (enc_engine env) (dec_engine env)"
    and key: "keyed (enc_engine env) (encryptor (cipher e))"
    and mb: "carries mb (hdr @ body)" and hdr: "length hdr = 9" and mt: "isValidMessage mt"
    and gen: "getEncryptCipherKey env (cipherKeyGenerator e) = (k, g)"
  defines "p \<equiv> pad_to (BLOCKSIZE (enc_engine env)) body"
  defines "fp \<equiv> getFingerPrint k"
  obtains mb' h' c' q where
    "SecurePacketCoder_encode CsPacketCoder env mb \<lparr>bodySize = b, messageType = mt\<rparr> e =
       (True, mb', h', e\<lparr>cipherKeyGenerator := g, cipher := c'\<rparr>)"
    and "carries mb' (wire_header (length p) mt @ bytes_of 2 fp @ bytes_of 4 (getCheckSum env p fp) @ q)"
    and "length q = length p" and "keyed (enc_engine env) (encryptor c')"
    and "\<And>d. keyed (dec_engine env) (decryptor d) \<Longrightarrow> \<exists>d'.
      (if 0 < length q then BlockCipherImpl_decrypt (dec_engine env) q k d else (True, q, d)) = (True, p, d') \<and>
      keyed (dec_engine env) (decryptor d')"
proof -
  let ?E = "enc_engine env"
  have bs: "0 < BLOCKSIZE ?E" using pair by (simp add: engine_pair_def)
  let ?mb1 = "SecurePacketCoder_align (BLOCKSIZE ?E) 9 mb"
  have mb1: "carries ?mb1 (hdr @ p)"
    unfolding p_def by (rule align_carries [OF bs mb hdr])
  obtain q c' where q: "(if 0 < length p then BlockCipherImpl_encrypt ?E p k (cipher e) else (True, p, cipher e)) =
      (True, q, c')" "length q = length p" "keyed ?E (encryptor c')"
    and dec: "\<And>d. keyed (dec_engine env) (decryptor d) \<Longrightarrow> \<exists>d'.
      (if 0 < length q then BlockCipherImpl_decrypt (dec_engine env) q k d else (True, q, d)) = (True, p, d') \<and>
      keyed (dec_engine env) (decryptor d')"
    using cipher_step [OF pair key, of p k] pad_to_aligned [OF bs, of body] unfolding p_def by metis
  let ?h = "\<lparr>bodySize = PacketCoder_getBodySize 9 ?mb1, messageType = mt\<rparr>"
  let ?mb2 = "mb_poke 9 q ?mb1"
  define h1 h2 where "h1 = take 3 hdr" and "h2 = drop 3 hdr"
  then have h12: "hdr = h1 @ h2" "length h1 = 3" "length h2 = 6"
    using hdr by simp_all
  have "carries ?mb2 (h1 @ h2 @ q)"
    using mb_poke_carries [of ?mb1 hdr p "[]" q] mb1 q(2) hdr h12(1) by simp
  then obtain mb3 where enc: "pc_encode CsPacketCoder ?mb2 ?h () = (True, mb3, ?h, ())"
    and mb3: "carries mb3 (wire_header (length p) mt @ h2 @ q)"
    using cs_encode_run [of ?mb2 h1 "h2 @ q" ?h "()"] h12(2) mt getBodySize_carries [OF mb1 hdr]
    by (auto simp: CsPacketHeader_isValid_def AbstractPacketHeader_isValid_def wire_header_def)
  let ?mb4 = "AdditionalPacketHeader_write fp (getCheckSum env p fp) 3 mb3"
  have "carries ?mb4 (wire_header (length p) mt @ bytes_of 2 fp @ bytes_of 4 (getCheckSum env p fp) @ q)"
    using AdditionalPacketHeader_write_carries [OF mb3 h12(3), of fp "getCheckSum env p fp"]
    by (simp add: wire_header_def)
  moreover have "SecurePacketCoder_encode CsPacketCoder env mb \<lparr>bodySize = b, messageType = mt\<rparr> e =
      (True, ?mb4, ?h, e\<lparr>cipherKeyGenerator := g, cipher := c'\<rparr>)"
    using carriesD(3) [OF mb] hdr gen q(1) enc mb_from_carries [OF mb1]
    by (cases "p = []") (auto simp: SecurePacketCoder_encode_def secure_header_sizes Let_def fp_def component_unit)
  ultimately show ?thesis using that q(2,3) dec by blast
qed

lemma secure_decode:
  fixes d :: "(unit, 'r) secure_packet_coder"
  assumes rb: "carries rb (wh @ bytes_of 2 (getFingerPrint k) @ bytes_of 4 (getCheckSum env p (getFingerPrint k)) @ q)"
    and wh: "length wh = 3" and len: "length q = length p"
    and gen: "getDecryptCipherKey env (cipherKeyGenerator d) = (k, g)"
    and dec: "(if 0 < length q then BlockCipherImpl_decrypt (dec_engine env) q k (cipher d)
      else (True, q, cipher d)) = (True, p, c')"
  shows "\<exists>rb' hdr'. SecurePacketCoder_decode CsPacketCoder env rb d =
      (True, rb', d\<lparr>cipherKeyGenerator := g, cipher := c'\<rparr>) \<and>
    carries rb' (hdr' @ p) \<and> length hdr' = 9"
proof -
  let ?fp = "getFingerPrint k" and ?cs = "getCheckSum env p (getFingerPrint k)"
  let ?hdr = "wh @ bytes_of 2 ?fp @ bytes_of 4 ?cs"
  have rb': "carries rb (?hdr @ q)" and hdr: "length ?hdr = 9" using rb wh by simp_all
  have "packet_get 3 rb = ?fp"
    using packet_get_carries [of rb wh 2 ?fp "bytes_of 4 ?cs @ q"] rb wh by simp
  moreover have "packet_get 5 rb = ?cs"
    using packet_get_carries [of rb "wh @ bytes_of 2 ?fp" 4 ?cs q] rb wh by simp
  moreover have "mb_from 9 rb = q" using mb_from_carries [OF rb'] hdr by simp
  ultimately have "SecurePacketCoder_decode CsPacketCoder env rb d =
      (True, mb_poke 9 p rb, d\<lparr>cipherKeyGenerator := g, cipher := c'\<rparr>)"
    using gen dec
    by (cases "q = []") (auto simp: SecurePacketCoder_decode_def secure_header_sizes Let_def AdditionalPacketHeader_read_def
        cs_decode component_unit)
  moreover have "carries (mb_poke 9 p rb) (?hdr @ p)"
    using mb_poke_carries [of rb ?hdr q "[]" p] rb' len hdr by simp
  ultimately show ?thesis using hdr by blast
qed

lemma secure_packet_codec:
  assumes pair: "engine_pair (enc_engine env) (dec_engine env)"
  shows "packet_codec (SecurePacketCoder CsPacketCoder env) 9 (secure_sync env)
    (pad_to (BLOCKSIZE (enc_engine env)))"
proof (unfold_locales, goal_cases)
  case (3 mb c h)
  then show ?case
    using cs_codec.readHeader [of mb "component c" h]
    by (simp add: SecurePacketCoder_def SecurePacketCoder_readHeader_def)
next
  case (4 e d0 mb hdr body mt)
  let ?p = "pad_to (BLOCKSIZE (enc_engine env)) body"
  obtain k g where gen: "getEncryptCipherKey env (cipherKeyGenerator e) = (k, g)" by fastforce
  let ?h = "wire_header (length ?p) mt" and ?fp = "getFingerPrint k"
  from 4 have key: "keyed (enc_engine env) (encryptor (cipher e))" by (simp add: secure_sync_def)
  obtain mb' h' c' q where enc:
    "SecurePacketCoder_encode CsPacketCoder env mb
       \<lparr>bodySize = PacketCoder_getBodySize 9 mb, messageType = mt\<rparr> e =
       (True, mb', h', e\<lparr>cipherKeyGenerator := g, cipher := c'\<rparr>)"
    "carries mb' (?h @ bytes_of 2 ?fp @ bytes_of 4 (getCheckSum env ?p ?fp) @ q)"
    "length q = length ?p" "keyed (enc_engine env) (encryptor c')"
    and dec: "\<And>d. keyed (dec_engine env) (decryptor d) \<Longrightarrow> \<exists>d'.
      (if 0 < length q then BlockCipherImpl_decrypt (dec_engine env) q k d else (True, q, d)) = (True, ?p, d') \<and>
      keyed (dec_engine env) (decryptor d')"
    using secure_encode [OF pair key 4(2,3,5) gen] by metis
  let ?e' = "e\<lparr>cipherKeyGenerator := g, cipher := c'\<rparr>"
  let ?packet = "?h @ bytes_of 2 ?fp @ bytes_of 4 (getCheckSum env ?p ?fp) @ q"
  have wh: "length ?h = 3" by (simp add: wire_header_def)
  have "\<exists>rb' d' hdr'. SecurePacketCoder_decode CsPacketCoder env rb d = (True, rb', d') \<and>
      carries rb' (hdr' @ ?p) \<and> length hdr' = 9 \<and> secure_sync env ?e' d'"
    if syn: "secure_sync env e d" and rb: "carries rb ?packet" for d rb
  proof -
    obtain g' where g': "getDecryptCipherKey env (cipherKeyGenerator d) = (k, g')" "in_step g g'"
      using in_step_keys [OF gen] syn by (auto simp: secure_sync_def)
    obtain d' where "(if 0 < length q then BlockCipherImpl_decrypt (dec_engine env) q k (cipher d)
        else (True, q, cipher d)) = (True, ?p, d')" "keyed (dec_engine env) (decryptor d')"
      using dec [of "cipher d"] syn by (auto simp: secure_sync_def)
    with secure_decode [OF rb wh enc(3) g'(1)] g'(2) enc(4) show ?thesis
      by (fastforce simp: secure_sync_def)
  qed
  with enc wh show ?case
    by (intro exI [of _ mb'] exI [of _ h'] exI [of _ ?e'] exI [of _ ?packet])
      (simp add: SecurePacketCoder_def)
qed (simp_all add: SecurePacketCoder_def secure_header_sizes)

lemma decode_rejects:
  fixes d :: "(unit, 'r) secure_packet_coder"
  assumes "carries rb (wh @ bytes_of 2 fp @ rest)" and "length wh = 3"
    and "getDecryptCipherKey env (cipherKeyGenerator d) = (k, g)" and "fp \<noteq> getFingerPrint k"
  shows "SecurePacketCoder_decode CsPacketCoder env rb d = (False, rb, d\<lparr>cipherKeyGenerator := g\<rparr>)"
proof -
  have "packet_get 3 rb = fp"
    using packet_get_carries [of rb wh 2 fp rest] assms(1,2) by simp
  with assms(3,4) show ?thesis
    by (simp add: SecurePacketCoder_decode_def secure_header_sizes Let_def AdditionalPacketHeader_read_def
        cs_decode component_unit)
qed

section \<open>Properties\<close>

text \<open>C31: an encrypted connection is lossless.  Over a \<open>SecurePacketCoder\<close> around a \<open>CsPacketCoder\<close>,
  with static or changing keys, the messages that one endpoint marshals reach the callback of
  the other in order, each body filled with zeros to the block size of the cipher, however the
  bytes are cut on the way; and the endpoints stay in step.\<close>

theorem secure_framing:
  assumes "engine_pair (enc_engine env) (dec_engine env)" and "secure_sync env e d" and "9 \<le> n"
    and "\<forall>(mt, body) \<in> set ms. isValidMessage mt \<and>
      length (pad_to (BLOCKSIZE (enc_engine env)) body) < 65536"
    and "\<forall>mt mb c a. mb_inv mb \<longrightarrow>
      (\<exists>c' mb'. callback mt (c, mb, a) = (Inr True, c', mb', f mt (mb_contents mb) a) \<and>
        (\<forall>e. secure_sync env e c \<longrightarrow> secure_sync env e c'))"
  shows "\<exists>bs e'. marshal_all (SecurePacketCoder CsPacketCoder env) n ms e = Some (bs, e') \<and>
    (\<forall>chunks. concat chunks = bs \<longrightarrow> (\<exists>m'.
      receive_all (SecurePacketCoder CsPacketCoder env) callback chunks
          (SgpMarshaller_new (SecurePacketCoder CsPacketCoder env) d (mb_new k) (mb_new k), 0, a) =
        Some (Inr True, m', length ms,
          fold (\<lambda>(mt, body). f mt (pad_to (BLOCKSIZE (enc_engine env)) body)) ms a) \<and>
      mb_contents (recvBlock m') = [] \<and> secure_sync env e' (packetCoder m')))"
proof -
  note codec = secure_packet_codec [OF assms(1)]
  have "packet_codec.accepting (secure_sync env) callback f"
    unfolding packet_codec.accepting_def [OF codec] using assms(5) .
  then show ?thesis
    by (rule packet_codec.framing [OF codec assms(2-4)]) simp_all
qed

text \<open>Parameters for the witnesses: a generator that counts and a checksum that adds.\<close>

definition toy_env :: "u32 secure_env" where
  "toy_env = \<lparr>rand48_seed = (\<lambda>k. k), rand48_next = (\<lambda>r. (r, r + 1)),
     crc32 = (\<lambda>bs. sum_list (map ucast bs)), enc_engine = shift_engine (+), dec_engine = shift_engine (-),
     clock_ticks = 4\<rparr>"

lemma toy_env_engines: "engine_pair (enc_engine toy_env) (dec_engine toy_env)"
  "BLOCKSIZE (enc_engine toy_env) = 8"
  using shift_engine_pair by (simp_all add: toy_env_def) (simp add: shift_engine_def)

theorem secure_framing_witness:
  "\<exists>bs e'. marshal_all (SecurePacketCoder CsPacketCoder toy_env) 16 [(21, [7, 8]), (0, [])]
      (SecurePacketCoder_new toy_env () 0 True) = Some (bs, e') \<and>
    (\<forall>chunks. concat chunks = bs \<longrightarrow> (\<exists>m'.
      receive_all (SecurePacketCoder CsPacketCoder toy_env)
          (\<lambda>mt (c, mb, a). (Inr True, c, mb, a @ [(mt, mb_contents mb)])) chunks
          (SgpMarshaller_new (SecurePacketCoder CsPacketCoder toy_env)
            (SecurePacketCoder_new toy_env () 0 True) (mb_new 16) (mb_new 16), 0, []) =
        Some (Inr True, m', length [(21 :: int, [7 :: byte, 8]), (0, [])],
          fold (\<lambda>(mt, body). (\<lambda>mt body a. a @ [(mt, body)]) mt (pad_to (BLOCKSIZE (enc_engine toy_env)) body))
            [(21, [7, 8]), (0, [])] []) \<and>
      mb_contents (recvBlock m') = [] \<and> secure_sync toy_env e' (packetCoder m')))"
  by (rule secure_framing)
    (simp_all add: toy_env_engines secure_sync_new isValidMessage_def pad_to_def)

end
