(* ===== verification/Io_Timer.thy ===== *)
theory Io_Timer
  imports Sne_Prelude
begin

text \<open>
  \<open>AsioTimer\<close> (src/base/io_context/AsioTimer.h) and \<open>BandwidthLimit\<close>
  (src/base/session/BandwidthLimit.cpp).  Of the Boost timer that an \<open>AsioTimer\<close> wraps the model
  keeps the waits that were requested: those that have not expired, those that have expired and
  whose handler is queued, and those that were cancelled and whose handler is queued with
  \<open>operation_aborted\<close>.  That is what Boost documents of \<open>expires_from_now\<close>, \<open>async_wait\<close> and
  \<open>cancel\<close>: the first and the last cancel what is outstanding, and a handler that is already
  queued runs with the result it had.  The handlers call back into the owner of the timer, so
  they work on the owner's state, in which \<open>get\<close> and \<open>upd\<close> access the timer.
\<close>

section \<open>AsioTimer\<close>

datatype io_error = Success | OperationAborted | OtherError

record asio_wait =
  w_repeats :: bool
  w_timeout :: nat
  w_act :: nat

record asio_timer =
  waiting :: "asio_wait list"
  expired :: "asio_wait list"
  cancelled :: "asio_wait list"
  isRunning :: bool

definition AsioTimer_new :: asio_timer where
  "AsioTimer_new = \<lparr>waiting = [], expired = [], cancelled = [], isRunning = False\<rparr>"

text \<open>\<open>timer_.cancel()\<close>, and the part of \<open>expires_from_now\<close> that cancels.\<close>

definition cancel_waits :: "asio_timer \<Rightarrow> asio_timer" where
  "cancel_waits t = t\<lparr>waiting := [], cancelled := cancelled t @ waiting t\<rparr>"

definition async_wait :: "asio_wait \<Rightarrow> asio_timer \<Rightarrow> asio_timer" where
  "async_wait w t = t\<lparr>waiting := waiting t @ [w]\<rparr>"

definition AsioTimer_once :: "nat \<Rightarrow> nat \<Rightarrow> asio_timer \<Rightarrow> asio_timer" where
  "AsioTimer_once timeout act t =
     (async_wait \<lparr>w_repeats = False, w_timeout = timeout, w_act = act\<rparr> (cancel_waits t))
       \<lparr>isRunning := True\<rparr>"

definition AsioTimer_repeat :: "nat \<Rightarrow> nat \<Rightarrow> asio_timer \<Rightarrow> asio_timer" where
  "AsioTimer_repeat timeout act t =
     (async_wait \<lparr>w_repeats = True, w_timeout = timeout, w_act = act\<rparr> (cancel_waits t))
       \<lparr>isRunning := True\<rparr>"

definition AsioTimer_cancel :: "asio_timer \<Rightarrow> asio_timer" where
  "AsioTimer_cancel t = (if isRunning t then cancel_waits t else t)\<lparr>isRunning := False\<rparr>"

definition AsioTimer_handle_timeout ::
    "('s \<Rightarrow> asio_timer) \<Rightarrow> ((asio_timer \<Rightarrow> asio_timer) \<Rightarrow> 's \<Rightarrow> 's) \<Rightarrow> (nat \<Rightarrow> 's \<Rightarrow> 's) \<Rightarrow>
     io_error \<Rightarrow> nat \<Rightarrow> 's \<Rightarrow> 's" where
  "AsioTimer_handle_timeout get upd timedOut ec act s =
     (let s = (if ec = Success \<and> isRunning (get s)
               then timedOut act (upd (\<lambda>t. t\<lparr>isRunning := False\<rparr>) s) else s)
      in upd (\<lambda>t. t\<lparr>isRunning := False\<rparr>) s)"

definition AsioTimer_handle_repeat_timeout ::
    "('s \<Rightarrow> asio_timer) \<Rightarrow> ((asio_timer \<Rightarrow> asio_timer) \<Rightarrow> 's \<Rightarrow> 's) \<Rightarrow> (nat \<Rightarrow> 's \<Rightarrow> 's) \<Rightarrow>
     io_error \<Rightarrow> nat \<Rightarrow> nat \<Rightarrow> 's \<Rightarrow> 's" where
  "AsioTimer_handle_repeat_timeout get upd timedOut ec timeout act s =
     (if ec = Success then
        if isRunning (get s) then timedOut act (upd (AsioTimer_repeat timeout act) s) else s
      else upd (\<lambda>t. t\<lparr>isRunning := False\<rparr>) s)"

text \<open>The handler of a wait.\<close>

definition handle_wait ::
    "('s \<Rightarrow> asio_timer) \<Rightarrow> ((asio_timer \<Rightarrow> asio_timer) \<Rightarrow> 's \<Rightarrow> 's) \<Rightarrow> (nat \<Rightarrow> 's \<Rightarrow> 's) \<Rightarrow>
     io_error \<Rightarrow> asio_wait \<Rightarrow> 's \<Rightarrow> 's" where
  "handle_wait get upd timedOut ec w =
     (if w_repeats w then AsioTimer_handle_repeat_timeout get upd timedOut ec (w_timeout w) (w_act w)
      else AsioTimer_handle_timeout get upd timedOut ec (w_act w))"

text \<open>
  What the I/O context does with a timer: a wait expires, a queued handler runs.
\<close>

inductive timer_step ::
    "('s \<Rightarrow> asio_timer) \<Rightarrow> ((asio_timer \<Rightarrow> asio_timer) \<Rightarrow> 's \<Rightarrow> 's) \<Rightarrow> (nat \<Rightarrow> 's \<Rightarrow> 's) \<Rightarrow> 's \<Rightarrow> 's \<Rightarrow> bool"
  for get upd timedOut where
  expire: "waiting (get s) = ws @ w # ws' \<Longrightarrow>
    timer_step get upd timedOut s
      (upd (\<lambda>t. t\<lparr>waiting := ws @ ws', expired := expired t @ [w]\<rparr>) s)"
| run_expired: "expired (get s) = w # ws \<Longrightarrow>
    timer_step get upd timedOut s
      (handle_wait get upd timedOut Success w (upd (\<lambda>t. t\<lparr>expired := ws\<rparr>) s))"
| run_cancelled: "cancelled (get s) = ws @ w # ws' \<Longrightarrow>
    timer_step get upd timedOut s
      (handle_wait get upd timedOut OperationAborted w (upd (\<lambda>t. t\<lparr>cancelled := ws @ ws'\<rparr>) s))"

lemmas timer_defs = AsioTimer_new_def cancel_waits_def async_wait_def AsioTimer_once_def
  AsioTimer_repeat_def AsioTimer_cancel_def AsioTimer_handle_timeout_def
  AsioTimer_handle_repeat_timeout_def handle_wait_def

section \<open>A timer in the state of its owner\<close>

locale timer_owner =
  fixes get :: "'s \<Rightarrow> asio_timer" and upd :: "(asio_timer \<Rightarrow> asio_timer) \<Rightarrow> 's \<Rightarrow> 's"
  assumes get_upd: "get (upd f s) = f (get s)"
    and upd_upd: "upd f (upd g s) = upd (\<lambda>t. f (g t)) s"
    and upd_same: "f (get s) = get s \<Longrightarrow> upd f s = s"
begin

lemma handle_wait_idle: "\<not> isRunning (get s) \<Longrightarrow> handle_wait get upd timedOut ec w s = s"
  by (auto simp: handle_wait_def AsioTimer_handle_timeout_def AsioTimer_handle_repeat_timeout_def
      Let_def intro!: upd_same)

lemma idle_step:
  assumes "timer_step get upd timedOut s s'" and "\<not> isRunning (get s)"
  shows "\<exists>f. s' = upd f s \<and> \<not> isRunning (get s')"
  using assms by cases (auto simp: handle_wait_idle get_upd)

lemma idle_steps:
  assumes "(timer_step get upd timedOut)\<^sup>*\<^sup>* s s'" and "\<not> isRunning (get s)"
  shows "\<exists>f. s' = upd f s \<and> \<not> isRunning (get s')"
  using assms
proof (induction rule: rtranclp_induct)
  case base
  then show ?case by (intro exI [of _ "\<lambda>t. t"]) (simp add: upd_same)
next
  case (step y z)
  then obtain f where "y = upd f s" "\<not> isRunning (get y)" by blast
  with idle_step [OF step.hyps(2)] show ?case by (metis upd_upd)
qed

end

text \<open>A timer alone with the state of its callback.\<close>

abbreviation tstep :: "(nat \<Rightarrow> asio_timer \<times> 'a \<Rightarrow> asio_timer \<times> 'a) \<Rightarrow>
    asio_timer \<times> 'a \<Rightarrow> asio_timer \<times> 'a \<Rightarrow> bool" where
  "tstep \<equiv> timer_step fst (\<lambda>f (t, a). (f t, a))"

interpretation pair_timer: timer_owner fst "\<lambda>f (t, a). (f t, a)"
  by unfold_locales auto

lemmas handle_wait_idle = pair_timer.handle_wait_idle [of "(t, a)" for t a, simplified]

lemma tsteps_idle:
  assumes "(tstep timedOut)\<^sup>*\<^sup>* s s'" and "\<not> isRunning (fst s)"
  shows "snd s' = snd s \<and> \<not> isRunning (fst s')"
  using pair_timer.idle_steps [OF assms] by (cases s) auto

section \<open>BandwidthLimit\<close>

record session_capacity =
  maxBytesPerSecond :: u16
  secondsForThrottling :: u16
  maxPendablePacketCount :: u16

definition shouldThrottle :: "session_capacity \<Rightarrow> bool" where
  "shouldThrottle c \<longleftrightarrow> 0 < maxBytesPerSecond c"

text \<open>Times are what \<open>time(0)\<close> shows, in seconds; zero stands for none.\<close>

record bandwidth_limit =
  capacity :: session_capacity
  readBytes :: nat
  startedTime :: nat
  badTime :: nat

definition BandwidthLimit_reset :: "bandwidth_limit \<Rightarrow> bandwidth_limit" where
  "BandwidthLimit_reset b = b\<lparr>startedTime := 0, readBytes := 0, badTime := 0\<rparr>"

definition BandwidthLimit_new :: "session_capacity \<Rightarrow> bandwidth_limit" where
  "BandwidthLimit_new c = BandwidthLimit_reset \<lparr>capacity = c, readBytes = 0, startedTime = 0, badTime = 0\<rparr>"

definition BandwidthLimit_check :: "nat \<Rightarrow> bandwidth_limit \<Rightarrow> bool \<times> bandwidth_limit" where
  "BandwidthLimit_check now b =
     (if \<not> shouldThrottle (capacity b) then (True, b)
      else if readBytes b < unat (maxBytesPerSecond (capacity b)) then (True, b)
      else if badTime b = 0 then (True, b)
      else if int (unat (secondsForThrottling (capacity b))) \<le> int now - int (badTime b)
        then (True, BandwidthLimit_reset b)
      else (False, b))"

definition BandwidthLimit_add :: "nat \<Rightarrow> nat \<Rightarrow> bandwidth_limit \<Rightarrow> bandwidth_limit" where
  "BandwidthLimit_add now bytes b =
     (if \<not> shouldThrottle (capacity b) then b
      else
        let b = b\<lparr>readBytes := readBytes b + bytes\<rparr>;
            b = (if startedTime b = 0 then b\<lparr>startedTime := now\<rparr> else b)
        in if readBytes b < unat (maxBytesPerSecond (capacity b)) then
             if 1 \<le> int now - int (startedTime b) then BandwidthLimit_reset b else b
           else if badTime b = 0 then b\<lparr>badTime := now\<rparr> else b)"

definition bandwidth_inv :: "bandwidth_limit \<Rightarrow> bool" where
  "bandwidth_inv b \<longleftrightarrow> (badTime b \<noteq> 0 \<longrightarrow> unat (maxBytesPerSecond (capacity b)) \<le> readBytes b)"

lemmas bandwidth_defs = BandwidthLimit_reset_def BandwidthLimit_new_def BandwidthLimit_check_def
  BandwidthLimit_add_def bandwidth_inv_def shouldThrottle_def

section \<open>Properties\<close>

text \<open>A timer that is not running stays silent: after \<open>cancel\<close> no handler that is still queued,
  expired or aborted, reaches the callback.\<close>

lemma timer_cancel_silences:
  "(tstep timedOut)\<^sup>*\<^sup>* (AsioTimer_cancel t, a) (t', a') \<Longrightarrow> a' = a \<and> \<not> isRunning t'"
  using tsteps_idle [of timedOut "(AsioTimer_cancel t, a)" "(t', a')"]
  by (simp add: AsioTimer_cancel_def)

text \<open>A callback that records its arguments.\<close>

definition recording :: "nat \<Rightarrow> asio_timer \<times> nat list \<Rightarrow> asio_timer \<times> nat list" where
  "recording act = (\<lambda>(t, a). (t, a @ [act]))"

text \<open>A one-shot timer whose callback leaves the timer alone calls it at most once, with the
  argument it was started with.\<close>

lemma timer_once_at_most_once:
  assumes "(tstep timedOut)\<^sup>*\<^sup>* (AsioTimer_once timeout act AsioTimer_new, a) (t', a')"
    and "\<forall>t a. timedOut act (t, a) = (t, f a)"
  shows "a' = a \<or> a' = f a"
proof -
  let ?w = "\<lparr>w_repeats = False, w_timeout = timeout, w_act = act\<rparr>"
  let ?inv = "\<lambda>(t, b). cancelled t = [] \<and> (b = a \<and> isRunning t \<and>
      (waiting t = [?w] \<and> expired t = [] \<or> waiting t = [] \<and> expired t = [?w]) \<or>
    b = f a \<and> \<not> isRunning t)"
  from assms(1) have "?inv (t', a')"
  proof (induction "(t', a')" arbitrary: t' a' rule: rtranclp_induct)
    case base
    then show ?case by (simp add: timer_defs)
  next
    case (step y)
    obtain t b where y: "y = (t, b)" by fastforce
    from step.hyps(2) show ?case unfolding y
    proof (cases rule: timer_step.cases)
      case (expire ws w ws')
      with step.hyps(3) [of t b] y show ?thesis by (auto simp: append_eq_Cons_conv Cons_eq_append_conv)
    next
      case (run_expired w ws)
      show ?thesis
      proof (cases "isRunning t")
        case True
        with run_expired step.hyps(3) [of t b] y assms(2) show ?thesis by (auto simp: timer_defs)
      next
        case False
        with run_expired step.hyps(3) [of t b] y
          handle_wait_idle [of "t\<lparr>expired := ws\<rparr>" timedOut Success w b]
        show ?thesis by auto
      qed
    next
      case (run_cancelled ws w ws')
      with step.hyps(3) [of t b] y show ?thesis by auto
    qed
  qed
  then show ?thesis by auto
qed

text \<open>Restarting a running timer kills it.  \<open>cancel\<close> followed by \<open>once\<close> leaves the aborted
  handler of the old wait in the queue; when it runs it clears \<open>isRunning_\<close>, and the new wait,
  although still outstanding, never reaches the callback.\<close>

lemma timer_restart_lost:
  assumes "isRunning t" and "waiting t = [w]" and "cancelled t = []"
  shows "\<exists>s. tstep timedOut (AsioTimer_once timeout act (AsioTimer_cancel t), a) s \<and>
    waiting (fst s) \<noteq> [] \<and> (\<forall>s'. (tstep timedOut)\<^sup>*\<^sup>* s s' \<longrightarrow> snd s' = a)"
proof -
  let ?t = "AsioTimer_once timeout act (AsioTimer_cancel t)"
  let ?s = "((?t\<lparr>cancelled := []\<rparr>)\<lparr>isRunning := False\<rparr>, a)"
  have "tstep timedOut (?t, a) ?s"
    using timer_step.run_cancelled [of fst "(?t, a)" "[]" w "[]" "\<lambda>f (t, a). (f t, a)" timedOut] assms
    by (cases "w_repeats w") (simp_all add: timer_defs)
  moreover have "waiting (fst ?s) \<noteq> []" by (simp add: timer_defs)
  moreover have "snd s' = a" if "(tstep timedOut)\<^sup>*\<^sup>* ?s s'" for s'
    using tsteps_idle [OF that] by simp
  ultimately show ?thesis by blast
qed

text \<open>A session is throttled exactly when it has a limit, has read that much since the window
  started, and the throttling time since the limit was first exceeded is not over.\<close>

lemma bandwidth_throttles:
  assumes "0 < now"
  shows "\<not> fst (BandwidthLimit_check now (BandwidthLimit_add now n b)) \<longleftrightarrow>
    shouldThrottle (capacity b) \<and> unat (maxBytesPerSecond (capacity b)) \<le> readBytes b + n \<and>
    int now - int (if badTime b = 0 then now else badTime b) < int (unat (secondsForThrottling (capacity b)))"
  using assms
  by (simp add: bandwidth_defs Let_def word_less_nat_alt)
    (auto simp: order_less_le [of 0 "uint (secondsForThrottling (capacity b))"])

end
