(* ===== verification/Tcp_Session.thy ===== *)
theory Tcp_Session
  imports Secure_Packet_Coder Io_Timer
begin

text \<open>
  \<open>TcpSessionImpl\<close> (src/base/session/impl/TcpSessionImpl.cpp), the asynchronous TCP session.
  The methods of a session post their work to the I/O context, which runs the posted tasks and
  the handlers of the socket and timer operations one after the other; each task and each
  handler is a function on the state of the session.  Of the environment the state holds what
  was asked of it: the tasks posted, the read and write operations that are outstanding on the
  socket, those that closing the socket has aborted, and all bytes handed to \<open>async_write\<close>.
  Memory blocks carry the number they have in the pool; \<open>releasedBlocks\<close> are those given back.
  The callback of the session (the application's session class) is a parameter: \<open>onConnected\<close>
  and \<open>onMessageArrived\<close> work on the coder and the application's state and may post tasks, the
  other notifications change the application's state only.  The step relation \<open>session_run\<close>
  interleaves all of it; the invariant over it shows that the bytes written are the packets
  accepted, in order, with never more than one write outstanding.
\<close>

section \<open>State\<close>

record session_stats =
  recvBytes :: nat
  sentBytes :: nat
  recvMessageCount :: nat
  sentMessageCount :: nat
  useCount :: nat

definition SessionStats_reset :: "session_stats \<Rightarrow> session_stats" where
  "SessionStats_reset st = st\<lparr>recvBytes := 0, sentBytes := 0, recvMessageCount := 0, sentMessageCount := 0\<rparr>"

type_synonym out_block = "nat \<times> memory_block"

datatype task = Disconnect | DisconnectGracefully | SendMessage out_block message_type

datatype write_op = Write out_block | GatherWrite

record ('c, 'a) tcp_session =
  socketOpen :: bool
  outputQueue :: "out_block list"
  isWritePended :: bool
  prevLoggedOutputQueueSize :: nat
  outputMemoryBlocks :: "out_block list"
  disconnectTimer :: asio_timer
  incomingBandwidthLimiter :: bandwidth_limit
  throttleTimer :: asio_timer
  stats :: session_stats
  maxPendable :: u16
  marshaller :: "'c sgp_marshaller"
  app :: 'a
  posted :: "task list"
  writing :: "write_op list"
  reading :: nat
  abortedWrites :: "write_op list"
  abortedReads :: nat
  wireOut :: "byte list"
  releasedBlocks :: "nat list"

text \<open>\<open>SessionCallback\<close>.  \<open>onMessageArrived\<close> is a callback of \<open>SgpMarshaller_unmarshal\<close> whose state
  is the application's with the tasks it posts.\<close>

record ('c, 'a) session_callback =
  onConnected :: "'c \<times> 'a \<Rightarrow> bool \<times> 'c \<times> 'a \<times> task list"
  onDisconnected :: "'a \<Rightarrow> 'a"
  onMessageTransfered :: "message_type \<Rightarrow> 'a \<Rightarrow> 'a"
  onMessageArrived :: "('c, 'a \<times> task list) message_callback"
  onThrottling :: "'a \<Rightarrow> 'a"
  onRelease :: "'a \<Rightarrow> 'a"

definition maxGatherWriteCount :: nat where
  "maxGatherWriteCount = 10"

definition post :: "task \<Rightarrow> ('c, 'a) tcp_session \<Rightarrow> ('c, 'a) tcp_session" where
  "post t s = s\<lparr>posted := posted s @ [t]\<rparr>"

definition release_block :: "nat \<Rightarrow> ('c, 'a) tcp_session \<Rightarrow> ('c, 'a) tcp_session" where
  "release_block b s = s\<lparr>releasedBlocks := releasedBlocks s @ [b]\<rparr>"

text \<open>The buffers of a list of blocks.\<close>

definition packets_of :: "out_block list \<Rightarrow> byte list" where
  "packets_of bs = concat (map (mb_contents \<circ> snd) bs)"

text \<open>\<open>socket_.close()\<close> aborts what is outstanding.\<close>

definition close_socket :: "('c, 'a) tcp_session \<Rightarrow> ('c, 'a) tcp_session" where
  "close_socket s = s\<lparr>socketOpen := False, abortedWrites := abortedWrites s @ writing s, writing := [],
     abortedReads := abortedReads s + reading s, reading := 0\<rparr>"

definition async_write :: "write_op \<Rightarrow> byte list \<Rightarrow> ('c, 'a) tcp_session \<Rightarrow> ('c, 'a) tcp_session" where
  "async_write w bs s = s\<lparr>writing := writing s @ [w], wireOut := wireOut s @ bs\<rparr>"

section \<open>Operations\<close>

definition isDisconnectReserved :: "('c, 'a) tcp_session \<Rightarrow> bool" where
  "isDisconnectReserved s \<longleftrightarrow> isRunning (disconnectTimer s)"

definition canSendMessage :: "('c, 'a) tcp_session \<Rightarrow> bool" where
  "canSendMessage s \<longleftrightarrow> socketOpen s \<and> \<not> isRunning (disconnectTimer s)"

definition flushOutputQueue :: "('c, 'a) tcp_session \<Rightarrow> ('c, 'a) tcp_session" where
  "flushOutputQueue s = s\<lparr>releasedBlocks := releasedBlocks s @ map fst (outputQueue s), outputQueue := []\<rparr>"

definition TcpSessionImpl_reset ::
    "'c packet_coder_ops \<Rightarrow> nat \<Rightarrow> ('c, 'a) tcp_session \<Rightarrow> ('c, 'a) tcp_session" where
  "TcpSessionImpl_reset ops now s =
     (let s = flushOutputQueue (close_socket s) in
      s\<lparr>stats := SessionStats_reset (stats s), isWritePended := False, prevLoggedOutputQueueSize := 0,
        outputMemoryBlocks := [],
        disconnectTimer := AsioTimer_cancel (disconnectTimer s),
        throttleTimer := AsioTimer_cancel (throttleTimer s),
        marshaller := SgpMarshaller_reset ops now (marshaller s),
        incomingBandwidthLimiter := BandwidthLimit_reset (incomingBandwidthLimiter s)\<rparr>)"

definition startDisconnectTimer :: "('c, 'a) tcp_session \<Rightarrow> ('c, 'a) tcp_session" where
  "startDisconnectTimer s = s\<lparr>disconnectTimer := AsioTimer_once 500 0 (disconnectTimer s)\<rparr>"

text \<open>The task that \<open>disconnect\<close> posts.\<close>

definition TcpSessionImpl_disconnect ::
    "'c packet_coder_ops \<Rightarrow> ('c, 'a) session_callback \<Rightarrow> nat \<Rightarrow> ('c, 'a) tcp_session \<Rightarrow> ('c, 'a) tcp_session" where
  "TcpSessionImpl_disconnect ops cb now s =
     (if isDisconnectReserved s then s
      else
        let connected = socketOpen s;
            s = close_socket (s\<lparr>disconnectTimer := AsioTimer_cancel (disconnectTimer s),
                                throttleTimer := AsioTimer_cancel (throttleTimer s)\<rparr>)
        in if \<not> connected then s
           else let s = TcpSessionImpl_reset ops now s in
             s\<lparr>app := onRelease cb (onDisconnected cb (app s))\<rparr>)"

definition TcpSessionImpl_disconnectGracefully :: "('c, 'a) tcp_session \<Rightarrow> ('c, 'a) tcp_session" where
  "TcpSessionImpl_disconnectGracefully s = (if \<not> isDisconnectReserved s then startDisconnectTimer s else s)"

definition checkOutputQueue :: "('c, 'a) tcp_session \<Rightarrow> bool \<times> ('c, 'a) tcp_session" where
  "checkOutputQueue s =
     (let queueSize = length (outputQueue s) in
      if 0 < maxPendable s \<and> unat (maxPendable s) \<le> queueSize then (False, s)
      else (True, if prevLoggedOutputQueueSize s + 10 < queueSize
                  then s\<lparr>prevLoggedOutputQueueSize := queueSize\<rparr> else s))"

definition writeMessage :: "out_block \<Rightarrow> ('c, 'a) tcp_session \<Rightarrow> bool \<times> ('c, 'a) tcp_session" where
  "writeMessage b s = (True, (async_write (Write b) (mb_contents (snd b)) s)\<lparr>isWritePended := True\<rparr>)"

text \<open>The task that \<open>sendMessage\<close> posts; the packet, when there is one, is part of the result.\<close>

definition TcpSessionImpl_sendMessage ::
    "'c packet_coder_ops \<Rightarrow> ('c, 'a) session_callback \<Rightarrow> out_block \<Rightarrow> message_type \<Rightarrow> ('c, 'a) tcp_session \<Rightarrow>
     byte list option \<times> ('c, 'a) tcp_session" where
  "TcpSessionImpl_sendMessage ops cb b mt s =
     (if \<not> canSendMessage s then (None, release_block (fst b) s)
      else
        case SgpMarshaller_marshal ops (snd b) mt (packetCoder (marshaller s)) of
          (marshalled, mb, coder) \<Rightarrow>
            let s = s\<lparr>marshaller := (marshaller s)\<lparr>packetCoder := coder\<rparr>\<rparr>;
                b = (fst b, mb)
            in if marshalled then
                 if isWritePended s then
                   (case checkOutputQueue s of (ok, s) \<Rightarrow>
                      if ok then
                        let s = s\<lparr>outputQueue := outputQueue s @ [b]\<rparr>
                        in (Some (mb_contents mb), s\<lparr>app := onMessageTransfered cb mt (app s)\<rparr>)
                      else (None, release_block (fst b) (post Disconnect s)))
                 else
                   let s = snd (writeMessage b s)
                   in (Some (mb_contents mb), s\<lparr>app := onMessageTransfered cb mt (app s)\<rparr>)
               else (None, release_block (fst b) (post DisconnectGracefully s)))"

definition gatherWrite :: "('c, 'a) tcp_session \<Rightarrow> ('c, 'a) tcp_session" where
  "gatherWrite s =
     (let outputQueueSize = length (outputQueue s) in
      if outputQueueSize = 0 then s
      else if 2 \<le> outputQueueSize then
        let blocks = take maxGatherWriteCount (outputQueue s);
            s = s\<lparr>outputQueue := drop maxGatherWriteCount (outputQueue s), outputMemoryBlocks := blocks\<rparr>
        in (async_write GatherWrite (packets_of blocks) s)\<lparr>isWritePended := True\<rparr>
      else snd (writeMessage (hd (outputQueue s)) (s\<lparr>outputQueue := tl (outputQueue s)\<rparr>)))"

definition writeSucceeded :: "out_block \<Rightarrow> ('c, 'a) tcp_session \<Rightarrow> ('c, 'a) tcp_session" where
  "writeSucceeded b s = s\<lparr>isWritePended := False,
     stats := (stats s)\<lparr>sentMessageCount := sentMessageCount (stats s) + 1,
                         sentBytes := sentBytes (stats s) + mb_length (snd b)\<rparr>\<rparr>"

definition handle_write :: "io_error \<Rightarrow> out_block \<Rightarrow> ('c, 'a) tcp_session \<Rightarrow> ('c, 'a) tcp_session" where
  "handle_write error b s =
     (if error = Success then release_block (fst b) (gatherWrite (writeSucceeded b s))
      else release_block (fst b) (post Disconnect s))"

definition handle_gather_write :: "io_error \<Rightarrow> ('c, 'a) tcp_session \<Rightarrow> ('c, 'a) tcp_session" where
  "handle_gather_write error s =
     (let s = fold (\<lambda>b s. release_block (fst b) (if error = Success then writeSucceeded b s else s))
                (outputMemoryBlocks s) s;
          s = s\<lparr>outputMemoryBlocks := []\<rparr>
      in if error = Success then gatherWrite s else post Disconnect s)"

definition readMessage :: "('c, 'a) tcp_session \<Rightarrow> ('c, 'a) tcp_session" where
  "readMessage s =
     (let recv = recvBlock (marshaller s);
          recv = mb_reserve (mb_capacity recv div 3) recv
      in s\<lparr>marshaller := (marshaller s)\<lparr>recvBlock := recv\<rparr>, reading := reading s + 1\<rparr>)"

definition startThrottleTimer :: "('c, 'a) tcp_session \<Rightarrow> ('c, 'a) tcp_session" where
  "startThrottleTimer s =
     (if isRunning (throttleTimer s) then s
      else s\<lparr>throttleTimer := AsioTimer_once
        (unat (secondsForThrottling (capacity (incomingBandwidthLimiter s))) * 1000) 1 (throttleTimer s)\<rparr>)"

definition throttleReceiving :: "('c, 'a) session_callback \<Rightarrow> ('c, 'a) tcp_session \<Rightarrow> ('c, 'a) tcp_session" where
  "throttleReceiving cb s = (let s = startThrottleTimer s in s\<lparr>app := onThrottling cb (app s)\<rparr>)"

definition addInboundBandwidth :: "nat \<Rightarrow> nat \<Rightarrow> ('c, 'a) tcp_session \<Rightarrow> bool \<times> ('c, 'a) tcp_session" where
  "addInboundBandwidth secs bytesTransferred s =
     (let (isKarmaRemained, l) = BandwidthLimit_check secs
            (BandwidthLimit_add secs bytesTransferred (incomingBandwidthLimiter s))
      in (isKarmaRemained, s\<lparr>incomingBandwidthLimiter := l\<rparr>))"

text \<open>\<open>messageUnmarshalled\<close>: the callbacks only post, so the timer does not change meanwhile.\<close>

definition messageUnmarshalled ::
    "('c, 'a) session_callback \<Rightarrow> bool \<Rightarrow> ('c, 'a \<times> task list) message_callback" where
  "messageUnmarshalled cb disconnectReserved mt st =
     (if disconnectReserved then (Inr True, st) else onMessageArrived cb mt st)"

text \<open>The \<open>bytesTransferred\<close> bytes are already behind \<open>wr_ptr()\<close> of the receive block.  A result
  \<open>Inl\<close> is an exception that leaves the handler.\<close>

definition messageBlockReceived ::
    "'c packet_coder_ops \<Rightarrow> ('c, 'a) session_callback \<Rightarrow> nat \<Rightarrow> nat \<Rightarrow> ('c, 'a) tcp_session \<Rightarrow>
     ((sne_error + bool) \<times> ('c, 'a) tcp_session) option" where
  "messageBlockReceived ops cb secs bytesTransferred s =
     (let s = s\<lparr>marshaller := (marshaller s)\<lparr>recvBlock := mb_advance_wr bytesTransferred (recvBlock (marshaller s))\<rparr>,
                stats := (stats s)\<lparr>recvBytes := recvBytes (stats s) + bytesTransferred\<rparr>\<rparr>;
          (isKarmaRemained, s) = addInboundBandwidth secs bytesTransferred s
      in map_option (\<lambda>(r, m, receivedMessageCount, a, tasks).
           let s = s\<lparr>marshaller := m, app := a, posted := posted s @ tasks,
                     stats := (stats s)\<lparr>recvMessageCount := recvMessageCount (stats s) + receivedMessageCount\<rparr>\<rparr>
           in if r \<noteq> Inr True then (r, s)
              else if \<not> isKarmaRemained then (Inr True, throttleReceiving cb s)
              else (Inr True, readMessage s))
         (SgpMarshaller_unmarshal ops (messageUnmarshalled cb (isDisconnectReserved s))
            (marshaller s, 0, app s, [])))"

text \<open>The bytes a read delivers are put behind \<open>wr_ptr()\<close> by the operating system.\<close>

definition handle_read ::
    "'c packet_coder_ops \<Rightarrow> ('c, 'a) session_callback \<Rightarrow> nat \<Rightarrow> io_error \<Rightarrow> byte list \<Rightarrow> ('c, 'a) tcp_session \<Rightarrow>
     ((sne_error + unit) \<times> ('c, 'a) tcp_session) option" where
  "handle_read ops cb secs error bytes s =
     (if error = Success then
        map_option (\<lambda>(r, s). case r of
            Inl e \<Rightarrow> (Inl e, s)
          | Inr received \<Rightarrow> (Inr (), if received then s else post Disconnect s))
          (messageBlockReceived ops cb secs (length bytes)
            (s\<lparr>marshaller := (marshaller s)\<lparr>recvBlock :=
                 mb_poke (wr_ptr (recvBlock (marshaller s))) bytes (recvBlock (marshaller s))\<rparr>\<rparr>))
      else Some (Inr (), post Disconnect s))"

definition TcpSessionImpl_timedOut :: "nat \<Rightarrow> ('c, 'a) tcp_session \<Rightarrow> ('c, 'a) tcp_session" where
  "TcpSessionImpl_timedOut act s =
     (if act = 0 then
        if isWritePended s \<or> outputQueue s \<noteq> [] then startDisconnectTimer s
        else post Disconnect s
      else if act = 1 then
        readMessage (s\<lparr>incomingBandwidthLimiter := BandwidthLimit_reset (incomingBandwidthLimiter s)\<rparr>)
      else s)"

definition sessionOpened ::
    "('c, 'a) session_callback \<Rightarrow> ('c, 'a) tcp_session \<Rightarrow> bool \<times> ('c, 'a) tcp_session" where
  "sessionOpened cb s =
     (let s = s\<lparr>stats := (stats s)\<lparr>useCount := useCount (stats s) + 1\<rparr>\<rparr>;
          (connected, coder, a, tasks) = onConnected cb (packetCoder (marshaller s), app s);
          s = s\<lparr>marshaller := (marshaller s)\<lparr>packetCoder := coder\<rparr>, app := a, posted := posted s @ tasks\<rparr>
      in if \<not> connected then (False, post Disconnect s) else (True, readMessage s))"

definition TcpSessionImpl_new ::
    "'c packet_coder_ops \<Rightarrow> session_capacity \<Rightarrow> 'c sgp_marshaller \<Rightarrow> 'a \<Rightarrow> nat \<Rightarrow> ('c, 'a) tcp_session" where
  "TcpSessionImpl_new ops cap m a now =
     TcpSessionImpl_reset ops now
       \<lparr>socketOpen = False, outputQueue = [], isWritePended = False, prevLoggedOutputQueueSize = 0,
        outputMemoryBlocks = [], disconnectTimer = AsioTimer_new,
        incomingBandwidthLimiter = BandwidthLimit_new cap, throttleTimer = AsioTimer_new,
        stats = \<lparr>recvBytes = 0, sentBytes = 0, recvMessageCount = 0, sentMessageCount = 0, useCount = 0\<rparr>,
        maxPendable = maxPendablePacketCount cap, marshaller = m, app = a, posted = [], writing = [],
        reading = 0, abortedWrites = [], abortedReads = 0, wireOut = [], releasedBlocks = []\<rparr>"

section \<open>Runs of a session\<close>

abbreviation disconnect_timer_step :: "('c, 'a) tcp_session \<Rightarrow> ('c, 'a) tcp_session \<Rightarrow> bool" where
  "disconnect_timer_step \<equiv> timer_step disconnectTimer (\<lambda>f s. s\<lparr>disconnectTimer := f (disconnectTimer s)\<rparr>)
     TcpSessionImpl_timedOut"

abbreviation throttle_timer_step :: "('c, 'a) tcp_session \<Rightarrow> ('c, 'a) tcp_session \<Rightarrow> bool" where
  "throttle_timer_step \<equiv> timer_step throttleTimer (\<lambda>f s. s\<lparr>throttleTimer := f (throttleTimer s)\<rparr>)
     TcpSessionImpl_timedOut"

fun handle_write_op :: "io_error \<Rightarrow> write_op \<Rightarrow> ('c, 'a) tcp_session \<Rightarrow> ('c, 'a) tcp_session" where
  "handle_write_op error (Write b) s = handle_write error b s"
| "handle_write_op error GatherWrite s = handle_gather_write error s"

text \<open>The states a session can be in, with the packets that were accepted for sending since the
  connection was opened.  Every method may be called at any time, which posts its task.\<close>

inductive session_run ::
    "'c packet_coder_ops \<Rightarrow> ('c, 'a) session_callback \<Rightarrow> ('c, 'a) tcp_session \<Rightarrow> byte list list \<Rightarrow> bool"
  for ops cb where
  start: "session_run ops cb (TcpSessionImpl_new ops cap m a now) []"
| opened: "session_run ops cb s ps \<Longrightarrow> \<not> socketOpen s \<Longrightarrow>
    session_run ops cb (snd (sessionOpened cb (s\<lparr>socketOpen := True, wireOut := []\<rparr>))) []"
| posts: "session_run ops cb s ps \<Longrightarrow> session_run ops cb (post t s) ps"
| disconnect: "session_run ops cb s ps \<Longrightarrow> posted s = Disconnect # ts \<Longrightarrow>
    session_run ops cb (TcpSessionImpl_disconnect ops cb now (s\<lparr>posted := ts\<rparr>)) ps"
| gracefully: "session_run ops cb s ps \<Longrightarrow> posted s = DisconnectGracefully # ts \<Longrightarrow>
    session_run ops cb (TcpSessionImpl_disconnectGracefully (s\<lparr>posted := ts\<rparr>)) ps"
| send: "session_run ops cb s ps \<Longrightarrow> posted s = SendMessage b mt # ts \<Longrightarrow>
    TcpSessionImpl_sendMessage ops cb b mt (s\<lparr>posted := ts\<rparr>) = (p, s') \<Longrightarrow>
    session_run ops cb s' (ps @ (case p of None \<Rightarrow> [] | Some packet \<Rightarrow> [packet]))"
| written: "session_run ops cb s ps \<Longrightarrow> writing s = w # ws \<Longrightarrow>
    session_run ops cb (handle_write_op ec w (s\<lparr>writing := ws\<rparr>)) ps"
| write_aborted: "session_run ops cb s ps \<Longrightarrow> abortedWrites s = w # ws \<Longrightarrow>
    session_run ops cb (handle_write_op OperationAborted w (s\<lparr>abortedWrites := ws\<rparr>)) ps"
| read: "session_run ops cb s ps \<Longrightarrow> reading s = Suc n \<Longrightarrow>
    length bytes \<le> mb_space (recvBlock (marshaller s)) \<Longrightarrow>
    handle_read ops cb secs ec bytes (s\<lparr>reading := n\<rparr>) = Some (Inr (), s') \<Longrightarrow>
    session_run ops cb s' ps"
| read_aborted: "session_run ops cb s ps \<Longrightarrow> abortedReads s = Suc n \<Longrightarrow>
    handle_read ops cb secs OperationAborted [] (s\<lparr>abortedReads := n\<rparr>) = Some (Inr (), s') \<Longrightarrow>
    session_run ops cb s' ps"
| disconnect_timer: "session_run ops cb s ps \<Longrightarrow> disconnect_timer_step s s' \<Longrightarrow> session_run ops cb s' ps"
| throttle_timer: "session_run ops cb s ps \<Longrightarrow> throttle_timer_step s s' \<Longrightarrow> session_run ops cb s' ps"

section \<open>Writing\<close>

text \<open>What of a session the sending side consists of, and its invariant.\<close>

record write_view =
  v_open :: bool
  v_queue :: "out_block list"
  v_pended :: bool
  v_writing :: "write_op list"
  v_wire :: "byte list"
  v_max :: u16

definition wr_view :: "('c, 'a) tcp_session \<Rightarrow> write_view" where
  "wr_view s = \<lparr>v_open = socketOpen s, v_queue = outputQueue s, v_pended = isWritePended s,
     v_writing = writing s, v_wire = wireOut s, v_max = maxPendable s\<rparr>"

definition wr_inv :: "write_view \<Rightarrow> byte list list \<Rightarrow> bool" where
  "wr_inv v ps \<longleftrightarrow>
     (if v_open v then v_wire v @ packets_of (v_queue v) = concat ps
      else v_queue v = [] \<and> v_writing v = [] \<and> \<not> v_pended v) \<and>
     length (v_writing v) \<le> 1 \<and> (v_writing v \<noteq> [] \<or> v_queue v \<noteq> [] \<longrightarrow> v_pended v) \<and>
     (0 < v_max v \<longrightarrow> length (v_queue v) \<le> unat (v_max v))"

lemma wr_view_frame [simp]:
  "wr_view (s\<lparr>posted := x1\<rparr>) = wr_view s" "wr_view (s\<lparr>app := x2\<rparr>) = wr_view s"
  "wr_view (s\<lparr>marshaller := x3\<rparr>) = wr_view s" "wr_view (s\<lparr>stats := x4\<rparr>) = wr_view s"
  "wr_view (s\<lparr>reading := x5\<rparr>) = wr_view s" "wr_view (s\<lparr>abortedWrites := x6\<rparr>) = wr_view s"
  "wr_view (s\<lparr>abortedReads := x7\<rparr>) = wr_view s" "wr_view (s\<lparr>disconnectTimer := x8\<rparr>) = wr_view s"
  "wr_view (s\<lparr>throttleTimer := x9\<rparr>) = wr_view s" "wr_view (s\<lparr>incomingBandwidthLimiter := x10\<rparr>) = wr_view s"
  "wr_view (s\<lparr>releasedBlocks := x11\<rparr>) = wr_view s" "wr_view (s\<lparr>outputMemoryBlocks := x12\<rparr>) = wr_view s"
  "wr_view (s\<lparr>prevLoggedOutputQueueSize := x13\<rparr>) = wr_view s"
  by (simp_all add: wr_view_def)

lemma wr_view_ops [simp]:
  "wr_view (post t s) = wr_view s" "wr_view (release_block b s) = wr_view s"
  "wr_view (readMessage s) = wr_view s" "wr_view (startDisconnectTimer s) = wr_view s"
  "wr_view (startThrottleTimer s) = wr_view s" "wr_view (throttleReceiving cb s) = wr_view s"
  "wr_view (TcpSessionImpl_disconnectGracefully s) = wr_view s"
  "wr_view (snd (addInboundBandwidth secs n s)) = wr_view s"
  "wr_view (TcpSessionImpl_timedOut act s) = wr_view s"
  "wr_view (snd (checkOutputQueue s)) = wr_view s"
  by (simp_all add: post_def release_block_def readMessage_def startDisconnectTimer_def
      startThrottleTimer_def throttleReceiving_def TcpSessionImpl_disconnectGracefully_def
      addInboundBandwidth_def TcpSessionImpl_timedOut_def checkOutputQueue_def Let_def split_beta)

lemma wr_view_timer:
  assumes "timer_step get upd TcpSessionImpl_timedOut s s'" and "\<And>f s. wr_view (upd f s) = wr_view s"
  shows "wr_view s' = wr_view s"
  using assms(1)
  by cases (simp_all add: assms(2) handle_wait_def AsioTimer_handle_timeout_def
      AsioTimer_handle_repeat_timeout_def Let_def)

lemma wr_view_received:
  "messageBlockReceived ops cb secs n s = Some (r, s') \<Longrightarrow> wr_view s' = wr_view s"
  by (auto simp: messageBlockReceived_def Let_def split_beta split: if_splits)

lemma wr_view_handle_read:
  "handle_read ops cb secs ec bytes s = Some (r, s') \<Longrightarrow> wr_view s' = wr_view s"
proof (cases "ec = Success")
  case True
  let ?m = "messageBlockReceived ops cb secs (length bytes)
      (s\<lparr>marshaller := (marshaller s)\<lparr>recvBlock :=
         mb_poke (wr_ptr (recvBlock (marshaller s))) bytes (recvBlock (marshaller s))\<rparr>\<rparr>)"
  assume h: "handle_read ops cb secs ec bytes s = Some (r, s')"
  then obtain r0 s0 where s0: "?m = Some (r0, s0)"
    using True by (cases ?m) (auto simp: handle_read_def)
  then have "s' = s0 \<or> s' = post Disconnect s0"
    using h True by (cases r0) (auto simp: handle_read_def split: if_splits)
  with wr_view_received [OF s0] show ?thesis by auto
qed (auto simp: handle_read_def)

lemma wr_view_sessionOpened: "wr_view (snd (sessionOpened cb s)) = wr_view s"
  by (simp add: sessionOpened_def Let_def split_beta)

lemma wr_view_write:
  "wr_view (snd (writeMessage b s)) = (wr_view s)\<lparr>v_pended := True,
     v_writing := v_writing (wr_view s) @ [Write b], v_wire := v_wire (wr_view s) @ mb_contents (snd b)\<rparr>"
  by (simp add: writeMessage_def async_write_def wr_view_def)

lemma wr_view_succeeded: "wr_view (writeSucceeded b s) = (wr_view s)\<lparr>v_pended := False\<rparr>"
  by (simp add: writeSucceeded_def wr_view_def)

lemma wr_inv_gatherWrite:
  assumes "wr_inv ((wr_view s)\<lparr>v_pended := True\<rparr>) ps" and "writing s = []" and "socketOpen s"
  shows "wr_inv (wr_view (gatherWrite s)) ps"
proof -
  let ?q = "outputQueue s"
  consider "?q = []" | b where "?q = [b]" | "2 \<le> length ?q"
    by (cases ?q; cases "tl ?q") auto
  then show ?thesis
  proof cases
    case 1
    with assms show ?thesis by (simp add: gatherWrite_def wr_inv_def wr_view_def)
  next
    case 2
    with assms show ?thesis
      by (simp add: gatherWrite_def wr_view_write) (simp add: wr_inv_def wr_view_def packets_of_def)
  next
    case 3
    have "packets_of (take 10 ?q) @ packets_of (drop 10 ?q) = packets_of ?q"
      unfolding packets_of_def concat_append [symmetric] map_append [symmetric] by simp
    moreover from 3 have "?q \<noteq> []" by auto
    ultimately show ?thesis
      using assms 3 by (auto simp: gatherWrite_def wr_inv_def wr_view_def async_write_def Let_def
          maxGatherWriteCount_def)
  qed
qed

lemma wr_view_fold_succeeded:
  "wr_view (fold (\<lambda>b s. release_block (fst b) (if ec = Success then writeSucceeded b s else s)) bs s) =
    (wr_view s)\<lparr>v_pended := (if ec = Success \<and> bs \<noteq> [] then False else isWritePended s)\<rparr>"
  by (induction bs arbitrary: s) (auto simp: wr_view_succeeded wr_view_def release_block_def writeSucceeded_def)

lemma wr_inv_written:
  assumes "wr_inv (wr_view s) ps" and "writing s = w # ws"
  shows "wr_inv (wr_view (handle_write_op ec w (s\<lparr>writing := ws\<rparr>))) ps"
proof -
  from assms have ws: "ws = []" and op: "socketOpen s" and "isWritePended s"
    by (auto simp: wr_inv_def wr_view_def split: if_splits)
  let ?s = "s\<lparr>writing := []\<rparr>"
  have inv: "wr_inv (wr_view ?s) ps" "wr_inv ((wr_view ?s)\<lparr>v_pended := True\<rparr>) ps"
    using assms op \<open>isWritePended s\<close> by (auto simp: wr_inv_def wr_view_def)
  show ?thesis
  proof (cases w)
    case (Write b)
    have "wr_inv ((wr_view (writeSucceeded b ?s))\<lparr>v_pended := True\<rparr>) ps"
      using inv(2) by (simp add: wr_view_succeeded)
    from wr_inv_gatherWrite [OF this] op inv(1) show ?thesis
      by (simp add: Write ws handle_write_def) (simp add: writeSucceeded_def)
  next
    case GatherWrite
    let ?f = "fold (\<lambda>b s. release_block (fst b) (if ec = Success then writeSucceeded b s else s))
      (outputMemoryBlocks s) ?s"
    note v = wr_view_fold_succeeded [of ec "outputMemoryBlocks s" ?s]
    have "writing ?f = []" "socketOpen ?f"
      using arg_cong [OF v, of v_writing] arg_cong [OF v, of v_open] op by (simp_all add: wr_view_def)
    moreover have "wr_inv ((wr_view ?f)\<lparr>v_pended := True\<rparr>) ps"
      using inv(2) by (simp add: v)
    moreover have "wr_inv (wr_view ?f) ps" if "ec \<noteq> Success"
      using inv(1) v that by (simp add: wr_view_def)
    ultimately show ?thesis
      using wr_inv_gatherWrite [of "?f\<lparr>outputMemoryBlocks := []\<rparr>" ps]
      by (cases "ec = Success") (simp_all add: GatherWrite ws handle_gather_write_def Let_def)
  qed
qed

lemma wr_view_fold_release: "wr_view (fold (\<lambda>b. release_block (fst b)) bs s) = wr_view s"
  by (induction bs arbitrary: s) simp_all

lemma wr_view_aborted: "wr_view (handle_write_op OperationAborted w s) = wr_view s"
  by (cases w) (simp_all add: handle_write_def handle_gather_write_def wr_view_fold_release Let_def)

lemma wr_inv_sendMessage:
  assumes "wr_inv (wr_view s) ps" and "TcpSessionImpl_sendMessage ops cb b mt s = (p, s')"
  shows "wr_inv (wr_view s') (ps @ (case p of None \<Rightarrow> [] | Some packet \<Rightarrow> [packet]))"
proof (cases "canSendMessage s")
  case False
  with assms show ?thesis by (auto simp: TcpSessionImpl_sendMessage_def)
next
  case True
  then have op: "socketOpen s" by (simp add: canSendMessage_def)
  obtain ok mb c where m: "SgpMarshaller_marshal ops (snd b) mt (packetCoder (marshaller s)) = (ok, mb, c)"
    by (cases "SgpMarshaller_marshal ops (snd b) mt (packetCoder (marshaller s))") auto
  let ?s = "s\<lparr>marshaller := (marshaller s)\<lparr>packetCoder := c\<rparr>\<rparr>"
  obtain q s1 where q: "checkOutputQueue ?s = (q, s1)" by fastforce
  then have s1: "wr_view s1 = wr_view s" and room: "q \<Longrightarrow> 0 < maxPendable s \<Longrightarrow>
      length (outputQueue s) < unat (maxPendable s)"
    using wr_view_ops(10) [of ?s] by (auto simp: checkOutputQueue_def Let_def split: if_splits)
  consider (no) "\<not> ok" | (full) "ok" "isWritePended s" "\<not> q" | (queued) "ok" "isWritePended s" "q"
    | (now) "ok" "\<not> isWritePended s" by blast
  then show ?thesis
  proof cases
    case no
    with True m assms show ?thesis by (auto simp: TcpSessionImpl_sendMessage_def Let_def)
  next
    case full
    with True m q s1 assms show ?thesis by (auto simp: TcpSessionImpl_sendMessage_def Let_def)
  next
    case queued
    with True m q assms(2) have "p = Some (mb_contents mb)"
      and "wr_view s' = (wr_view s)\<lparr>v_queue := outputQueue s @ [(fst b, mb)]\<rparr>"
      using s1 by (auto simp: TcpSessionImpl_sendMessage_def Let_def, auto simp: wr_view_def)
    with assms(1) op queued room show ?thesis
      by (auto simp: wr_inv_def wr_view_def packets_of_def)
  next
    case now
    with True m assms(2) have "p = Some (mb_contents mb)"
      and "wr_view s' = (wr_view s)\<lparr>v_pended := True, v_writing := writing s @ [Write (fst b, mb)],
        v_wire := wireOut s @ mb_contents mb\<rparr>"
      by (auto simp: TcpSessionImpl_sendMessage_def Let_def wr_view_write, auto simp: wr_view_def)
    with assms(1) op now show ?thesis
      by (auto simp: wr_inv_def wr_view_def packets_of_def)
  qed
qed

lemma wr_inv_disconnect:
  assumes "wr_inv (wr_view s) ps"
  shows "wr_inv (wr_view (TcpSessionImpl_disconnect ops cb now s)) ps"
  using assms
  by (auto simp: TcpSessionImpl_disconnect_def TcpSessionImpl_reset_def flushOutputQueue_def
      close_socket_def Let_def wr_inv_def wr_view_def)

lemma session_run_inv:
  assumes "session_run ops cb s ps"
  shows "wr_inv (wr_view s) ps"
  using assms
proof (induction rule: session_run.induct)
  case (start cap m a now)
  then show ?case
    by (simp add: TcpSessionImpl_new_def TcpSessionImpl_reset_def flushOutputQueue_def close_socket_def
        Let_def wr_inv_def wr_view_def)
next
  case (opened s ps)
  then show ?case
    by (simp add: wr_view_sessionOpened) (simp add: wr_inv_def wr_view_def packets_of_def)
next
  case (written s ps w ws ec)
  then show ?case by (simp add: wr_inv_written)
next
  case (send s ps b mt ts p s')
  then show ?case using wr_inv_sendMessage [of "s\<lparr>posted := ts\<rparr>" ps] by simp
next
  case (disconnect_timer s ps s')
  then show ?case using wr_view_timer by fastforce
next
  case (throttle_timer s ps s')
  then show ?case using wr_view_timer by fastforce
qed (simp_all add: wr_view_aborted wr_inv_disconnect wr_view_handle_read)

section \<open>The queue drains\<close>

text \<open>What happens when the outstanding write completes.\<close>

definition complete_write :: "('c, 'a) tcp_session \<Rightarrow> ('c, 'a) tcp_session" where
  "complete_write s = (case writing s of [] \<Rightarrow> s
     | w # ws \<Rightarrow> handle_write_op Success w (s\<lparr>writing := ws\<rparr>))"

text \<open>A session whose outstanding write is the one it believes to have.\<close>

definition healthy :: "('c, 'a) tcp_session \<Rightarrow> bool" where
  "healthy s \<longleftrightarrow> socketOpen s \<and>
     (if isWritePended s then
        (\<exists>b. writing s = [Write b]) \<or> writing s = [GatherWrite] \<and> outputMemoryBlocks s \<noteq> []
      else writing s = [] \<and> outputQueue s = [])"

lemma queue_cases:
  obtains (none) "q = []" | (one) b where "q = [b]" | (more) "2 \<le> length q" "q \<noteq> []"
  by (cases q; cases "tl q") auto

lemma packets_of_take_drop: "packets_of (take n q) @ packets_of (drop n q) = packets_of q"
  unfolding packets_of_def concat_append [symmetric] map_append [symmetric] by simp

lemmas gather_defs = gatherWrite_def Let_def async_write_def writeMessage_def maxGatherWriteCount_def

lemma gatherWrite_queue:
  "outputQueue (gatherWrite s) = (if length (outputQueue s) < 2 then [] else drop 10 (outputQueue s))"
  by (rule queue_cases [of "outputQueue s"]) (simp_all add: gather_defs)

lemma gatherWrite_wire:
  "wireOut (gatherWrite s) @ packets_of (outputQueue (gatherWrite s)) = wireOut s @ packets_of (outputQueue s)"
  by (rule queue_cases [of "outputQueue s"])
    (simp_all add: gather_defs packets_of_take_drop, simp_all add: packets_of_def)

lemma gatherWrite_pended: "\<not> isWritePended s \<Longrightarrow> isWritePended (gatherWrite s) = (outputQueue s \<noteq> [])"
  by (rule queue_cases [of "outputQueue s"]) (simp_all add: gather_defs)

lemma gatherWrite_healthy:
  "socketOpen s \<Longrightarrow> \<not> isWritePended s \<Longrightarrow> writing s = [] \<Longrightarrow> healthy (gatherWrite s)"
  by (rule queue_cases [of "outputQueue s"]) (simp_all add: gather_defs healthy_def)

lemmas gatherWrite_fields = gatherWrite_queue gatherWrite_wire gatherWrite_pended gatherWrite_healthy

lemma release_block_fields [simp]:
  "socketOpen (release_block b s) = socketOpen s" "outputQueue (release_block b s) = outputQueue s"
  "wireOut (release_block b s) = wireOut s" "writing (release_block b s) = writing s"
  "isWritePended (release_block b s) = isWritePended s"
  "outputMemoryBlocks (release_block b s) = outputMemoryBlocks s"
  "healthy (release_block b s) = healthy s"
  by (simp_all add: release_block_def healthy_def)

text \<open>A completed write is followed by \<open>gatherWrite\<close> on a session that is not writing.\<close>

lemma complete_write_gather:
  assumes "healthy s" and "isWritePended s"
  obtains s1 b where "complete_write s = gatherWrite s1 \<or> complete_write s = release_block b (gatherWrite s1)"
    and "socketOpen s1" and "\<not> isWritePended s1" and "writing s1 = []"
    and "outputQueue s1 = outputQueue s" and "wireOut s1 = wireOut s"
proof -
  consider (w) b where "writing s = [Write b]" | (g) "writing s = [GatherWrite]" "outputMemoryBlocks s \<noteq> []"
    using assms by (auto simp: healthy_def)
  then show thesis
  proof cases
    case w
    then show thesis
      using assms that [of "writeSucceeded b (s\<lparr>writing := []\<rparr>)" "fst b"]
      by (simp add: complete_write_def handle_write_def healthy_def writeSucceeded_def)
  next
    case g
    let ?f = "fold (\<lambda>b s. release_block (fst b) (writeSucceeded b s)) (outputMemoryBlocks s) (s\<lparr>writing := []\<rparr>)"
    note v = wr_view_fold_succeeded [of Success "outputMemoryBlocks s" "s\<lparr>writing := []\<rparr>"]
    have "socketOpen ?f" "\<not> isWritePended ?f" "writing ?f = []" "outputQueue ?f = outputQueue s" "wireOut ?f = wireOut s"
      using v g(2) assms(1) by (simp_all add: wr_view_def healthy_def)
    then show thesis
      using g that [of "?f\<lparr>outputMemoryBlocks := []\<rparr>"]
      by (simp add: complete_write_def handle_gather_write_def Let_def)
  qed
qed

lemma complete_write_fields:
  assumes "healthy s" and "isWritePended s"
  shows "healthy (complete_write s)"
    and "outputQueue (complete_write s) = (if length (outputQueue s) < 2 then [] else drop 10 (outputQueue s))"
    and "wireOut (complete_write s) @ packets_of (outputQueue (complete_write s)) =
      wireOut s @ packets_of (outputQueue s)"
    and "isWritePended (complete_write s) = (outputQueue s \<noteq> [])"
proof -
  obtain s1 b where c: "complete_write s = gatherWrite s1 \<or> complete_write s = release_block b (gatherWrite s1)"
    and s1: "socketOpen s1" "\<not> isWritePended s1" "writing s1 = []"
      "outputQueue s1 = outputQueue s" "wireOut s1 = wireOut s"
    using complete_write_gather [OF assms] by metis
  note g = gatherWrite_fields(1,2) [of s1] gatherWrite_pended [OF s1(2)] gatherWrite_healthy [OF s1(1-3)]
  show "healthy (complete_write s)" using c g(4) by auto
  show "outputQueue (complete_write s) = (if length (outputQueue s) < 2 then [] else drop 10 (outputQueue s))"
    using c g(1) s1(4) by auto
  show "wireOut (complete_write s) @ packets_of (outputQueue (complete_write s)) =
      wireOut s @ packets_of (outputQueue s)" using c g(2) s1(4,5) by auto
  show "isWritePended (complete_write s) = (outputQueue s \<noteq> [])" using c g(3) s1(4) by auto
qed

definition backlog :: "('c, 'a) tcp_session \<Rightarrow> nat" where
  "backlog s = length (outputQueue s) + length (outputQueue s) + of_bool (isWritePended s)"

lemma drains:
  assumes "healthy s"
  shows "\<exists>n. outputQueue ((complete_write ^^ n) s) = [] \<and> writing ((complete_write ^^ n) s) = [] \<and>
    \<not> isWritePended ((complete_write ^^ n) s) \<and>
    wireOut ((complete_write ^^ n) s) = wireOut s @ packets_of (outputQueue s)"
  using assms
proof (induction "backlog s" arbitrary: s rule: less_induct)
  case less
  show ?case
  proof (cases "isWritePended s")
    case False
    with less.prems show ?thesis
      by (intro exI [of _ 0]) (simp add: healthy_def packets_of_def)
  next
    case True
    note c = complete_write_fields [OF less.prems True]
    have "backlog (complete_write s) < backlog s"
      using True by (cases "outputQueue s = []") (auto simp: backlog_def c(2,4))
    from less.hyps [OF this c(1)] obtain n where
      "outputQueue ((complete_write ^^ n) (complete_write s)) = []"
      "writing ((complete_write ^^ n) (complete_write s)) = []"
      "\<not> isWritePended ((complete_write ^^ n) (complete_write s))"
      "wireOut ((complete_write ^^ n) (complete_write s)) = wireOut s @ packets_of (outputQueue s)"
      by (metis c(3))
    then show ?thesis
      by (intro exI [of _ "Suc n"]) (simp add: funpow_swap1)
  qed
qed

section \<open>The timers of a session\<close>

interpretation disconnect_owner: timer_owner disconnectTimer
  "\<lambda>f s. s\<lparr>disconnectTimer := f (disconnectTimer s)\<rparr>"
  by unfold_locales simp_all

interpretation throttle_owner: timer_owner throttleTimer
  "\<lambda>f s. s\<lparr>throttleTimer := f (throttleTimer s)\<rparr>"
  by unfold_locales simp_all

section \<open>Properties\<close>

text \<open>C33: what a session writes.  In every reachable state of an open session the bytes handed to the
  socket followed by the queued packets are the packets accepted by \<open>sendMessage\<close> since the
  connection was opened, in the order of acceptance; at most one write is outstanding, packets
  wait only behind an outstanding write, and the queue respects its limit.\<close>

theorem session_write_order:
  assumes "session_run ops cb s ps" and "socketOpen s"
  shows "wireOut s @ packets_of (outputQueue s) = concat ps \<and> length (writing s) \<le> 1 \<and>
    (outputQueue s \<noteq> [] \<longrightarrow> isWritePended s) \<and>
    (0 < maxPendable s \<longrightarrow> length (outputQueue s) \<le> unat (maxPendable s))"
  using session_run_inv [OF assms(1)] assms(2)
  by (simp_all add: wr_inv_def wr_view_def)

text \<open>A callback that counts the messages sent, and a session with it that has sent one message.\<close>

definition counting_callback :: "('c, nat) session_callback" where
  "counting_callback = \<lparr>onConnected = (\<lambda>(c, a). (True, c, a, [])), onDisconnected = (\<lambda>a. a),
     onMessageTransfered = (\<lambda>_ a. a + 1), onMessageArrived = (\<lambda>_ s. (Inr True, s)),
     onThrottling = (\<lambda>a. a), onRelease = (\<lambda>a. a)\<rparr>"

definition demo_open :: "(unit, nat) tcp_session" where
  "demo_open = snd (sessionOpened counting_callback
     ((TcpSessionImpl_new CsPacketCoder \<lparr>maxBytesPerSecond = 0, secondsForThrottling = 0, maxPendablePacketCount = 4\<rparr>
        (SgpMarshaller_new CsPacketCoder () (mb_new 16) (mb_new 16)) 0 0)\<lparr>socketOpen := True, wireOut := []\<rparr>))"

definition demo_sent :: "byte list option \<times> (unit, nat) tcp_session" where
  "demo_sent = TcpSessionImpl_sendMessage CsPacketCoder counting_callback (7, send_block 3 16 [9]) 21 demo_open"

text \<open>The block of the message once it is marshalled.\<close>

definition demo_block :: memory_block where
  "demo_block = \<lparr>releaser = None, mb_buffer = [1, 0, 21, 9, 0, 0, 0, 0, 0, 0, 0, 0, 0, 0, 0, 0], rd_ptr = 0, wr_ptr = 4\<rparr>"

lemma demo_marshal:
  "SgpMarshaller_marshal CsPacketCoder (send_block 3 16 [9]) 21 () = (True, demo_block, ())"
  "mb_contents demo_block = [1, 0, 21, 9]"
proof -
  have "send_block 3 16 [9] = demo_block\<lparr>mb_buffer := [0, 0, 0, 9, 0, 0, 0, 0, 0, 0, 0, 0, 0, 0, 0, 0]\<rparr>"
    by code_simp
  moreover have "object_bytes (1 :: u16) = [1, 0]"
    by (simp add: object_bytes_u16 bytes_of_def upt_rec)
  ultimately show "SgpMarshaller_marshal CsPacketCoder (send_block 3 16 [9]) 21 () = (True, demo_block, ())"
    by (simp add: SgpMarshaller_marshal_def CsPacketCoder_def PacketCoder_encode_def packet_put_def
        mb_poke_def PacketCoder_isValidPacket_def PacketCoder_getBodySize_def CsPacketHeader_write_def
        CsPacketHeader_isValid_def AbstractPacketHeader_isValid_def message_type_defs mb_query_defs
        CsPacketHeader_getHeaderSize_def AbstractPacketHeader_getHeaderSize_def demo_block_def
        object_bytes_u8)
  show "mb_contents demo_block = [1, 0, 21, 9]"
    by code_simp
qed

lemma demo_open_fields [simp]:
  "socketOpen demo_open" "\<not> isRunning (disconnectTimer demo_open)" "\<not> isWritePended demo_open"
  "posted demo_open = []" "writing demo_open = []" "abortedWrites demo_open = []"
  by (simp_all add: demo_open_def sessionOpened_def counting_callback_def TcpSessionImpl_new_def
      TcpSessionImpl_reset_def flushOutputQueue_def close_socket_def readMessage_def timer_defs Let_def)

lemma demo_sent_eq: "demo_sent = (Some [1, 0, 21, 9],
    demo_open\<lparr>writing := [Write (7, demo_block)], wireOut := wireOut demo_open @ [1, 0, 21, 9],
      isWritePended := True, app := app demo_open + 1\<rparr>)"
  by (simp add: demo_sent_def TcpSessionImpl_sendMessage_def canSendMessage_def demo_marshal
      writeMessage_def async_write_def counting_callback_def component_unit)

lemma demo_sent_run:
  "session_run CsPacketCoder counting_callback (snd demo_sent) [[1, 0, 21, 9]]"
  "socketOpen (snd demo_sent)" "healthy (snd demo_sent)"
proof -
  let ?new = "TcpSessionImpl_new CsPacketCoder
    \<lparr>maxBytesPerSecond = 0, secondsForThrottling = 0, maxPendablePacketCount = 4\<rparr>
    (SgpMarshaller_new CsPacketCoder () (mb_new 16) (mb_new 16)) (0 :: nat) 0"
  have "\<not> socketOpen ?new"
    by (simp add: TcpSessionImpl_new_def TcpSessionImpl_reset_def flushOutputQueue_def close_socket_def Let_def)
  then have "session_run CsPacketCoder counting_callback demo_open []"
    unfolding demo_open_def by (rule session_run.opened [OF session_run.start])
  then have run: "session_run CsPacketCoder counting_callback (post (SendMessage (7, send_block 3 16 [9]) 21) demo_open) []"
    by (rule session_run.posts)
  have "demo_open\<lparr>posted := []\<rparr> = demo_open"
    by simp
  with session_run.send [OF run, of "(7, send_block 3 16 [9])" 21 "[]" "fst demo_sent" "snd demo_sent"]
  show "session_run CsPacketCoder counting_callback (snd demo_sent) [[1, 0, 21, 9]]"
    using demo_sent_eq by (simp add: post_def demo_sent_def)
  show "socketOpen (snd demo_sent)" "healthy (snd demo_sent)"
    by (simp_all add: demo_sent_eq healthy_def)
qed

theorem session_write_order_witness:
  "wireOut (snd demo_sent) @ packets_of (outputQueue (snd demo_sent)) = concat [[1, 0, 21, 9]] \<and>
    length (writing (snd demo_sent)) \<le> 1"
  using session_write_order [OF demo_sent_run(1,2)] by simp

text \<open>C34: the queue of an open session drains: when one write, single or gathered, is outstanding, or nothing is
  queued, then as the outstanding writes complete everything queued is handed to the socket in order
  and the session is idle again.\<close>

theorem session_drains:
  "healthy s \<Longrightarrow> \<exists>n. outputQueue ((complete_write ^^ n) s) = [] \<and> writing ((complete_write ^^ n) s) = [] \<and>
    \<not> isWritePended ((complete_write ^^ n) s) \<and>
    wireOut ((complete_write ^^ n) s) = wireOut s @ packets_of (outputQueue s)"
  by (rule drains)

text \<open>Three messages are queued behind the one that is being written.\<close>

theorem session_drains_witness:
  "\<exists>s n. s = (snd demo_sent)\<lparr>outputQueue := [(8, demo_block), (9, demo_block), (10, demo_block)]\<rparr> \<and>
    outputQueue ((complete_write ^^ n) s) = [] \<and> writing ((complete_write ^^ n) s) = [] \<and>
    wireOut ((complete_write ^^ n) s) = wireOut s @ [1, 0, 21, 9, 1, 0, 21, 9, 1, 0, 21, 9]"
proof -
  let ?s = "(snd demo_sent)\<lparr>outputQueue := [(8, demo_block), (9, demo_block), (10, demo_block)]\<rparr>"
  have "healthy ?s" using demo_sent_run(3) by (simp add: healthy_def demo_sent_eq)
  from session_drains [OF this] obtain n where "outputQueue ((complete_write ^^ n) ?s) = []" "writing ((complete_write ^^ n) ?s) = []"
    "wireOut ((complete_write ^^ n) ?s) = wireOut ?s @ packets_of (outputQueue ?s)" by blast
  moreover have "packets_of (outputQueue ?s) = [1, 0, 21, 9, 1, 0, 21, 9, 1, 0, 21, 9]" by (simp add: packets_of_def demo_marshal(2))
  ultimately show ?thesis by metis
qed

text \<open>C36: a graceful disconnection that has to wait for a write never happens: when its timer fires
  while a write is outstanding the timer is started again from its own callback, which the
  timer then forgets, so that no later step of the timer posts the disconnection.\<close>

theorem graceful_disconnect_forgotten:
  fixes s :: "('c, 'a) tcp_session"
  assumes "isRunning (disconnectTimer s)" and "expired (disconnectTimer s) = [w]" and "\<not> w_repeats w"
    and "w_act w = 0" and "isWritePended s"
  shows "\<exists>s'. disconnect_timer_step s s' \<and> waiting (disconnectTimer s') \<noteq> [] \<and> \<not> isDisconnectReserved s' \<and>
    (\<forall>s''. disconnect_timer_step\<^sup>*\<^sup>* s' s'' \<longrightarrow> posted s'' = posted s \<and> socketOpen s'' = socketOpen s)"
proof -
  let ?t = "AsioTimer_once 500 0 ((disconnectTimer s)\<lparr>expired := [], isRunning := False\<rparr>)"
  let ?s = "s\<lparr>disconnectTimer := ?t\<lparr>isRunning := False\<rparr>\<rparr>"
  have "disconnect_timer_step s ?s"
    using timer_step.run_expired [of disconnectTimer s w "[]"
        "\<lambda>f s. s\<lparr>disconnectTimer := f (disconnectTimer s)\<rparr>" TcpSessionImpl_timedOut] assms
    by (simp add: handle_wait_def AsioTimer_handle_timeout_def TcpSessionImpl_timedOut_def
        startDisconnectTimer_def Let_def)
  moreover have "waiting (disconnectTimer ?s) \<noteq> []" "\<not> isDisconnectReserved ?s"
    by (simp_all add: timer_defs isDisconnectReserved_def)
  moreover have "posted s'' = posted s \<and> socketOpen s'' = socketOpen s" if "disconnect_timer_step\<^sup>*\<^sup>* ?s s''" for s''
    using disconnect_owner.idle_steps [OF that] by auto
  ultimately show ?thesis by blast
qed

theorem graceful_disconnect_forgotten_witness:
  "\<exists>s'. disconnect_timer_step ((snd demo_sent)\<lparr>disconnectTimer := \<lparr>waiting = [],
      expired = [\<lparr>w_repeats = False, w_timeout = 500, w_act = 0\<rparr>], cancelled = [], isRunning = True\<rparr>\<rparr>) s' \<and>
    waiting (disconnectTimer s') \<noteq> [] \<and> \<not> isDisconnectReserved s' \<and>
    (\<forall>s''. disconnect_timer_step\<^sup>*\<^sup>* s' s'' \<longrightarrow>
      posted s'' = posted ((snd demo_sent)\<lparr>disconnectTimer := \<lparr>waiting = [],
        expired = [\<lparr>w_repeats = False, w_timeout = 500, w_act = 0\<rparr>], cancelled = [], isRunning = True\<rparr>\<rparr>) \<and>
      socketOpen s'' = socketOpen ((snd demo_sent)\<lparr>disconnectTimer := \<lparr>waiting = [],
        expired = [\<lparr>w_repeats = False, w_timeout = 500, w_act = 0\<rparr>], cancelled = [], isRunning = True\<rparr>\<rparr>))"
  by (rule graceful_disconnect_forgotten [where w = "\<lparr>w_repeats = False, w_timeout = 500, w_act = 0\<rparr>"])
    (simp_all add: demo_sent_eq)

text \<open>C35: disconnecting during a gathered write loses its blocks: \<open>reset\<close> forgets
  \<open>outputMemoryBlocks_\<close>, and the aborted handler finds nothing to release.  Only the blocks that
  were still queued go back to the pool.\<close>

theorem disconnect_leaks_gathered:
  assumes "socketOpen s" and "\<not> isDisconnectReserved s" and "writing s = [GatherWrite]" and "abortedWrites s = []"
  shows "abortedWrites (TcpSessionImpl_disconnect ops cb now s) = [GatherWrite] \<and>
    outputMemoryBlocks (TcpSessionImpl_disconnect ops cb now s) = [] \<and>
    releasedBlocks (handle_write_op OperationAborted GatherWrite (TcpSessionImpl_disconnect ops cb now s)) =
      releasedBlocks s @ map fst (outputQueue s)"
  using assms
  by (simp_all add: TcpSessionImpl_disconnect_def TcpSessionImpl_reset_def flushOutputQueue_def
      close_socket_def handle_gather_write_def post_def Let_def)

definition demo_gathering :: "(unit, nat) tcp_session" where
  "demo_gathering = (snd demo_sent)\<lparr>writing := [GatherWrite], outputMemoryBlocks := [(7, mb_new 4), (8, mb_new 4)]\<rparr>"

theorem disconnect_leaks_gathered_witness:
  "abortedWrites (TcpSessionImpl_disconnect CsPacketCoder counting_callback 0 demo_gathering) = [GatherWrite] \<and>
    outputMemoryBlocks (TcpSessionImpl_disconnect CsPacketCoder counting_callback 0 demo_gathering) = [] \<and>
    releasedBlocks (handle_write_op OperationAborted GatherWrite
      (TcpSessionImpl_disconnect CsPacketCoder counting_callback 0 demo_gathering)) =
    releasedBlocks demo_gathering @ map fst (outputQueue demo_gathering)"
  by (rule disconnect_leaks_gathered)
    (simp_all add: demo_gathering_def demo_sent_eq isDisconnectReserved_def)

end
