(* ===== verification/Framed_Streams.thy ===== *)
theory Framed_Streams
  imports Sgp_Protocol
begin

text \<open>
  The streams of a session write behind a packet header that is already in the block, and read
  from blocks that may have padding behind the message.  \<open>transports\<close> is what the session relies
  on: a program that writes a message into such a block and a program that reads it, over the
  streams that \<open>SneStreamFactory\<close> (src/core/stream/detail/SneStreamFactory.cpp) creates.  It is
  derived from the contract \<open>stream_codec\<close> for every message of valid fields and for every remote
  call, over bit and over byte streams.
\<close>

section \<open>Streams of a session\<close>

text \<open>What \<open>SessionImpl\<close> uses of its streams: their operations, and \<open>reset(mblock)\<close> of the
  \<open>MemoryBlockStreamBuffer\<close> below them.\<close>

record ('s, 't) stream_factory =
  sf_out :: "'s ostream_ops"
  sf_in :: "'t istream_ops"
  out_reset :: "memory_block \<Rightarrow> 's \<Rightarrow> 's"
  out_block :: "'s \<Rightarrow> memory_block"
  in_reset :: "memory_block \<Rightarrow> 't \<Rightarrow> 't"
  in_block :: "'t \<Rightarrow> memory_block"

text \<open>\<open>SneStreamFactory\<close> with and without bit packing.\<close>

definition SneStreamFactory_bit :: "(memory_block obitstream, memory_block ibitstream) stream_factory" where
  "SneStreamFactory_bit = \<lparr>sf_out = obs_ops mbsb_ops, sf_in = ibs_ops mbsb_ops,
     out_reset = (\<lambda>mb s. s\<lparr>ob_buffer := mb\<rparr>), out_block = ob_buffer,
     in_reset = (\<lambda>mb t. t\<lparr>ib_buffer := mb\<rparr>), in_block = ib_buffer\<rparr>"

definition SneStreamFactory_byte :: "(memory_block obytestream, memory_block ibytestream) stream_factory" where
  "SneStreamFactory_byte = \<lparr>sf_out = oys_ops mbsb_ops, sf_in = iys_ops mbsb_ops,
     out_reset = (\<lambda>mb s. s\<lparr>oy_buffer := mb\<rparr>), out_block = oy_buffer,
     in_reset = (\<lambda>mb t. t\<lparr>iy_buffer := mb\<rparr>), in_block = iy_buffer\<rparr>"

section \<open>The contract\<close>

text \<open>From any block whose unread bytes start with \<open>body\<close> the reader gets \<open>v\<close>.\<close>

definition reads_back :: "('s, 't) stream_factory \<Rightarrow> ('t \<Rightarrow> bool) \<Rightarrow> ('t, 'a) prog \<Rightarrow> 'a \<Rightarrow> byte list \<Rightarrow> bool" where
  "reads_back F iinv r v body \<longleftrightarrow> (\<forall>rb more t. mb_inv rb \<longrightarrow> mb_contents rb = body @ more \<longrightarrow> iinv t \<longrightarrow>
     (\<exists>t'. r (in_reset F rb (snd (is_reset (sf_in F) False t))) = (Inr v, t') \<and> iinv t'))"

definition transports ::
    "('s, 't) stream_factory \<Rightarrow> ('s \<Rightarrow> bool) \<Rightarrow> ('t \<Rightarrow> bool) \<Rightarrow> ('s, unit) prog \<Rightarrow> ('t, 'a) prog \<Rightarrow> 'a \<Rightarrow> bool" where
  "transports F oinv iinv w r v \<longleftrightarrow> (\<forall>mb hdr s. carries mb hdr \<longrightarrow> oinv s \<longrightarrow>
     (\<exists>s' body. bind w (\<lambda>_. os_align (sf_out F)) (out_reset F mb (snd (os_reset (sf_out F) False s))) = (Inr (), s') \<and>
        carries (out_block F s') (hdr @ body) \<and> oinv s' \<and> reads_back F iinv r v body))"

lemma transportsD:
  assumes "transports F oinv iinv w r v" and "carries mb hdr" and "oinv s"
  obtains s1 s' body where "w (out_reset F mb (snd (os_reset (sf_out F) False s))) = (Inr (), s1)"
    and "os_align (sf_out F) s1 = (Inr (), s')"
    and "carries (out_block F s') (hdr @ body)" and "oinv s'" and "reads_back F iinv r v body"
proof -
  obtain s' body where s': "bind w (\<lambda>_. os_align (sf_out F)) (out_reset F mb (snd (os_reset (sf_out F) False s))) =
      (Inr (), s')" "carries (out_block F s') (hdr @ body)" "oinv s'" "reads_back F iinv r v body"
    using assms unfolding transports_def by blast
  from s'(1) obtain u s1 where "w (out_reset F mb (snd (os_reset (sf_out F) False s))) = (Inr u, s1)"
    "os_align (sf_out F) s1 = (Inr (), s')" by (auto elim!: bind_InrE)
  with that [of s1 s' body] s' show ?thesis by simp
qed

locale session_streams =
  fixes F :: "('s, 't) stream_factory" and oinv :: "'s \<Rightarrow> bool" and iinv :: "'t \<Rightarrow> bool" and empty_ok :: bool
  assumes reset_runs: "fst (os_reset (sf_out F) False s) = Inr ()" "fst (is_reset (sf_in F) False t) = Inr ()"
    and transport_list: "valid_list empty_ok TList vs \<Longrightarrow>
      transports F oinv iinv (stream_out_list (sf_out F) TList vs) (stream_in_list (sf_in F) g TList) vs"
    and transport_call: "valid_list empty_ok TList vs \<Longrightarrow>
      transports F oinv iinv (RpcCommand_marshal (sf_out F) rpcId TList vs) (read_call (sf_in F) g TList) (rpcId, vs)"

section \<open>Writing leaves the front of a block alone\<close>

text \<open>The output streams never read from their block.  Over a buffer that writes like
  \<open>MemoryBlockStreamBuffer\<close> but moves the bytes to the front after every read, they do the same,
  and there the reading position is always zero.\<close>

definition flat :: "byte list \<Rightarrow> memory_block \<Rightarrow> memory_block" where
  "flat bs mb = mb\<lparr>mb_buffer := bs, rd_ptr := 0, wr_ptr := length bs\<rparr>"

definition flat_ops :: "memory_block stream_buffer_ops" where
  "flat_ops = mbsb_ops\<lparr>sb_pop := (\<lambda>mb. (Inr (), flat (tl (mb_contents mb)) mb)),
     sb_copyTo := (\<lambda>n mb. if n \<le> length (mb_contents mb)
       then (Inr (take n (mb_contents mb)), flat (drop n (mb_contents mb)) mb)
       else (Inl (StreamingException ''''), mb))\<rparr>"

definition mb_inv0 :: "memory_block \<Rightarrow> bool" where
  "mb_inv0 mb \<longleftrightarrow> mb_inv mb \<and> rd_ptr mb = 0"

lemma flat_props: "mb_inv (flat bs mb)" "rd_ptr (flat bs mb) = 0" "mb_contents (flat bs mb) = bs"
  by (simp_all add: flat_def mb_query_defs)

lemma flat_writes: "sb_push flat_ops = sb_push mbsb_ops" "sb_copyFrom flat_ops = sb_copyFrom mbsb_ops"
  "sb_back flat_ops = sb_back mbsb_ops" "sb_set_back flat_ops = sb_set_back mbsb_ops"
  "sb_reset flat_ops = sb_reset mbsb_ops" "sb_size flat_ops = sb_size mbsb_ops"
  "sb_empty flat_ops = sb_empty mbsb_ops"
  by (simp_all add: flat_ops_def)

lemma rd_ptr_props: "rd_ptr (snd (mbsb_set_back x mb)) = rd_ptr mb" "rd_ptr (mb_reset mb) = 0"
  by (simp_all add: mbsb_set_back_def mb_reset_def prog_simps)

interpretation flat: growing_stream_buffer flat_ops mb_inv0 mb_contents
  by unfold_locales
    (simp_all add: flat_ops_def mbsb_ops_def mbsb_push_def mbsb_copyFrom_def mb_copyFrom_props
      mbsb_front_props mbsb_back_props mbsb_reset_def mbsb_size_def mbsb_empty_def modify_def
      flat_props mb_inv0_def rd_ptr_props flip: length_0_conv)

lemma writeBits_loop_flat: "writeBits_loop flat_ops v n = writeBits_loop mbsb_ops v n"
proof (induction n arbitrary: v rule: less_induct)
  case (less n)
  then show ?case
    by (subst (1 2) writeBits_loop.simps) (simp add: flat_writes cong: if_cong)
qed

lemma writeBitsImpl_flat: "writeBitsImpl flat_ops = writeBitsImpl mbsb_ops"
  by (intro ext) (unfold writeBitsImpl_def flat_writes writeBits_loop_flat, rule refl)

lemma obs_ops_flat: "obs_ops flat_ops = obs_ops mbsb_ops"
  by (unfold obs_ops_def obs_str_def [abs_def] obs_wstr_def [abs_def] obs_writeRaw_def [abs_def] obs_align_def
      obs_reset_def [abs_def] obs_getTotalSize_def [abs_def] writeBitsImpl_flat flat_writes, rule refl)

lemma oys_ops_flat: "oys_ops flat_ops = oys_ops mbsb_ops"
  by (unfold oys_ops_def oys_str_def [abs_def] oys_wstr_def [abs_def] oys_writeStringLength_def [abs_def]
      oys_enum_def [abs_def] oys_writeNumeric_def [abs_def] oys_writeBytes_def [abs_def] oys_writeByte_def [abs_def]
      oys_reset_def [abs_def] flat_writes, rule refl)

interpretation flat_bits: stream_codec "obs_ops mbsb_ops" "ibs_ops flat_ops"
  "obs_at mb_inv0 mb_contents u" "ibs_at mb_inv0 mb_contents u" False for u
  using flat.bit_stream_codec unfolding obs_ops_flat .

interpretation flat_bytes: stream_codec "oys_ops mbsb_ops" "iys_ops flat_ops"
  "oys_at mb_inv0 mb_contents u" "iys_at mb_inv0 mb_contents u" True for u
  using flat.byte_stream_codec unfolding oys_ops_flat .

section \<open>Bit streams\<close>

definition obs_idle :: "bool \<Rightarrow> memory_block obitstream \<Rightarrow> bool" where
  "obs_idle u s \<longleftrightarrow> holdingBitCount s = 0 \<and> ob_useUtf8 s = u"

definition ibs_idle :: "bool \<Rightarrow> memory_block ibitstream \<Rightarrow> bool" where
  "ibs_idle u t \<longleftrightarrow> ib_useUtf8 t = u"

lemma bits_split:
  assumes "bits_of_bytes xs = bits_of_bytes hdr @ ds"
  obtains body where "xs = hdr @ body" and "bits_of_bytes body = ds"
proof -
  have "bits_of_bytes (take (length hdr) xs) = bits_of_bytes hdr"
    "bits_of_bytes (drop (length hdr) xs) = ds"
    using assms by (simp_all flip: take_bits_of_bytes drop_bits_of_bytes)
  with that [of "drop (length hdr) xs"] show ?thesis
    by (metis append_take_drop_id bits_of_bytes_inject)
qed

lemma transports_bits:
  assumes plain: "codes (obs_at mb_inv mb_contents u) (ibs_at mb_inv mb_contents u) w r v"
    and front: "codes (obs_at mb_inv0 mb_contents u) (ibs_at mb_inv0 mb_contents u) w r' v"
  shows "transports SneStreamFactory_bit (obs_idle u) (ibs_idle u) w r v"
  unfolding transports_def reads_back_def
proof (intro allI impI)
  fix mb hdr s
  assume mb: "carries mb hdr" and idle: "obs_idle u s"
  let ?s = "s\<lparr>totalBitCount := 0, ob_buffer := mb\<rparr>"
  obtain enc where wr: "\<And>s ds. obs_at mb_inv mb_contents u s ds \<Longrightarrow> \<exists>s'. w s = (Inr (), s') \<and>
      obs_at mb_inv mb_contents u s' (ds @ enc (length ds))"
    and rd: "\<And>t p ds. ibs_at mb_inv mb_contents u t p (enc p @ ds) \<Longrightarrow> \<exists>t'. r t = (Inr v, t') \<and>
      ibs_at mb_inv mb_contents u t' (p + length (enc p)) ds"
    using plain unfolding codes_def by blast
  obtain enc0 where wr0: "\<And>s ds. obs_at mb_inv0 mb_contents u s ds \<Longrightarrow> \<exists>s'. w s = (Inr (), s') \<and>
      obs_at mb_inv0 mb_contents u s' (ds @ enc0 (length ds))"
    using front unfolding codes_def by blast
  have at: "obs_at mb_inv mb_contents u ?s (bits_of_bytes hdr)" "obs_at mb_inv0 mb_contents u ?s (bits_of_bytes hdr)"
    using mb idle by (simp_all add: obs_at_def obs_rel_def obs_idle_def carries_iff mb_inv0_def)
  define E where "E = enc (8 * length hdr)"
  obtain s1 where s1: "w ?s = (Inr (), s1)" "obs_at mb_inv mb_contents u s1 (bits_of_bytes hdr @ E)"
    using wr [OF at(1)] by (auto simp: E_def)
  obtain s2 where s2: "obs_align mbsb_ops s1 = (Inr (), s2)" "obs_at mb_inv mb_contents u s2
      (bits_of_bytes hdr @ E @ replicate (pad_count (length (bits_of_bytes hdr @ E))) False)"
    using mbsb.obs_align_run [OF s1(2)] by auto
  obtain D where "obs_at mb_inv0 mb_contents u s1 D" using wr0 [OF at(2)] s1(1) by auto
  then have rd0: "rd_ptr (ob_buffer s2) = 0"
    using flat.obs_align_run [of u s1 D] s2(1) obs_ops_flat
    by (auto simp: obs_ops_def obs_at_def obs_rel_def mb_inv0_def)
  let ?pad = "replicate (pad_count (length (bits_of_bytes hdr @ E))) False"
  have hold: "holdingBitCount s2 = 0" "ob_useUtf8 s2 = u" "mb_inv (ob_buffer s2)"
    and "bits_of_bytes (mb_contents (ob_buffer s2)) = bits_of_bytes hdr @ E @ ?pad"
    using s2(2) by (simp_all add: obs_at_def obs_rel_def flip: byte_count_bits)
  then obtain body where body: "mb_contents (ob_buffer s2) = hdr @ body" "bits_of_bytes body = E @ ?pad"
    by (auto elim: bits_split)
  have "\<exists>t'. r (t\<lparr>bitReadCount := 0, ib_buffer := rb\<rparr>) = (Inr v, t') \<and> ibs_idle u t'"
    if "mb_inv rb" "mb_contents rb = body @ more" "ibs_idle u t" for rb more t
  proof -
    have "ibs_at mb_inv mb_contents u (t\<lparr>bitReadCount := 0, ib_buffer := rb\<rparr>) (8 * length hdr)
        (enc (8 * length hdr) @ ?pad @ bits_of_bytes more)"
      using that body(2) by (simp add: ibs_at_def ibs_inv_def ibs_bits_def ibs_idle_def bits_simps E_def)
    from rd [OF this] show ?thesis by (auto simp: ibs_at_def ibs_idle_def)
  qed
  then show "\<exists>s' body. bind w (\<lambda>_. os_align (sf_out SneStreamFactory_bit))
        (out_reset SneStreamFactory_bit mb (snd (os_reset (sf_out SneStreamFactory_bit) False s))) = (Inr (), s') \<and>
      carries (out_block SneStreamFactory_bit s') (hdr @ body) \<and> obs_idle u s' \<and>
      (\<forall>rb more t. mb_inv rb \<longrightarrow> mb_contents rb = body @ more \<longrightarrow> ibs_idle u t \<longrightarrow>
        (\<exists>t'. r (in_reset SneStreamFactory_bit rb (snd (is_reset (sf_in SneStreamFactory_bit) False t))) =
          (Inr v, t') \<and> ibs_idle u t'))"
    using s1(1) s2(1) hold rd0 body(1)
    by (intro exI [of _ s2] exI [of _ body])
      (simp add: SneStreamFactory_bit_def obs_ops_def ibs_ops_def obs_reset_def ibs_reset_def prog_simps
        bind_run [where x = "()"] carries_iff obs_idle_def)
qed

interpretation bit_streams: session_streams SneStreamFactory_bit "obs_idle u" "ibs_idle u" False for u
proof (unfold_locales, goal_cases)
  case (3 TList vs g)
  then show ?case
    using transports_bits [OF block_bits.stream_list_roundtrip flat_bits.stream_list_roundtrip]
      block_bits.stream_roundtrip flat_bits.stream_roundtrip
    by (simp add: SneStreamFactory_bit_def)
next
  case (4 TList vs rpcId g)
  from transports_bits [OF block_bits.codes_RpcCommand flat_bits.codes_RpcCommand, OF this this]
  show ?case by (simp add: SneStreamFactory_bit_def)
qed (simp_all add: SneStreamFactory_bit_def obs_ops_def ibs_ops_def obs_reset_def ibs_reset_def prog_simps)

section \<open>Byte streams\<close>

definition oys_idle :: "bool \<Rightarrow> memory_block obytestream \<Rightarrow> bool" where
  "oys_idle u s \<longleftrightarrow> oy_useUtf8 s = u"

definition iys_idle :: "bool \<Rightarrow> memory_block ibytestream \<Rightarrow> bool" where
  "iys_idle u t \<longleftrightarrow> iy_useUtf8 t = u"

lemma transports_bytes:
  assumes plain: "codes (oys_at mb_inv mb_contents u) (iys_at mb_inv mb_contents u) w r v"
    and front: "codes (oys_at mb_inv0 mb_contents u) (iys_at mb_inv0 mb_contents u) w r' v"
  shows "transports SneStreamFactory_byte (oys_idle u) (iys_idle u) w r v"
  unfolding transports_def reads_back_def
proof (intro allI impI)
  fix mb hdr s
  assume mb: "carries mb hdr" and idle: "oys_idle u s"
  let ?s = "s\<lparr>oy_buffer := mb\<rparr>"
  obtain enc where wr: "\<And>s ds. oys_at mb_inv mb_contents u s ds \<Longrightarrow> \<exists>s'. w s = (Inr (), s') \<and>
      oys_at mb_inv mb_contents u s' (ds @ enc (length ds))"
    and rd: "\<And>t p ds. iys_at mb_inv mb_contents u t p (enc p @ ds) \<Longrightarrow> \<exists>t'. r t = (Inr v, t') \<and>
      iys_at mb_inv mb_contents u t' (p + length (enc p)) ds"
    using plain unfolding codes_def by blast
  obtain enc0 where wr0: "\<And>s ds. oys_at mb_inv0 mb_contents u s ds \<Longrightarrow> \<exists>s'. w s = (Inr (), s') \<and>
      oys_at mb_inv0 mb_contents u s' (ds @ enc0 (length ds))"
    using front unfolding codes_def by blast
  have at: "oys_at mb_inv mb_contents u ?s hdr" "oys_at mb_inv0 mb_contents u ?s hdr"
    using mb idle by (simp_all add: oys_at_def oys_idle_def carries_iff mb_inv0_def)
  obtain s1 where s1: "w ?s = (Inr (), s1)" "oys_at mb_inv mb_contents u s1 (hdr @ enc (length hdr))"
    using wr [OF at(1)] by auto
  have rd0: "rd_ptr (oy_buffer s1) = 0"
    using wr0 [OF at(2)] s1(1) by (auto simp: oys_at_def mb_inv0_def)
  have "\<exists>t'. r (t\<lparr>iy_buffer := rb\<rparr>) = (Inr v, t') \<and> iys_idle u t'"
    if "mb_inv rb" "mb_contents rb = enc (length hdr) @ more" "iys_idle u t" for rb more t
    using rd [of "t\<lparr>iy_buffer := rb\<rparr>" "length hdr" more] that
    by (auto simp: iys_at_def iys_idle_def)
  then show "\<exists>s' body. bind w (\<lambda>_. os_align (sf_out SneStreamFactory_byte))
        (out_reset SneStreamFactory_byte mb (snd (os_reset (sf_out SneStreamFactory_byte) False s))) = (Inr (), s') \<and>
      carries (out_block SneStreamFactory_byte s') (hdr @ body) \<and> oys_idle u s' \<and>
      (\<forall>rb more t. mb_inv rb \<longrightarrow> mb_contents rb = body @ more \<longrightarrow> iys_idle u t \<longrightarrow>
        (\<exists>t'. r (in_reset SneStreamFactory_byte rb (snd (is_reset (sf_in SneStreamFactory_byte) False t))) =
          (Inr v, t') \<and> iys_idle u t'))"
    using s1 rd0
    by (intro exI [of _ s1] exI [of _ "enc (length hdr)"])
      (simp add: SneStreamFactory_byte_def oys_ops_def iys_ops_def oys_reset_def iys_reset_def prog_simps
        bind_run [where x = "()"] carries_iff oys_idle_def oys_at_def)
qed

interpretation byte_streams: session_streams SneStreamFactory_byte "oys_idle u" "iys_idle u" True for u
proof (unfold_locales, goal_cases)
  case (3 TList vs g)
  then show ?case
    using transports_bytes [OF block_bytes.stream_list_roundtrip flat_bytes.stream_list_roundtrip]
      block_bytes.stream_roundtrip flat_bytes.stream_roundtrip
    by (simp add: SneStreamFactory_byte_def)
next
  case (4 TList vs rpcId g)
  from transports_bytes [OF block_bytes.codes_RpcCommand flat_bytes.codes_RpcCommand, OF this this]
  show ?case by (simp add: SneStreamFactory_byte_def)
qed (simp_all add: SneStreamFactory_byte_def oys_ops_def iys_ops_def oys_reset_def iys_reset_def prog_simps)

end
