(* ===== verification/Session_Layer.thy ===== *)
theory Session_Layer
  imports Tcp_Session Framed_Streams
begin

text \<open>
  The session above the connection (src/base/session/detail/SessionImpl.cpp, Session.cpp) and its
  two extensions: \<open>MessagingExtension\<close>, which sends and dispatches typed messages, and
  \<open>RpcingExtension\<close>, which carries remote calls.  The state is what these classes share: the
  packet coder, the two streams of the session with the block each works on, the block manager
  of the marshaller, the tasks posted to the I/O context, the receivers of the RPC network and
  the object that owns the session.  A message goes out as a block that is taken from the
  manager, written by the output stream behind the reserved header and posted to
  \<open>TcpSessionImpl\<close>; it comes in through \<open>SgpMarshaller_unmarshal\<close>, whose callback offers it to the
  extensions one after the other.  The main fact joins all layers below: a remote call made on
  one endpoint runs at the other, however the network cuts the bytes.
\<close>

section \<open>SessionImpl\<close>

text \<open>\<open>blockManager\<close> and \<open>messageBlock\<close> are the addresses of the marshaller's block manager and
  of its message block.\<close>

record ('c, 's, 't, 'u) session_impl =
  coder :: 'c
  ostream :: 's
  istream :: 't
  blockManager :: nat
  messageBlock :: nat
  blocks :: "block_heap \<times> memory_pool"
  tasks :: "task list"
  rpcNetwork :: "nat list"
  receivers :: "nat \<Rightarrow> rpc_receiver"
  owner :: 'u

type_synonym ('c, 's, 't, 'u, 'a) session_prog = "(('c, 's, 't, 'u) session_impl, 'a) prog"

definition post_task :: "task \<Rightarrow> ('c, 's, 't, 'u, unit) session_prog" where
  "post_task t = modify (\<lambda>s. s\<lparr>tasks := tasks s @ [t]\<rparr>)"

definition on_blocks :: "(block_heap \<times> memory_pool, 'a) prog \<Rightarrow> ('c, 's, 't, 'u, 'a) session_prog" where
  "on_blocks = zoom blocks (\<lambda>hp s. s\<lparr>blocks := hp\<rparr>)"

definition on_ostream :: "('s, 'a) prog \<Rightarrow> ('c, 's, 't, 'u, 'a) session_prog" where
  "on_ostream = zoom ostream (\<lambda>os s. s\<lparr>ostream := os\<rparr>)"

definition on_session_istream :: "('t, 'a) prog \<Rightarrow> ('c, 's, 't, 'u, 'a) session_prog" where
  "on_session_istream = zoom istream (\<lambda>t s. s\<lparr>istream := t\<rparr>)"

text \<open>\<open>try { p } catch (const core::Exception&) { h }\<close>.\<close>

definition catch_core :: "('s, 'a) prog \<Rightarrow> ('s, 'a) prog \<Rightarrow> ('s, 'a) prog" where
  "catch_core p h s = (case p s of
     (Inl e, s') \<Rightarrow> if is_core_exception e then h s' else (Inl e, s')
   | (Inr x, s') \<Rightarrow> (Inr x, s'))"

text \<open>A block that the stream has written to, as the heap holds it.\<close>

definition store_block :: "nat \<Rightarrow> memory_block \<Rightarrow> ('c, 's, 't, 'u, unit) session_prog" where
  "store_block p mb = modify (\<lambda>s. s\<lparr>blocks := ((fst (blocks s))\<lparr>bh_blocks := (bh_blocks (fst (blocks s)))(p \<mapsto> mb)\<rparr>,
     snd (blocks s))\<rparr>)"

definition block_at :: "nat \<Rightarrow> ('c, 's, 't, 'u) session_impl \<Rightarrow> memory_block" where
  "block_at p s = the (bh_blocks (fst (blocks s)) p)"

definition release_at :: "nat \<Rightarrow> ('c, 's, 't, 'u, unit) session_prog" where
  "release_at p = modify (\<lambda>s. s\<lparr>blocks := MemoryBlockManager_release p (blocks s)\<rparr>)"

definition acquireSendBlock :: "'c packet_coder_ops \<Rightarrow> ('c, 's, 't, 'u, nat) session_prog" where
  "acquireSendBlock ops = bind (gets id) (\<lambda>s.
     on_blocks (SgpMarshaller_acquireSendBlock ops (coder s) (blockManager s)))"

text \<open>The overload that copies a buffer, and the one that streams an object; \<open>w\<close> is the object's
  \<open>serialize\<close>.\<close>

definition SessionImpl_serialize_buffer ::
    "'c packet_coder_ops \<Rightarrow> byte list \<Rightarrow> ('c, 's, 't, 'u, nat) session_prog" where
  "SessionImpl_serialize_buffer ops buffer =
     bind (acquireSendBlock ops) (\<lambda>p.
     bind (gets (block_at p)) (\<lambda>mb.
     bind (store_block p (mb_copyFrom buffer mb)) (\<lambda>_.
     ret p)))"

definition SessionImpl_serialize ::
    "'c packet_coder_ops \<Rightarrow> ('s, 't) stream_factory \<Rightarrow> ('s, unit) prog \<Rightarrow>
     ('c, 's, 't, 'u, nat option) session_prog" where
  "SessionImpl_serialize ops F w =
     bind (acquireSendBlock ops) (\<lambda>p.
     bind (gets (block_at p)) (\<lambda>mb.
     bind (on_ostream (os_reset (sf_out F) False)) (\<lambda>_.
     bind (on_ostream (modify (out_reset F mb))) (\<lambda>_.
     catch_core
       (bind (on_ostream w) (\<lambda>_.
        bind (on_ostream (os_align (sf_out F))) (\<lambda>_.
        bind (gets (\<lambda>s. out_block F (ostream s))) (\<lambda>mb.
        bind (store_block p mb) (\<lambda>_.
        ret (Some p))))))
       (bind (release_at p) (\<lambda>_.
        bind (post_task Disconnect) (\<lambda>_.
        ret None)))))))"

definition SessionImpl_deserialize ::
    "('s, 't) stream_factory \<Rightarrow> memory_block \<Rightarrow> ('c, 's, 't, 'u, unit) session_prog" where
  "SessionImpl_deserialize F mb =
     bind (on_session_istream (is_reset (sf_in F) False)) (\<lambda>_.
     on_session_istream (modify (in_reset F mb)))"

text \<open>\<open>TcpSessionImpl::sendMessage\<close> posts its work.\<close>

definition SessionImpl_sendMessage :: "nat \<Rightarrow> message_type \<Rightarrow> ('c, 's, 't, 'u, unit) session_prog" where
  "SessionImpl_sendMessage p mt = bind (gets (block_at p)) (\<lambda>mb. post_task (SendMessage (p, mb) mt))"

definition SessionImpl_disconnect :: "('c, 's, 't, 'u, unit) session_prog" where
  "SessionImpl_disconnect = post_task Disconnect"

definition SessionImpl_disconnectGracefully :: "('c, 's, 't, 'u, unit) session_prog" where
  "SessionImpl_disconnectGracefully = post_task DisconnectGracefully"

definition Session_sendMessage ::
    "'c packet_coder_ops \<Rightarrow> byte list \<Rightarrow> message_type \<Rightarrow> ('c, 's, 't, 'u, unit) session_prog" where
  "Session_sendMessage ops buffer mt =
     bind (SessionImpl_serialize_buffer ops buffer) (\<lambda>p. SessionImpl_sendMessage p mt)"

text \<open>An extension's \<open>handleMessage\<close> gets the message block and hands it back, read as far as it
  was read.  The order of \<open>extensionMap_\<close> is that of the list.\<close>

type_synonym ('c, 's, 't, 'u) extension =
  "message_type \<Rightarrow> memory_block \<Rightarrow> ('c, 's, 't, 'u, bool \<times> memory_block) session_prog"

fun SessionImpl_handleMessage :: "('c, 's, 't, 'u) extension list \<Rightarrow> ('c, 's, 't, 'u) extension" where
  "SessionImpl_handleMessage [] mt mb = ret (False, mb)"
| "SessionImpl_handleMessage (extension # extensionMap) mt mb =
     bind (extension mt mb) (\<lambda>(handled, mb).
     if handled then ret (True, mb) else SessionImpl_handleMessage extensionMap mt mb)"

definition Session_onMessageArrived :: "('c, 's, 't, 'u) extension list \<Rightarrow> ('c, 's, 't, 'u) extension" where
  "Session_onMessageArrived extensionMap mt mb = SessionImpl_handleMessage extensionMap mt mb"

section \<open>MessagingExtension\<close>

text \<open>A callback: the fields of the message and the member function that gets the message.\<close>

type_synonym ('c, 's, 't, 'u) message_callbacks =
  "(message_type \<times> rpc_type list \<times> (rpc_value list \<Rightarrow> ('c, 's, 't, 'u, unit) session_prog)) list"

definition registerMessageCallback ::
    "message_type \<Rightarrow> rpc_type list \<Rightarrow> (rpc_value list \<Rightarrow> ('c, 's, 't, 'u, unit) session_prog) \<Rightarrow>
     ('c, 's, 't, 'u) message_callbacks \<Rightarrow> ('c, 's, 't, 'u) message_callbacks" where
  "registerMessageCallback mt TList func m = (if map_of m mt = None then m @ [(mt, TList, func)] else m)"

definition MessagingExtension_sendMessage ::
    "'c packet_coder_ops \<Rightarrow> ('s, 't) stream_factory \<Rightarrow> message_type \<Rightarrow> rpc_type list \<Rightarrow> rpc_value list \<Rightarrow>
     ('c, 's, 't, 'u, unit) session_prog" where
  "MessagingExtension_sendMessage ops F mt TList vs =
     bind (SessionImpl_serialize ops F (stream_out_list (sf_out F) TList vs)) (\<lambda>mblock.
     case mblock of None \<Rightarrow> skip | Some p \<Rightarrow> SessionImpl_sendMessage p mt)"

text \<open>When reading fails the message block itself is released, and the connection closed.\<close>

definition MessagingExtension_handleMessage ::
    "('s, 't) stream_factory \<Rightarrow> u64 \<Rightarrow> ('c, 's, 't, 'u) message_callbacks \<Rightarrow> ('c, 's, 't, 'u) extension" where
  "MessagingExtension_handleMessage F g messageCallbackMap mt mb =
     (case map_of messageCallbackMap mt of
        None \<Rightarrow> ret (False, mb)
      | Some (TList, func) \<Rightarrow>
          bind (SessionImpl_deserialize F mb) (\<lambda>_.
          bind (catch_core
                 (bind (on_session_istream (stream_in_list (sf_in F) g TList)) (\<lambda>vs. ret (Some vs)))
                 (bind (gets messageBlock) (\<lambda>p.
                  bind (release_at p) (\<lambda>_.
                  bind SessionImpl_disconnect (\<lambda>_.
                  ret None))))) (\<lambda>message.
          case message of
            None \<Rightarrow> bind (gets (\<lambda>s. in_block F (istream s))) (\<lambda>mb. ret (False, mb))
          | Some vs \<Rightarrow>
              bind (func vs) (\<lambda>_.
              bind (gets (\<lambda>s. in_block F (istream s))) (\<lambda>mb.
              ret (True, mb))))))"

section \<open>RpcingExtension\<close>

text \<open>\<open>SgpRpcNetwork\<close>.  The functions of the receivers are the application's; they work on the
  session.\<close>

type_synonym ('c, 's, 't, 'u) rpc_functions = "nat \<Rightarrow> u32 \<Rightarrow> rpc_value list \<Rightarrow> ('c, 's, 't, 'u, unit) session_prog"

definition on_rpc_world ::
    "(('t, ('c, 's, 't, 'u) session_impl) rpc_world, 'a) prog \<Rightarrow> ('c, 's, 't, 'u, 'a) session_prog" where
  "on_rpc_world p s =
     (case p \<lparr>rw_istream = istream s, rw_app = s, rw_receivers = receivers s\<rparr> of
        (r, w) \<Rightarrow> (r, (rw_app w)\<lparr>istream := rw_istream w, receivers := rw_receivers w\<rparr>))"

definition SgpRpcNetwork_handleMessage ::
    "('s, 't) stream_factory \<Rightarrow> u64 \<Rightarrow> ('c, 's, 't, 'u) rpc_functions \<Rightarrow> memory_block \<Rightarrow>
     ('c, 's, 't, 'u, bool \<times> memory_block) session_prog" where
  "SgpRpcNetwork_handleMessage F g call mb =
     bind (SessionImpl_deserialize F mb) (\<lambda>_.
     bind (gets rpcNetwork) (\<lambda>net.
     bind (on_rpc_world (RpcNetwork_onReceive (sf_in F) g call net)) (\<lambda>_.
     bind (gets (\<lambda>s. in_block F (istream s))) (\<lambda>mb.
     ret (True, mb)))))"

definition SgpRpcNetwork_send ::
    "'c packet_coder_ops \<Rightarrow> ('s, 't) stream_factory \<Rightarrow> u32 \<Rightarrow> rpc_type list \<Rightarrow> rpc_value list \<Rightarrow>
     ('c, 's, 't, 'u, unit) session_prog" where
  "SgpRpcNetwork_send ops F rpcId TList ps =
     bind (SessionImpl_serialize ops F (RpcCommand_marshal (sf_out F) rpcId TList ps)) (\<lambda>mblock.
     case mblock of None \<Rightarrow> skip | Some p \<Rightarrow> SessionImpl_sendMessage p csmtRpc)"

definition RpcingExtension_registerRpcReceiver :: "nat \<Rightarrow> ('c, 's, 't, 'u, unit) session_prog" where
  "RpcingExtension_registerRpcReceiver receiver =
     modify (\<lambda>s. s\<lparr>rpcNetwork := RpcNetwork_registerRpcReceiver receiver (rpcNetwork s)\<rparr>)"

definition RpcingExtension_unregisterRpcReceiver :: "nat \<Rightarrow> ('c, 's, 't, 'u, unit) session_prog" where
  "RpcingExtension_unregisterRpcReceiver receiver =
     modify (\<lambda>s. s\<lparr>rpcNetwork := RpcNetwork_unregisterRpcReceiver receiver (rpcNetwork s)\<rparr>)"

definition RpcingExtension_handleMessage ::
    "('s, 't) stream_factory \<Rightarrow> u64 \<Rightarrow> ('c, 's, 't, 'u) rpc_functions \<Rightarrow> ('c, 's, 't, 'u) extension" where
  "RpcingExtension_handleMessage F g call mt mb =
     (if mt \<noteq> csmtRpc then ret (False, mb) else SgpRpcNetwork_handleMessage F g call mb)"

section \<open>The session as the callback of its connection\<close>

text \<open>A handler of messages as a callback of \<open>SgpMarshaller_unmarshal\<close>: the marshaller's coder and the
  tasks posted are those of the session while it runs.\<close>

definition as_callback ::
    "('c, 's, 't, 'u) extension \<Rightarrow> ('c, ('c, 's, 't, 'u) session_impl \<times> task list) message_callback" where
  "as_callback handler mt st =
     (case st of (c, mb, s, ts) \<Rightarrow>
        case handler mt mb (s\<lparr>coder := c, tasks := ts\<rparr>) of
          (Inl e, s) \<Rightarrow> (Inl e, coder s, mb, s, tasks s)
        | (Inr (handled, mb), s) \<Rightarrow> (Inr handled, coder s, mb, s, tasks s))"

section \<open>Sending\<close>

text \<open>A block manager from which a session can take blocks with room for a header of \<open>n\<close> bytes.\<close>

definition roomy :: "nat \<Rightarrow> block_heap \<Rightarrow> bool" where
  "roomy n h \<longleftrightarrow> n \<le> initialBlockSize h \<and> (\<forall>mb \<in> ran (bh_blocks h). n \<le> mb_capacity mb)"

definition can_send :: "nat \<Rightarrow> block_heap \<times> memory_pool \<Rightarrow> bool" where
  "can_send n hp \<longleftrightarrow> pool_inv block_heap_live block_heap_inv hp \<and> growable (snd hp) \<and> roomy n (fst hp)"

lemma roomy_store:
  "roomy n h \<Longrightarrow> n \<le> mb_capacity mb \<Longrightarrow> roomy n (h\<lparr>bh_blocks := (bh_blocks h)(p \<mapsto> mb)\<rparr>)"
  by (auto simp: roomy_def ran_def)

lemma can_send_store:
  assumes "can_send n hp" and "bh_blocks (fst hp) p = Some mb\<^sub>0" and "n \<le> mb_capacity mb"
  shows "can_send n ((fst hp)\<lparr>bh_blocks := (bh_blocks (fst hp))(p \<mapsto> mb)\<rparr>, snd hp)"
  using assms roomy_store [of n "fst hp" mb p]
  by (auto simp: can_send_def pool_inv_def block_heap_inv_def block_heap_live_def insert_absorb)

lemma malloc_times_roomy:
  "malloc_times MemoryBlockAllocator k (h, q) = (h', q') \<Longrightarrow> roomy n h \<Longrightarrow> roomy n h'"
proof (induction k arbitrary: h q)
  case (Suc k)
  have "roomy n (snd (MemoryBlockAllocator_malloc h))"
    using Suc.prems(2) roomy_store [of n h "mb_new (initialBlockSize h)" "bh_next h"]
    by (simp add: MemoryBlockAllocator_malloc_def roomy_def)
  with Suc show ?case
    by (auto simp: MemoryBlockAllocator_def Let_def MemoryBlockAllocator_malloc_def split: prod.splits)
qed simp

lemma acquire_keeps:
  assumes "MemoryPool_acquire MemoryBlockAllocator (h, p) = (r, (h', p'))" and "roomy n h"
  shows "roomy n h' \<and> growable p' = growable p"
  using assms malloc_times_roomy
  by (auto simp: MemoryPool_acquire_def MemoryPool_prepareResources_def MemoryPool_insertActiveResource_def
      notify_def Let_def split: if_splits prod.splits list.splits)

lemma reserveHeader_carries:
  assumes "n \<le> mb_capacity mb"
  shows "\<exists>hdr. carries (PacketCoder_reserveHeader n mb) hdr \<and> length hdr = n"
    and "mb_capacity (PacketCoder_reserveHeader n mb) = mb_capacity mb"
proof -
  let ?mb = "PacketCoder_reserveHeader n mb"
  have "mb_inv ?mb" "rd_ptr ?mb = 0" "length (mb_contents ?mb) = n"
    using assms by (simp_all add: PacketCoder_reserveHeader_def mb_advance_wr_def mb_reset_def mb_query_defs)
  then show "\<exists>hdr. carries ?mb hdr \<and> length hdr = n" by (auto simp: carries_iff)
  show "mb_capacity ?mb = mb_capacity mb"
    by (simp add: PacketCoder_reserveHeader_def mb_advance_wr_def mb_reset_def mb_query_defs)
qed

lemma acquireSendBlock_run:
  assumes send: "can_send n (blocks s)" and hs: "pc_getHeaderSize ops (coder s) = n"
  obtains p hp mb hdr where "acquireSendBlock ops s = (Inr p, s\<lparr>blocks := hp\<rparr>)"
    and "bh_blocks (fst hp) p = Some mb" and "carries mb hdr" and "length hdr = n" and "can_send n hp"
proof -
  obtain h pool where hp: "blocks s = (h, pool)" by fastforce
  with send have inv: "pool_inv block_heap_live block_heap_inv (h, pool)" "growable pool" "roomy n h"
    by (simp_all add: can_send_def)
  obtain p h' pool' where acq: "MemoryPool_acquire MemoryBlockAllocator (h, pool) = (Inr (Some p), (h', pool'))"
    "pool_inv block_heap_live block_heap_inv (h', pool')" "p \<in> block_heap_live h'"
    using mba.acquire_fresh [OF inv(1)] inv(2) by blast
  have keeps: "roomy n h'" "growable pool'"
    using acquire_keeps [OF acq(1) inv(3)] inv(2) by simp_all
  obtain mb\<^sub>0 where mb\<^sub>0: "bh_blocks h' p = Some mb\<^sub>0" using acq(3) by (auto simp: block_heap_live_def)
  let ?mb = "PacketCoder_reserveHeader n (mb_acquire (blockManager s) mb\<^sub>0)"
  let ?hp = "(h'\<lparr>bh_blocks := (bh_blocks h')(p \<mapsto> ?mb)\<rparr>, pool')"
  have "n \<le> mb_capacity mb\<^sub>0" using keeps(1) mb\<^sub>0 by (auto simp: roomy_def ran_def)
  then have "n \<le> mb_capacity (mb_acquire (blockManager s) mb\<^sub>0)" by (simp add: mb_acquire_def mb_reset_def mb_query_defs)
  note reserved = reserveHeader_carries [OF this]
  have "acquireSendBlock ops s = (Inr p, s\<lparr>blocks := ?hp\<rparr>)"
    using acq(1) mb\<^sub>0 hs
    by (simp add: acquireSendBlock_def SgpMarshaller_acquireSendBlock_def MemoryBlockManager_acquire_def
        on_blocks_def zoom_def bind_def prog_defs hp)
  moreover have "can_send n ?hp"
    using can_send_store [of n "(h', pool')" p mb\<^sub>0 ?mb] acq(2) keeps mb\<^sub>0 reserved(2)
      \<open>n \<le> mb_capacity (mb_acquire (blockManager s) mb\<^sub>0)\<close>
    by (simp add: can_send_def)
  ultimately show ?thesis using reserved(1) that [of p ?hp ?mb] by auto
qed

context session_streams
begin

lemma serialize_run:
  assumes tr: "transports F oinv iinv w r v" and "oinv (ostream s)"
    and "can_send n (blocks s)" and "pc_getHeaderSize ops (coder s) = n"
  obtains p mb hdr body os hp where
    "SessionImpl_serialize ops F w s = (Inr (Some p), s\<lparr>ostream := os, blocks := hp\<rparr>)"
    and "bh_blocks (fst hp) p = Some mb" and "carries mb (hdr @ body)" and "length hdr = n"
    and "oinv os" and "can_send n hp" and "reads_back F iinv r v body"
proof -
  obtain p hp mb hdr where acq: "acquireSendBlock ops s = (Inr p, s\<lparr>blocks := hp\<rparr>)"
    "bh_blocks (fst hp) p = Some mb" "carries mb hdr" "length hdr = n" "can_send n hp"
    by (rule acquireSendBlock_run [OF assms(3,4)])
  obtain s1 s2 body where st: "w (out_reset F mb (snd (os_reset (sf_out F) False (ostream s)))) = (Inr (), s1)"
    "os_align (sf_out F) s1 = (Inr (), s2)" "carries (out_block F s2) (hdr @ body)" "oinv s2" "reads_back F iinv r v body"
    by (rule transportsD [OF tr acq(3) assms(2)])
  let ?hp = "((fst hp)\<lparr>bh_blocks := (bh_blocks (fst hp))(p \<mapsto> out_block F s2)\<rparr>, snd hp)"
  obtain s0 where reset: "os_reset (sf_out F) False (ostream s) = (Inr (), s0)"
    using reset_runs(1) by (metis prod.collapse)
  have "SessionImpl_serialize ops F w s = (Inr (Some p), s\<lparr>ostream := s2, blocks := ?hp\<rparr>)"
    using acq(1,2) st(1,2) reset
    by (simp add: SessionImpl_serialize_def on_ostream_def zoom_def bind_def prog_defs catch_core_def
        store_block_def block_at_def)
  moreover have "n \<le> mb_capacity (out_block F s2)"
    using carriesD(5) [OF st(3)] acq(4) by (simp add: mb_capacity_def)
  then have "can_send n ?hp" by (rule can_send_store [OF acq(5,2)])
  ultimately show ?thesis
    using that [where p = p and os = s2 and hp = ?hp and mb = "out_block F s2" and hdr = hdr and body = body] st(3-5) acq(4) by simp
qed

lemma deserialize_run: "SessionImpl_deserialize F mb s =
    (Inr (), s\<lparr>istream := in_reset F mb (snd (is_reset (sf_in F) False (istream s)))\<rparr>)"
proof -
  obtain t where "is_reset (sf_in F) False (istream s) = (Inr (), t)"
    using reset_runs(2) by (metis prod.collapse)
  then show ?thesis
    by (simp add: SessionImpl_deserialize_def on_session_istream_def zoom_def bind_def modify_def)
qed

end

section \<open>Calls between two sessions\<close>

text \<open>The blocks of \<open>SendMessage\<close> tasks, marshalled one after the other as the tasks run.\<close>

fun marshal_blocks ::
    "'c packet_coder_ops \<Rightarrow> (out_block \<times> message_type) list \<Rightarrow> 'c \<Rightarrow> (byte list \<times> 'c) option" where
  "marshal_blocks ops [] c = Some ([], c)"
| "marshal_blocks ops ((b, mt) # bs) c =
     (case SgpMarshaller_marshal ops (snd b) mt c of
        (ok, mb, c) \<Rightarrow>
          if \<not> ok then None
          else map_option (\<lambda>(packets, c). (mb_contents mb @ packets, c)) (marshal_blocks ops bs c))"

definition send_calls ::
    "'c packet_coder_ops \<Rightarrow> ('s, 't) stream_factory \<Rightarrow> (u32 \<times> rpc_type list \<times> rpc_value list) list \<Rightarrow>
     ('c, 's, 't, 'u, unit) session_prog" where
  "send_calls ops F = for_each (\<lambda>(rpcId, TList, ps). SgpRpcNetwork_send ops F rpcId TList ps)"

text \<open>A call that the first receiver of the network that knows it takes, with the types it was sent
  with; its function does \<open>f\<close> to the owner of the session and leaves the coder and the network alone.\<close>

definition answered ::
    "bool \<Rightarrow> nat list \<Rightarrow> (nat \<Rightarrow> u32 \<Rightarrow> rpc_type list option) \<Rightarrow> ('c, 's, 't, 'u) rpc_functions \<Rightarrow>
     (u32 \<Rightarrow> rpc_value list \<Rightarrow> 'u \<Rightarrow> 'u) \<Rightarrow> u32 \<times> rpc_type list \<times> rpc_value list \<Rightarrow> bool" where
  "answered empty_ok net ev call f c \<longleftrightarrow> (case c of (rpcId, TList, ps) \<Rightarrow>
     valid_list empty_ok TList ps \<and>
     (\<exists>rs k rs'. net = rs @ k # rs' \<and> (\<forall>x \<in> set rs. ev x rpcId = None) \<and> ev k rpcId = Some TList \<and>
        (\<forall>q. \<exists>q'. call k rpcId ps q = (Inr (), q') \<and> owner q' = f rpcId ps (owner q) \<and>
           coder q' = coder q \<and> rpcNetwork q' = rpcNetwork q)))"

text \<open>The two orders in which the map may hold the extensions that \<open>SgpSessionImplFactory\<close> registers.\<close>

definition sgp_extensions ::
    "('s, 't) stream_factory \<Rightarrow> u64 \<Rightarrow> ('c, 's, 't, 'u) message_callbacks \<Rightarrow> ('c, 's, 't, 'u) rpc_functions \<Rightarrow>
     ('c, 's, 't, 'u) extension list set" where
  "sgp_extensions F g callbacks call =
     {[MessagingExtension_handleMessage F g callbacks, RpcingExtension_handleMessage F g call],
      [RpcingExtension_handleMessage F g call, MessagingExtension_handleMessage F g callbacks]}"

locale sgp_session = packet_codec ops hsize sync padded + session_streams F oinv iinv empty_ok
  for ops :: "'c packet_coder_ops" and hsize sync padded
    and F :: "('s, 't) stream_factory" and oinv iinv empty_ok +
  assumes padded_prefix: "\<exists>extra. padded body = body @ extra"
begin

lemma send_rpc:
  assumes "valid_list empty_ok TList ps" and "oinv (ostream s)" and "can_send hsize (blocks s)"
  obtains p mb hdr body s' where
    "SgpRpcNetwork_send ops F rpcId TList ps s = (Inr (), s')"
    and "tasks s' = tasks s @ [SendMessage (p, mb) csmtRpc]"
    and "carries mb (hdr @ body)" and "length hdr = hsize"
    and "oinv (ostream s')" and "can_send hsize (blocks s')"
    and "reads_back F iinv (read_call (sf_in F) g TList) (rpcId, ps) body"
proof -
  obtain p mb hdr body os hp where ser:
    "SessionImpl_serialize ops F (RpcCommand_marshal (sf_out F) rpcId TList ps) s =
      (Inr (Some p), s\<lparr>ostream := os, blocks := hp\<rparr>)"
    "bh_blocks (fst hp) p = Some mb" "carries mb (hdr @ body)" "length hdr = hsize"
    "oinv os" "can_send hsize hp" "reads_back F iinv (read_call (sf_in F) g TList) (rpcId, ps) body"
    by (rule serialize_run [OF transport_call [OF assms(1)] assms(2,3) headerSize])
  then have "SgpRpcNetwork_send ops F rpcId TList ps s =
      (Inr (), s\<lparr>ostream := os, blocks := hp, tasks := tasks s @ [SendMessage (p, mb) csmtRpc]\<rparr>)"
    by (simp add: SgpRpcNetwork_send_def SessionImpl_sendMessage_def post_task_def bind_def prog_defs block_at_def)
  with ser that show ?thesis by simp
qed

text \<open>What a block from \<open>send_calls\<close> holds.\<close>

definition holds_call ::
    "u64 \<Rightarrow> (out_block \<times> message_type) \<Rightarrow> u32 \<times> rpc_type list \<times> rpc_value list \<Rightarrow> bool" where
  "holds_call g b c \<longleftrightarrow> (case c of (rpcId, TList, ps) \<Rightarrow> snd b = csmtRpc \<and>
     (\<exists>hdr body. carries (snd (fst b)) (hdr @ body) \<and> length hdr = hsize \<and>
        reads_back F iinv (read_call (sf_in F) g TList) (rpcId, ps) body))"

lemma send_calls_run:
  assumes "\<forall>(rpcId, TList, ps) \<in> set cs. valid_list empty_ok TList ps"
    and "oinv (ostream s)" and "can_send hsize (blocks s)"
  shows "\<exists>bs s'. send_calls ops F cs s = (Inr (), s') \<and>
    tasks s' = tasks s @ map (\<lambda>(b, mt). SendMessage b mt) bs \<and> list_all2 (holds_call g) bs cs"
  using assms
proof (induction cs arbitrary: s)
  case Nil
  then show ?case by (intro exI [of _ "[]"]) (simp add: send_calls_def skip_def)
next
  case (Cons c cs)
  obtain rpcId TList ps where c: "c = (rpcId, TList, ps)" using prod_cases3 by blast
  with Cons.prems have "valid_list empty_ok TList ps" by simp
  from send_rpc [OF this Cons.prems(2,3), of rpcId g] obtain p mb hdr body s1 where s1:
    "SgpRpcNetwork_send ops F rpcId TList ps s = (Inr (), s1)"
    "tasks s1 = tasks s @ [SendMessage (p, mb) csmtRpc]"
    "carries mb (hdr @ body)" "length hdr = hsize" "oinv (ostream s1)" "can_send hsize (blocks s1)"
    "reads_back F iinv (read_call (sf_in F) g TList) (rpcId, ps) body" .
  from Cons.IH [OF _ s1(5,6)] Cons.prems(1) obtain bs s' where
    "send_calls ops F cs s1 = (Inr (), s')" "tasks s' = tasks s1 @ map (\<lambda>(b, mt). SendMessage b mt) bs"
    "list_all2 (holds_call g) bs cs" by auto
  moreover have "holds_call g ((p, mb), csmtRpc) c"
    using s1(3,4,7) by (auto simp: holds_call_def c)
  ultimately show ?case
    using s1(1,2) by (intro exI [of _ "((p, mb), csmtRpc) # bs"] exI [of _ s'])
      (simp add: send_calls_def c bind_def)
qed

end

context sgp_session
begin

definition listening ::
    "nat list \<Rightarrow> (nat \<Rightarrow> u32 \<Rightarrow> rpc_type list option) \<Rightarrow> ('c, 's, 't, 'u) session_impl \<Rightarrow> bool" where
  "listening net ev r \<longleftrightarrow> iinv (istream r) \<and> rpcNetwork r = net \<and> (\<forall>x. events_of (receivers r x) = ev x)"

lemma rpcing_handles:
  assumes ans: "answered empty_ok net ev call f (rpcId, TList, ps)" and lis: "listening net ev s"
    and rd: "reads_back F iinv (read_call (sf_in F) g TList) (rpcId, ps) body"
    and mb: "mb_inv mb" "mb_contents mb = body @ extra"
  obtains mb' s' where "SgpRpcNetwork_handleMessage F g call mb s = (Inr (True, mb'), s')"
    and "listening net ev s'" and "owner s' = f rpcId ps (owner s)" and "coder s' = coder s"
proof -
  let ?t = "in_reset F mb (snd (is_reset (sf_in F) False (istream s)))"
  let ?s = "s\<lparr>istream := ?t\<rparr>"
  obtain t' where t': "read_call (sf_in F) g TList ?t = (Inr (rpcId, ps), t')" "iinv t'"
    using rd mb lis unfolding reads_back_def listening_def by blast
  obtain rs k rs' where net: "net = rs @ k # rs'" "\<forall>x \<in> set rs. ev x rpcId = None" "ev k rpcId = Some TList"
    and run: "\<And>q. \<exists>q'. call k rpcId ps q = (Inr (), q') \<and> owner q' = f rpcId ps (owner q) \<and>
      coder q' = coder q \<and> rpcNetwork q' = rpcNetwork q"
    using ans by (auto simp: answered_def)
  obtain q' where q': "call k rpcId ps ?s = (Inr (), q')" "owner q' = f rpcId ps (owner s)"
    "coder q' = coder s" "rpcNetwork q' = rpcNetwork s"
    using run [of ?s] by auto
  let ?w = "\<lparr>rw_istream = ?t, rw_app = ?s, rw_receivers = receivers s\<rparr>"
  obtain w' where w': "RpcNetwork_onReceive (sf_in F) g call net ?w = (Inr (), w')"
    "rw_istream w' = t'" "rw_app w' = q'" "\<forall>x. events_of (rw_receivers w' x) = events_of (receivers s x)"
    using onReceive_dispatch [of "sf_in F" g TList ?w rpcId ps t' rs k call q' rs'] t'(1) net q'(1) lis
    by (auto simp: listening_def)
  let ?s' = "q'\<lparr>istream := t', receivers := rw_receivers w'\<rparr>"
  have "SgpRpcNetwork_handleMessage F g call mb s = (Inr (True, in_block F t'), ?s')"
    using w' lis
    by (simp add: SgpRpcNetwork_handleMessage_def bind_def deserialize_run on_rpc_world_def prog_defs listening_def)
  with that [of "in_block F t'" ?s'] q' w'(4) t'(2) lis show ?thesis
    by (simp add: listening_def)
qed

lemma session_answers:
  assumes "exts \<in> sgp_extensions F g callbacks call" and "map_of callbacks csmtRpc = None"
    and "answered empty_ok net ev call f (rpcId, TList, ps)" and "listening net ev r"
    and "reads_back F iinv (read_call (sf_in F) g TList) (rpcId, ps) body"
    and "mb_inv mb" and "mb_contents mb = body @ extra"
  shows "\<exists>mb' r' ts'. as_callback (Session_onMessageArrived exts) csmtRpc (c, mb, r, ts) = (Inr True, c, mb', r', ts') \<and>
    listening net ev r' \<and> owner r' = f rpcId ps (owner r)"
proof -
  let ?s = "r\<lparr>coder := c, tasks := ts\<rparr>"
  have "listening net ev ?s" using assms(4) by (simp add: listening_def)
  from rpcing_handles [OF assms(3) this assms(5-7)] obtain mb' s' where
    s': "SgpRpcNetwork_handleMessage F g call mb ?s = (Inr (True, mb'), s')"
    "listening net ev s'" "owner s' = f rpcId ps (owner r)" "coder s' = c" by auto
  have "Session_onMessageArrived exts csmtRpc mb ?s = (Inr (True, mb'), s')"
    using assms(1,2) s'(1)
    by (auto simp: sgp_extensions_def Session_onMessageArrived_def MessagingExtension_handleMessage_def
        RpcingExtension_handleMessage_def bind_def prog_defs)
  with s' show ?thesis by (simp add: as_callback_def)
qed

abbreviation body_of :: "out_block \<times> message_type \<Rightarrow> message_type \<times> byte list" where
  "body_of \<equiv> \<lambda>(b, mt). (mt, padded (drop hsize (mb_contents (snd b))))"

text \<open>A block that can be marshalled: room for the header, then the message.\<close>

definition framed :: "out_block \<times> message_type \<Rightarrow> bool" where
  "framed b \<longleftrightarrow> isValidMessage (snd b) \<and>
     (\<exists>hdr body. carries (snd (fst b)) (hdr @ body) \<and> length hdr = hsize)"

lemma holds_call_framed: "list_all2 (holds_call g) bs cs \<Longrightarrow> \<forall>b \<in> set bs. framed b"
  by (induction rule: list_all2_induct)
    (auto simp: holds_call_def framed_def message_type_defs split: prod.splits)

lemma marshal_blocks_wire:
  assumes "sync e d" and "\<forall>b \<in> set bs. framed b"
    and "\<forall>b \<in> set bs. length (snd (body_of b)) < 65536"
  shows "\<exists>packets e'. marshal_blocks ops bs e = Some (packets, e') \<and> wire e (map body_of bs) packets e'"
  using assms
proof (induction bs arbitrary: e d)
  case Nil
  then show ?case by (auto intro: wire_Nil)
next
  case (Cons b bs)
  obtain p mb mt where b: "b = ((p, mb), mt)" by (metis surj_pair)
  obtain hdr body where mb: "carries mb (hdr @ body)" "length hdr = hsize" and mt: "isValidMessage mt"
    using Cons.prems(2) by (auto simp: framed_def b)
  then have bo: "body_of b = (mt, padded body)" by (simp add: b carriesD)
  have ok: "isValidMessage mt" "length (padded body) < 65536"
    using Cons.prems(3) bo mt by simp_all
  obtain mb' e\<^sub>1 packet d' where m: "SgpMarshaller_marshal ops mb mt e = (True, mb', e\<^sub>1)"
    "carries mb' packet" "wire e [(mt, padded body)] packet e\<^sub>1" "sync e\<^sub>1 d'"
    by (rule marshal_wire [OF Cons.prems(1) mb ok])
  from Cons.IH [OF m(4)] Cons.prems(2,3) obtain packets e' where
    ih: "marshal_blocks ops bs e\<^sub>1 = Some (packets, e')" "wire e\<^sub>1 (map body_of bs) packets e'" by auto
  have "marshal_blocks ops (b # bs) e = Some (packet @ packets, e')"
    using ih(1) m(1,2) by (simp add: b carriesD)
  moreover have "wire e (map body_of (b # bs)) (packet @ packets) e'"
    using wire_append [OF m(3) ih(2)] bo by simp
  ultimately show ?case by blast
qed

lemma calls_handled:
  assumes "exts \<in> sgp_extensions F g callbacks call" and "map_of callbacks csmtRpc = None"
    and "list_all2 (holds_call g) bs cs" and "\<forall>c \<in> set cs. answered empty_ok net ev call f c"
    and "listening net ev r"
  shows "handles (as_callback (Session_onMessageArrived exts)) (map body_of bs)
    (\<lambda>(r', ts'). owner r' = fold (\<lambda>(rpcId, TList, ps). f rpcId ps) cs (owner r)) (r, ts)"
  using assms(3-5)
proof (induction bs cs arbitrary: r ts rule: list_all2_induct)
  case Nil
  then show ?case by simp
next
  case (Cons b bs c cs)
  obtain rpcId TList ps where c: "c = (rpcId, TList, ps)" using prod_cases3 by blast
  obtain p mb mt where b: "b = ((p, mb), mt)" by (metis surj_pair)
  obtain hdr body where mb: "carries mb (hdr @ body)" "length hdr = hsize" "mt = csmtRpc"
    "reads_back F iinv (read_call (sf_in F) g TList) (rpcId, ps) body"
    using Cons.hyps(1) by (auto simp: holds_call_def c b)
  have ans: "answered empty_ok net ev call f (rpcId, TList, ps)" using Cons.prems(1) c by simp
  obtain extra where extra: "padded body = body @ extra" using padded_prefix by blast
  have step: "\<exists>c' mb' a'. as_callback (Session_onMessageArrived exts) csmtRpc (cd, rb, r, ts) = (Inr True, c', mb', a') \<and>
      (\<forall>e. sync e cd \<longrightarrow> sync e c') \<and> handles (as_callback (Session_onMessageArrived exts)) (map body_of bs)
        (\<lambda>(r', ts'). owner r' = fold (\<lambda>(rpcId, TList, ps). f rpcId ps) (c # cs) (owner r)) a'"
    if "mb_inv rb" "mb_contents rb = padded body" for cd rb
  proof -
    from session_answers [OF assms(1,2) ans Cons.prems(2) mb(4) that(1), of extra cd ts] that(2) extra
    obtain mb' r' ts' where r': "as_callback (Session_onMessageArrived exts) csmtRpc (cd, rb, r, ts) =
        (Inr True, cd, mb', r', ts')" "listening net ev r'" "owner r' = f rpcId ps (owner r)" by auto
    from Cons.IH [OF _ r'(2), of ts'] Cons.prems(1) r'(1,3) c show ?thesis by auto
  qed
  have "map body_of (b # bs) = (csmtRpc, padded body) # map body_of bs"
    using mb by (simp add: b carriesD)
  then show ?case using step by (simp only: handles.simps) blast
qed

lemma calls_arrive:
  assumes "exts \<in> sgp_extensions F g callbacks call" and "map_of callbacks csmtRpc = None"
    and "oinv (ostream s)" and "can_send hsize (blocks s)"
    and "listening net ev r" and "\<forall>c \<in> set cs. answered empty_ok net ev call f c" and syn: "sync e d"
  shows "\<exists>bs s'. send_calls ops F cs s = (Inr (), s') \<and>
    tasks s' = tasks s @ map (\<lambda>(b, mt). SendMessage b mt) bs \<and>
    ((\<forall>(b, mt) \<in> set bs. length (padded (drop hsize (mb_contents (snd b)))) < 65536) \<longrightarrow>
      (\<exists>packets e'. marshal_blocks ops bs e = Some (packets, e') \<and>
        (\<forall>chunks. concat chunks = packets \<longrightarrow> (\<exists>m' r' ts'.
          receive_all ops (as_callback (Session_onMessageArrived exts)) chunks
              (SgpMarshaller_new ops d (mb_new k) (mb_new k), 0, r, ts) =
            Some (Inr True, m', length cs, r', ts') \<and>
          owner r' = fold (\<lambda>(rpcId, TList, ps). f rpcId ps) cs (owner r) \<and>
          sync e' (packetCoder m')))))"
proof -
  have "\<forall>(rpcId, TList, ps) \<in> set cs. valid_list empty_ok TList ps"
    using assms(6) by (auto simp: answered_def)
  from send_calls_run [OF this assms(3,4), of g] obtain bs s' where bs:
    "send_calls ops F cs s = (Inr (), s')" "tasks s' = tasks s @ map (\<lambda>(b, mt). SendMessage b mt) bs"
    "list_all2 (holds_call g) bs cs" by blast
  have "\<exists>packets e'. marshal_blocks ops bs e = Some (packets, e') \<and>
        (\<forall>chunks. concat chunks = packets \<longrightarrow> (\<exists>m' r' ts'.
          receive_all ops (as_callback (Session_onMessageArrived exts)) chunks
              (SgpMarshaller_new ops d (mb_new k) (mb_new k), 0, r, ts) =
            Some (Inr True, m', length cs, r', ts') \<and>
          owner r' = fold (\<lambda>(rpcId, TList, ps). f rpcId ps) cs (owner r) \<and> sync e' (packetCoder m')))"
    if lim: "\<forall>(b, mt) \<in> set bs. length (padded (drop hsize (mb_contents (snd b)))) < 65536"
  proof -
    from lim have "\<forall>b \<in> set bs. length (snd (body_of b)) < 65536" by (auto split: prod.splits)
    then obtain packets e' where p: "marshal_blocks ops bs e = Some (packets, e')" "wire e (map body_of bs) packets e'"
      using marshal_blocks_wire [OF syn holds_call_framed [OF bs(3)]] by blast
    have "\<exists>m' r' ts'. receive_all ops (as_callback (Session_onMessageArrived exts)) chunks
          (SgpMarshaller_new ops d (mb_new k) (mb_new k), 0, r, ts) = Some (Inr True, m', length cs, r', ts') \<and>
        owner r' = fold (\<lambda>(rpcId, TList, ps). f rpcId ps) cs (owner r) \<and> sync e' (packetCoder m')"
      if "concat chunks = packets" for chunks
      using delivery [OF syn _ calls_handled [OF assms(1,2) bs(3) assms(6,5), of ts],
          of chunks e' "mb_new k" "mb_new k"] p(2) that list_all2_lengthD [OF bs(3)]
      by auto
    with p(1) show ?thesis by blast
  qed
  with bs(1,2) show ?thesis by blast
qed

end

interpretation plain_bits: sgp_session CsPacketCoder 3 "\<lambda>_ _. True" "\<lambda>body. body"
  SneStreamFactory_bit "obs_idle u" "ibs_idle u" False for u
  by unfold_locales simp

interpretation plain_bytes: sgp_session CsPacketCoder 3 "\<lambda>_ _. True" "\<lambda>body. body"
  SneStreamFactory_byte "oys_idle u" "iys_idle u" True for u
  by unfold_locales simp

lemma secure_bytes:
  assumes "engine_pair (enc_engine env) (dec_engine env)"
  shows "sgp_session (SecurePacketCoder CsPacketCoder env) 9 (secure_sync env) (pad_to (BLOCKSIZE (enc_engine env)))
    SneStreamFactory_byte (oys_idle u) (iys_idle u) True"
  by (intro sgp_session.intro secure_packet_codec [OF assms] byte_streams.session_streams_axioms
      sgp_session_axioms.intro) (simp add: pad_to_def)

lemma can_send_new:
  assumes "n \<le> initialSize" and "block_heap_inv h" and "bh_blocks h = Map.empty"
  shows "can_send n (MemoryBlockManager_new k initialSize h)"
proof -
  let ?h = "h\<lparr>initialBlockSize := initialSize\<rparr>" and ?p = "MemoryPool_new k True False"
  obtain h' p' where p': "MemoryPool_prepareResources MemoryBlockAllocator (?h, ?p) = (h', p')" by fastforce
  have "pool_inv block_heap_live block_heap_inv (?h, ?p)"
    by (rule mba.new_inv) (use assms(2) in \<open>simp add: block_heap_inv_def\<close>)
  note mba.prepareResources_props(1,5) [OF this p']
  moreover have "roomy n ?h" using assms(1,3) by (simp add: roomy_def)
  then have "roomy n h'"
    using p' malloc_times_roomy
    by (auto simp: MemoryPool_prepareResources_def MemoryPool_new_def notify_def Let_def split: prod.splits)
  ultimately show ?thesis
    by (simp add: can_send_def MemoryBlockManager_new_def MemoryPool_initialize_def p' del: prod.collapse)
      (simp add: MemoryPool_new_def)
qed

section \<open>Properties\<close>

text \<open>C1: remote calls between two sessions.  The calls that one session sends over bit streams leave
  as posted \<open>SendMessage\<close> tasks; when their packets fit the 16-bit size field, the bytes the tasks
  marshal, cut in any way and received by the other session, make the receivers run every call once,
  in order, with the arguments sent.  The arguments must be valid for their types and no string among
  them empty, since \<open>IBitStream\<close> misreads what follows an empty string.\<close>

theorem rpc_calls_arrive:
  assumes "exts \<in> sgp_extensions SneStreamFactory_bit g callbacks call" and "map_of callbacks csmtRpc = None"
    and "obs_idle u (ostream s)" and "can_send 3 (blocks s)" and "ibs_idle u (istream r)"
    and "\<forall>c \<in> set cs. answered False (rpcNetwork r) (\<lambda>x. events_of (receivers r x)) call f c"
  shows "\<exists>bs s'. send_calls CsPacketCoder SneStreamFactory_bit cs s = (Inr (), s') \<and>
    tasks s' = tasks s @ map (\<lambda>(b, mt). SendMessage b mt) bs \<and>
    ((\<forall>(b, mt) \<in> set bs. length (drop 3 (mb_contents (snd b))) < 65536) \<longrightarrow>
      (\<exists>packets. marshal_blocks CsPacketCoder bs () = Some (packets, ()) \<and>
        (\<forall>chunks. concat chunks = packets \<longrightarrow> (\<exists>m' r' ts'.
          receive_all CsPacketCoder (as_callback (Session_onMessageArrived exts)) chunks
              (SgpMarshaller_new CsPacketCoder () (mb_new k) (mb_new k), 0, r, ts) =
            Some (Inr True, m', length cs, r', ts') \<and>
          owner r' = fold (\<lambda>(rpcId, TList, ps). f rpcId ps) cs (owner r)))))"
proof -
  have "plain_bits.listening u (rpcNetwork r) (\<lambda>x. events_of (receivers r x)) r"
    using assms(5) by (simp add: plain_bits.listening_def)
  from plain_bits.calls_arrive [OF assms(1-4) this assms(6), of "()" "()" k ts] show ?thesis by simp
qed

text \<open>A session with two receivers, of which the second knows one function, and functions that record the
  calls in the owner.\<close>

definition demo_impl :: "'c \<Rightarrow> 's \<Rightarrow> 't \<Rightarrow> ('c, 's, 't, (u32 \<times> rpc_value list) list) session_impl" where
  "demo_impl c os t = \<lparr>coder = c, ostream = os, istream = t, blockManager = 0, messageBlock = 0,
     blocks = MemoryBlockManager_new 2 16 \<lparr>initialBlockSize = 0, bh_next = 0, bh_blocks = Map.empty\<rparr>,
     tasks = [], rpcNetwork = [1, 2],
     receivers = (\<lambda>r. RpcReceiver_new (if r = 2 then [(42, [T_bool, T_u32 32])] else [])), owner = []\<rparr>"

definition record_call :: "('c, 's, 't, (u32 \<times> rpc_value list) list) rpc_functions" where
  "record_call k rpcId ps = modify (\<lambda>s. s\<lparr>owner := owner s @ [(rpcId, ps)]\<rparr>)"

lemma demo_fields: "tasks (demo_impl c os t) = []" "owner (demo_impl c os t) = []"
  "ostream (demo_impl c os t) = os" "istream (demo_impl c os t) = t"
  by (simp_all add: demo_impl_def)

lemma demo_can_send: "n \<le> 16 \<Longrightarrow> can_send n (blocks (demo_impl c os t))"
  by (simp add: demo_impl_def can_send_new block_heap_inv_def)

lemma demo_answered:
  "answered e (rpcNetwork (demo_impl c os t)) (\<lambda>x. events_of (receivers (demo_impl c os t) x)) record_call
     (\<lambda>rpcId ps w. w @ [(rpcId, ps)]) (42, [T_bool, T_u32 32], [V_bool b, V_32 v])"
  unfolding answered_def prod.case
  by (intro conjI exI [of _ "[1]"] exI [of _ 2] exI [of _ "[]"])
    (simp_all add: demo_impl_def events_of_def RpcReceiver_new_def record_call_def modify_def
      streamable_def isEnoughBits_def)

theorem rpc_calls_arrive_witness:
  "\<exists>bs s'. send_calls CsPacketCoder SneStreamFactory_bit
      [(42, [T_bool, T_u32 32], [V_bool True, V_32 9]), (42, [T_bool, T_u32 32], [V_bool False, V_32 7])]
      (demo_impl () (obs_new (mb_new 0) True) (ibs_new (mb_new 0) True)) = (Inr (), s') \<and>
    tasks s' = [] @ map (\<lambda>(b, mt). SendMessage b mt) bs \<and>
    ((\<forall>(b, mt) \<in> set bs. length (drop 3 (mb_contents (snd b))) < 65536) \<longrightarrow>
      (\<exists>packets. marshal_blocks CsPacketCoder bs () = Some (packets, ()) \<and>
        (\<forall>chunks. concat chunks = packets \<longrightarrow> (\<exists>m' r' ts'.
          receive_all CsPacketCoder (as_callback (Session_onMessageArrived
                [MessagingExtension_handleMessage SneStreamFactory_bit 0 [],
                 RpcingExtension_handleMessage SneStreamFactory_bit 0 record_call])) chunks
              (SgpMarshaller_new CsPacketCoder () (mb_new 16) (mb_new 16), 0,
               demo_impl () (obs_new (mb_new 0) True) (ibs_new (mb_new 0) True), []) =
            Some (Inr True, m', 2, r', ts') \<and>
          owner r' = [(42, [V_bool True, V_32 9]), (42, [V_bool False, V_32 7])]))))"
proof -
  let ?s = "demo_impl () (obs_new (mb_new 0) True) (ibs_new (mb_new 0) True)"
  let ?cs = "[(42, [T_bool, T_u32 32], [V_bool True, V_32 9]), (42, [T_bool, T_u32 32], [V_bool False, V_32 7])]"
  have "\<forall>c \<in> set ?cs. answered False (rpcNetwork ?s) (\<lambda>x. events_of (receivers ?s x)) record_call
      (\<lambda>rpcId ps w. w @ [(rpcId, ps)]) c"
    by (simp add: demo_answered)
  from rpc_calls_arrive [OF _ _ _ _ _ this, where g = 0 and callbacks = "[]" and u = True and s = ?s and k = 16
      and ts = "[]" and exts = "[MessagingExtension_handleMessage SneStreamFactory_bit 0 [],
        RpcingExtension_handleMessage SneStreamFactory_bit 0 record_call]"]
  show ?thesis
    by (simp add: sgp_extensions_def demo_can_send demo_fields obs_idle_def ibs_idle_def obs_new_def ibs_new_def
        numeral_2_eq_2)
qed

text \<open>C2: the same over encrypted connections with byte streams, empty strings included: endpoints in step stay in step, and
  the padding that the cipher needs does not disturb the calls.  The padded packets must fit the 16-bit size field.\<close>

theorem secure_rpc_calls_arrive:
  assumes "engine_pair (enc_engine env) (dec_engine env)" and "secure_sync env e d"
    and "exts \<in> sgp_extensions SneStreamFactory_byte g callbacks call" and "map_of callbacks csmtRpc = None"
    and "oys_idle u (ostream s)" and "can_send 9 (blocks s)" and "iys_idle u (istream r)"
    and "\<forall>c \<in> set cs. answered True (rpcNetwork r) (\<lambda>x. events_of (receivers r x)) call f c"
  shows "\<exists>bs s'. send_calls (SecurePacketCoder CsPacketCoder env) SneStreamFactory_byte cs s = (Inr (), s') \<and>
    tasks s' = tasks s @ map (\<lambda>(b, mt). SendMessage b mt) bs \<and>
    ((\<forall>(b, mt) \<in> set bs. length (pad_to (BLOCKSIZE (enc_engine env)) (drop 9 (mb_contents (snd b)))) < 65536) \<longrightarrow>
      (\<exists>packets e'. marshal_blocks (SecurePacketCoder CsPacketCoder env) bs e = Some (packets, e') \<and>
        (\<forall>chunks. concat chunks = packets \<longrightarrow> (\<exists>m' r' ts'.
          receive_all (SecurePacketCoder CsPacketCoder env) (as_callback (Session_onMessageArrived exts)) chunks
              (SgpMarshaller_new (SecurePacketCoder CsPacketCoder env) d (mb_new k) (mb_new k), 0, r, ts) =
            Some (Inr True, m', length cs, r', ts') \<and>
          owner r' = fold (\<lambda>(rpcId, TList, ps). f rpcId ps) cs (owner r) \<and>
          secure_sync env e' (packetCoder m')))))"
proof -
  note session = secure_bytes [OF assms(1), of u]
  have "sgp_session.listening (iys_idle u) (rpcNetwork r) (\<lambda>x. events_of (receivers r x)) r"
    using assms(7) by (simp add: sgp_session.listening_def [OF session])
  from sgp_session.calls_arrive [OF session assms(3-6) this assms(8,2)] show ?thesis .
qed

theorem secure_rpc_calls_arrive_witness:
  "\<exists>bs s'. send_calls (SecurePacketCoder CsPacketCoder toy_env) SneStreamFactory_byte
      [(42, [T_bool, T_u32 32], [V_bool True, V_32 9])]
      (demo_impl (SecurePacketCoder_new toy_env () 0 True) (oys_new (mb_new 0) True) (iys_new (mb_new 0) True)) =
      (Inr (), s') \<and>
    tasks s' = [] @ map (\<lambda>(b, mt). SendMessage b mt) bs \<and>
    ((\<forall>(b, mt) \<in> set bs. length (pad_to 8 (drop 9 (mb_contents (snd b)))) < 65536) \<longrightarrow>
      (\<exists>packets e'. marshal_blocks (SecurePacketCoder CsPacketCoder toy_env) bs
          (SecurePacketCoder_new toy_env () 0 True) = Some (packets, e') \<and>
        (\<forall>chunks. concat chunks = packets \<longrightarrow> (\<exists>m' r' ts'.
          receive_all (SecurePacketCoder CsPacketCoder toy_env) (as_callback (Session_onMessageArrived
                [RpcingExtension_handleMessage SneStreamFactory_byte 0 record_call,
                 MessagingExtension_handleMessage SneStreamFactory_byte 0 []])) chunks
              (SgpMarshaller_new (SecurePacketCoder CsPacketCoder toy_env) (SecurePacketCoder_new toy_env () 0 True)
                 (mb_new 16) (mb_new 16), 0,
               demo_impl (SecurePacketCoder_new toy_env () 0 True) (oys_new (mb_new 0) True) (iys_new (mb_new 0) True), []) =
            Some (Inr True, m', 1, r', ts') \<and>
          owner r' = [(42, [V_bool True, V_32 9])] \<and> secure_sync toy_env e' (packetCoder m')))))"
proof -
  let ?c = "SecurePacketCoder_new toy_env () 0 True"
  let ?s = "demo_impl ?c (oys_new (mb_new 0) True) (iys_new (mb_new 0) True)"
  let ?cs = "[(42, [T_bool, T_u32 32], [V_bool True, V_32 9])]"
  have "\<forall>c \<in> set ?cs. answered True (rpcNetwork ?s) (\<lambda>x. events_of (receivers ?s x)) record_call
      (\<lambda>rpcId ps w. w @ [(rpcId, ps)]) c"
    by (simp add: demo_answered)
  from secure_rpc_calls_arrive [OF toy_env_engines(1) secure_sync_new [of toy_env "()" 0 True "()" 0] _ _ _ _ _ this, where g = 0 and callbacks = "[]"
      and u = True and s = ?s and k = 16 and ts = "[]"
      and exts = "[RpcingExtension_handleMessage SneStreamFactory_byte 0 record_call,
        MessagingExtension_handleMessage SneStreamFactory_byte 0 []]"]
  show ?thesis
    by (simp add: sgp_extensions_def demo_can_send demo_fields oys_idle_def iys_idle_def oys_new_def iys_new_def
        toy_env_engines)
qed

end
