(* ===== verification/Stream_Limits.thy ===== *)
theory Stream_Limits
  imports Rpc_Types
begin

text \<open>
  What \<open>operator>>\<close> can produce from arbitrary bytes.  \<open>limited_reader\<close> is what the streams promise of their
  typed reads: a string is cut to its maximum length and, over bit streams, a number of \<open>n\<close> bits has no more than \<open>n\<close>.
  For every reader that meets it, a value that was read is within the limits of its type, whatever the
  bytes are; \<open>IBitStream\<close> and \<open>IByteStream\<close> (src/core/stream/detail) meet it.
\<close>

section \<open>The contract\<close>

locale limited_reader =
  fixes IS :: "'t istream_ops" and narrow :: bool
  assumes lim_u64: "narrow \<Longrightarrow> is_u64 IS n t = (Inr v64, t') \<Longrightarrow> fits n v64"
    and lim_u32: "narrow \<Longrightarrow> is_u32 IS n t = (Inr v32, t') \<Longrightarrow> fits n v32"
    and lim_u16: "narrow \<Longrightarrow> is_u16 IS n t = (Inr v16, t') \<Longrightarrow> fits n v16"
    and lim_u8: "narrow \<Longrightarrow> is_u8 IS n t = (Inr v8, t') \<Longrightarrow> fits n v8"
    and lim_i64: "narrow \<Longrightarrow> is_i64 IS n t = (Inr v64, t') \<Longrightarrow> fits_signed n v64"
    and lim_i32: "narrow \<Longrightarrow> is_i32 IS n t = (Inr v32, t') \<Longrightarrow> fits_signed n v32"
    and lim_i16: "narrow \<Longrightarrow> is_i16 IS n t = (Inr v16, t') \<Longrightarrow> fits_signed n v16"
    and lim_i8: "narrow \<Longrightarrow> is_i8 IS n t = (Inr v8, t') \<Longrightarrow> fits_signed n v8"
    and lim_str: "is_str IS maxLength n t = (Inr cs, t') \<Longrightarrow> length cs \<le> maxLength"
    and lim_wstr: "is_wstr IS maxLength n t = (Inr ws, t') \<Longrightarrow> length ws \<le> maxLength"

section \<open>Values within the limits of their type\<close>

text \<open>A set or map is what its \<open>insert\<close> makes of fewer than 65536 elements.\<close>

fun within :: "bool \<Rightarrow> rpc_type \<Rightarrow> rpc_value \<Rightarrow> bool"
  and within_list :: "bool \<Rightarrow> rpc_type list \<Rightarrow> rpc_value list \<Rightarrow> bool"
  and within_case :: "bool \<Rightarrow> rpc_type list \<Rightarrow> nat \<Rightarrow> rpc_value list \<Rightarrow> bool" where
  "within e (T_u64 bits) v = (case v of V_64 v \<Rightarrow> e \<longrightarrow> fits bits v | _ \<Rightarrow> False)"
| "within e (T_u32 bits) v = (case v of V_32 v \<Rightarrow> e \<longrightarrow> fits bits v | _ \<Rightarrow> False)"
| "within e (T_u16 bits) v = (case v of V_16 v \<Rightarrow> e \<longrightarrow> fits bits v | _ \<Rightarrow> False)"
| "within e (T_u8 bits) v = (case v of V_8 v \<Rightarrow> e \<longrightarrow> fits bits v | _ \<Rightarrow> False)"
| "within e T_bool v = (case v of V_bool v \<Rightarrow> True | _ \<Rightarrow> False)"
| "within e (T_i64 bits) v = (case v of V_64 v \<Rightarrow> e \<longrightarrow> fits_signed bits v | _ \<Rightarrow> False)"
| "within e (T_i32 bits) v = (case v of V_32 v \<Rightarrow> e \<longrightarrow> fits_signed bits v | _ \<Rightarrow> False)"
| "within e (T_i16 bits) v = (case v of V_16 v \<Rightarrow> e \<longrightarrow> fits_signed bits v | _ \<Rightarrow> False)"
| "within e (T_i8 bits) v = (case v of V_8 v \<Rightarrow> e \<longrightarrow> fits_signed bits v | _ \<Rightarrow> False)"
| "within e T_f32 v = (case v of V_32 v \<Rightarrow> True | _ \<Rightarrow> False)"
| "within e (T_enum bits) v = (case v of V_64 v \<Rightarrow> fits bits v | _ \<Rightarrow> False)"
| "within e (T_string maxLength sizeBits) v = (case v of V_string v \<Rightarrow> length v \<le> maxLength | _ \<Rightarrow> False)"
| "within e (T_wstring maxLength sizeBits) v = (case v of V_wstring v \<Rightarrow> length v \<le> maxLength | _ \<Rightarrow> False)"
| "within e (T_seq t) v = (case v of V_list vs \<Rightarrow> length vs < 65536 \<and> list_all (within e t) vs | _ \<Rightarrow> False)"
| "within e (T_array N t) v = (case v of V_list vs \<Rightarrow> length vs = N \<and> list_all (within e t) vs | _ \<Rightarrow> False)"
| "within e (T_struct ts) v = (case v of V_list vs \<Rightarrow> within_list e ts vs | _ \<Rightarrow> False)"
| "within e (T_variant ts) v = (case v of V_list (V_8 tag # vs) \<Rightarrow> within_case e ts (unat tag) vs | _ \<Rightarrow> False)"
| "within e (T_set ins t) v = (case v of V_list vs \<Rightarrow>
       \<exists>xs. vs = fold ins xs [] \<and> length xs < 65536 \<and> list_all (within e t) xs
     | _ \<Rightarrow> False)"
| "within e (T_map ins k t) v = (case v of V_map kvs \<Rightarrow>
       \<exists>xs. kvs = fold ins xs [] \<and> length xs < 65536 \<and> list_all (within e k) (map fst xs) \<and> list_all (within e t) (map snd xs)
     | _ \<Rightarrow> False)"
| "within_list e [] vs = (vs = [])"
| "within_list e (t # ts) vs = (case vs of [] \<Rightarrow> False | v # vs \<Rightarrow> within e t v \<and> within_list e ts vs)"
| "within_case e [] n vs = (vs = [])"
| "within_case e (t # ts) n vs =
     (if n = 1 then (case vs of [v] \<Rightarrow> within e t v | _ \<Rightarrow> False) else within_case e ts (n - 1) vs)"

lemma ret_InrE: "ret x s = (Inr y, s') \<Longrightarrow> x = y \<and> s = s'"
  by (simp add: ret_def)

lemma read_times_all:
  assumes "\<And>s v s'. r s = (Inr v, s') \<Longrightarrow> P v"
  shows "read_times n r s = (Inr vs, s') \<Longrightarrow> length vs = n \<and> list_all P vs"
proof (induction n arbitrary: s vs)
  case (Suc n)
  then show ?case by (auto elim!: bind_InrE dest!: ret_InrE assms)
qed (simp add: ret_def)

text \<open>The containers of RpcContainers.h.\<close>

lemma RpcContainer_all:
  assumes "\<And>s v s'. r s = (Inr v, s') \<Longrightarrow> P v" and "RpcContainer_serialize_in istr 16 r s = (Inr vs, s')"
  shows "length vs < 65536 \<and> list_all P vs"
proof -
  from assms(2) obtain n :: u16 and s1 where "read_times (unat n) r s1 = (Inr vs, s')"
    by (auto simp: RpcContainer_serialize_in_def throw_def elim!: bind_InrE split: if_splits)
  from read_times_all [OF assms(1) this] unsigned_less [of n] show ?thesis by simp
qed

lemma RBaseSet_all:
  assumes "\<And>s v s'. r s = (Inr v, s') \<Longrightarrow> P v" and "RBaseSet_serialize_in istr ins [] 16 r s = (Inr vs, s')"
  shows "\<exists>xs. vs = fold ins xs [] \<and> length xs < 65536 \<and> list_all P xs"
proof -
  from assms(2) obtain n :: u16 and s1 xs where "read_times (unat n) r s1 = (Inr xs, s')" "vs = fold ins xs []"
    by (auto simp: RBaseSet_serialize_in_def throw_def elim!: bind_InrE dest!: ret_InrE split: if_splits)
  with read_times_all [OF assms(1) this(1)] unsigned_less [of n] show ?thesis by auto
qed

lemma RBaseMap_all:
  assumes "\<And>s v s'. rk s = (Inr v, s') \<Longrightarrow> P v" and "\<And>s v s'. rv s = (Inr v, s') \<Longrightarrow> Q v"
    and "RBaseMap_serialize_in istr ins [] 16 rk rv s = (Inr kvs, s')"
  shows "\<exists>xs. kvs = fold ins xs [] \<and> length xs < 65536 \<and> list_all P (map fst xs) \<and> list_all Q (map snd xs)"
proof -
  let ?r = "bind rk (\<lambda>k. bind rv (\<lambda>v. ret (k, v)))"
  have max: "MaxNumber_value 16 = 65535" by (simp add: MaxNumber_value_eq)
  from assms(3) obtain n s1 xs where xs: "read_times n ?r s1 = (Inr xs, s')" "kvs = fold ins xs []" "n < 65536"
    by (auto simp: RBaseMap_serialize_in_def max throw_def elim!: bind_InrE dest!: ret_InrE split: if_splits)
  have "P (fst x) \<and> Q (snd x)" if "?r s = (Inr x, s')" for s x s'
    using that by (auto elim!: bind_InrE dest!: ret_InrE assms(1,2))
  from read_times_all [where P = "\<lambda>x. P (fst x) \<and> Q (snd x)", OF this xs(1)] xs(2,3) show ?thesis
    by (intro exI [of _ xs]) (auto simp: list_all_iff)
qed

section \<open>What is read is within the limits\<close>

context limited_reader
begin

lemma stream_in_list_within:
  assumes "\<And>t s v s'. t \<in> set ts \<Longrightarrow> stream_in IS g t s = (Inr v, s') \<Longrightarrow> within narrow t v"
  shows "stream_in_list IS g ts s = (Inr vs, s') \<Longrightarrow> within_list narrow ts vs"
  using assms
proof (induction ts arbitrary: s vs)
  case (Cons t ts)
  from Cons.prems(1) obtain v s1 vs' where v: "stream_in IS g t s = (Inr v, s1)" "vs = v # vs'"
    "stream_in_list IS g ts s1 = (Inr vs', s')" by (auto elim!: bind_InrE dest!: ret_InrE)
  from Cons.prems(2) [OF _ v(1)] Cons.IH [OF v(3)] Cons.prems(2) show ?case by (simp add: v(2))
qed (simp add: ret_def)

lemma stream_in_case_within:
  assumes "\<And>t s v s'. t \<in> set ts \<Longrightarrow> stream_in IS g t s = (Inr v, s') \<Longrightarrow> within narrow t v"
  shows "stream_in_case IS g ts n s = (Inr vs, s') \<Longrightarrow> within_case narrow ts n vs"
  using assms
proof (induction ts arbitrary: n)
  case (Cons t ts)
  show ?case
  proof (cases "n = 1")
    case True
    with Cons.prems(1) obtain v s1 where "stream_in IS g t s = (Inr v, s1)" "vs = [v]"
      by (auto elim!: bind_InrE dest!: ret_InrE)
    with Cons.prems(2) [of t s v s1] True show ?thesis by simp
  qed (use Cons in simp)
qed (simp add: ret_def)

lemma stream_in_within: "stream_in IS g t s = (Inr v, s') \<Longrightarrow> within narrow t v"
proof (induction t arbitrary: s v s')
  case (T_seq t)
  then obtain vs where "RpcContainer_serialize_in IS 16 (stream_in IS g t) s = (Inr vs, s')" "v = V_list vs"
    by (auto elim!: bind_InrE dest!: ret_InrE)
  with RpcContainer_all [OF T_seq.IH] show ?case by simp
next
  case (T_array N t)
  then obtain vs where "read_times N (stream_in IS g t) s = (Inr vs, s')" "v = V_list vs"
    by (auto simp: RArray_serialize_in_def elim!: bind_InrE dest!: ret_InrE)
  with read_times_all [OF T_array.IH] show ?case by simp
next
  case (T_struct ts)
  from T_struct.prems obtain vs where "stream_in_list IS g ts s = (Inr vs, s')" "v = V_list vs"
    by (auto elim!: bind_InrE dest!: ret_InrE)
  with stream_in_list_within [OF T_struct.IH] show ?case by simp
next
  case (T_variant ts)
  from T_variant.prems obtain tag vs s1 where
    "stream_in_case IS g ts (unat tag) s1 = (Inr vs, s')" "v = V_list (V_8 tag # vs)"
    by (auto elim!: bind_InrE dest!: ret_InrE)
  with stream_in_case_within [OF T_variant.IH] show ?case by simp
next
  case (T_set ins t)
  then obtain vs where "RBaseSet_serialize_in IS ins [] 16 (stream_in IS g t) s = (Inr vs, s')" "v = V_list vs"
    by (auto elim!: bind_InrE dest!: ret_InrE)
  with RBaseSet_all [OF T_set.IH] show ?case by simp
next
  case (T_map ins k t)
  then obtain kvs where "RBaseMap_serialize_in IS ins [] 16 (stream_in IS g k) (stream_in IS g t) s = (Inr kvs, s')" "v = V_map kvs"
    by (auto elim!: bind_InrE dest!: ret_InrE)
  with RBaseMap_all [OF T_map.IH] show ?case by simp
qed (auto simp: enum_read_def fits_def [of _ "take_bit _ _"] elim!: bind_InrE dest!: ret_InrE
    intro: lim_u64 lim_u32 lim_u16 lim_u8 lim_i64 lim_i32 lim_i16 lim_i8 lim_str lim_wstr)

lemma fields_within: "stream_in_list IS g ts s = (Inr vs, s') \<Longrightarrow> within_list narrow ts vs"
  by (rule stream_in_list_within [OF stream_in_within])

end

section \<open>The streams meet the contract\<close>

lemma readBits_fits:
  fixes v :: "'a::len word"
  assumes "readBitsImpl ops n s = (Inr v, s')"
  shows "fits n v" and "isEnoughBits LENGTH('a) n" and "nat n < 31 \<or> LENGTH('a) \<le> nat n"
proof -
  from assms show enough: "isEnoughBits LENGTH('a) n"
    by (auto simp: readBitsImpl_def throw_def split: if_splits)
  from assms obtain w :: "'a word" where w: "if nat n < LENGTH('a) then nat n < 31 \<and> v = w AND (push_bit (nat n) 1 - 1) else v = w"
    by (auto simp: readBitsImpl_def throw_def intMask_def Let_def elim!: bind_InrE dest!: ret_InrE split: if_splits)
  then show "nat n < 31 \<or> LENGTH('a) \<le> nat n" by (auto split: if_splits)
  show "fits n v"
  proof (cases "nat n < LENGTH('a)")
    case True
    with w have "v = take_bit (nat n) w" by (simp add: take_bit_eq_mask mask_eq_exp_minus_1)
    then show ?thesis by (simp add: fits_def)
  qed (simp add: fits_def take_bit_word_eq_self)
qed

lemma readNumeric_fits:
  fixes v :: "'a::len word"
  assumes "readNumeric ops n s = (Inr v, s')" and "LENGTH('a) \<le> 32"
  shows "fits n v"
proof -
  from assms(1) obtain w :: u32 and s1 where w: "readBitsImpl ops n s = (Inr w, s1)" "v = ucast w"
    by (auto simp: readNumeric_def elim!: bind_InrE dest!: ret_InrE)
  have "take_bit (nat n) w = w" using readBits_fits(1) [OF w(1)] by (simp add: fits_def)
  then have "bit w i \<Longrightarrow> i < nat n" for i by (metis bit_take_bit_iff)
  then show ?thesis by (auto simp: fits_def w(2) bit_eq_iff bit_take_bit_iff bit_ucast_iff)
qed

lemma signExtend_fits:
  fixes v :: "'a::len word"
  assumes "readBitsImpl ops n s = (Inr v, s1)" and "signExtend bits n v s1 = (Inr w, s')" and "bits \<le> LENGTH('a)"
  shows "w = (if n < int bits then signed_take_bit (nat n - 1) v else v)" and "0 < n"
proof -
  note r = readBits_fits [OF assms(1)]
  from r(2) show n: "0 < n" by (simp add: isEnoughBits_def)
  have "n < 31 \<or> int bits \<le> n" using r(3) n assms(3) by linarith
  from signExtend_run [OF n this assms(3), of v s1] r(1) assms(2)
  show "w = (if n < int bits then signed_take_bit (nat n - 1) v else v)" by (auto simp: fits_def)
qed

lemma fits_signed_wide: "int LENGTH('a::len) \<le> n \<Longrightarrow> fits_signed n (v :: 'a word)"
proof -
  assume n: "int LENGTH('a) \<le> n"
  have "bit v (min (nat n - 1) i) = bit v i" if "i < LENGTH('a)" for i
  proof -
    have "i \<le> nat n - 1" using n that by linarith
    then show ?thesis by (simp add: min_absorb2)
  qed
  then show ?thesis by (auto simp: fits_signed_def bit_eq_iff bit_signed_take_bit_iff)
qed

lemma readSigned_fits:
  fixes v :: "'a::len word"
  assumes "readSignedNumeric ops n s = (Inr v, s')" and "LENGTH('a) \<le> 32"
  shows "fits_signed n v"
proof -
  from assms(1) obtain w w' :: u32 and s1 where w: "readBitsImpl ops n s = (Inr w, s1)"
    "signExtend LENGTH('a) n w s1 = (Inr w', s')" "v = ucast w'"
    by (auto simp: readSignedNumeric_def elim!: bind_InrE dest!: ret_InrE)
  have "LENGTH('a) \<le> LENGTH(32)" using assms(2) by simp
  note e = signExtend_fits [OF w(1,2) this]
  show ?thesis
  proof (cases "n < int LENGTH('a)")
    case True
    with e have "w' = signed_take_bit (nat n - 1) w" "nat n - 1 < LENGTH('a)" by auto
    with assms(2) show ?thesis
      by (auto simp: fits_signed_def w(3) bit_eq_iff bit_signed_take_bit_iff bit_ucast_iff)
  qed (simp add: fits_signed_wide)
qed

lemma ibs_i64_fits: "ibs_i64 ops n s = (Inr v, s') \<Longrightarrow> fits_signed n v"
proof -
  assume "ibs_i64 ops n s = (Inr v, s')"
  then obtain w :: u64 and s1 where w: "readBitsImpl ops n s = (Inr w, s1)" "signExtend 64 n w s1 = (Inr v, s')"
    by (auto simp: ibs_i64_def elim!: bind_InrE)
  from signExtend_fits(1) [OF this] show ?thesis
    by (cases "n < 64") (simp_all add: fits_signed_wide, simp add: fits_signed_def)
qed

lemma cut_length: "ret (if m < length v then take m v else v) s = (Inr w, s') \<Longrightarrow> length w \<le> m"
  by (auto simp: ret_def split: if_splits)

lemma ibs_limited: "limited_reader (ibs_ops ops) True"
proof
  show "length cs \<le> maxLength" if "is_str (ibs_ops ops) maxLength n t = (Inr cs, t')" for maxLength n t cs t'
    using that by (auto simp: ibs_ops_def ibs_str_def elim!: bind_InrE dest: cut_length split: if_splits dest!: ret_InrE)
  show "length ws \<le> maxLength" if "is_wstr (ibs_ops ops) maxLength n t = (Inr ws, t')" for maxLength n t ws t'
    using that by (auto simp: ibs_ops_def ibs_wstr_def elim!: bind_InrE dest: cut_length split: if_splits dest!: ret_InrE)
qed (auto simp: ibs_ops_def dest: readBits_fits(1) ibs_i64_fits intro: readNumeric_fits readSigned_fits)

text \<open>Byte streams read numbers in their full width.\<close>

lemma iys_limited: "limited_reader (iys_ops ops) False"
proof
  show "length cs \<le> maxLength" if "is_str (iys_ops ops) maxLength n t = (Inr cs, t')" for maxLength n t cs t'
    using that by (auto simp: iys_ops_def iys_str_def elim!: bind_InrE dest: cut_length split: if_splits dest!: ret_InrE)
  show "length ws \<le> maxLength" if "is_wstr (iys_ops ops) maxLength n t = (Inr ws, t')" for maxLength n t ws t'
    using that by (auto simp: iys_ops_def iys_wstr_def elim!: bind_InrE dest: cut_length split: if_splits dest!: ret_InrE)
qed simp_all

interpretation limited_bits: limited_reader "ibs_ops ops" True for ops
  by (rule ibs_limited)

interpretation limited_bytes: limited_reader "iys_ops ops" False for ops
  by (rule iys_limited)

end
