(* ===== verification/Message_Delivery.thy ===== *)
theory Message_Delivery
  imports Session_Layer Stream_Limits
begin

text \<open>
  Typed messages between two sessions.  Whatever bytes arrive, a callback of \<open>MessagingExtension\<close> is run only on
  fields within the limits of their types (Stream\_Limits), and a message that cannot be read
  disconnects.  And messages that one session sends with \<open>MessagingExtension::sendMessage\<close>
  reach the callbacks of the other in order, however the network cuts the bytes: the counterpart for
  messages of the delivery of remote calls in Session\_Layer.
\<close>

section \<open>Sending and handling a message\<close>

context session_streams
begin

lemma send_message_run:
  assumes "valid_list empty_ok TList vs" and "oinv (ostream s)"
    and "can_send n (blocks s)" and "pc_getHeaderSize ops (coder s) = n"
  obtains p mb hdr body os hp where
    "MessagingExtension_sendMessage ops F mt TList vs s =
      (Inr (), s\<lparr>ostream := os, blocks := hp, tasks := tasks s @ [SendMessage (p, mb) mt]\<rparr>)"
    and "carries mb (hdr @ body)" and "length hdr = n" and "oinv os" and "can_send n hp"
    and "reads_back F iinv (stream_in_list (sf_in F) g TList) vs body"
proof -
  obtain p mb hdr body os hp where ser:
    "SessionImpl_serialize ops F (stream_out_list (sf_out F) TList vs) s =
      (Inr (Some p), s\<lparr>ostream := os, blocks := hp\<rparr>)"
    "bh_blocks (fst hp) p = Some mb" "carries mb (hdr @ body)" "length hdr = n"
    "oinv os" "can_send n hp" "reads_back F iinv (stream_in_list (sf_in F) g TList) vs body"
    by (rule serialize_run [OF transport_list [OF assms(1)] assms(2-4)])
  then have "MessagingExtension_sendMessage ops F mt TList vs s =
      (Inr (), s\<lparr>ostream := os, blocks := hp, tasks := tasks s @ [SendMessage (p, mb) mt]\<rparr>)"
    by (simp add: MessagingExtension_sendMessage_def SessionImpl_sendMessage_def post_task_def bind_def prog_defs
        block_at_def)
  with ser that show ?thesis by blast
qed

text \<open>A message that has arrived runs its callback with the values that were sent.\<close>

lemma message_handled:
  assumes "reads_back F iinv (stream_in_list (sf_in F) g TList) vs body" and "iinv (istream r)"
    and "mb_inv mb" and "mb_contents mb = body @ extra" and "map_of callbacks mt = Some (TList, func)"
  obtains t' where "iinv t'" and "MessagingExtension_handleMessage F g callbacks mt mb r =
    bind (func vs) (\<lambda>_. bind (gets (\<lambda>s. in_block F (istream s))) (\<lambda>mb. ret (True, mb))) (r\<lparr>istream := t'\<rparr>)"
proof -
  let ?t = "in_reset F mb (snd (is_reset (sf_in F) False (istream r)))"
  obtain t' where t': "stream_in_list (sf_in F) g TList ?t = (Inr vs, t')" "iinv t'"
    using assms(1-4) unfolding reads_back_def by blast
  have "catch_core (bind (on_session_istream (stream_in_list (sf_in F) g TList)) (\<lambda>vs. ret (Some vs))) h (r\<lparr>istream := ?t\<rparr>) =
      (Inr (Some vs), r\<lparr>istream := t'\<rparr>)" for h
    using t'(1) by (simp add: catch_core_def on_session_istream_def zoom_def ret_def bind_def prog_defs)
  then have "MessagingExtension_handleMessage F g callbacks mt mb r =
    bind (func vs) (\<lambda>_. bind (gets (\<lambda>s. in_block F (istream s))) (\<lambda>mb. ret (True, mb))) (r\<lparr>istream := t'\<rparr>)"
    by (simp add: MessagingExtension_handleMessage_def assms(5) bind_def deserialize_run)
  with that t'(2) show ?thesis .
qed

end

section \<open>Messages between two sessions\<close>

text \<open>A message is its type identifier, the types of its fields and their values.\<close>

type_synonym typed_message = "message_type \<times> rpc_type list \<times> rpc_value list"

definition send_messages ::
    "'c packet_coder_ops \<Rightarrow> ('s, 't) stream_factory \<Rightarrow> typed_message list \<Rightarrow> ('c, 's, 't, 'u, unit) session_prog" where
  "send_messages ops F = for_each (\<lambda>(mt, TList, vs). MessagingExtension_sendMessage ops F mt TList vs)"

text \<open>What a session keeps while it handles messages: a condition that does not depend on the stream it
  reads from, on the coder or on the tasks it has posted.\<close>

definition steady :: "('t \<Rightarrow> bool) \<Rightarrow> (('c, 's, 't, 'u) session_impl \<Rightarrow> bool) \<Rightarrow> bool" where
  "steady iinv J \<longleftrightarrow> (\<forall>q. J q \<longrightarrow> iinv (istream q)) \<and>
     (\<forall>q c ts. J q \<longrightarrow> J (q\<lparr>coder := c, tasks := ts\<rparr>)) \<and>
     (\<forall>q t. J q \<longrightarrow> iinv t \<longrightarrow> J (q\<lparr>istream := t\<rparr>))"

text \<open>A message whose callback is registered with its types, keeps \<open>J\<close> and the coder, and does \<open>f\<close> to the owner.\<close>

definition responds ::
    "bool \<Rightarrow> (('c, 's, 't, 'u) session_impl \<Rightarrow> bool) \<Rightarrow> ('c, 's, 't, 'u) message_callbacks \<Rightarrow>
     (message_type \<Rightarrow> rpc_value list \<Rightarrow> 'u \<Rightarrow> 'u) \<Rightarrow> typed_message \<Rightarrow> bool" where
  "responds empty_ok J callbacks f m \<longleftrightarrow> (case m of (mt, TList, vs) \<Rightarrow>
     isValidMessage mt \<and> mt \<noteq> csmtRpc \<and> valid_list empty_ok TList vs \<and>
     (\<exists>func. map_of callbacks mt = Some (TList, func) \<and>
       (\<forall>q. J q \<longrightarrow> (\<exists>q'. func vs q = (Inr (), q') \<and> J q' \<and> coder q' = coder q \<and> owner q' = f mt vs (owner q)))))"

context sgp_session
begin

definition holds_message :: "u64 \<Rightarrow> (out_block \<times> message_type) \<Rightarrow> typed_message \<Rightarrow> bool" where
  "holds_message g b m \<longleftrightarrow> (case m of (mt, TList, vs) \<Rightarrow> snd b = mt \<and> isValidMessage mt \<and>
     (\<exists>hdr body. carries (snd (fst b)) (hdr @ body) \<and> length hdr = hsize \<and>
        reads_back F iinv (stream_in_list (sf_in F) g TList) vs body))"

lemma holds_message_framed: "list_all2 (holds_message g) bs ms \<Longrightarrow> \<forall>b \<in> set bs. framed b"
  by (induction rule: list_all2_induct) (auto simp: holds_message_def framed_def split: prod.splits)

lemma send_messages_run:
  assumes "\<forall>(mt, TList, vs) \<in> set ms. isValidMessage mt \<and> valid_list empty_ok TList vs"
    and "oinv (ostream s)" and "can_send hsize (blocks s)"
  shows "\<exists>bs s'. send_messages ops F ms s = (Inr (), s') \<and>
    tasks s' = tasks s @ map (\<lambda>(b, mt). SendMessage b mt) bs \<and> list_all2 (holds_message g) bs ms"
  using assms
proof (induction ms arbitrary: s)
  case Nil
  then show ?case by (intro exI [of _ "[]"]) (simp add: send_messages_def skip_def)
next
  case (Cons m ms)
  obtain mt TList vs where m: "m = (mt, TList, vs)" using prod_cases3 by blast
  with Cons.prems have v: "valid_list empty_ok TList vs" "isValidMessage mt" by simp_all
  obtain p mb hdr body os hp where sent: "MessagingExtension_sendMessage ops F mt TList vs s =
      (Inr (), s\<lparr>ostream := os, blocks := hp, tasks := tasks s @ [SendMessage (p, mb) mt]\<rparr>)"
    "carries mb (hdr @ body)" "length hdr = hsize" "oinv os" "can_send hsize hp"
    "reads_back F iinv (stream_in_list (sf_in F) g TList) vs body"
    by (rule send_message_run [OF v(1) Cons.prems(2,3) headerSize])
  let ?s1 = "s\<lparr>ostream := os, blocks := hp, tasks := tasks s @ [SendMessage (p, mb) mt]\<rparr>"
  have s1: "oinv (ostream ?s1)" "can_send hsize (blocks ?s1)" using sent(4,5) by simp_all
  from Cons.IH [OF _ s1] Cons.prems(1) obtain bs s' where
    "send_messages ops F ms ?s1 = (Inr (), s')" "tasks s' = tasks ?s1 @ map (\<lambda>(b, mt). SendMessage b mt) bs"
    "list_all2 (holds_message g) bs ms" by auto
  moreover have "holds_message g ((p, mb), mt) m"
    using sent(2,3,6) v(2) by (auto simp: holds_message_def m)
  ultimately show ?case
    using sent(1) by (intro exI [of _ "((p, mb), mt) # bs"] exI [of _ s'])
      (simp add: send_messages_def m bind_def)
qed

lemma session_responds:
  assumes "exts \<in> sgp_extensions F g callbacks call" and J: "steady iinv J" "J r"
    and "responds empty_ok J callbacks f (mt, TList, vs)"
    and "reads_back F iinv (stream_in_list (sf_in F) g TList) vs body"
    and "mb_inv mb" and "mb_contents mb = body @ extra"
  shows "\<exists>mb' r' ts'. as_callback (Session_onMessageArrived exts) mt (c, mb, r, ts) = (Inr True, c, mb', r', ts') \<and>
    J r' \<and> owner r' = f mt vs (owner r)"
proof -
  let ?s = "r\<lparr>coder := c, tasks := ts\<rparr>"
  have Js: "J ?s" "iinv (istream ?s)" using J unfolding steady_def by (blast, simp)
  from assms(4) obtain func where func: "map_of callbacks mt = Some (TList, func)" "mt \<noteq> csmtRpc"
    and run: "\<And>q. J q \<Longrightarrow> \<exists>q'. func vs q = (Inr (), q') \<and> J q' \<and> coder q' = coder q \<and> owner q' = f mt vs (owner q)"
    by (auto simp: responds_def)
  obtain t' where t': "iinv t'" and han: "MessagingExtension_handleMessage F g callbacks mt mb ?s =
      bind (func vs) (\<lambda>_. bind (gets (\<lambda>s. in_block F (istream s))) (\<lambda>mb. ret (True, mb))) (?s\<lparr>istream := t'\<rparr>)"
    by (rule message_handled [OF assms(5) Js(2) assms(6,7) func(1)])
  have "J (?s\<lparr>istream := t'\<rparr>)" using J(1) Js(1) t' unfolding steady_def by blast
  from run [OF this] obtain q' where q': "func vs (?s\<lparr>istream := t'\<rparr>) = (Inr (), q')" "J q'" "coder q' = c"
    "owner q' = f mt vs (owner r)" by auto
  then have "Session_onMessageArrived exts mt mb ?s = (Inr (True, in_block F (istream q')), q')"
    using assms(1) func(2) han
    by (auto simp: sgp_extensions_def Session_onMessageArrived_def RpcingExtension_handleMessage_def bind_def prog_defs)
  with q' show ?thesis by (simp add: as_callback_def)
qed

lemma messages_handled:
  assumes "exts \<in> sgp_extensions F g callbacks call" and "steady iinv J"
    and "list_all2 (holds_message g) bs ms" and "\<forall>m \<in> set ms. responds empty_ok J callbacks f m" and "J r"
  shows "handles (as_callback (Session_onMessageArrived exts)) (map body_of bs)
    (\<lambda>(r', ts'). J r' \<and> owner r' = fold (\<lambda>(mt, TList, vs). f mt vs) ms (owner r)) (r, ts)"
  using assms(3-5)
proof (induction bs ms arbitrary: r ts rule: list_all2_induct)
  case Nil
  then show ?case by simp
next
  case (Cons b bs m ms)
  obtain mt TList vs where m: "m = (mt, TList, vs)" using prod_cases3 by blast
  obtain p mb mt' where b: "b = ((p, mb), mt')" by (metis surj_pair)
  obtain hdr body where mb: "carries mb (hdr @ body)" "length hdr = hsize" "mt' = mt"
    "reads_back F iinv (stream_in_list (sf_in F) g TList) vs body"
    using Cons.hyps(1) by (auto simp: holds_message_def m b)
  have res: "responds empty_ok J callbacks f (mt, TList, vs)" using Cons.prems(1) m by simp
  obtain extra where extra: "padded body = body @ extra" using padded_prefix by blast
  have step: "\<exists>c' mb' a'. as_callback (Session_onMessageArrived exts) mt (cd, rb, r, ts) = (Inr True, c', mb', a') \<and>
      (\<forall>e. sync e cd \<longrightarrow> sync e c') \<and> handles (as_callback (Session_onMessageArrived exts)) (map body_of bs)
        (\<lambda>(r', ts'). J r' \<and> owner r' = fold (\<lambda>(mt, TList, vs). f mt vs) (m # ms) (owner r)) a'"
    if "mb_inv rb" "mb_contents rb = padded body" for cd rb
  proof -
    from session_responds [OF assms(1,2) Cons.prems(2) res mb(4) that(1), of extra cd ts] that(2) extra
    obtain mb' r' ts' where r': "as_callback (Session_onMessageArrived exts) mt (cd, rb, r, ts) =
        (Inr True, cd, mb', r', ts')" "J r'" "owner r' = f mt vs (owner r)" by auto
    from Cons.IH [OF _ r'(2), of ts'] Cons.prems(1) r'(1,3) m show ?thesis by auto
  qed
  have "map body_of (b # bs) = (mt, padded body) # map body_of bs"
    using mb by (simp add: b carriesD)
  then show ?case using step by (simp only: handles.simps) blast
qed

lemma messages_arrive:
  assumes "exts \<in> sgp_extensions F g callbacks call" and "oinv (ostream s)" and "can_send hsize (blocks s)"
    and "steady iinv J" and "J r" and "\<forall>m \<in> set ms. responds empty_ok J callbacks f m" and syn: "sync e d"
  shows "\<exists>bs s'. send_messages ops F ms s = (Inr (), s') \<and>
    tasks s' = tasks s @ map (\<lambda>(b, mt). SendMessage b mt) bs \<and>
    ((\<forall>(b, mt) \<in> set bs. length (padded (drop hsize (mb_contents (snd b)))) < 65536) \<longrightarrow>
      (\<exists>packets e'. marshal_blocks ops bs e = Some (packets, e') \<and>
        (\<forall>chunks. concat chunks = packets \<longrightarrow> (\<exists>m' r' ts'.
          receive_all ops (as_callback (Session_onMessageArrived exts)) chunks
              (SgpMarshaller_new ops d (mb_new k) (mb_new k), 0, r, ts) =
            Some (Inr True, m', length ms, r', ts') \<and>
          J r' \<and> owner r' = fold (\<lambda>(mt, TList, vs). f mt vs) ms (owner r) \<and>
          sync e' (packetCoder m')))))"
proof -
  have "\<forall>(mt, TList, vs) \<in> set ms. isValidMessage mt \<and> valid_list empty_ok TList vs"
    using assms(6) by (auto simp: responds_def)
  from send_messages_run [OF this assms(2,3), of g] obtain bs s' where bs:
    "send_messages ops F ms s = (Inr (), s')" "tasks s' = tasks s @ map (\<lambda>(b, mt). SendMessage b mt) bs"
    "list_all2 (holds_message g) bs ms" by blast
  have "\<exists>packets e'. marshal_blocks ops bs e = Some (packets, e') \<and>
        (\<forall>chunks. concat chunks = packets \<longrightarrow> (\<exists>m' r' ts'.
          receive_all ops (as_callback (Session_onMessageArrived exts)) chunks
              (SgpMarshaller_new ops d (mb_new k) (mb_new k), 0, r, ts) =
            Some (Inr True, m', length ms, r', ts') \<and>
          J r' \<and> owner r' = fold (\<lambda>(mt, TList, vs). f mt vs) ms (owner r) \<and> sync e' (packetCoder m')))"
    if lim: "\<forall>(b, mt) \<in> set bs. length (padded (drop hsize (mb_contents (snd b)))) < 65536"
  proof -
    from lim have "\<forall>b \<in> set bs. length (snd (body_of b)) < 65536" by (auto split: prod.splits)
    then obtain packets e' where p: "marshal_blocks ops bs e = Some (packets, e')" "wire e (map body_of bs) packets e'"
      using marshal_blocks_wire [OF syn holds_message_framed [OF bs(3)]] by blast
    have "\<exists>m' r' ts'. receive_all ops (as_callback (Session_onMessageArrived exts)) chunks
          (SgpMarshaller_new ops d (mb_new k) (mb_new k), 0, r, ts) = Some (Inr True, m', length ms, r', ts') \<and>
        J r' \<and> owner r' = fold (\<lambda>(mt, TList, vs). f mt vs) ms (owner r) \<and> sync e' (packetCoder m')"
      if "concat chunks = packets" for chunks
      using delivery [OF syn _ messages_handled [OF assms(1,4) bs(3) assms(6,5), of ts],
          of chunks e' "mb_new k" "mb_new k"] p(2) that list_all2_lengthD [OF bs(3)]
      by auto
    with p(1) show ?thesis by blast
  qed
  with bs(1,2) show ?thesis by blast
qed

end

section \<open>Callbacks see messages within the limits\<close>

text \<open>A continuation sees only what the reader can return, or what the handler of exceptions returns.\<close>

lemma message_cong:
  assumes "\<And>t vs t'. stream_in_list istr g TList t = (Inr vs, t') \<Longrightarrow> k' (Some vs) = k (Some vs)" and "k' None = k None"
    and "\<And>q x q'. h q = (Inr x, q') \<Longrightarrow> x = None"
  shows "bind (catch_core (bind (on_session_istream (stream_in_list istr g TList)) (\<lambda>vs. ret (Some vs))) h) k' s =
    bind (catch_core (bind (on_session_istream (stream_in_list istr g TList)) (\<lambda>vs. ret (Some vs))) h) k s"
proof (cases "stream_in_list istr g TList (istream s)")
  case (Pair x t)
  show ?thesis
  proof (cases x)
    case (Inl e)
    with Pair show ?thesis
    proof (cases "h (s\<lparr>istream := t\<rparr>)")
      fix y q assume h: "h (s\<lparr>istream := t\<rparr>) = (y, q)"
      with assms(2) assms(3) [of "s\<lparr>istream := t\<rparr>"] Pair Inl show ?thesis
        by (cases y) (auto simp: catch_core_def on_session_istream_def zoom_def bind_def prog_defs)
    qed
  next
    case (Inr vs)
    with Pair have "k' (Some vs) = k (Some vs)"
      using assms(1) by simp
    with Pair Inr show ?thesis
      by (simp add: catch_core_def on_session_istream_def zoom_def bind_def prog_defs)
  qed
qed

lemma map_of_rel:
  assumes "list_all2 (\<lambda>(mt, TList, func) (mt', TList', func'). mt' = mt \<and> TList' = TList \<and>
      (\<forall>vs. within_list e TList vs \<longrightarrow> func' vs = func vs)) m m'"
  shows "case map_of m mt of None \<Rightarrow> map_of m' mt = None
    | Some (TList, func) \<Rightarrow> \<exists>func'. map_of m' mt = Some (TList, func') \<and> (\<forall>vs. within_list e TList vs \<longrightarrow> func' vs = func vs)"
  using assms by (induction rule: list_all2_induct) (auto split: option.split_asm)

lemma failed_message_None:
  "bind (gets messageBlock) (\<lambda>p. bind (release_at p) (\<lambda>_. bind SessionImpl_disconnect (\<lambda>_. ret None))) q = (Inr x, q') \<Longrightarrow>
    x = None"
  by (auto elim!: bind_InrE dest!: ret_InrE)

lemma bit_reader: "sf_in SneStreamFactory_bit = ibs_ops mbsb_ops" "in_block SneStreamFactory_bit = ib_buffer"
  by (simp_all add: SneStreamFactory_bit_def)

lemma bit_reader_deserialize:
  "SessionImpl_deserialize SneStreamFactory_bit mb s = (Inr (), s\<lparr>istream := (istream s)\<lparr>ib_buffer := mb, bitReadCount := 0\<rparr>\<rparr>)"
  by (simp add: SessionImpl_deserialize_def SneStreamFactory_bit_def ibs_ops_def ibs_reset_def on_session_istream_def zoom_def
      bind_def prog_defs)

section \<open>Properties\<close>

text \<open>C5: what a callback can see.  Whatever block arrives, \<open>MessagingExtension::handleMessage\<close> over bit streams behaves the
  same for two sets of callbacks that agree on messages whose fields are within the limits of the registered
  types: a number of \<open>n\<close> bits is below \<open>2\<close> to the \<open>n\<close> or, when it is signed, in the range of \<open>n\<close> bits, a string is no longer than its
  maximum, a sequence shorter than 65536, an array of its length, a variant has the payload of its
  tag.  And a block from which the fields cannot be read runs no callback and is not handled; the
  disconnection is posted.\<close>

theorem messages_within_limits:
  assumes "list_all2 (\<lambda>(mt, TList, func) (mt', TList', func'). mt' = mt \<and> TList' = TList \<and>
      (\<forall>vs. within_list True TList vs \<longrightarrow> func' vs = func vs)) callbacks callbacks'"
  shows "MessagingExtension_handleMessage SneStreamFactory_bit g callbacks' mt mb s =
      MessagingExtension_handleMessage SneStreamFactory_bit g callbacks mt mb s \<and>
    (\<forall>TList func e t. map_of callbacks mt = Some (TList, func) \<and>
        stream_in_list (ibs_ops mbsb_ops) g TList ((istream s)\<lparr>ib_buffer := mb, bitReadCount := 0\<rparr>) = (Inl (StreamingException e), t) \<longrightarrow>
      (\<exists>s'. MessagingExtension_handleMessage SneStreamFactory_bit g callbacks mt mb s = (Inr (False, ib_buffer t), s') \<and>
        tasks s' = tasks s @ [Disconnect] \<and> owner s' = owner s))"
proof (intro conjI allI impI)
  show "MessagingExtension_handleMessage SneStreamFactory_bit g callbacks' mt mb s =
      MessagingExtension_handleMessage SneStreamFactory_bit g callbacks mt mb s"
  proof (cases "map_of callbacks mt")
    case None
    with map_of_rel [OF assms, of mt] show ?thesis by (simp add: MessagingExtension_handleMessage_def)
  next
    case (Some x)
    obtain TList func where x: "x = (TList, func)" by (cases x)
    with Some map_of_rel [OF assms, of mt] obtain func' where func': "map_of callbacks' mt = Some (TList, func')"
      "\<And>vs. within_list True TList vs \<Longrightarrow> func' vs = func vs" by auto
    show ?thesis
      unfolding MessagingExtension_handleMessage_def Some func'(1) x option.case prod.case
      by (rule arg_cong2 [where f = "\<lambda>f s. bind (SessionImpl_deserialize SneStreamFactory_bit mb) f s"])
        (auto simp: func'(2) bit_reader intro!: ext message_cong dest: failed_message_None limited_bits.fields_within)
  qed
  fix TList func e t
  assume "map_of callbacks mt = Some (TList, func) \<and>
    stream_in_list (ibs_ops mbsb_ops) g TList ((istream s)\<lparr>ib_buffer := mb, bitReadCount := 0\<rparr>) = (Inl (StreamingException e), t)"
  then show "\<exists>s'. MessagingExtension_handleMessage SneStreamFactory_bit g callbacks mt mb s = (Inr (False, ib_buffer t), s') \<and>
      tasks s' = tasks s @ [Disconnect] \<and> owner s' = owner s"
    by (auto simp: MessagingExtension_handleMessage_def bind_def bit_reader bit_reader_deserialize catch_core_def
        on_session_istream_def zoom_def release_at_def SessionImpl_disconnect_def post_task_def prog_defs is_core_exception_def)
qed

text \<open>A callback that fails on strings of more than three characters never gets one.\<close>

theorem messages_within_limits_witness:
  "\<forall>g mt mb s. MessagingExtension_handleMessage SneStreamFactory_bit g
      [(4, [T_string 3 16], \<lambda>vs. case vs of [V_string cs] \<Rightarrow> if length cs \<le> 3 then skip else throw BadAlloc | _ \<Rightarrow> throw BadAlloc)] mt mb s =
    MessagingExtension_handleMessage SneStreamFactory_bit g [(4, [T_string 3 16], \<lambda>_. skip)] mt mb s"
proof (intro allI messages_within_limits [THEN conjunct1])
  have "(case vs of [V_string cs] \<Rightarrow> if length cs \<le> 3 then skip else throw BadAlloc | _ \<Rightarrow> throw BadAlloc) = skip"
    if "within_list True [T_string 3 16] vs" for vs
    using that by (auto split: list.splits rpc_value.splits)
  then show "list_all2 (\<lambda>(mt, TList, func) (mt', TList', func'). mt' = mt \<and> TList' = TList \<and>
      (\<forall>vs. within_list True TList vs \<longrightarrow> func' vs = func vs)) [(4, [T_string 3 16], \<lambda>_. skip)]
      [(4, [T_string 3 16], \<lambda>vs. case vs of [V_string cs] \<Rightarrow> if length cs \<le> 3 then skip else throw BadAlloc | _ \<Rightarrow> throw BadAlloc)]"
    unfolding list_all2_Cons list_all2_Nil prod.case by blast
qed

end
