(* ===== verification/Seed_Exchange.thy ===== *)
theory Seed_Exchange
  imports Message_Delivery
begin

text \<open>
  The exchange of cipher seeds between the two ends of an encrypted session
  (src/sgp/protocol/security/PacketSeedExchangerImpl.cpp) with its messages (CsMessage.h).  The
  client sends its public key, the server answers with two seeds encrypted for the client, and the
  client confirms.  RSA is a parameter: the callback of the exchanger encrypts and decrypts.  The
  handlers leave both coders in step in both directions; but the message with the new seeds is
  only posted while the new seed is set at once, so that it is encoded under the very seed it is
  to announce, and the client refuses it.
\<close>

section \<open>Messages\<close>

definition HeartbeatMessage_fields :: "rpc_type list" where
  "HeartbeatMessage_fields = []"

definition string_field :: rpc_type where
  "string_field = T_string 65535 16"

definition ExchangeSeedMessage_fields :: "rpc_type list" where
  "ExchangeSeedMessage_fields = [string_field, string_field, string_field]"

definition ExchangeSeedMessage_isEmpty :: "rpc_value list \<Rightarrow> bool" where
  "ExchangeSeedMessage_isEmpty message \<longleftrightarrow> (\<forall>v \<in> set message. v = V_string [])"

definition ExchangePublicKeyMessage_fields :: "rpc_type list" where
  "ExchangePublicKeyMessage_fields = [string_field]"

definition ConfirmSeedMessage_fields :: "rpc_type list" where
  "ConfirmSeedMessage_fields = []"

lemmas message_fields = HeartbeatMessage_fields_def string_field_def ExchangeSeedMessage_fields_def
  ExchangePublicKeyMessage_fields_def ConfirmSeedMessage_fields_def

section \<open>The exchanger\<close>

text \<open>The exchanger belongs to the session object, whose other members are \<open>session_object\<close>.\<close>

record 'v seed_owner =
  privateKey :: seed
  otherSidePublicKey :: seed
  exchangingDecryptSeed :: seed
  session_object :: 'v

type_synonym ('c, 's, 't, 'v, 'a) seed_prog = "('c, 's, 't, 'v seed_owner, 'a) session_prog"

text \<open>\<open>PacketSeedExchangerCallback\<close>.\<close>

record ('c, 's, 't, 'v) seed_callback =
  generatePublicAndPrivateKey :: "('v, bool \<times> seed \<times> seed) prog"
  encryptSeed :: "seed \<Rightarrow> seed \<Rightarrow> ('v, seed) prog"
  decryptSeed :: "seed \<Rightarrow> ('v, bool \<times> seed) prog"
  seedExchanged :: "('c, 's, 't, 'v, unit) seed_prog"

definition on_owner :: "('u \<Rightarrow> 'u) \<Rightarrow> ('c, 's, 't, 'u, unit) session_prog" where
  "on_owner f = modify (\<lambda>s. s\<lparr>owner := f (owner s)\<rparr>)"

definition on_object :: "('v, 'a) prog \<Rightarrow> ('c, 's, 't, 'v, 'a) seed_prog" where
  "on_object = zoom (\<lambda>s. session_object (owner s)) (\<lambda>v s. s\<lparr>owner := (owner s)\<lparr>session_object := v\<rparr>\<rparr>)"

definition on_coder :: "('c \<Rightarrow> 'c) \<Rightarrow> ('c, 's, 't, 'u, unit) session_prog" where
  "on_coder f = modify (\<lambda>s. s\<lparr>coder := f (coder s)\<rparr>)"

section \<open>PacketSeedExchangerForServer\<close>

definition ForServer_exchangePublicKey ::
    "'c packet_coder_ops \<Rightarrow> ('c, 's, 't, 'v) seed_callback \<Rightarrow> ('c, 's, 't, 'v, unit) seed_prog" where
  "ForServer_exchangePublicKey ops cb = bind (gets coder) (\<lambda>c.
     if \<not> pc_hasPacketCipher ops c then seedExchanged cb else skip)"

definition ForServer_exchangeSeed ::
    "'c packet_coder_ops \<Rightarrow> ('s, 't) stream_factory \<Rightarrow> ('c, 's, 't, 'v) seed_callback \<Rightarrow> seed \<Rightarrow>
     ('c, 's, 't, 'v, unit) seed_prog" where
  "ForServer_exchangeSeed ops F cb publicKey =
     bind (gets id) (\<lambda>s.
     if exchangingDecryptSeed (owner s) \<noteq> [] then skip
     else
       let (seedForEncrypt, seedForDecrypt) = pc_generateCipherSeed ops (coder s) in
       bind (on_owner (exchangingDecryptSeed_update (\<lambda>_. seedForDecrypt))) (\<lambda>_.
       let seedForEncryptTemp = seedForEncrypt in
       bind (on_object (encryptSeed cb seedForEncrypt (otherSidePublicKey (owner s)))) (\<lambda>seedForEncrypt.
       bind (on_object (encryptSeed cb seedForDecrypt (otherSidePublicKey (owner s)))) (\<lambda>seedForDecrypt.
       bind (MessagingExtension_sendMessage ops F csmtSystem_exchangeSeed ExchangeSeedMessage_fields
              [V_string publicKey, V_string seedForEncrypt, V_string seedForDecrypt]) (\<lambda>_.
       on_coder (pc_setEncryptSeed ops seedForEncryptTemp))))))"

definition ForServer_exchangeNextSeed ::
    "'c packet_coder_ops \<Rightarrow> ('s, 't) stream_factory \<Rightarrow> ('c, 's, 't, 'v) seed_callback \<Rightarrow> nat \<Rightarrow>
     ('c, 's, 't, 'v, unit) seed_prog" where
  "ForServer_exchangeNextSeed ops F cb now =
     bind (gets coder) (\<lambda>c.
     if \<not> pc_shouldExchangeCipherSeed ops c \<or> \<not> pc_isCipherKeyExpired ops now c then skip
     else
       bind (ForServer_exchangeSeed ops F cb []) (\<lambda>_.
       on_coder (pc_extendCipherKeyTimeLimit ops now)))"

definition ForServer_exchangeFirstSeed ::
    "'c packet_coder_ops \<Rightarrow> ('s, 't) stream_factory \<Rightarrow> ('c, 's, 't, 'v) seed_callback \<Rightarrow> seed \<Rightarrow>
     ('c, 's, 't, 'v, unit) seed_prog" where
  "ForServer_exchangeFirstSeed ops F cb publicKey =
     bind (gets coder) (\<lambda>c.
     if \<not> pc_shouldExchangeCipherSeed ops c then skip
     else
       bind (on_owner (exchangingDecryptSeed_update (\<lambda>_. []))) (\<lambda>_.
       ForServer_exchangeSeed ops F cb publicKey))"

text \<open>A message whose fields are not those of its type cannot reach a callback.\<close>

definition ForServer_onExchangePublicKey ::
    "'c packet_coder_ops \<Rightarrow> ('s, 't) stream_factory \<Rightarrow> ('c, 's, 't, 'v) seed_callback \<Rightarrow> rpc_value list \<Rightarrow>
     ('c, 's, 't, 'v, unit) seed_prog" where
  "ForServer_onExchangePublicKey ops F cb message =
     (case message of
        [V_string publicKey] \<Rightarrow>
          bind (gets coder) (\<lambda>c.
          if \<not> pc_shouldExchangeCipherSeed ops c then
            bind (MessagingExtension_sendMessage ops F csmtSystem_exchangeSeed ExchangeSeedMessage_fields
                   [V_string [], V_string [], V_string []]) (\<lambda>_.
            seedExchanged cb)
          else
            bind (on_owner (otherSidePublicKey_update (\<lambda>_. publicKey))) (\<lambda>_.
            bind (on_object (generatePublicAndPrivateKey cb)) (\<lambda>(generated, myPublicKey, key).
            bind (on_owner (privateKey_update (\<lambda>_. key))) (\<lambda>_.
            if \<not> generated then skip
            else ForServer_exchangeFirstSeed ops F cb myPublicKey))))
      | _ \<Rightarrow> throw (UndefinedBehaviour ''message of another type''))"

definition ForServer_onConfirmSeed ::
    "'c packet_coder_ops \<Rightarrow> ('c, 's, 't, 'v) seed_callback \<Rightarrow> rpc_value list \<Rightarrow> ('c, 's, 't, 'v, unit) seed_prog" where
  "ForServer_onConfirmSeed ops cb message =
     bind (gets (\<lambda>s. exchangingDecryptSeed (owner s))) (\<lambda>seed.
     bind (on_coder (pc_setDecryptSeed ops seed)) (\<lambda>_.
     bind (on_owner (exchangingDecryptSeed_update (\<lambda>_. []))) (\<lambda>_.
     seedExchanged cb)))"

definition ForServer_registerMessageCallbacks ::
    "'c packet_coder_ops \<Rightarrow> ('s, 't) stream_factory \<Rightarrow> ('c, 's, 't, 'v) seed_callback \<Rightarrow>
     ('c, 's, 't, 'v seed_owner) message_callbacks \<Rightarrow> ('c, 's, 't, 'v seed_owner) message_callbacks" where
  "ForServer_registerMessageCallbacks ops F cb m =
     registerMessageCallback csmtSystem_confirmSeed ConfirmSeedMessage_fields (ForServer_onConfirmSeed ops cb)
       (registerMessageCallback csmtSystem_exchangePublicKey ExchangePublicKeyMessage_fields
          (ForServer_onExchangePublicKey ops F cb) m)"

section \<open>PacketSeedExchangerForClient\<close>

definition ForClient_exchangePublicKey ::
    "'c packet_coder_ops \<Rightarrow> ('s, 't) stream_factory \<Rightarrow> ('c, 's, 't, 'v) seed_callback \<Rightarrow>
     ('c, 's, 't, 'v, unit) seed_prog" where
  "ForClient_exchangePublicKey ops F cb =
     bind (gets coder) (\<lambda>c.
     if \<not> pc_hasPacketCipher ops c then seedExchanged cb
     else
       bind (on_object (generatePublicAndPrivateKey cb)) (\<lambda>(generated, publicKey, key).
       bind (on_owner (privateKey_update (\<lambda>_. key))) (\<lambda>_.
       if \<not> generated then seedExchanged cb
       else MessagingExtension_sendMessage ops F csmtSystem_exchangePublicKey ExchangePublicKeyMessage_fields
              [V_string publicKey])))"

definition ForClient_onExchangeSeed ::
    "'c packet_coder_ops \<Rightarrow> ('s, 't) stream_factory \<Rightarrow> ('c, 's, 't, 'v) seed_callback \<Rightarrow> rpc_value list \<Rightarrow>
     ('c, 's, 't, 'v, unit) seed_prog" where
  "ForClient_onExchangeSeed ops F cb message =
     (case message of
        [V_string publicKey, V_string seedForEncrypt, V_string seedForDecrypt] \<Rightarrow>
          if ExchangeSeedMessage_isEmpty message then seedExchanged cb
          else
            bind (on_owner (otherSidePublicKey_update (\<lambda>_. publicKey))) (\<lambda>_.
            bind (on_object (decryptSeed cb seedForEncrypt)) (\<lambda>(decrypted, decryptedSeedForEncrypt).
            if \<not> decrypted then skip
            else
              bind (on_object (decryptSeed cb seedForDecrypt)) (\<lambda>(decrypted, decryptedSeedForDecrypt).
              if \<not> decrypted then skip
              else
                bind (on_coder (pc_setDecryptSeed ops decryptedSeedForEncrypt)) (\<lambda>_.
                bind (MessagingExtension_sendMessage ops F csmtSystem_confirmSeed ConfirmSeedMessage_fields []) (\<lambda>_.
                bind (on_coder (pc_setEncryptSeed ops decryptedSeedForDecrypt)) (\<lambda>_.
                seedExchanged cb))))))
      | _ \<Rightarrow> throw (UndefinedBehaviour ''message of another type''))"

definition ForClient_registerMessageCallbacks ::
    "'c packet_coder_ops \<Rightarrow> ('s, 't) stream_factory \<Rightarrow> ('c, 's, 't, 'v) seed_callback \<Rightarrow>
     ('c, 's, 't, 'v seed_owner) message_callbacks \<Rightarrow> ('c, 's, 't, 'v seed_owner) message_callbacks" where
  "ForClient_registerMessageCallbacks ops F cb m =
     registerMessageCallback csmtSystem_exchangeSeed ExchangeSeedMessage_fields (ForClient_onExchangeSeed ops F cb) m"

section \<open>Coders\<close>

lemma in_step_set_seeds:
  assumes "in_step g g'"
  shows "in_step (setDecryptCipherKey env j (setEncryptCipherKey env k g))
      (setEncryptCipherKey env j' (setDecryptCipherKey env k g'))"
    and "in_step (setEncryptCipherKey env k' (setDecryptCipherKey env j g'))
      (setDecryptCipherKey env k' (setEncryptCipherKey env k g))"
  using assms by (cases g; cases g'; simp)+

lemma getHeaderSize_secure: "pc_getHeaderSize (SecurePacketCoder CsPacketCoder env) c = 9"
  by (simp add: SecurePacketCoder_def secure_header_sizes)

lemma secure_ops: "pc_setEncryptSeed (SecurePacketCoder ops env) = SecurePacketCoder_setEncryptSeed env"
  "pc_setDecryptSeed (SecurePacketCoder ops env) = SecurePacketCoder_setDecryptSeed env"
  "pc_generateCipherSeed (SecurePacketCoder ops env) c = SecurePacketCoder_generateCipherSeed env"
  "pc_encode (SecurePacketCoder ops env) = SecurePacketCoder_encode ops env"
  "pc_decode (SecurePacketCoder ops env) = SecurePacketCoder_decode ops env"
  by (simp_all add: SecurePacketCoder_def)

lemma wire_header_length: "length (wire_header n mt) = 3"
  by (simp add: wire_header_def)

text \<open>A generated seed is a decimal number, never empty and of eleven characters at most.\<close>

definition is_seed :: "seed \<Rightarrow> bool" where
  "is_seed seed \<longleftrightarrow> seed \<noteq> [] \<and> length seed \<le> 11"

lemma dec_digits_length: "n < 10 ^ k \<Longrightarrow> 0 < k \<Longrightarrow> length (dec_digits n) \<le> k"
proof (induction n arbitrary: k rule: dec_digits.induct)
  case (1 n)
  show ?case
  proof (cases "n < 10")
    case False
    with "1.prems" obtain j where k: "k = Suc j" "0 < j" by (cases k rule: old.nat.exhaust; cases "k - 1") auto
    then have "n div 10 < 10 ^ j" using "1.prems" by (simp add: less_mult_imp_div_less mult.commute)
    with "1.IH" [OF False this k(2)] False show ?thesis by (subst dec_digits.simps) (simp add: k(1))
  qed (use "1.prems" in \<open>subst dec_digits.simps, simp\<close>)
qed

lemma format_d_is_seed: "is_seed (format_d v)"
proof -
  have "nat \<bar>sint v\<bar> < 10 ^ 10"
    using sint_greater_eq [of v] sint_less [of v] by simp
  then have "length (dec_digits (nat \<bar>sint v\<bar>)) \<le> 10" by (intro dec_digits_length) simp_all
  then show ?thesis
    using dec_digits_hd by (auto simp: is_seed_def format_d_def)
qed

lemma generated_seeds:
  "is_seed (fst (SecurePacketCoder_generateCipherSeed env))" "is_seed (snd (SecurePacketCoder_generateCipherSeed env))"
  by (simp_all add: SecurePacketCoder_generateCipherSeed_def format_d_is_seed split: prod.splits)

text \<open>A packet made with a coder that is at another key than the receiver.\<close>

lemma marshal_rejected:
  fixes e :: "(unit, 'r) secure_packet_coder"
  assumes "engine_pair (enc_engine env) (dec_engine env)" and "keyed (enc_engine env) (encryptor (cipher e))"
    and "carries mb (hdr @ body)" and "length hdr = 9" and "isValidMessage mt"
    and "getEncryptCipherKey env (cipherKeyGenerator e) = (k', g')"
    and "getDecryptCipherKey env (cipherKeyGenerator d) = (k, g)" and "getFingerPrint k' \<noteq> getFingerPrint k"
  obtains mb' e' where "SgpMarshaller_marshal (SecurePacketCoder CsPacketCoder env) mb mt e = (True, mb', e')"
    and "\<forall>rb. carries rb (mb_contents mb') \<longrightarrow>
      SecurePacketCoder_decode CsPacketCoder env rb d = (False, rb, d\<lparr>cipherKeyGenerator := g\<rparr>)"
proof -
  obtain mb' h' c' q where enc:
    "SecurePacketCoder_encode CsPacketCoder env mb \<lparr>bodySize = PacketCoder_getBodySize 9 mb, messageType = mt\<rparr> e =
       (True, mb', h', e\<lparr>cipherKeyGenerator := g', cipher := c'\<rparr>)"
    "carries mb' (wire_header (length (pad_to (BLOCKSIZE (enc_engine env)) body)) mt @ bytes_of 2 (getFingerPrint k') @ q)"
    by (rule secure_encode [OF assms(1-6)]) auto
  have "SgpMarshaller_marshal (SecurePacketCoder CsPacketCoder env) mb mt e =
      (True, mb', e\<lparr>cipherKeyGenerator := g', cipher := c'\<rparr>)"
    using enc(1) assms(3,4)
    by (simp add: SgpMarshaller_marshal_def getHeaderSize_secure PacketCoder_isValidPacket_def carriesD secure_ops)
  moreover have "SecurePacketCoder_decode CsPacketCoder env rb d = (False, rb, d\<lparr>cipherKeyGenerator := g\<rparr>)"
    if "carries rb (mb_contents mb')" for rb
    using that carriesD(2) [OF enc(2)] decode_rejects [OF _ _ assms(7,8)]
    by (metis wire_header_length)
  ultimately show ?thesis using that by blast
qed

section \<open>The contract of the callbacks\<close>

text \<open>The server encrypts seeds with the client's public key, and the client decrypts them; \<open>sealed\<close>
  relates a seed to what the client can decrypt.\<close>

definition keeps_coder :: "('c, 's, 't, 'v) seed_callback \<Rightarrow> bool" where
  "keeps_coder cb \<longleftrightarrow> (\<forall>q. \<exists>q'. seedExchanged cb q = (Inr (), q') \<and> coder q' = coder q)"

lemma keeps_coderE:
  assumes "keeps_coder cb"
  obtains q' where "seedExchanged cb q = (Inr (), q')" and "coder q' = coder q"
  using assms unfolding keeps_coder_def by blast

type_synonym ('r, 'v) secure_callback =
  "((unit, 'r) secure_packet_coder, memory_block obytestream, memory_block ibytestream, 'v) seed_callback"

locale seed_cipher =
  fixes scb :: "('r, 'v) secure_callback" and can_encrypt :: "'v \<Rightarrow> bool" and key :: seed
    and ccb :: "('r, 'w) secure_callback" and can_decrypt :: "'w \<Rightarrow> bool" and sealed :: "seed \<Rightarrow> seed \<Rightarrow> bool"
  assumes encrypts: "can_encrypt v \<Longrightarrow> is_seed seed \<Longrightarrow>
      \<exists>e v'. encryptSeed scb seed key v = (Inr e, v') \<and> can_encrypt v' \<and> sealed seed e"
    and decrypts: "can_decrypt w \<Longrightarrow> sealed seed e \<Longrightarrow>
      \<exists>w'. decryptSeed ccb e w = (Inr (True, seed), w') \<and> can_decrypt w'"
    and sealed_fits: "sealed seed e \<Longrightarrow> e \<noteq> [] \<and> length e < 65536"
begin

lemma exchangeSeed_run:
  assumes "oys_idle u (ostream s)" and "can_send 9 (blocks s)" and "exchangingDecryptSeed (owner s) = []"
    and "can_encrypt (session_object (owner s))" and "otherSidePublicKey (owner s) = key" and "length publicKey < 65536"
    and "SecurePacketCoder_generateCipherSeed env = seeds"
  obtains p mb hdr body s' e d where
    "ForServer_exchangeSeed (SecurePacketCoder CsPacketCoder env) SneStreamFactory_byte scb publicKey s = (Inr (), s')"
    and "tasks s' = tasks s @ [SendMessage (p, mb) csmtSystem_exchangeSeed]"
    and "coder s' = SecurePacketCoder_setEncryptSeed env (fst seeds) (coder s)"
    and "exchangingDecryptSeed (owner s') = snd seeds"
    and "carries mb (hdr @ body)" and "length hdr = 9" and "sealed (fst seeds) e" and "sealed (snd seeds) d"
    and "reads_back SneStreamFactory_byte (iys_idle u)
      (stream_in_list (sf_in SneStreamFactory_byte) g ExchangeSeedMessage_fields)
      [V_string publicKey, V_string e, V_string d] body"
proof -
  have is_seed: "is_seed (fst seeds)" "is_seed (snd seeds)" using generated_seeds assms(7) by auto
  obtain e v' where e: "encryptSeed scb (fst seeds) key (session_object (owner s)) = (Inr e, v')"
    "can_encrypt v'" "sealed (fst seeds) e" using encrypts [OF assms(4) is_seed(1)] by blast
  obtain d v'' where d: "encryptSeed scb (snd seeds) key v' = (Inr d, v'')" "sealed (snd seeds) d"
    using encrypts [OF e(2) is_seed(2)] by blast
  let ?s = "s\<lparr>owner := (owner s)\<lparr>exchangingDecryptSeed := snd seeds, session_object := v''\<rparr>\<rparr>"
  let ?vs = "[V_string publicKey, V_string e, V_string d]"
  have valid: "valid_list True ExchangeSeedMessage_fields ?vs"
    using sealed_fits [OF e(3)] sealed_fits [OF d(2)] assms(6) by (simp add: message_fields str_fits_def)
  have st: "oys_idle u (ostream ?s)" "can_send 9 (blocks ?s)" using assms(1,2) by simp_all
  obtain p mb hdr body os hp where send:
    "MessagingExtension_sendMessage (SecurePacketCoder CsPacketCoder env) SneStreamFactory_byte csmtSystem_exchangeSeed
        ExchangeSeedMessage_fields ?vs ?s =
      (Inr (), ?s\<lparr>ostream := os, blocks := hp, tasks := tasks ?s @ [SendMessage (p, mb) csmtSystem_exchangeSeed]\<rparr>)"
    and mb: "carries mb (hdr @ body)" "length hdr = 9"
    "reads_back SneStreamFactory_byte (iys_idle u)
      (stream_in_list (sf_in SneStreamFactory_byte) g ExchangeSeedMessage_fields) ?vs body"
    by (rule byte_streams.send_message_run [OF valid st getHeaderSize_secure])
  let ?s' = "?s\<lparr>ostream := os, blocks := hp, tasks := tasks s @ [SendMessage (p, mb) csmtSystem_exchangeSeed],
    coder := SecurePacketCoder_setEncryptSeed env (fst seeds) (coder s)\<rparr>"
  have "ForServer_exchangeSeed (SecurePacketCoder CsPacketCoder env) SneStreamFactory_byte scb publicKey s = (Inr (), ?s')"
    using send e(1) d(1) assms(3,5,7)
    by (cases seeds) (simp add: ForServer_exchangeSeed_def bind_def prog_defs on_owner_def on_object_def zoom_def
        on_coder_def secure_ops)
  with that [of ?s' p mb hdr body e d] mb e(3) d(2) show ?thesis by simp
qed

lemma onExchangeSeed_run:
  assumes "oys_idle u (ostream r)" and "can_send 9 (blocks r)" and "can_decrypt (session_object (owner r))"
    and "sealed (fst seeds) e" and "sealed (snd seeds) d" and "keeps_coder ccb"
  obtains r' where
    "ForClient_onExchangeSeed (SecurePacketCoder CsPacketCoder env) SneStreamFactory_byte ccb
        [V_string publicKey, V_string e, V_string d] r = (Inr (), r')"
    and "coder r' = SecurePacketCoder_setEncryptSeed env (snd seeds)
      (SecurePacketCoder_setDecryptSeed env (fst seeds) (coder r))"
proof -
  obtain w' where w': "decryptSeed ccb e (session_object (owner r)) = (Inr (True, fst seeds), w')" "can_decrypt w'"
    using decrypts [OF assms(3,4)] by blast
  obtain w'' where w'': "decryptSeed ccb d w' = (Inr (True, snd seeds), w'')"
    using decrypts [OF w'(2) assms(5)] by blast
  let ?r = "r\<lparr>owner := (owner r)\<lparr>otherSidePublicKey := publicKey, session_object := w''\<rparr>,
    coder := SecurePacketCoder_setDecryptSeed env (fst seeds) (coder r)\<rparr>"
  have st: "valid_list True ConfirmSeedMessage_fields []" "oys_idle u (ostream ?r)" "can_send 9 (blocks ?r)"
    using assms(1,2) by (simp_all add: message_fields)
  obtain os hp ts where sent:
    "MessagingExtension_sendMessage (SecurePacketCoder CsPacketCoder env) SneStreamFactory_byte csmtSystem_confirmSeed
        ConfirmSeedMessage_fields [] ?r = (Inr (), ?r\<lparr>ostream := os, blocks := hp, tasks := ts\<rparr>)"
    using byte_streams.send_message_run [OF st getHeaderSize_secure] by metis
  let ?q = "?r\<lparr>ostream := os, blocks := hp, tasks := ts,
    coder := SecurePacketCoder_setEncryptSeed env (snd seeds) (coder ?r)\<rparr>"
  obtain q' where "seedExchanged ccb ?q = (Inr (), q')" "coder q' = coder ?q"
    by (rule keeps_coderE [OF assms(6)])
  with that [of q'] sent w'(1) w'' sealed_fits [OF assms(4)] show ?thesis
    by (simp add: ForClient_onExchangeSeed_def ExchangeSeedMessage_isEmpty_def bind_def prog_defs
        on_owner_def on_object_def zoom_def on_coder_def secure_ops)
qed

lemma onConfirmSeed_run:
  assumes "keeps_coder scb"
  obtains s' where "ForServer_onConfirmSeed (SecurePacketCoder CsPacketCoder env) scb message s = (Inr (), s')"
    and "coder s' = SecurePacketCoder_setDecryptSeed env (exchangingDecryptSeed (owner s)) (coder s)"
proof -
  let ?q = "s\<lparr>coder := SecurePacketCoder_setDecryptSeed env (exchangingDecryptSeed (owner s)) (coder s),
    owner := (owner s)\<lparr>exchangingDecryptSeed := []\<rparr>\<rparr>"
  obtain q' where "seedExchanged scb ?q = (Inr (), q')" "coder q' = coder ?q"
    by (rule keeps_coderE [OF assms])
  with that [of q'] show ?thesis
    by (simp add: ForServer_onConfirmSeed_def bind_def prog_defs on_owner_def on_coder_def secure_ops)
qed

lemma agree:
  assumes "secure_sync env (coder s) (coder r)" and "secure_sync env (coder r) (coder s)"
    and "oys_idle u (ostream s)" and "can_send 9 (blocks s)" and "exchangingDecryptSeed (owner s) = []"
    and "can_encrypt (session_object (owner s))" and "otherSidePublicKey (owner s) = key" and "length publicKey < 65536"
    and "oys_idle u (ostream r)" and "can_send 9 (blocks r)" and "iys_idle u (istream r)"
    and "can_decrypt (session_object (owner r))" and "keeps_coder scb" and "keeps_coder ccb"
  shows "\<exists>s1 p mb. ForServer_exchangeSeed (SecurePacketCoder CsPacketCoder env) SneStreamFactory_byte scb publicKey s =
      (Inr (), s1) \<and> tasks s1 = tasks s @ [SendMessage (p, mb) csmtSystem_exchangeSeed] \<and>
    (\<forall>rb extra. mb_inv rb \<and> mb_contents rb = drop 9 (mb_contents mb) @ extra \<longrightarrow>
      (\<exists>rb' r1. MessagingExtension_handleMessage SneStreamFactory_byte g
          (ForClient_registerMessageCallbacks (SecurePacketCoder CsPacketCoder env) SneStreamFactory_byte ccb [])
          csmtSystem_exchangeSeed rb r = (Inr (True, rb'), r1) \<and>
        (\<forall>message. \<exists>s2. ForServer_onConfirmSeed (SecurePacketCoder CsPacketCoder env) scb message s1 = (Inr (), s2) \<and>
          secure_sync env (coder s2) (coder r1) \<and> secure_sync env (coder r1) (coder s2))))"
proof -
  let ?F = SneStreamFactory_byte and ?ops = "SecurePacketCoder CsPacketCoder env"
  let ?callbacks = "ForClient_registerMessageCallbacks ?ops ?F ccb []"
  define seeds where "seeds = SecurePacketCoder_generateCipherSeed env"
  obtain p mb hdr body s1 e d where run: "ForServer_exchangeSeed ?ops ?F scb publicKey s = (Inr (), s1)"
    "tasks s1 = tasks s @ [SendMessage (p, mb) csmtSystem_exchangeSeed]"
    "coder s1 = SecurePacketCoder_setEncryptSeed env (fst seeds) (coder s)" "exchangingDecryptSeed (owner s1) = snd seeds"
    and mb: "carries mb (hdr @ body)" "length hdr = 9" and seal: "sealed (fst seeds) e" "sealed (snd seeds) d"
    and rd: "reads_back ?F (iys_idle u) (stream_in_list (sf_in ?F) g ExchangeSeedMessage_fields)
      [V_string publicKey, V_string e, V_string d] body"
    by (rule exchangeSeed_run [OF assms(3-8) seeds_def [symmetric]])
  have cb: "map_of ?callbacks csmtSystem_exchangeSeed =
      Some (ExchangeSeedMessage_fields, ForClient_onExchangeSeed ?ops ?F ccb)"
    by (simp add: ForClient_registerMessageCallbacks_def registerMessageCallback_def)
  have "\<exists>rb' r1. MessagingExtension_handleMessage ?F g ?callbacks csmtSystem_exchangeSeed rb r = (Inr (True, rb'), r1) \<and>
      (\<forall>message. \<exists>s2. ForServer_onConfirmSeed ?ops scb message s1 = (Inr (), s2) \<and>
        secure_sync env (coder s2) (coder r1) \<and> secure_sync env (coder r1) (coder s2))"
    if rb: "mb_inv rb \<and> mb_contents rb = drop 9 (mb_contents mb) @ extra" for rb extra
  proof -
    have "mb_contents rb = body @ extra" using rb mb by (simp add: carriesD)
    with rb obtain t' where t': "MessagingExtension_handleMessage ?F g ?callbacks csmtSystem_exchangeSeed rb r =
        bind (ForClient_onExchangeSeed ?ops ?F ccb [V_string publicKey, V_string e, V_string d])
          (\<lambda>_. bind (gets (\<lambda>s. in_block ?F (istream s))) (\<lambda>mb. ret (True, mb))) (r\<lparr>istream := t'\<rparr>)"
      using byte_streams.message_handled [OF rd assms(11) _ _ cb, of rb extra] by blast
    obtain r1 where r1: "ForClient_onExchangeSeed ?ops ?F ccb [V_string publicKey, V_string e, V_string d]
        (r\<lparr>istream := t'\<rparr>) = (Inr (), r1)"
      "coder r1 = SecurePacketCoder_setEncryptSeed env (snd seeds)
        (SecurePacketCoder_setDecryptSeed env (fst seeds) (coder r))"
      using onExchangeSeed_run [of u "r\<lparr>istream := t'\<rparr>" seeds e d env publicKey] assms(9,10,12,14) seal by auto
    have "secure_sync env (coder s2) (coder r1) \<and> secure_sync env (coder r1) (coder s2)"
      if "coder s2 = SecurePacketCoder_setDecryptSeed env (exchangingDecryptSeed (owner s1)) (coder s1)" for s2
      using that r1(2) run(3,4) assms(1,2)
      by (auto simp: secure_sync_def SecurePacketCoder_setDecryptSeed_def SecurePacketCoder_setEncryptSeed_def
          intro: in_step_set_seeds)
    then have "\<exists>s2. ForServer_onConfirmSeed ?ops scb message s1 = (Inr (), s2) \<and>
        secure_sync env (coder s2) (coder r1) \<and> secure_sync env (coder r1) (coder s2)" for message
      using onConfirmSeed_run [OF assms(13), of env message s1] by metis
    with t' r1(1) show ?thesis by (auto simp: bind_def prog_defs)
  qed
  with run(1,2) show ?thesis by blast
qed

lemma rejected:
  assumes "engine_pair (enc_engine env) (dec_engine env)" and "secure_sync env (coder s) d"
    and "oys_idle u (ostream s)" and "can_send 9 (blocks s)" and "exchangingDecryptSeed (owner s) = []"
    and "can_encrypt (session_object (owner s))" and "otherSidePublicKey (owner s) = key" and "length publicKey < 65536"
    and "getDecryptCipherKey env (cipherKeyGenerator d) = (k, g)"
    and "getEncryptCipherKey env (setEncryptCipherKey env
      (toCipherKey (fst (SecurePacketCoder_generateCipherSeed env))) (cipherKeyGenerator (coder s))) = (k', g')"
    and "getFingerPrint k' \<noteq> getFingerPrint k"
  shows "\<exists>s1 p mb mb' e'. ForServer_exchangeSeed (SecurePacketCoder CsPacketCoder env) SneStreamFactory_byte scb publicKey s =
      (Inr (), s1) \<and> tasks s1 = tasks s @ [SendMessage (p, mb) csmtSystem_exchangeSeed] \<and>
    SgpMarshaller_marshal (SecurePacketCoder CsPacketCoder env) mb csmtSystem_exchangeSeed (coder s1) = (True, mb', e') \<and>
    (\<forall>rb. carries rb (mb_contents mb') \<longrightarrow>
      SecurePacketCoder_decode CsPacketCoder env rb d = (False, rb, d\<lparr>cipherKeyGenerator := g\<rparr>)) \<and>
    (length (pad_to (BLOCKSIZE (enc_engine env)) (drop 9 (mb_contents mb))) < 65536 \<longrightarrow>
      (\<exists>mb0 e0. SgpMarshaller_marshal (SecurePacketCoder CsPacketCoder env) mb csmtSystem_exchangeSeed (coder s) =
          (True, mb0, e0) \<and>
        (\<exists>rb' d'. SecurePacketCoder_decode CsPacketCoder env mb0 d = (True, rb', d') \<and> secure_sync env e0 d')))"
proof -
  let ?ops = "SecurePacketCoder CsPacketCoder env"
  obtain p mb hdr body s1 where run: "ForServer_exchangeSeed ?ops SneStreamFactory_byte scb publicKey s = (Inr (), s1)"
    "tasks s1 = tasks s @ [SendMessage (p, mb) csmtSystem_exchangeSeed]"
    and c: "coder s1 = SecurePacketCoder_setEncryptSeed env (fst (SecurePacketCoder_generateCipherSeed env)) (coder s)"
    and mb: "carries mb (hdr @ body)" "length hdr = 9"
    by (rule exchangeSeed_run [OF assms(3-8) refl])
  have mt: "isValidMessage csmtSystem_exchangeSeed" by (simp add: message_type_defs)
  have "keyed (enc_engine env) (encryptor (cipher (coder s1)))"
    "getEncryptCipherKey env (cipherKeyGenerator (coder s1)) = (k', g')"
    using assms(2,10) c by (simp_all add: secure_sync_def SecurePacketCoder_setEncryptSeed_def)
  then obtain mb' e' where new: "SgpMarshaller_marshal ?ops mb csmtSystem_exchangeSeed (coder s1) = (True, mb', e')"
    "\<forall>rb. carries rb (mb_contents mb') \<longrightarrow>
      SecurePacketCoder_decode CsPacketCoder env rb d = (False, rb, d\<lparr>cipherKeyGenerator := g\<rparr>)"
    using marshal_rejected [OF assms(1) _ mb mt _ assms(9,11), of "coder s1"] by blast
  have "\<exists>mb0 e0. SgpMarshaller_marshal ?ops mb csmtSystem_exchangeSeed (coder s) = (True, mb0, e0) \<and>
      (\<exists>rb' d'. SecurePacketCoder_decode CsPacketCoder env mb0 d = (True, rb', d') \<and> secure_sync env e0 d')"
    if "length (pad_to (BLOCKSIZE (enc_engine env)) (drop 9 (mb_contents mb))) < 65536"
  proof -
    have "length (pad_to (BLOCKSIZE (enc_engine env)) body) < 65536" using that mb by (simp add: carriesD)
    from packet_codec.encode [OF secure_packet_codec [OF assms(1)] assms(2) mb this mt] assms(2) mb show ?thesis
      by (fastforce simp: SgpMarshaller_marshal_def getHeaderSize_secure PacketCoder_isValidPacket_def carriesD secure_ops)
  qed
  with run new show ?thesis by blast
qed

end

end
