(* ===== verification/Rsa_Cipher.thy ===== *)
theory Rsa_Cipher
  imports Sne_Prelude
begin

text \<open>
  \<open>RsaCipher\<close> (src/security/cipher/RsaCipher.cpp), the wrapper around the RSA classes of Crypto++
  that the seed exchange uses.  Crypto++ and the C library's \<open>rand\<close> are parameters, collected in
  the record \<open>cryptopp\<close>; a call that throws \<open>std::exception\<close> returns its message.  The wrapper
  keeps the keys in DER form, one random pool and an output buffer of 128 bytes that every
  operation overwrites; an exception becomes the result 0 and a message.
\<close>

section \<open>Crypto++\<close>

record 'p cryptopp =
  RandomPool_new :: 'p
  IncorporateEntropy :: "byte list \<Rightarrow> 'p \<Rightarrow> 'p"
  GenerateKeys :: "nat \<Rightarrow> 'p \<Rightarrow> (byte list \<times> byte list) \<times> 'p"
  Encryptor_FixedCiphertextLength :: "byte list \<Rightarrow> string + nat"
  Encryptor_Encrypt :: "byte list \<Rightarrow> byte list \<Rightarrow> 'p \<Rightarrow> (string + byte list) \<times> 'p"
  Decryptor_FixedCiphertextLength :: "byte list \<Rightarrow> string + nat"
  Decryptor_Decrypt :: "byte list \<Rightarrow> byte list \<Rightarrow> 'p \<Rightarrow> (string + bool \<times> byte list) \<times> 'p"
  Signer_SignatureLength :: "byte list \<Rightarrow> string + nat"
  Signer_Sign :: "byte list \<Rightarrow> byte list \<Rightarrow> 'p \<Rightarrow> (string + byte list) \<times> 'p"
  Verifier_SignatureLength :: "byte list \<Rightarrow> string + nat"
  Verifier_Verify :: "byte list \<Rightarrow> byte list \<Rightarrow> byte list \<Rightarrow> string + bool"
  c_rand :: "nat \<Rightarrow> u32"

section \<open>RsaCipherImpl\<close>

definition maxBufferLength :: nat where "maxBufferLength = 128"
definition defaultPrivateKeyLength :: nat where "defaultPrivateKeyLength = 512"
definition defaultPrivateKeySeedLength :: nat where "defaultPrivateKeySeedLength = 64"

record 'p rsa_cipher =
  randomPool :: 'p
  rsa_publicKey :: "byte list"
  rsa_privateKey :: "byte list"
  outputBuffer :: "byte list"
  lastErrorMessage :: string

text \<open>An operation of the implementation returns a value or the message of an exception.\<close>

type_synonym ('p, 'a) rsa_prog = "('p rsa_cipher, string + 'a) prog"

definition initRandomPool :: "'p cryptopp \<Rightarrow> byte list \<Rightarrow> 'p" where
  "initRandomPool lib seed = IncorporateEntropy lib seed (RandomPool_new lib)"

definition RsaCipherImpl_default :: "'p cryptopp \<Rightarrow> 'p rsa_cipher" where
  "RsaCipherImpl_default lib = \<lparr>randomPool = initRandomPool lib [], rsa_publicKey = [], rsa_privateKey = [],
     outputBuffer = replicate maxBufferLength 0, lastErrorMessage = []\<rparr>"

definition RsaCipherImpl_new :: "'p cryptopp \<Rightarrow> nat \<Rightarrow> byte list \<Rightarrow> 'p rsa_cipher" where
  "RsaCipherImpl_new lib privateKeyLength seed =
     (let ((privKey, pubKey), pool) = GenerateKeys lib privateKeyLength (initRandomPool lib seed)
      in \<lparr>randomPool = pool, rsa_publicKey = pubKey, rsa_privateKey = privKey,
          outputBuffer = replicate maxBufferLength 0, lastErrorMessage = []\<rparr>)"

definition RsaCipherImpl_withKeys :: "'p cryptopp \<Rightarrow> byte list \<Rightarrow> byte list \<Rightarrow> byte list \<Rightarrow> 'p rsa_cipher" where
  "RsaCipherImpl_withKeys lib publicKey privateKey seed =
     \<lparr>randomPool = initRandomPool lib seed, rsa_publicKey = publicKey, rsa_privateKey = privateKey,
      outputBuffer = replicate maxBufferLength 0, lastErrorMessage = []\<rparr>"

text \<open>A call that draws from the pool, and one that only loads a key.\<close>

definition on_pool :: "('p \<Rightarrow> (string + 'a) \<times> 'p) \<Rightarrow> ('a \<Rightarrow> ('p, 'b) rsa_prog) \<Rightarrow> ('p, 'b) rsa_prog" where
  "on_pool f k c = (case f (randomPool c) of
     (Inl what, pool) \<Rightarrow> (Inr (Inl what), c\<lparr>randomPool := pool\<rparr>)
   | (Inr x, pool) \<Rightarrow> k x (c\<lparr>randomPool := pool\<rparr>))"

definition with_key :: "string + 'a \<Rightarrow> ('a \<Rightarrow> ('p, 'b) rsa_prog) \<Rightarrow> ('p, 'b) rsa_prog" where
  "with_key r k = (case r of Inl what \<Rightarrow> ret (Inl what) | Inr x \<Rightarrow> k x)"

text \<open>The encryptor and the decryptor write to the output buffer without looking at its size.\<close>

definition write_output :: "byte list \<Rightarrow> ('p rsa_cipher, unit) prog" where
  "write_output bs =
     (if maxBufferLength < length bs then throw (UndefinedBehaviour ''output buffer overrun'')
      else modify (\<lambda>c. c\<lparr>outputBuffer := bs @ drop (length bs) (outputBuffer c)\<rparr>))"

definition RsaCipherImpl_encryptOtherPublic :: "'p cryptopp \<Rightarrow> byte list \<Rightarrow> byte list \<Rightarrow> ('p, nat) rsa_prog" where
  "RsaCipherImpl_encryptOtherPublic lib message otherPublicKey =
     with_key (Encryptor_FixedCiphertextLength lib otherPublicKey) (\<lambda>n.
     on_pool (Encryptor_Encrypt lib otherPublicKey message) (\<lambda>encrypted.
     bind (write_output encrypted) (\<lambda>_.
     ret (Inr n))))"

definition RsaCipherImpl_encrypt :: "'p cryptopp \<Rightarrow> byte list \<Rightarrow> ('p, nat) rsa_prog" where
  "RsaCipherImpl_encrypt lib message =
     bind (gets rsa_publicKey) (\<lambda>key. RsaCipherImpl_encryptOtherPublic lib message key)"

definition RsaCipherImpl_decrypt :: "'p cryptopp \<Rightarrow> byte list \<Rightarrow> ('p, nat) rsa_prog" where
  "RsaCipherImpl_decrypt lib encrypted =
     bind (gets rsa_privateKey) (\<lambda>key.
     with_key (Decryptor_FixedCiphertextLength lib key) (\<lambda>n.
     if length encrypted < n then ret (Inr 0)
     else
       on_pool (Decryptor_Decrypt lib key (take n encrypted)) (\<lambda>(isValidCoding, message).
       if \<not> isValidCoding then ret (Inr 0)
       else
         bind (write_output message) (\<lambda>_.
         ret (Inr (length message))))))"

text \<open>The sink of the signer ends at the size of the buffer.\<close>

definition RsaCipherImpl_sign :: "'p cryptopp \<Rightarrow> byte list \<Rightarrow> ('p, nat) rsa_prog" where
  "RsaCipherImpl_sign lib message =
     bind (gets rsa_privateKey) (\<lambda>key.
     with_key (Signer_SignatureLength lib key) (\<lambda>n.
     on_pool (Signer_Sign lib key message) (\<lambda>signature.
     bind (write_output (take maxBufferLength signature)) (\<lambda>_.
     ret (Inr n)))))"

definition RsaCipherImpl_verifyOtherPublic ::
    "'p cryptopp \<Rightarrow> byte list \<Rightarrow> byte list \<Rightarrow> byte list \<Rightarrow> ('p, bool) rsa_prog" where
  "RsaCipherImpl_verifyOtherPublic lib message signature otherPublicKey =
     with_key (Verifier_SignatureLength lib otherPublicKey) (\<lambda>n.
     if length signature \<noteq> n then ret (Inr False)
     else ret (Verifier_Verify lib otherPublicKey message signature))"

definition RsaCipherImpl_verify :: "'p cryptopp \<Rightarrow> byte list \<Rightarrow> byte list \<Rightarrow> ('p, bool) rsa_prog" where
  "RsaCipherImpl_verify lib message signature =
     bind (gets rsa_publicKey) (\<lambda>key. RsaCipherImpl_verifyOtherPublic lib message signature key)"

section \<open>RsaCipher\<close>

text \<open>\<open>try { return r; } catch (const std::exception& e) { lastErrorMessage_ = e.what(); } return failed;\<close>\<close>

definition catch_std :: "'a \<Rightarrow> ('p, 'a) rsa_prog \<Rightarrow> ('p rsa_cipher, 'a) prog" where
  "catch_std failed p = bind p (\<lambda>r. case r of
     Inr x \<Rightarrow> ret x
   | Inl what \<Rightarrow> bind (modify (\<lambda>c. c\<lparr>lastErrorMessage := what\<rparr>)) (\<lambda>_. ret failed))"

definition RsaCipher_encryptMessage :: "'p cryptopp \<Rightarrow> byte list \<Rightarrow> ('p rsa_cipher, nat) prog" where
  "RsaCipher_encryptMessage lib message = catch_std 0 (RsaCipherImpl_encrypt lib message)"

definition RsaCipher_encryptOtherPublic :: "'p cryptopp \<Rightarrow> byte list \<Rightarrow> byte list \<Rightarrow> ('p rsa_cipher, nat) prog" where
  "RsaCipher_encryptOtherPublic lib message otherPublicKey =
     catch_std 0 (RsaCipherImpl_encryptOtherPublic lib message otherPublicKey)"

definition RsaCipher_decryptMessage :: "'p cryptopp \<Rightarrow> byte list \<Rightarrow> ('p rsa_cipher, nat) prog" where
  "RsaCipher_decryptMessage lib encrypted = catch_std 0 (RsaCipherImpl_decrypt lib encrypted)"

definition RsaCipher_sign :: "'p cryptopp \<Rightarrow> byte list \<Rightarrow> ('p rsa_cipher, nat) prog" where
  "RsaCipher_sign lib message = catch_std 0 (RsaCipherImpl_sign lib message)"

definition RsaCipher_verify :: "'p cryptopp \<Rightarrow> byte list \<Rightarrow> byte list \<Rightarrow> ('p rsa_cipher, bool) prog" where
  "RsaCipher_verify lib message signature = catch_std False (RsaCipherImpl_verify lib message signature)"

definition RsaCipher_verifyOtherPublic ::
    "'p cryptopp \<Rightarrow> byte list \<Rightarrow> byte list \<Rightarrow> byte list \<Rightarrow> ('p rsa_cipher, bool) prog" where
  "RsaCipher_verifyOtherPublic lib message signature otherPublicKey =
     catch_std False (RsaCipherImpl_verifyOtherPublic lib message signature otherPublicKey)"

text \<open>The overloads that replace a string; it stays as it was when they fail.\<close>

definition RsaCipher_encrypt :: "'p cryptopp \<Rightarrow> byte list \<Rightarrow> byte list \<Rightarrow> ('p rsa_cipher, bool \<times> byte list) prog" where
  "RsaCipher_encrypt lib message otherPublicKey =
     bind (RsaCipher_encryptOtherPublic lib message otherPublicKey) (\<lambda>encryptedLen.
     if encryptedLen = 0 then ret (False, message)
     else gets (\<lambda>c. (True, take encryptedLen (outputBuffer c))))"

definition RsaCipher_decrypt :: "'p cryptopp \<Rightarrow> byte list \<Rightarrow> ('p rsa_cipher, bool \<times> byte list) prog" where
  "RsaCipher_decrypt lib message =
     bind (RsaCipher_decryptMessage lib message) (\<lambda>decryptedLen.
     if decryptedLen = 0 then ret (False, message)
     else gets (\<lambda>c. (True, take decryptedLen (outputBuffer c))))"

definition RsaCipher_generateSeed :: "'p cryptopp \<Rightarrow> nat \<Rightarrow> byte list" where
  "RsaCipher_generateSeed lib n = map (\<lambda>i. ucast (c_rand lib i)) [0..<n]"

definition RsaCipher_getPublicKey :: "'p rsa_cipher \<Rightarrow> byte list" where
  "RsaCipher_getPublicKey c = rsa_publicKey c"

definition RsaCipher_getPrivateKey :: "'p rsa_cipher \<Rightarrow> byte list" where
  "RsaCipher_getPrivateKey c = rsa_privateKey c"

lemmas rsa_defs = with_key_def on_pool_def write_output_def catch_std_def bind_def prog_defs
  RsaCipherImpl_encryptOtherPublic_def RsaCipherImpl_encrypt_def RsaCipherImpl_decrypt_def
  RsaCipherImpl_sign_def RsaCipherImpl_verifyOtherPublic_def RsaCipherImpl_verify_def
  RsaCipher_encryptMessage_def RsaCipher_encryptOtherPublic_def RsaCipher_decryptMessage_def
  RsaCipher_sign_def RsaCipher_verify_def RsaCipher_verifyOtherPublic_def
  RsaCipher_encrypt_def RsaCipher_decrypt_def

section \<open>What Crypto++ promises\<close>

text \<open>A pair of keys: a ciphertext has the fixed length of the keys, and the private key recovers every
  message of at most \<open>limit\<close> bytes (\<open>FixedMaxPlaintextLength\<close>).\<close>

definition key_pair :: "'p cryptopp \<Rightarrow> nat \<Rightarrow> nat \<Rightarrow> byte list \<Rightarrow> byte list \<Rightarrow> bool" where
  "key_pair lib n limit pub priv \<longleftrightarrow> 0 < n \<and> limit \<le> n \<and>
     Encryptor_FixedCiphertextLength lib pub = Inr n \<and> Decryptor_FixedCiphertextLength lib priv = Inr n \<and>
     (\<forall>m pool. length m \<le> limit \<longrightarrow> (\<exists>c pool'. Encryptor_Encrypt lib pub m pool = (Inr c, pool') \<and> length c = n \<and>
        (\<forall>q. \<exists>q'. Decryptor_Decrypt lib priv c q = (Inr (True, m), q'))))"

definition signature_pair :: "'p cryptopp \<Rightarrow> nat \<Rightarrow> byte list \<Rightarrow> byte list \<Rightarrow> bool" where
  "signature_pair lib n pub priv \<longleftrightarrow>
     Signer_SignatureLength lib priv = Inr n \<and> Verifier_SignatureLength lib pub = Inr n \<and>
     (\<forall>m pool. \<exists>sg pool'. Signer_Sign lib priv m pool = (Inr sg, pool') \<and> length sg = n \<and>
        Verifier_Verify lib pub m sg = Inr True)"

text \<open>The keys of a cipher stay as they are.\<close>

definition same_keys :: "'p rsa_cipher \<Rightarrow> 'p rsa_cipher \<Rightarrow> bool" where
  "same_keys c c' \<longleftrightarrow> rsa_publicKey c' = rsa_publicKey c \<and> rsa_privateKey c' = rsa_privateKey c"

lemma rsa_encrypt_run:
  assumes "key_pair lib n limit pub priv" and "n \<le> maxBufferLength" and "length m \<le> limit"
  obtains e c' where "RsaCipher_encrypt lib m pub c = (Inr (True, e), c')" and "same_keys c c'" and "length e = n"
    and "\<forall>q. \<exists>q'. Decryptor_Decrypt lib priv e q = (Inr (True, m), q')"
proof -
  obtain e pool' where e: "Encryptor_Encrypt lib pub m (randomPool c) = (Inr e, pool')" "length e = n"
    "\<forall>q. \<exists>q'. Decryptor_Decrypt lib priv e q = (Inr (True, m), q')"
    using assms(1,3) unfolding key_pair_def by metis
  let ?c' = "c\<lparr>randomPool := pool', outputBuffer := e @ drop n (outputBuffer c)\<rparr>"
  have "RsaCipher_encrypt lib m pub c = (Inr (True, e), ?c')"
    using e(1,2) assms(1,2) by (simp add: rsa_defs key_pair_def)
  moreover have "same_keys c ?c'" by (simp add: same_keys_def)
  ultimately show ?thesis using that e(2,3) by blast
qed

lemma rsa_decrypt_run:
  assumes "key_pair lib n limit pub (rsa_privateKey d)" and "n \<le> maxBufferLength" and "length m \<le> limit" and "m \<noteq> []"
    and "length e = n" and "\<forall>q. \<exists>q'. Decryptor_Decrypt lib (rsa_privateKey d) e q = (Inr (True, m), q')"
  obtains d' where "RsaCipher_decrypt lib e d = (Inr (True, m), d')" and "same_keys d d'"
proof -
  obtain q' where q': "Decryptor_Decrypt lib (rsa_privateKey d) e (randomPool d) = (Inr (True, m), q')"
    using assms(6) by blast
  let ?d' = "d\<lparr>randomPool := q', outputBuffer := m @ drop (length m) (outputBuffer d)\<rparr>"
  have "RsaCipher_decrypt lib e d = (Inr (True, m), ?d')"
    using q' assms(1-5) by (simp add: rsa_defs key_pair_def)
  with that [of ?d'] show ?thesis by (simp add: same_keys_def)
qed

text \<open>A signature that a cipher makes with its private key and leaves in the output buffer is accepted
  by every cipher that verifies with the public key, when the signature fits the buffer.\<close>

lemma rsa_sign_verify:
  assumes "signature_pair lib n pub (rsa_privateKey c)" and "n \<le> maxBufferLength"
  shows "\<exists>c'. RsaCipher_sign lib m c = (Inr n, c') \<and>
    RsaCipher_verifyOtherPublic lib m (take n (outputBuffer c')) pub d = (Inr True, d)"
proof -
  obtain sg pool' where "Signer_Sign lib (rsa_privateKey c) m (randomPool c) = (Inr sg, pool')" "length sg = n"
    "Verifier_Verify lib pub m sg = Inr True"
    using assms(1) unfolding signature_pair_def by metis
  with assms show ?thesis by (simp add: rsa_defs signature_pair_def)
qed

section \<open>Properties\<close>

text \<open>What is encrypted for a public key is recovered by the cipher with the private key, for every
  message that is not empty and not longer than the keys allow, and neither cipher loses its keys.\<close>

lemma rsa_roundtrip:
  assumes "key_pair lib n limit pub (rsa_privateKey d)" and "n \<le> maxBufferLength" and "length m \<le> limit" and "m \<noteq> []"
  shows "\<exists>e c' d'. RsaCipher_encrypt lib m pub c = (Inr (True, e), c') \<and> same_keys c c' \<and>
    RsaCipher_decrypt lib e d = (Inr (True, m), d') \<and> same_keys d d'"
proof -
  obtain e c' where e: "RsaCipher_encrypt lib m pub c = (Inr (True, e), c')" "same_keys c c'" "length e = n"
    "\<forall>q. \<exists>q'. Decryptor_Decrypt lib (rsa_privateKey d) e q = (Inr (True, m), q')"
    using rsa_encrypt_run [OF assms(1-3), of c] .
  obtain d' where "RsaCipher_decrypt lib e d = (Inr (True, m), d')" "same_keys d d'"
    using rsa_decrypt_run [OF assms e(3,4)] .
  with e(1,2) show ?thesis by blast
qed

text \<open>A library for the witnesses: a ciphertext is the message in a frame of 32 bytes, with the length
  first; keys and pool play no part.\<close>

definition frame :: "byte list \<Rightarrow> byte list" where
  "frame m = word_of_nat (length m) # m @ replicate (31 - length m) 0"

definition toy_cryptopp :: "nat cryptopp" where
  "toy_cryptopp = \<lparr>RandomPool_new = 0, IncorporateEntropy = (\<lambda>_ p. p), GenerateKeys = (\<lambda>n p. (([1], [2]), p)),
     Encryptor_FixedCiphertextLength = (\<lambda>_. Inr 32),
     Encryptor_Encrypt = (\<lambda>_ m p. (if length m \<le> 31 then Inr (frame m) else Inl ''too long'', p + 1)),
     Decryptor_FixedCiphertextLength = (\<lambda>_. Inr 32),
     Decryptor_Decrypt = (\<lambda>_ c p. (Inr (True, take (unat (hd c)) (tl c)), p)),
     Signer_SignatureLength = (\<lambda>_. Inr 1), Signer_Sign = (\<lambda>_ m p. (Inr [sum_list m], p)),
     Verifier_SignatureLength = (\<lambda>_. Inr 1), Verifier_Verify = (\<lambda>_ m sg. Inr (sg = [sum_list m])),
     c_rand = (\<lambda>i. word_of_nat i)\<rparr>"

lemma toy_key_pair: "key_pair toy_cryptopp 32 31 pub priv"
  by (auto simp: key_pair_def toy_cryptopp_def frame_def unat_of_nat)

end
