(* ===== verification/Server_Session.thy ===== *)
theory Server_Session
  imports Seed_Exchange Rsa_Cipher
begin

text \<open>
  The session objects of the two ends: \<open>ServerSideSession\<close> and \<open>ClientSideSession\<close>
  (src/server/session), \<open>ClientSession\<close> (src/client/session), with the objects that watch over a
  connection, \<open>HeartBeatReceiver\<close> and \<open>Heartbeater\<close>.  They own the seed exchanger, whose callbacks
  they implement with RSA, and react to the events of the connection.  Times are milliseconds of
  the steady clock; what the clock shows is the argument \<open>now\<close>.
\<close>

definition getElapsedTime :: "nat \<Rightarrow> nat \<Rightarrow> u32" where
  "getElapsedTime now past = word_of_nat (now - past)"

section \<open>HeartBeatReceiver\<close>

record heartbeat_receiver =
  sessionId :: u32
  validHeartbeatInterval :: u32
  heartbeatTimer :: asio_timer
  lastHeartbeatedTime :: nat

definition HeartBeatReceiver_new :: "u32 \<Rightarrow> u32 \<Rightarrow> heartbeat_receiver" where
  "HeartBeatReceiver_new heartbeatTimeout sid = \<lparr>sessionId = sid, validHeartbeatInterval = heartbeatTimeout,
     heartbeatTimer = AsioTimer_new, lastHeartbeatedTime = 0\<rparr>"

definition HeartBeatReceiver_heartbeated :: "nat \<Rightarrow> heartbeat_receiver \<Rightarrow> heartbeat_receiver" where
  "HeartBeatReceiver_heartbeated now r = r\<lparr>lastHeartbeatedTime := now\<rparr>"

definition HeartBeatReceiver_setupTimer :: "nat \<Rightarrow> heartbeat_receiver \<Rightarrow> heartbeat_receiver" where
  "HeartBeatReceiver_setupTimer now r =
     (if validHeartbeatInterval r \<le> 0 then r
      else
        let r = HeartBeatReceiver_heartbeated now r
        in r\<lparr>heartbeatTimer := AsioTimer_repeat (unat (validHeartbeatInterval r)) 0 (heartbeatTimer r)\<rparr>)"

definition HeartBeatReceiver_cancelTimer :: "heartbeat_receiver \<Rightarrow> heartbeat_receiver" where
  "HeartBeatReceiver_cancelTimer r = r\<lparr>heartbeatTimer := AsioTimer_cancel (heartbeatTimer r)\<rparr>"

definition HeartBeatReceiver_isZombie :: "u32 \<Rightarrow> heartbeat_receiver \<Rightarrow> bool" where
  "HeartBeatReceiver_isZombie elapsed r \<longleftrightarrow> validHeartbeatInterval r \<le> elapsed"

text \<open>The receiver is a member of the session object, at \<open>get\<close> and \<open>upd\<close>.\<close>

definition HeartBeatReceiver_timedOut ::
    "('v \<Rightarrow> heartbeat_receiver) \<Rightarrow> ((heartbeat_receiver \<Rightarrow> heartbeat_receiver) \<Rightarrow> 'v \<Rightarrow> 'v) \<Rightarrow> nat \<Rightarrow>
     ('c, 's, 't, 'v, unit) seed_prog" where
  "HeartBeatReceiver_timedOut get upd now =
     bind (gets (\<lambda>s. get (session_object (owner s)))) (\<lambda>r.
     if HeartBeatReceiver_isZombie (getElapsedTime now (lastHeartbeatedTime r)) r then
       bind (on_object (modify (upd HeartBeatReceiver_cancelTimer))) (\<lambda>_.
       SessionImpl_disconnect)
     else skip)"

section \<open>Heartbeater\<close>

text \<open>\<open>HeartbeatSender\<close> and \<open>ClientHeartbeater\<close> only forward \<open>timedOut\<close> to \<open>sendHeartbeat\<close>.\<close>

record heartbeater =
  heartbeatInterval :: u32
  lastSentTime :: nat
  hb_timer :: "asio_timer option"

definition Heartbeater_new :: "u32 \<Rightarrow> heartbeater" where
  "Heartbeater_new interval = \<lparr>heartbeatInterval = interval, lastSentTime = 0, hb_timer = None\<rparr>"

definition Heartbeater_start :: "heartbeater \<Rightarrow> heartbeater" where
  "Heartbeater_start h =
     (let timer = (case hb_timer h of None \<Rightarrow> AsioTimer_new | Some t \<Rightarrow> t);
          timer = AsioTimer_cancel timer
      in h\<lparr>hb_timer := Some (if 0 < heartbeatInterval h then AsioTimer_repeat (unat (heartbeatInterval h)) 0 timer
                            else timer)\<rparr>)"

definition Heartbeater_stop :: "heartbeater \<Rightarrow> heartbeater" where
  "Heartbeater_stop h = h\<lparr>hb_timer := map_option AsioTimer_cancel (hb_timer h)\<rparr>"

definition Heartbeater_sent :: "nat \<Rightarrow> heartbeater \<Rightarrow> heartbeater" where
  "Heartbeater_sent now h = h\<lparr>lastSentTime := now\<rparr>"

definition Heartbeater_sendHeartbeat ::
    "'c packet_coder_ops \<Rightarrow> ('s, 't) stream_factory \<Rightarrow> nat \<Rightarrow> heartbeater \<Rightarrow> ('c, 's, 't, 'v, unit) seed_prog" where
  "Heartbeater_sendHeartbeat ops F now h =
     (if heartbeatInterval h \<le> getElapsedTime now (lastSentTime h)
      then MessagingExtension_sendMessage ops F csmtSystem_heartbeat HeartbeatMessage_fields []
      else skip)"

lemmas heartbeat_defs = HeartBeatReceiver_new_def HeartBeatReceiver_heartbeated_def HeartBeatReceiver_setupTimer_def
  HeartBeatReceiver_cancelTimer_def HeartBeatReceiver_isZombie_def Heartbeater_new_def Heartbeater_start_def
  Heartbeater_stop_def Heartbeater_sent_def

section \<open>ServerSideSession\<close>

definition ClientId_invalid :: u32 where "ClientId_invalid = 0"

text \<open>The counter is shared by all sessions.\<close>

definition getNextClientId :: "u32 \<Rightarrow> u32 \<times> u32" where
  "getNextClientId globalClientId = (globalClientId + 1, globalClientId + 1)"

text \<open>Of \<open>ServerSpec\<close> the session uses two members.\<close>

record 'p server_side_session =
  authenticationTimeout :: u16
  heartbeatTimeout :: u16
  ss_receiver :: "heartbeat_receiver option"
  ss_heartbeater :: "heartbeater option"
  authenticationTimer :: asio_timer
  clientId :: u32
  ss_rsaCipher :: "'p rsa_cipher option"
  isSeedExchanged :: bool
  connectedTime :: nat

type_synonym ('c, 's, 't, 'p, 'm, 'a) server_prog = "('c, 's, 't, ('p, 'm) server_side_session_scheme, 'a) seed_prog"

definition ServerSideSession_new :: "u16 \<Rightarrow> u16 \<Rightarrow> 'p server_side_session" where
  "ServerSideSession_new authTimeout hbTimeout = \<lparr>authenticationTimeout = authTimeout, heartbeatTimeout = hbTimeout,
     ss_receiver = None, ss_heartbeater = None, authenticationTimer = AsioTimer_new, clientId = ClientId_invalid,
     ss_rsaCipher = None, isSeedExchanged = False, connectedTime = 0\<rparr>"

text \<open>A call through a \<open>unique_ptr\<close> that may be null.\<close>

definition deref :: "'a option \<Rightarrow> ('s, 'a) prog" where
  "deref p = (case p of None \<Rightarrow> throw (UndefinedBehaviour ''null pointer'') | Some x \<Rightarrow> ret x)"

definition ServerSideSession_heartbeatMessageReceived :: "rpc_value list \<Rightarrow> ('c, 's, 't, 'p, 'm, unit) server_prog" where
  "ServerSideSession_heartbeatMessageReceived message = skip"

definition ServerSideSession_setupAuthenticationTimer :: "('c, 's, 't, 'p, 'm, unit) server_prog" where
  "ServerSideSession_setupAuthenticationTimer = on_object (modify (\<lambda>v.
     if 0 < authenticationTimeout v
     then v\<lparr>authenticationTimer := AsioTimer_once (unat (authenticationTimeout v)) 0 (authenticationTimer v)\<rparr>
     else v))"

definition ServerSideSession_cancelAuthenticationTimer :: "('c, 's, 't, 'p, 'm, unit) server_prog" where
  "ServerSideSession_cancelAuthenticationTimer =
     on_object (modify (\<lambda>v. v\<lparr>authenticationTimer := AsioTimer_cancel (authenticationTimer v)\<rparr>))"

definition ServerSideSession_authenticated :: "nat \<Rightarrow> ('c, 's, 't, 'p, 'm, unit) server_prog" where
  "ServerSideSession_authenticated now =
     bind ServerSideSession_cancelAuthenticationTimer (\<lambda>_.
     on_object (
       bind (gets id) (\<lambda>v.
       bind (deref (ss_receiver v)) (\<lambda>r.
       bind (modify (ss_receiver_update (\<lambda>_. Some (HeartBeatReceiver_setupTimer now r)))) (\<lambda>_.
       bind (deref (ss_heartbeater v)) (\<lambda>h.
       modify (ss_heartbeater_update (\<lambda>_. Some (Heartbeater_start h)))))))))"

definition ServerSideSession_extendAuthenticationTimeout :: "('c, 's, 't, 'p, 'm, unit) server_prog" where
  "ServerSideSession_extendAuthenticationTimeout =
     bind ServerSideSession_cancelAuthenticationTimer (\<lambda>_. ServerSideSession_setupAuthenticationTimer)"

definition ServerSideSession_unauthenticated :: "('c, 's, 't, 'p, 'm, unit) server_prog" where
  "ServerSideSession_unauthenticated = on_object (modify (\<lambda>v. v\<lparr>clientId := ClientId_invalid\<rparr>))"

definition ServerSideSession_initializeRsaCipher ::
    "'p cryptopp \<Rightarrow> ('p, 'm) server_side_session_scheme \<Rightarrow> ('p, 'm) server_side_session_scheme" where
  "ServerSideSession_initializeRsaCipher lib v =
     (if ss_rsaCipher v = None
      then v\<lparr>ss_rsaCipher := Some (RsaCipherImpl_new lib defaultPrivateKeyLength
             (RsaCipher_generateSeed lib defaultPrivateKeySeedLength))\<rparr>
      else v)"

definition ServerSideSession_initHeartbeater :: "('p, 'm) server_side_session_scheme \<Rightarrow> ('p, 'm) server_side_session_scheme" where
  "ServerSideSession_initHeartbeater v =
     (let v = (if ss_receiver v = None
               then v\<lparr>ss_receiver := Some (HeartBeatReceiver_new (ucast (heartbeatTimeout v)) (clientId v))\<rparr> else v)
      in if ss_heartbeater v = None
         then v\<lparr>ss_heartbeater := Some (Heartbeater_new (ucast (heartbeatTimeout v) div 3))\<rparr> else v)"

section \<open>The callbacks of the seed exchange\<close>

definition ServerSideSession_generatePublicAndPrivateKey :: "(('p, 'm) server_side_session_scheme, bool \<times> seed \<times> seed) prog" where
  "ServerSideSession_generatePublicAndPrivateKey =
     bind (bind (gets ss_rsaCipher) deref) (\<lambda>c.
     ret (True, RsaCipher_getPublicKey c, RsaCipher_getPrivateKey c))"

definition ServerSideSession_encryptSeed :: "'p cryptopp \<Rightarrow> seed \<Rightarrow> seed \<Rightarrow> (('p, 'm) server_side_session_scheme, seed) prog" where
  "ServerSideSession_encryptSeed lib seed otherKey =
     bind (bind (gets ss_rsaCipher) deref) (\<lambda>c.
     bind (zoom (\<lambda>v. the (ss_rsaCipher v)) (\<lambda>c v. v\<lparr>ss_rsaCipher := Some c\<rparr>)
             (RsaCipher_encrypt lib seed otherKey)) (\<lambda>(encrypted, seed).
     ret seed))"

definition ServerSideSession_decryptSeed :: "seed \<Rightarrow> (('p, 'm) server_side_session_scheme, bool \<times> seed) prog" where
  "ServerSideSession_decryptSeed seed = ret (False, seed)"

definition ServerSideSession_seedExchanged :: "('c, 's, 't, 'p, 'm, unit) server_prog" where
  "ServerSideSession_seedExchanged = on_object (modify (\<lambda>v. v\<lparr>isSeedExchanged := True\<rparr>))"

definition ServerSideSession_callback :: "'p cryptopp \<Rightarrow> ('c, 's, 't, ('p, 'm) server_side_session_scheme) seed_callback" where
  "ServerSideSession_callback lib = \<lparr>generatePublicAndPrivateKey = ServerSideSession_generatePublicAndPrivateKey,
     encryptSeed = ServerSideSession_encryptSeed lib, decryptSeed = ServerSideSession_decryptSeed,
     seedExchanged = ServerSideSession_seedExchanged\<rparr>"

section \<open>The events of a server side session\<close>

text \<open>\<open>onConnected\<close> returns its result and the counter of client ids.\<close>

definition ServerSideSession_onConnected ::
    "'c packet_coder_ops \<Rightarrow> 'p cryptopp \<Rightarrow> nat \<Rightarrow> u32 \<Rightarrow> ('c, 's, 't, 'p, 'm, bool \<times> u32) server_prog" where
  "ServerSideSession_onConnected ops lib now globalClientId =
     bind (on_object (modify (ServerSideSession_initializeRsaCipher lib))) (\<lambda>_.
     bind (on_object (modify (\<lambda>v. v\<lparr>isSeedExchanged := False\<rparr>))) (\<lambda>_.
     bind (ForServer_exchangePublicKey ops (ServerSideSession_callback lib)) (\<lambda>_.
     bind (on_object (modify ServerSideSession_initHeartbeater)) (\<lambda>_.
     let (cid, globalClientId) = getNextClientId globalClientId in
     bind (on_object (modify (\<lambda>v. v\<lparr>clientId := cid\<rparr>))) (\<lambda>_.
     bind ServerSideSession_setupAuthenticationTimer (\<lambda>_.
     bind (on_object (modify (\<lambda>v. v\<lparr>connectedTime := now\<rparr>))) (\<lambda>_.
     ret (True, globalClientId))))))))"

definition ServerSideSession_onMessageTransfered :: "bool \<Rightarrow> nat \<Rightarrow> ('c, 's, 't, 'p, 'm, unit) server_prog" where
  "ServerSideSession_onMessageTransfered connected now =
     (if connected then on_object (
        bind (bind (gets ss_heartbeater) deref) (\<lambda>h.
        modify (ss_heartbeater_update (\<lambda>_. Some (Heartbeater_sent now h)))))
      else skip)"

definition server_heartbeated :: "nat \<Rightarrow> ('c, 's, 't, 'p, 'm, unit) server_prog" where
  "server_heartbeated now = on_object (
     bind (bind (gets ss_receiver) deref) (\<lambda>r.
     modify (ss_receiver_update (\<lambda>_. Some (HeartBeatReceiver_heartbeated now r)))))"

definition ServerSideSession_onMessageArrived ::
    "'c packet_coder_ops \<Rightarrow> ('s, 't) stream_factory \<Rightarrow> 'p cryptopp \<Rightarrow> nat \<Rightarrow>
     ('c, 's, 't, ('p, 'm) server_side_session_scheme seed_owner) extension list \<Rightarrow>
     ('c, 's, 't, ('p, 'm) server_side_session_scheme seed_owner) extension" where
  "ServerSideSession_onMessageArrived ops F lib now exts mt mb =
     bind (server_heartbeated now) (\<lambda>_.
     bind (Session_onMessageArrived exts mt mb) (\<lambda>(handled, mb).
     if handled then ret (True, mb)
     else
       bind (gets (\<lambda>s. isSeedExchanged (session_object (owner s)))) (\<lambda>exchanged.
       if \<not> exchanged then ret (False, mb)
       else
         bind (ForServer_exchangeNextSeed ops F (ServerSideSession_callback lib) now) (\<lambda>_.
         ret (False, mb)))))"

definition ServerSideSession_onDisconnected :: "('c, 's, 't, 'p, 'm, unit) server_prog" where
  "ServerSideSession_onDisconnected =
     bind ServerSideSession_cancelAuthenticationTimer (\<lambda>_.
     on_object (modify (\<lambda>v. v\<lparr>ss_receiver := map_option HeartBeatReceiver_cancelTimer (ss_receiver v),
       ss_heartbeater := map_option Heartbeater_stop (ss_heartbeater v)\<rparr>)))"

definition ServerSideSession_timedOut :: "('c, 's, 't, 'p, 'm, unit) server_prog" where
  "ServerSideSession_timedOut =
     bind ServerSideSession_cancelAuthenticationTimer (\<lambda>_. SessionImpl_disconnectGracefully)"

definition ServerSideSession_registerCallbacks ::
    "'c packet_coder_ops \<Rightarrow> ('s, 't) stream_factory \<Rightarrow> 'p cryptopp \<Rightarrow>
     ('c, 's, 't, ('p, 'm) server_side_session_scheme seed_owner) message_callbacks" where
  "ServerSideSession_registerCallbacks ops F lib =
     registerMessageCallback csmtSystem_heartbeat HeartbeatMessage_fields ServerSideSession_heartbeatMessageReceived
       (ForServer_registerMessageCallbacks ops F (ServerSideSession_callback lib) [])"

section \<open>ClientSideSession\<close>

record 'p client_side_session =
  cs_heartbeater :: heartbeater
  cs_receiver :: heartbeat_receiver
  cs_rsaCipher :: "'p rsa_cipher"

type_synonym ('c, 's, 't, 'p, 'm, 'a) client_side_prog = "('c, 's, 't, ('p, 'm) client_side_session_scheme, 'a) seed_prog"

definition ClientSideSession_new :: "'p cryptopp \<Rightarrow> u32 \<Rightarrow> 'p client_side_session" where
  "ClientSideSession_new lib interval = \<lparr>cs_heartbeater = Heartbeater_new interval,
     cs_receiver = HeartBeatReceiver_new (interval * 3) 0,
     cs_rsaCipher = RsaCipherImpl_new lib defaultPrivateKeyLength (RsaCipher_generateSeed lib defaultPrivateKeySeedLength)\<rparr>"

definition ClientSideSession_heartbeatMessageReceived :: "rpc_value list \<Rightarrow> ('c, 's, 't, 'p, 'm, unit) client_side_prog" where
  "ClientSideSession_heartbeatMessageReceived message = skip"

definition ClientSideSession_generatePublicAndPrivateKey :: "(('p, 'm) client_side_session_scheme, bool \<times> seed \<times> seed) prog" where
  "ClientSideSession_generatePublicAndPrivateKey =
     gets (\<lambda>v. (True, RsaCipher_getPublicKey (cs_rsaCipher v), RsaCipher_getPrivateKey (cs_rsaCipher v)))"

definition ClientSideSession_encryptSeed :: "seed \<Rightarrow> seed \<Rightarrow> (('p, 'm) client_side_session_scheme, seed) prog" where
  "ClientSideSession_encryptSeed seed otherKey = ret seed"

definition ClientSideSession_decryptSeed :: "'p cryptopp \<Rightarrow> seed \<Rightarrow> (('p, 'm) client_side_session_scheme, bool \<times> seed) prog" where
  "ClientSideSession_decryptSeed lib seed =
     zoom cs_rsaCipher (\<lambda>c v. v\<lparr>cs_rsaCipher := c\<rparr>) (RsaCipher_decrypt lib seed)"

text \<open>\<open>onValidated\<close> belongs to the class derived from the session.\<close>

definition ClientSideSession_seedExchanged ::
    "('c, 's, 't, 'p, 'm, unit) client_side_prog \<Rightarrow> ('c, 's, 't, 'p, 'm, unit) client_side_prog" where
  "ClientSideSession_seedExchanged onValidated =
     bind (on_object (modify (cs_heartbeater_update Heartbeater_start))) (\<lambda>_. onValidated)"

definition ClientSideSession_callback ::
    "'p cryptopp \<Rightarrow> ('c, 's, 't, 'p, 'm, unit) client_side_prog \<Rightarrow> ('c, 's, 't, ('p, 'm) client_side_session_scheme) seed_callback" where
  "ClientSideSession_callback lib onValidated =
     \<lparr>generatePublicAndPrivateKey = ClientSideSession_generatePublicAndPrivateKey,
      encryptSeed = ClientSideSession_encryptSeed, decryptSeed = ClientSideSession_decryptSeed lib,
      seedExchanged = ClientSideSession_seedExchanged onValidated\<rparr>"

definition ClientSideSession_onConnected ::
    "'c packet_coder_ops \<Rightarrow> ('s, 't) stream_factory \<Rightarrow> 'p cryptopp \<Rightarrow> ('c, 's, 't, 'p, 'm, unit) client_side_prog \<Rightarrow> nat \<Rightarrow>
     ('c, 's, 't, 'p, 'm, bool) client_side_prog" where
  "ClientSideSession_onConnected ops F lib onValidated now =
     bind (ForClient_exchangePublicKey ops F (ClientSideSession_callback lib onValidated)) (\<lambda>_.
     bind (on_object (modify (cs_receiver_update (HeartBeatReceiver_setupTimer now)))) (\<lambda>_.
     ret True))"

definition ClientSideSession_onDisconnected :: "('c, 's, 't, 'p, 'm, unit) client_side_prog" where
  "ClientSideSession_onDisconnected = on_object (modify (\<lambda>v.
     v\<lparr>cs_heartbeater := Heartbeater_stop (cs_heartbeater v),
       cs_receiver := HeartBeatReceiver_cancelTimer (cs_receiver v)\<rparr>))"

definition ClientSideSession_onMessageTransfered :: "bool \<Rightarrow> nat \<Rightarrow> ('c, 's, 't, 'p, 'm, unit) client_side_prog" where
  "ClientSideSession_onMessageTransfered connected now =
     (if connected then on_object (modify (cs_heartbeater_update (Heartbeater_sent now))) else skip)"

definition ClientSideSession_registerCallbacks ::
    "'c packet_coder_ops \<Rightarrow> ('s, 't) stream_factory \<Rightarrow> 'p cryptopp \<Rightarrow> ('c, 's, 't, 'p, 'm, unit) client_side_prog \<Rightarrow>
     ('c, 's, 't, ('p, 'm) client_side_session_scheme seed_owner) message_callbacks" where
  "ClientSideSession_registerCallbacks ops F lib onValidated =
     registerMessageCallback csmtSystem_heartbeat HeartbeatMessage_fields ClientSideSession_heartbeatMessageReceived
       (ForClient_registerMessageCallbacks ops F (ClientSideSession_callback lib onValidated) [])"

section \<open>ClientSession\<close>

text \<open>The session of a client program.  Its callback may be null.\<close>

record 'p client_session =
  cl_heartbeater :: heartbeater
  cl_rsaCipher :: "'p rsa_cipher"
  packetSeedExchanged :: bool

type_synonym ('c, 's, 't, 'p, 'a) client_prog = "('c, 's, 't, 'p client_session, 'a) seed_prog"

record ('c, 's, 't, 'p) client_session_callback =
  cc_onValidated :: "('c, 's, 't, 'p, unit) client_prog"
  cc_onDisconnected :: "('c, 's, 't, 'p, unit) client_prog"

definition ClientSession_new :: "'p cryptopp \<Rightarrow> u32 \<Rightarrow> 'p client_session" where
  "ClientSession_new lib interval = \<lparr>cl_heartbeater = Heartbeater_new interval,
     cl_rsaCipher = RsaCipherImpl_new lib defaultPrivateKeyLength (RsaCipher_generateSeed lib defaultPrivateKeySeedLength),
     packetSeedExchanged = False\<rparr>"

definition ClientSession_generatePublicAndPrivateKey :: "('p client_session, bool \<times> seed \<times> seed) prog" where
  "ClientSession_generatePublicAndPrivateKey =
     gets (\<lambda>v. (True, RsaCipher_getPublicKey (cl_rsaCipher v), RsaCipher_getPrivateKey (cl_rsaCipher v)))"

definition ClientSession_encryptSeed :: "seed \<Rightarrow> seed \<Rightarrow> ('p client_session, seed) prog" where
  "ClientSession_encryptSeed seed otherKey = ret seed"

definition ClientSession_decryptSeed :: "'p cryptopp \<Rightarrow> seed \<Rightarrow> ('p client_session, bool \<times> seed) prog" where
  "ClientSession_decryptSeed lib seed =
     zoom cl_rsaCipher (\<lambda>c v. v\<lparr>cl_rsaCipher := c\<rparr>) (RsaCipher_decrypt lib seed)"

definition ClientSession_seedExchanged ::
    "('c, 's, 't, 'p) client_session_callback option \<Rightarrow> ('c, 's, 't, 'p, unit) client_prog" where
  "ClientSession_seedExchanged callback =
     bind (gets (\<lambda>s. packetSeedExchanged (session_object (owner s)))) (\<lambda>exchanged.
     if \<not> exchanged then
       bind (on_object (modify (packetSeedExchanged_update (\<lambda>_. True)))) (\<lambda>_.
       bind (bind (deref callback) cc_onValidated) (\<lambda>_.
       on_object (modify (cl_heartbeater_update Heartbeater_start))))
     else skip)"

definition ClientSession_callback ::
    "'p cryptopp \<Rightarrow> ('c, 's, 't, 'p) client_session_callback option \<Rightarrow> ('c, 's, 't, 'p client_session) seed_callback" where
  "ClientSession_callback lib callback =
     \<lparr>generatePublicAndPrivateKey = ClientSession_generatePublicAndPrivateKey,
      encryptSeed = ClientSession_encryptSeed, decryptSeed = ClientSession_decryptSeed lib,
      seedExchanged = ClientSession_seedExchanged callback\<rparr>"

definition ClientSession_onConnected ::
    "'c packet_coder_ops \<Rightarrow> ('s, 't) stream_factory \<Rightarrow> 'p cryptopp \<Rightarrow> ('c, 's, 't, 'p) client_session_callback option \<Rightarrow>
     ('c, 's, 't, 'p, bool) client_prog" where
  "ClientSession_onConnected ops F lib callback =
     bind (on_object (modify (packetSeedExchanged_update (\<lambda>_. False)))) (\<lambda>_.
     bind (ForClient_exchangePublicKey ops F (ClientSession_callback lib callback)) (\<lambda>_.
     bind (on_object (modify (cl_heartbeater_update Heartbeater_stop))) (\<lambda>_.
     ret True)))"

definition ClientSession_onMessageTransfered :: "nat \<Rightarrow> ('c, 's, 't, 'p, unit) client_prog" where
  "ClientSession_onMessageTransfered now = on_object (modify (cl_heartbeater_update (Heartbeater_sent now)))"

definition ClientSession_onDisconnected ::
    "('c, 's, 't, 'p) client_session_callback option \<Rightarrow> ('c, 's, 't, 'p, unit) client_prog" where
  "ClientSession_onDisconnected callback =
     bind (on_object (modify (cl_heartbeater_update Heartbeater_stop))) (\<lambda>_.
     bind (case callback of None \<Rightarrow> skip | Some cb \<Rightarrow> cc_onDisconnected cb) (\<lambda>_.
     on_object (modify (packetSeedExchanged_update (\<lambda>_. False)))))"

section \<open>RSA meets the contract of the exchange\<close>

text \<open>A session that can encrypt for a key of a suitable pair, one that holds the private key, and what
  the second can decrypt.\<close>

definition good_pair :: "'p cryptopp \<Rightarrow> seed \<Rightarrow> nat \<Rightarrow> nat \<Rightarrow> seed \<Rightarrow> bool" where
  "good_pair lib pub n limit priv \<longleftrightarrow> key_pair lib n limit pub priv \<and> n \<le> maxBufferLength \<and> 11 \<le> limit"

definition server_ready :: "'p cryptopp \<Rightarrow> seed \<Rightarrow> ('p, 'm) server_side_session_scheme \<Rightarrow> bool" where
  "server_ready lib pub v \<longleftrightarrow> ss_rsaCipher v \<noteq> None \<and> (\<exists>n limit priv. good_pair lib pub n limit priv)"

definition holds_key :: "'p cryptopp \<Rightarrow> seed \<Rightarrow> 'p rsa_cipher \<Rightarrow> bool" where
  "holds_key lib pub c \<longleftrightarrow> (\<exists>n limit. good_pair lib pub n limit (rsa_privateKey c))"

definition rsa_sealed :: "'p cryptopp \<Rightarrow> seed \<Rightarrow> seed \<Rightarrow> seed \<Rightarrow> bool" where
  "rsa_sealed lib pub seed e \<longleftrightarrow> is_seed seed \<and> e \<noteq> [] \<and> length e < 65536 \<and>
     (\<forall>n limit priv. good_pair lib pub n limit priv \<longrightarrow>
        length e = n \<and> (\<forall>q. \<exists>q'. Decryptor_Decrypt lib priv e q = (Inr (True, seed), q')))"

lemma rsa_sealed_fits: "rsa_sealed lib pub seed e \<Longrightarrow> e \<noteq> [] \<and> length e < 65536"
  by (simp add: rsa_sealed_def)

lemma server_encrypts:
  assumes "server_ready lib pub v" and "is_seed seed"
  shows "\<exists>e v'. ServerSideSession_encryptSeed lib seed pub v = (Inr e, v') \<and> server_ready lib pub v' \<and>
    rsa_sealed lib pub seed e"
proof -
  obtain c n limit priv where c: "ss_rsaCipher v = Some c" and pair: "good_pair lib pub n limit priv"
    using assms(1) unfolding server_ready_def by blast
  have len: "length seed \<le> limit" using pair assms(2) by (simp add: good_pair_def is_seed_def)
  obtain e c' where e: "RsaCipher_encrypt lib seed pub c = (Inr (True, e), c')" "length e = n"
    using rsa_encrypt_run [of lib n limit pub priv seed c] pair len unfolding good_pair_def by metis
  have "length e = m \<and> (\<forall>q. \<exists>q'. Decryptor_Decrypt lib key e q = (Inr (True, seed), q'))"
    if "good_pair lib pub m bound key" for m bound key
    using rsa_encrypt_run [of lib m bound pub key seed c] that assms(2) e(1)
    by (auto simp: good_pair_def is_seed_def)
  moreover have "e \<noteq> []" "length e < 65536"
    using pair e(2) by (auto simp: good_pair_def key_pair_def maxBufferLength_def)
  ultimately have "rsa_sealed lib pub seed e" using assms(2) by (simp add: rsa_sealed_def)
  with c e(1) pair show ?thesis
    by (intro exI [of _ e] exI [of _ "v\<lparr>ss_rsaCipher := Some c'\<rparr>"])
      (auto simp: ServerSideSession_encryptSeed_def bind_def prog_defs deref_def zoom_def server_ready_def)
qed

lemma rsa_unseal:
  assumes "holds_key lib pub c" and "rsa_sealed lib pub seed e"
  obtains c' where "RsaCipher_decrypt lib e c = (Inr (True, seed), c')" and "holds_key lib pub c'"
proof -
  obtain n limit where pair: "good_pair lib pub n limit (rsa_privateKey c)"
    using assms(1) by (auto simp: holds_key_def)
  have seed: "length seed \<le> limit" "seed \<noteq> []" "n \<le> maxBufferLength" "key_pair lib n limit pub (rsa_privateKey c)"
    using assms(2) pair by (simp_all add: rsa_sealed_def is_seed_def good_pair_def)
  have "length e = n" "\<forall>q. \<exists>q'. Decryptor_Decrypt lib (rsa_privateKey c) e q = (Inr (True, seed), q')"
    using assms(2) pair by (auto simp: rsa_sealed_def)
  from rsa_decrypt_run [OF seed(4,3,1,2) this] obtain c' where
    "RsaCipher_decrypt lib e c = (Inr (True, seed), c')" "same_keys c c'" .
  with that [of c'] assms(1) show ?thesis by (simp add: holds_key_def same_keys_def)
qed

lemma client_decrypts:
  assumes "holds_key lib pub (cl_rsaCipher w)" and "rsa_sealed lib pub seed e"
  shows "\<exists>w'. ClientSession_decryptSeed lib e w = (Inr (True, seed), w') \<and> holds_key lib pub (cl_rsaCipher w')"
proof -
  from rsa_unseal [OF assms] obtain c' where
    "RsaCipher_decrypt lib e (cl_rsaCipher w) = (Inr (True, seed), c')" "holds_key lib pub c'" .
  then show ?thesis
    by (intro exI [of _ "w\<lparr>cl_rsaCipher := c'\<rparr>"]) (simp add: ClientSession_decryptSeed_def zoom_def)
qed

interpretation rsa_seeds: seed_cipher "ServerSideSession_callback lib" "server_ready lib pub" pub
    "ClientSession_callback lib callback" "\<lambda>w. holds_key lib pub (cl_rsaCipher w)" "rsa_sealed lib pub"
  for lib pub callback
  by unfold_locales
    (simp_all add: ServerSideSession_callback_def ClientSession_callback_def server_encrypts client_decrypts rsa_sealed_fits)

text \<open>The server's \<open>seedExchanged\<close> only sets a flag; the client's calls back into the program.\<close>

lemma server_keeps_coder: "keeps_coder (ServerSideSession_callback lib)"
  by (simp add: keeps_coder_def ServerSideSession_callback_def ServerSideSession_seedExchanged_def on_object_def
      zoom_def prog_defs)

type_synonym ('r, 'p) secure_client_callback =
  "((unit, 'r) secure_packet_coder, memory_block obytestream, memory_block ibytestream, 'p) client_session_callback"

definition harmless :: "('c, 's, 't, 'p) client_session_callback \<Rightarrow> bool" where
  "harmless cb \<longleftrightarrow> (\<forall>q. \<exists>q'. cc_onValidated cb q = (Inr (), q') \<and> coder q' = coder q)"

lemma client_keeps_coder:
  fixes cb :: "('c, 's, 't, 'p) client_session_callback"
  assumes "harmless cb"
  shows "keeps_coder (ClientSession_callback lib (Some cb))"
  unfolding keeps_coder_def
proof
  fix q :: "('c, 's, 't, 'p client_session seed_owner) session_impl"
  let ?q = "q\<lparr>owner := (owner q)\<lparr>session_object := (session_object (owner q))\<lparr>packetSeedExchanged := True\<rparr>\<rparr>\<rparr>"
  obtain q' where "cc_onValidated cb ?q = (Inr (), q')" "coder q' = coder q"
    using assms [unfolded harmless_def, rule_format, of ?q] by auto
  then show "\<exists>q'. seedExchanged (ClientSession_callback lib (Some cb)) q = (Inr (), q') \<and> coder q' = coder q"
    by (simp add: ClientSession_callback_def ClientSession_seedExchanged_def bind_def prog_defs on_object_def zoom_def
        deref_def)
qed

section \<open>Silence\<close>

lemma elapsed_unat: "now - past < 2 ^ 32 \<Longrightarrow> unat (getElapsedTime now past) = now - past"
  by (simp add: getElapsedTime_def unat_of_nat)

lemma timedOut_run:
  assumes "now - lastHeartbeatedTime (get (session_object (owner s))) < 2 ^ 32"
  shows "HeartBeatReceiver_timedOut get upd now s = (Inr (),
    if unat (validHeartbeatInterval (get (session_object (owner s)))) \<le>
        now - lastHeartbeatedTime (get (session_object (owner s)))
    then s\<lparr>owner := (owner s)\<lparr>session_object := upd HeartBeatReceiver_cancelTimer (session_object (owner s))\<rparr>,
           tasks := tasks s @ [Disconnect]\<rparr>
    else s)"
  using elapsed_unat [OF assms]
  by (simp add: HeartBeatReceiver_timedOut_def HeartBeatReceiver_isZombie_def bind_def prog_defs on_object_def zoom_def
      SessionImpl_disconnect_def post_task_def word_le_nat_alt)

lemma next_multiple:
  assumes "0 < (n :: nat)"
  obtains k where "x \<le> k * n" and "k * n < x + n"
proof -
  have "(x + (n - 1)) div n * n + (x + (n - 1)) mod n = x + (n - 1)" by (rule div_mult_mod_eq)
  moreover have "(x + (n - 1)) mod n < n" using assms by simp
  ultimately show ?thesis using that [of "(x + (n - 1)) div n"] assms by linarith
qed

text \<open>A heartbeat message changes nothing but the input stream.\<close>

lemma heartbeat_handled:
  assumes "exts \<in> sgp_extensions SneStreamFactory_bit g (ClientSideSession_registerCallbacks ops F lib onValidated) call"
  shows "\<exists>mb' t. Session_onMessageArrived exts csmtSystem_heartbeat mb s = (Inr (True, mb'), s\<lparr>istream := t\<rparr>)"
proof -
  let ?cbs = "ClientSideSession_registerCallbacks ops F lib onValidated"
  have "map_of ?cbs csmtSystem_heartbeat = Some ([], ClientSideSession_heartbeatMessageReceived)"
    by (simp add: ClientSideSession_registerCallbacks_def ForClient_registerMessageCallbacks_def
        registerMessageCallback_def message_type_defs HeartbeatMessage_fields_def)
  then have "\<exists>mb' t. MessagingExtension_handleMessage SneStreamFactory_bit g ?cbs csmtSystem_heartbeat mb s =
      (Inr (True, mb'), s\<lparr>istream := t\<rparr>)"
    by (simp add: MessagingExtension_handleMessage_def bind_def bit_streams.deserialize_run catch_core_def
        on_session_istream_def zoom_def prog_defs ClientSideSession_heartbeatMessageReceived_def) blast
  then show ?thesis
    using assms
    by (auto simp: sgp_extensions_def Session_onMessageArrived_def RpcingExtension_handleMessage_def bind_def prog_defs
        message_type_defs)
qed

lemma heartbeats_handled:
  assumes "exts \<in> sgp_extensions SneStreamFactory_bit g (ClientSideSession_registerCallbacks ops F lib onValidated) call"
  shows "\<exists>t. for_each (\<lambda>mb. bind (Session_onMessageArrived exts csmtSystem_heartbeat mb) (\<lambda>_. skip)) mbs s =
    (Inr (), s\<lparr>istream := t\<rparr>)"
proof (induction mbs arbitrary: s)
  case Nil
  then show ?case by (intro exI [of _ "istream s"]) (simp add: skip_def)
next
  case (Cons mb mbs)
  obtain mb' t where "Session_onMessageArrived exts csmtSystem_heartbeat mb s = (Inr (True, mb'), s\<lparr>istream := t\<rparr>)"
    using heartbeat_handled [OF assms] by blast
  with Cons.IH [of "s\<lparr>istream := t\<rparr>"] show ?case by (simp add: bind_def skip_def)
qed

text \<open>The state that \<open>onConnected\<close> leaves when packets are encrypted.\<close>

lemma initHeartbeater_fields:
  "isSeedExchanged (ServerSideSession_initHeartbeater v) = isSeedExchanged v" "\<exists>r. ss_receiver (ServerSideSession_initHeartbeater v) = Some r"
  by (simp_all add: ServerSideSession_initHeartbeater_def Let_def)

lemma connected_unexchanged:
  assumes "pc_hasPacketCipher ops (coder s\<^sub>0)"
    and "ServerSideSession_onConnected ops lib now globalClientId s\<^sub>0 = (Inr (b, globalClientId'), s)"
  shows "\<not> isSeedExchanged (session_object (owner s))" and "ss_receiver (session_object (owner s)) \<noteq> None"
    and "istream s = istream s\<^sub>0" and "rpcNetwork s = rpcNetwork s\<^sub>0" and "receivers s = receivers s\<^sub>0"
  using assms
  by (auto simp: ServerSideSession_onConnected_def ForServer_exchangePublicKey_def ServerSideSession_setupAuthenticationTimer_def
      getNextClientId_def on_object_def zoom_def bind_def prog_defs initHeartbeater_fields split: if_splits)

lemma heartbeated_run:
  assumes "ss_receiver (session_object (owner s)) \<noteq> None"
  obtains s\<^sub>1 where "server_heartbeated now s = (Inr (), s\<^sub>1)" and "istream s\<^sub>1 = istream s" and "rpcNetwork s\<^sub>1 = rpcNetwork s"
    and "receivers s\<^sub>1 = receivers s" and "tasks s\<^sub>1 = tasks s"
    and "isSeedExchanged (session_object (owner s\<^sub>1)) = isSeedExchanged (session_object (owner s))"
  using assms that
  by (auto simp: server_heartbeated_def on_object_def zoom_def deref_def bind_def prog_defs split: option.splits)

section \<open>Properties\<close>

text \<open>C3: the seed exchange agrees.  When a server side session offers new seeds and the message reaches the
  session of the client, whose RSA keys are of a suitable pair and known to the server, the client's
  answer, confirmed at the server, leaves the coders of both ends in step in both directions.\<close>

theorem seeds_agree:
  fixes s :: "((unit, 'r) secure_packet_coder, _, _, ('p, 'm) server_side_session_scheme seed_owner) session_impl"
    and r :: "((unit, 'r) secure_packet_coder, _, _, 'p client_session seed_owner) session_impl"
    and env lib cb publicKey g
  defines "ops \<equiv> SecurePacketCoder CsPacketCoder env" and "F \<equiv> SneStreamFactory_byte"
    and "scb \<equiv> ServerSideSession_callback lib" and "ccb \<equiv> ClientSession_callback lib (Some cb)"
    and "client \<equiv> cl_rsaCipher (session_object (owner r))"
  assumes "secure_sync env (coder s) (coder r)" and "secure_sync env (coder r) (coder s)"
    and "oys_idle u (ostream s)" and "can_send 9 (blocks s)" and "exchangingDecryptSeed (owner s) = []"
    and "ss_rsaCipher (session_object (owner s)) \<noteq> None" and "otherSidePublicKey (owner s) = rsa_publicKey client"
    and "good_pair lib (rsa_publicKey client) n limit (rsa_privateKey client)" and "length publicKey < 65536"
    and "oys_idle u (ostream r)" and "can_send 9 (blocks r)" and "iys_idle u (istream r)" and "harmless cb"
  shows "\<exists>s1 p mb. ForServer_exchangeSeed ops F scb publicKey s = (Inr (), s1) \<and>
    tasks s1 = tasks s @ [SendMessage (p, mb) csmtSystem_exchangeSeed] \<and>
    (\<forall>rb extra. mb_inv rb \<and> mb_contents rb = drop 9 (mb_contents mb) @ extra \<longrightarrow>
      (\<exists>rb' r1. MessagingExtension_handleMessage F g (ForClient_registerMessageCallbacks ops F ccb [])
          csmtSystem_exchangeSeed rb r = (Inr (True, rb'), r1) \<and>
        (\<forall>message. \<exists>s2. ForServer_onConfirmSeed ops scb message s1 = (Inr (), s2) \<and>
          secure_sync env (coder s2) (coder r1) \<and> secure_sync env (coder r1) (coder s2))))"
proof -
  let ?pub = "rsa_publicKey client"
  have "server_ready lib ?pub (session_object (owner s))"
    using assms(11,13) by (auto simp: server_ready_def)
  moreover have "holds_key lib ?pub client" using assms(13) by (auto simp: holds_key_def)
  ultimately show ?thesis
    unfolding ops_def F_def scb_def ccb_def
    using rsa_seeds.agree [OF assms(6-10) _ assms(12,14-17) _ server_keeps_coder client_keeps_coder [OF assms(18)]]
    by (simp add: client_def)
qed

text \<open>Two connected sessions for the witnesses.\<close>

definition demo_session :: "'v seed_owner \<Rightarrow>
    ((unit, u32) secure_packet_coder, memory_block obytestream, memory_block ibytestream, 'v seed_owner) session_impl" where
  "demo_session ow = \<lparr>coder = SecurePacketCoder_new toy_env () 1 True, ostream = oys_new (mb_new 0) True,
     istream = iys_new (mb_new 0) True, blockManager = 0, messageBlock = 0,
     blocks = MemoryBlockManager_new 2 16 \<lparr>initialBlockSize = 0, bh_next = 0, bh_blocks = Map.empty\<rparr>,
     tasks = [], rpcNetwork = [], receivers = (\<lambda>r. RpcReceiver_new []), owner = ow\<rparr>"

definition demo_server :: "nat server_side_session seed_owner" where
  "demo_server = \<lparr>privateKey = [], otherSidePublicKey = [2], exchangingDecryptSeed = [],
     session_object = ServerSideSession_initializeRsaCipher toy_cryptopp (ServerSideSession_new 0 9)\<rparr>"

definition demo_client :: "nat client_session seed_owner" where
  "demo_client = \<lparr>privateKey = [1], otherSidePublicKey = [], exchangingDecryptSeed = [],
     session_object = ClientSession_new toy_cryptopp 3\<rparr>"

definition demo_callback :: "('c, 's, 't, 'p) client_session_callback" where
  "demo_callback = \<lparr>cc_onValidated = skip, cc_onDisconnected = skip\<rparr>"

lemma demo_session_fields: "coder (demo_session ow) = SecurePacketCoder_new toy_env () 1 True"
  "oys_idle True (ostream (demo_session ow))" "iys_idle True (istream (demo_session ow))" "tasks (demo_session ow) = []"
  "can_send 9 (blocks (demo_session ow))" "owner (demo_session ow) = ow"
  by (simp_all add: demo_session_def oys_idle_def iys_idle_def oys_new_def iys_new_def can_send_new block_heap_inv_def)

lemma demo_server_fields: "exchangingDecryptSeed demo_server = []" "otherSidePublicKey demo_server = [2]"
  "ss_rsaCipher (session_object demo_server) \<noteq> None"
  by (simp_all add: demo_server_def ServerSideSession_initializeRsaCipher_def ServerSideSession_new_def)

lemma demo_client_key: "rsa_publicKey (cl_rsaCipher (session_object demo_client)) = [2]"
  by (simp add: demo_client_def ClientSession_new_def RsaCipherImpl_new_def toy_cryptopp_def)

lemma toy_good_pair: "good_pair toy_cryptopp pub 32 31 priv"
  by (simp add: good_pair_def toy_key_pair maxBufferLength_def)

lemma demo_harmless: "harmless demo_callback"
  by (simp add: harmless_def demo_callback_def prog_defs)

theorem seeds_agree_witness:
  "\<exists>s1 p mb. ForServer_exchangeSeed (SecurePacketCoder CsPacketCoder toy_env) SneStreamFactory_byte
        (ServerSideSession_callback toy_cryptopp) [7] (demo_session demo_server) = (Inr (), s1) \<and>
    tasks s1 = [] @ [SendMessage (p, mb) csmtSystem_exchangeSeed] \<and>
    (\<forall>rb extra. mb_inv rb \<and> mb_contents rb = drop 9 (mb_contents mb) @ extra \<longrightarrow>
      (\<exists>rb' r1. MessagingExtension_handleMessage SneStreamFactory_byte 0
          (ForClient_registerMessageCallbacks (SecurePacketCoder CsPacketCoder toy_env) SneStreamFactory_byte
             (ClientSession_callback toy_cryptopp (Some demo_callback)) [])
          csmtSystem_exchangeSeed rb (demo_session demo_client) = (Inr (True, rb'), r1) \<and>
        (\<forall>message. \<exists>s2. ForServer_onConfirmSeed (SecurePacketCoder CsPacketCoder toy_env)
            (ServerSideSession_callback toy_cryptopp) message s1 = (Inr (), s2) \<and>
          secure_sync toy_env (coder s2) (coder r1) \<and> secure_sync toy_env (coder r1) (coder s2))))"
  using seeds_agree [of toy_env "demo_session demo_server" "demo_session demo_client" True toy_cryptopp 32 31 "[7]"
      demo_callback 0]
  by (simp only: demo_session_fields demo_server_fields demo_client_key toy_good_pair demo_harmless secure_sync_new) simp

text \<open>C6: the message that announces new seeds is encoded under them.  \<open>exchangeSeed\<close> only posts the message
  and then sets the new seed for encryption; the posted task marshals the message with that seed, so
  a client still at the old key refuses the packet, although the coder that the server had when it
  composed the message would have reached the client.\<close>

theorem exchange_seed_rejected:
  fixes s :: "((unit, 'r) secure_packet_coder, _, _, ('p, 'm) server_side_session_scheme seed_owner) session_impl"
    and d :: "(unit, 'r) secure_packet_coder" and env lib publicKey
  defines "ops \<equiv> SecurePacketCoder CsPacketCoder env" and "F \<equiv> SneStreamFactory_byte"
  assumes "engine_pair (enc_engine env) (dec_engine env)" and "secure_sync env (coder s) d"
    and "oys_idle u (ostream s)" and "can_send 9 (blocks s)" and "exchangingDecryptSeed (owner s) = []"
    and "ss_rsaCipher (session_object (owner s)) \<noteq> None"
    and "good_pair lib (otherSidePublicKey (owner s)) n limit priv" and "length publicKey < 65536"
    and "getDecryptCipherKey env (cipherKeyGenerator d) = (k, g)"
    and "getEncryptCipherKey env (setEncryptCipherKey env
      (toCipherKey (fst (SecurePacketCoder_generateCipherSeed env))) (cipherKeyGenerator (coder s))) = (k', g')"
    and "getFingerPrint k' \<noteq> getFingerPrint k"
  shows "\<exists>s1 p mb mb' e'. ForServer_exchangeSeed ops F (ServerSideSession_callback lib) publicKey s = (Inr (), s1) \<and>
    tasks s1 = tasks s @ [SendMessage (p, mb) csmtSystem_exchangeSeed] \<and>
    SgpMarshaller_marshal ops mb csmtSystem_exchangeSeed (coder s1) = (True, mb', e') \<and>
    (\<forall>rb. carries rb (mb_contents mb') \<longrightarrow>
      SecurePacketCoder_decode CsPacketCoder env rb d = (False, rb, d\<lparr>cipherKeyGenerator := g\<rparr>)) \<and>
    (length (pad_to (BLOCKSIZE (enc_engine env)) (drop 9 (mb_contents mb))) < 65536 \<longrightarrow>
      (\<exists>mb0 e0. SgpMarshaller_marshal ops mb csmtSystem_exchangeSeed (coder s) = (True, mb0, e0) \<and>
        (\<exists>rb' d'. SecurePacketCoder_decode CsPacketCoder env mb0 d = (True, rb', d') \<and> secure_sync env e0 d')))"
proof -
  have "server_ready lib (otherSidePublicKey (owner s)) (session_object (owner s))"
    using assms(8,9) by (auto simp: server_ready_def)
  then show ?thesis
    unfolding ops_def F_def by (rule rsa_seeds.rejected [OF assms(3-7) _ refl assms(10-13)])
qed

theorem exchange_seed_rejected_witness:
  "\<exists>s1 p mb mb' e'. ForServer_exchangeSeed (SecurePacketCoder CsPacketCoder toy_env) SneStreamFactory_byte
        (ServerSideSession_callback toy_cryptopp) [7] (demo_session demo_server) = (Inr (), s1) \<and>
    tasks s1 = [] @ [SendMessage (p, mb) csmtSystem_exchangeSeed] \<and>
    SgpMarshaller_marshal (SecurePacketCoder CsPacketCoder toy_env) mb csmtSystem_exchangeSeed (coder s1) = (True, mb', e') \<and>
    (\<forall>rb. carries rb (mb_contents mb') \<longrightarrow>
      SecurePacketCoder_decode CsPacketCoder toy_env rb (SecurePacketCoder_new toy_env () 1 True) =
        (False, rb, (SecurePacketCoder_new toy_env () 1 True)
          \<lparr>cipherKeyGenerator := DynamicCipherKeyGenerator 0x19720212 0x19720213\<rparr>)) \<and>
    (length (pad_to (BLOCKSIZE (enc_engine toy_env)) (drop 9 (mb_contents mb))) < 65536 \<longrightarrow>
      (\<exists>mb0 e0. SgpMarshaller_marshal (SecurePacketCoder CsPacketCoder toy_env) mb csmtSystem_exchangeSeed
          (SecurePacketCoder_new toy_env () 1 True) = (True, mb0, e0) \<and>
        (\<exists>rb' d'. SecurePacketCoder_decode CsPacketCoder toy_env mb0 (SecurePacketCoder_new toy_env () 1 True) =
            (True, rb', d') \<and> secure_sync toy_env e0 d')))"
proof -
  have "fst (SecurePacketCoder_generateCipherSeed toy_env) = [52]"
    by (simp add: SecurePacketCoder_generateCipherSeed_def toy_env_def format_d_def dec_digits.simps)
  moreover have "getDecryptCipherKey toy_env (cipherKeyGenerator (SecurePacketCoder_new toy_env () 1 True)) =
      (0x19720212, DynamicCipherKeyGenerator 0x19720212 0x19720213)"
    by (simp add: SecurePacketCoder_new_def CipherKeyGenerator_create_def toy_env_def)
  moreover have "getEncryptCipherKey toy_env (setEncryptCipherKey toy_env (toCipherKey [52])
      (cipherKeyGenerator (SecurePacketCoder_new toy_env () 1 True))) = (4, DynamicCipherKeyGenerator 5 0x19720212)"
    by (simp add: SecurePacketCoder_new_def CipherKeyGenerator_create_def toy_env_def toCipherKey_def atoi_def
        is_space_def is_digit_def)
  moreover have "getFingerPrint 4 \<noteq> getFingerPrint 0x19720212" by (simp add: getFingerPrint_def)
  moreover have "length [7 :: byte] < 65536" by simp
  ultimately show ?thesis
    using exchange_seed_rejected [of toy_env "demo_session demo_server" "SecurePacketCoder_new toy_env () 1 True" True
        toy_cryptopp 32 31 "[]" "[7]" "0x19720212" "DynamicCipherKeyGenerator 0x19720212 0x19720213" 4
        "DynamicCipherKeyGenerator 5 0x19720212"]
    by (simp only: demo_session_fields demo_server_fields toy_good_pair secure_sync_new toy_env_engines simp_thms)
qed

text \<open>C7: a server runs the calls of a client that has not exchanged seeds.  Right after \<open>onConnected\<close> of an encrypted session
  no seed has been exchanged.  A remote call that a client sends then is accepted and runs with its
  arguments like any other; only a message that no extension handles is refused, because the guard
  on \<open>isSeedExchanged_\<close> stands behind the handlers.\<close>

theorem server_accepts_unguarded:
  fixes s\<^sub>0 s :: "((unit, 'k) secure_packet_coder, memory_block obytestream, memory_block ibytestream,
      ('p, 'm) server_side_session_scheme seed_owner) session_impl"
  defines "F \<equiv> SneStreamFactory_byte"
  assumes "engine_pair (enc_engine env) (dec_engine env)"
    and "ServerSideSession_onConnected (SecurePacketCoder CsPacketCoder env) lib now globalClientId s\<^sub>0 = (Inr (True, globalClientId'), s)"
    and "exts \<in> sgp_extensions F g callbacks call" and "map_of callbacks csmtRpc = None"
    and "iys_idle u (istream s\<^sub>0)" and "oys_idle u (ostream c)" and "can_send 9 (blocks c)"
    and "answered True (rpcNetwork s\<^sub>0) (\<lambda>x. events_of (receivers s\<^sub>0 x)) call f (rpcId, TList, ps)"
  shows "\<not> isSeedExchanged (session_object (owner s)) \<and>
    (\<exists>c' p mb. SgpRpcNetwork_send (SecurePacketCoder CsPacketCoder env) F rpcId TList ps c = (Inr (), c') \<and>
      tasks c' = tasks c @ [SendMessage (p, mb) csmtRpc] \<and>
      (\<forall>rb extra. mb_inv rb \<and> mb_contents rb = drop 9 (mb_contents mb) @ extra \<longrightarrow>
        (\<exists>rb' s' s\<^sub>1. ServerSideSession_onMessageArrived (SecurePacketCoder CsPacketCoder env) F lib now' exts csmtRpc rb s = (Inr (True, rb'), s') \<and>
          server_heartbeated now' s = (Inr (), s\<^sub>1) \<and> owner s' = f rpcId ps (owner s\<^sub>1)))) \<and>
    (\<forall>mt rb. mt \<noteq> csmtRpc \<and> map_of callbacks mt = None \<longrightarrow>
      (\<exists>s'. ServerSideSession_onMessageArrived (SecurePacketCoder CsPacketCoder env) F lib now' exts mt rb s = (Inr (False, rb), s') \<and>
        tasks s' = tasks s))"
proof -
  let ?ops = "SecurePacketCoder CsPacketCoder env" and ?net = "rpcNetwork s\<^sub>0" and ?ev = "\<lambda>x. events_of (receivers s\<^sub>0 x)"
  note session = secure_bytes [OF assms(2), of u, folded F_def]
  have cipher: "pc_hasPacketCipher ?ops (coder s\<^sub>0)" by (simp add: SecurePacketCoder_def)
  note con = connected_unexchanged [OF cipher assms(3)]
  obtain s\<^sub>1 where s1: "server_heartbeated now' s = (Inr (), s\<^sub>1)" "istream s\<^sub>1 = istream s" "rpcNetwork s\<^sub>1 = rpcNetwork s"
    "receivers s\<^sub>1 = receivers s" "tasks s\<^sub>1 = tasks s" "\<not> isSeedExchanged (session_object (owner s\<^sub>1))"
    using heartbeated_run [OF con(2), of now'] con(1) by metis
  have lis: "sgp_session.listening (iys_idle u) ?net ?ev s\<^sub>1"
    using con s1 assms(6) by (simp add: sgp_session.listening_def [OF session])
  have "valid_list True TList ps" using assms(9) by (simp add: answered_def)
  from sgp_session.send_rpc [OF session this assms(7,8), of rpcId g] obtain p mb hdr body c' where sent:
    "SgpRpcNetwork_send ?ops F rpcId TList ps c = (Inr (), c')" "tasks c' = tasks c @ [SendMessage (p, mb) csmtRpc]"
    "carries mb (hdr @ body)" "length hdr = 9" "reads_back F (iys_idle u) (read_call (sf_in F) g TList) (rpcId, ps) body" .
  have "\<exists>rb' s'. ServerSideSession_onMessageArrived ?ops F lib now' exts csmtRpc rb s = (Inr (True, rb'), s') \<and>
      owner s' = f rpcId ps (owner s\<^sub>1)" if "mb_inv rb" "mb_contents rb = drop 9 (mb_contents mb) @ extra" for rb extra
  proof -
    have "mb_contents rb = body @ extra" using that(2) sent(3,4) by (simp add: carriesD)
    from sgp_session.rpcing_handles [OF session assms(9) lis sent(5) that(1) this] obtain rb' s' where
      s': "SgpRpcNetwork_handleMessage F g call rb s\<^sub>1 = (Inr (True, rb'), s')" "owner s' = f rpcId ps (owner s\<^sub>1)" by blast
    have "Session_onMessageArrived exts csmtRpc rb s\<^sub>1 = (Inr (True, rb'), s')"
      using assms(4,5) s'(1) by (auto simp: sgp_extensions_def Session_onMessageArrived_def
          MessagingExtension_handleMessage_def RpcingExtension_handleMessage_def bind_def prog_defs)
    with s1(1) s'(2) show ?thesis by (simp add: ServerSideSession_onMessageArrived_def bind_def prog_defs)
  qed
  with sent(1,2) s1(1) have "\<exists>c' p mb. SgpRpcNetwork_send ?ops F rpcId TList ps c = (Inr (), c') \<and>
      tasks c' = tasks c @ [SendMessage (p, mb) csmtRpc] \<and>
      (\<forall>rb extra. mb_inv rb \<and> mb_contents rb = drop 9 (mb_contents mb) @ extra \<longrightarrow>
        (\<exists>rb' s' s\<^sub>1. ServerSideSession_onMessageArrived ?ops F lib now' exts csmtRpc rb s = (Inr (True, rb'), s') \<and>
          server_heartbeated now' s = (Inr (), s\<^sub>1) \<and> owner s' = f rpcId ps (owner s\<^sub>1)))"
    by (intro exI [of _ c'] exI [of _ p] exI [of _ mb]) blast
  moreover have "ServerSideSession_onMessageArrived ?ops F lib now' exts mt rb s = (Inr (False, rb), s\<^sub>1)"
    if "mt \<noteq> csmtRpc" "map_of callbacks mt = None" for mt rb
    using that assms(4) s1(1,6) by (auto simp: ServerSideSession_onMessageArrived_def sgp_extensions_def Session_onMessageArrived_def
        MessagingExtension_handleMessage_def RpcingExtension_handleMessage_def bind_def prog_defs)
  ultimately show ?thesis using con s1(5) by blast
qed

text \<open>A server with one receiver, which knows one function, and a client of another program.\<close>

definition note_call :: "('c, 's, 't, ('p, 'm) server_side_session_scheme seed_owner) rpc_functions" where
  "note_call k rpcId ps = on_object (modify (\<lambda>v. v\<lparr>clientId := rpcId\<rparr>))"

theorem server_accepts_unguarded_witness:
  "\<exists>s c' p mb. ServerSideSession_onConnected (SecurePacketCoder CsPacketCoder toy_env) toy_cryptopp 0 5
        ((demo_session demo_server)\<lparr>rpcNetwork := [3], receivers := \<lambda>_. RpcReceiver_new [(42, [T_bool])]\<rparr>) = (Inr (True, 6), s) \<and>
    SgpRpcNetwork_send (SecurePacketCoder CsPacketCoder toy_env) SneStreamFactory_byte 42 [T_bool] [V_bool True]
        (demo_session demo_client) = (Inr (), c') \<and>
    tasks c' = [SendMessage (p, mb) csmtRpc] \<and>
    (\<forall>rb. mb_inv rb \<and> mb_contents rb = drop 9 (mb_contents mb) \<longrightarrow>
      (\<exists>rb' s'. ServerSideSession_onMessageArrived (SecurePacketCoder CsPacketCoder toy_env) SneStreamFactory_byte toy_cryptopp 1
            [MessagingExtension_handleMessage SneStreamFactory_byte 0 [], RpcingExtension_handleMessage SneStreamFactory_byte 0 note_call]
            csmtRpc rb s = (Inr (True, rb'), s') \<and>
        clientId (session_object (owner s')) = 42))"
proof -
  let ?s = "(demo_session demo_server)\<lparr>rpcNetwork := [3], receivers := \<lambda>_. RpcReceiver_new [(42, [T_bool])]\<rparr>"
  let ?ops = "SecurePacketCoder CsPacketCoder toy_env" and ?F = SneStreamFactory_byte
  let ?exts = "[MessagingExtension_handleMessage ?F 0 [], RpcingExtension_handleMessage ?F 0 note_call]"
  obtain s where s: "ServerSideSession_onConnected ?ops toy_cryptopp 0 5 ?s = (Inr (True, 6), s)"
    by (simp add: ServerSideSession_onConnected_def ForServer_exchangePublicKey_def ServerSideSession_setupAuthenticationTimer_def
        getNextClientId_def SecurePacketCoder_def on_object_def zoom_def bind_def prog_defs)
  have ans: "answered True (rpcNetwork ?s) (\<lambda>x. events_of (receivers ?s x)) note_call
      (\<lambda>rpcId ps ow. ow\<lparr>session_object := (session_object ow)\<lparr>clientId := rpcId\<rparr>\<rparr>) (42, [T_bool], [V_bool True])"
    unfolding answered_def prod.case
    by (intro conjI exI [of _ "[]"] exI [of _ 3])
      (simp_all add: events_of_def RpcReceiver_new_def note_call_def on_object_def zoom_def prog_defs)
  have "?exts \<in> sgp_extensions ?F 0 [] note_call" by (simp add: sgp_extensions_def)
  from server_accepts_unguarded [OF toy_env_engines(1) s this _ _ _ _ ans, of True "demo_session demo_client" 1]
  obtain c' p mb where "SgpRpcNetwork_send ?ops ?F 42 [T_bool] [V_bool True] (demo_session demo_client) = (Inr (), c')"
    "tasks c' = [SendMessage (p, mb) csmtRpc]"
    "\<forall>rb extra. mb_inv rb \<and> mb_contents rb = drop 9 (mb_contents mb) @ extra \<longrightarrow>
      (\<exists>rb' s' s\<^sub>1. ServerSideSession_onMessageArrived ?ops ?F toy_cryptopp 1 ?exts csmtRpc rb s = (Inr (True, rb'), s') \<and>
        server_heartbeated 1 s = (Inr (), s\<^sub>1) \<and>
        owner s' = (owner s\<^sub>1)\<lparr>session_object := (session_object (owner s\<^sub>1))\<lparr>clientId := 42\<rparr>\<rparr>)"
    by (auto simp: demo_session_fields)
  with s show ?thesis
    by (intro exI [of _ s] exI [of _ c'] exI [of _ p] exI [of _ mb]) fastforce
qed

text \<open>C8: a silent peer is noticed in time.  When the timer of a session's receiver ticks every interval
  and the last message came at some time, the ticks up to one interval after that message change
  nothing, and the first later tick, which comes before two intervals are over, stops the timer and
  disconnects.\<close>

theorem heartbeat_detects_silence:
  fixes s :: "('c, 's, 't, ('p, 'm) server_side_session_scheme seed_owner) session_impl"
  assumes "ss_receiver (session_object (owner s)) = Some r" and "validHeartbeatInterval r = iv" and "0 < iv"
    and "2 * unat iv < 2 ^ 32" and "lastHeartbeatedTime r = l" and "t0 \<le> l"
  shows "\<exists>k. l + unat iv \<le> t0 + k * unat iv \<and> t0 + k * unat iv < l + 2 * unat iv \<and>
    (\<forall>j < k. HeartBeatReceiver_timedOut (\<lambda>v. the (ss_receiver v)) (\<lambda>f. ss_receiver_update (map_option f))
        (t0 + j * unat iv) s = (Inr (), s)) \<and>
    (\<exists>s'. HeartBeatReceiver_timedOut (\<lambda>v. the (ss_receiver v)) (\<lambda>f. ss_receiver_update (map_option f))
        (t0 + k * unat iv) s = (Inr (), s') \<and> tasks s' = tasks s @ [Disconnect] \<and>
      map_option (isRunning \<circ> heartbeatTimer) (ss_receiver (session_object (owner s'))) = Some False)"
proof -
  let ?n = "unat iv"
  have n: "0 < ?n" using assms(3) by (simp add: word_less_nat_alt)
  obtain k where k: "l - t0 \<le> k * ?n" "k * ?n < l - t0 + ?n" using next_multiple [OF n] by blast
  have "HeartBeatReceiver_timedOut (\<lambda>v. the (ss_receiver v)) (\<lambda>f. ss_receiver_update (map_option f))
      (t0 + j * ?n) s = (Inr (), s)" if "j < Suc k" for j
  proof -
    have "j * ?n \<le> k * ?n" using that by simp
    with k have "t0 + j * ?n - l < ?n" using assms(6) n by linarith
    with assms show ?thesis by (subst timedOut_run) simp_all
  qed
  moreover have "l + ?n \<le> t0 + Suc k * ?n" "t0 + Suc k * ?n < l + 2 * ?n" using k assms(6) by simp_all
  moreover from this have "t0 + Suc k * ?n - l < 2 ^ 32" "?n \<le> t0 + Suc k * ?n - l" using assms(4) by linarith+
  then have "\<exists>s'. HeartBeatReceiver_timedOut (\<lambda>v. the (ss_receiver v)) (\<lambda>f. ss_receiver_update (map_option f))
        (t0 + Suc k * ?n) s = (Inr (), s') \<and> tasks s' = tasks s @ [Disconnect] \<and>
      map_option (isRunning \<circ> heartbeatTimer) (ss_receiver (session_object (owner s'))) = Some False"
    using assms by (subst timedOut_run) (simp_all add: HeartBeatReceiver_cancelTimer_def AsioTimer_cancel_def)
  ultimately show ?thesis by blast
qed

definition demo_silent :: "((unit, u32) secure_packet_coder, memory_block obytestream, memory_block ibytestream,
    nat server_side_session seed_owner) session_impl" where
  "demo_silent = demo_session (demo_server\<lparr>session_object := (session_object demo_server)
     \<lparr>ss_receiver := Some (HeartBeatReceiver_heartbeated 5 (HeartBeatReceiver_new 9 0))\<rparr>\<rparr>)"

theorem heartbeat_detects_silence_witness:
  "\<exists>k. 5 + unat (9 :: u32) \<le> 0 + k * unat (9 :: u32) \<and> 0 + k * unat (9 :: u32) < 5 + 2 * unat (9 :: u32) \<and>
    (\<forall>j < k. HeartBeatReceiver_timedOut (\<lambda>v. the (ss_receiver v)) (\<lambda>f. ss_receiver_update (map_option f))
        (0 + j * unat (9 :: u32)) demo_silent = (Inr (), demo_silent)) \<and>
    (\<exists>s'. HeartBeatReceiver_timedOut (\<lambda>v. the (ss_receiver v)) (\<lambda>f. ss_receiver_update (map_option f))
        (0 + k * unat (9 :: u32)) demo_silent = (Inr (), s') \<and> tasks s' = tasks demo_silent @ [Disconnect] \<and>
      map_option (isRunning \<circ> heartbeatTimer) (ss_receiver (session_object (owner s'))) = Some False)"
  by (rule heartbeat_detects_silence [where r = "HeartBeatReceiver_heartbeated 5 (HeartBeatReceiver_new 9 0)"])
    (simp_all add: demo_silent_def demo_session_fields heartbeat_defs)

text \<open>C9: a \<open>ClientSideSession\<close> drops its connection.  Unlike \<open>ServerSideSession\<close> it does not note the messages
  that arrive: however many heartbeats of the server it handles, three intervals after it was
  connected its receiver takes the server for dead and disconnects.\<close>

theorem client_side_session_drops:
  fixes s :: "('c, memory_block obitstream, memory_block ibitstream, ('p, 'm) client_side_session_scheme seed_owner) session_impl"
  assumes "ClientSideSession_onConnected ops SneStreamFactory_bit lib onValidated t0 s = (Inr True, s1)"
    and "validHeartbeatInterval (cs_receiver (session_object (owner s1))) = interval * 3"
    and "0 < interval" and "unat interval * 3 < 2 ^ 32"
    and "exts \<in> sgp_extensions SneStreamFactory_bit g
      (ClientSideSession_registerCallbacks ops SneStreamFactory_bit lib onValidated) call"
  shows "\<exists>s2 s3. for_each (\<lambda>mb. bind (Session_onMessageArrived exts csmtSystem_heartbeat mb) (\<lambda>_. skip)) mbs s1 = (Inr (), s2) \<and>
    HeartBeatReceiver_timedOut cs_receiver cs_receiver_update (t0 + unat interval * 3) s2 = (Inr (), s3) \<and>
    tasks s3 = tasks s1 @ [Disconnect]"
proof -
  have iv: "unat (interval * 3) = unat interval * 3" using assms(4) by (simp add: unat_word_ariths)
  have "0 < unat interval" using assms(3) by (simp add: word_less_nat_alt)
  then have "\<not> interval * 3 \<le> 0" using iv by (metis gr0I mult_is_0 unat_0 word_le_0_iff zero_neq_numeral less_irrefl)
  then have last: "lastHeartbeatedTime (cs_receiver (session_object (owner s1))) = t0"
    using assms(1,2)
    by (auto simp: ClientSideSession_onConnected_def bind_def prog_defs on_object_def zoom_def heartbeat_defs Let_def
        split: prod.splits sum.splits if_splits)
  obtain t where "for_each (\<lambda>mb. bind (Session_onMessageArrived exts csmtSystem_heartbeat mb) (\<lambda>_. skip)) mbs s1 =
      (Inr (), s1\<lparr>istream := t\<rparr>)"
    using heartbeats_handled [OF assms(5)] by blast
  moreover have "tasks (snd (HeartBeatReceiver_timedOut cs_receiver cs_receiver_update (t0 + unat interval * 3)
      (s1\<lparr>istream := t\<rparr>))) = tasks s1 @ [Disconnect] \<and>
    fst (HeartBeatReceiver_timedOut cs_receiver cs_receiver_update (t0 + unat interval * 3) (s1\<lparr>istream := t\<rparr>)) = Inr ()"
    using last assms(2,4) iv by (subst (1 2) timedOut_run) simp_all
  ultimately show ?thesis by (metis prod.collapse)
qed

definition demo_client_side :: "(unit, memory_block obitstream, memory_block ibitstream,
    nat client_side_session seed_owner) session_impl" where
  "demo_client_side = \<lparr>coder = (), ostream = obs_new (mb_new 0) True, istream = ibs_new (mb_new 0) True,
     blockManager = 0, messageBlock = 0,
     blocks = MemoryBlockManager_new 2 16 \<lparr>initialBlockSize = 0, bh_next = 0, bh_blocks = Map.empty\<rparr>,
     tasks = [], rpcNetwork = [], receivers = (\<lambda>r. RpcReceiver_new []),
     owner = \<lparr>privateKey = [], otherSidePublicKey = [], exchangingDecryptSeed = [],
       session_object = ClientSideSession_new toy_cryptopp 1000\<rparr>\<rparr>"

theorem client_side_session_drops_witness:
  "\<exists>s1. ClientSideSession_onConnected CsPacketCoder SneStreamFactory_bit toy_cryptopp skip 50 demo_client_side = (Inr True, s1) \<and>
    (\<exists>s2 s3. for_each (\<lambda>mb. bind (Session_onMessageArrived
          [MessagingExtension_handleMessage SneStreamFactory_bit 0
             (ClientSideSession_registerCallbacks CsPacketCoder SneStreamFactory_bit toy_cryptopp skip),
           RpcingExtension_handleMessage SneStreamFactory_bit 0 (\<lambda>_ _ _. skip)] csmtSystem_heartbeat mb) (\<lambda>_. skip))
          [mb_new 16, mb_new 16] s1 = (Inr (), s2) \<and>
      HeartBeatReceiver_timedOut cs_receiver cs_receiver_update (50 + unat (1000 :: u32) * 3) s2 = (Inr (), s3) \<and>
      tasks s3 = tasks s1 @ [Disconnect])"
proof -
  obtain s1 where s1: "ClientSideSession_onConnected CsPacketCoder SneStreamFactory_bit toy_cryptopp skip 50 demo_client_side =
      (Inr True, s1)" "validHeartbeatInterval (cs_receiver (session_object (owner s1))) = 3000"
    by (simp add: ClientSideSession_onConnected_def ForClient_exchangePublicKey_def CsPacketCoder_def bind_def prog_defs
        ClientSideSession_callback_def ClientSideSession_seedExchanged_def on_object_def zoom_def demo_client_side_def
        ClientSideSession_new_def heartbeat_defs Let_def)
  have "\<exists>s2 s3. for_each (\<lambda>mb. bind (Session_onMessageArrived
          [MessagingExtension_handleMessage SneStreamFactory_bit 0
             (ClientSideSession_registerCallbacks CsPacketCoder SneStreamFactory_bit toy_cryptopp skip),
           RpcingExtension_handleMessage SneStreamFactory_bit 0 (\<lambda>_ _ _. skip)] csmtSystem_heartbeat mb) (\<lambda>_. skip))
          [mb_new 16, mb_new 16] s1 = (Inr (), s2) \<and>
      HeartBeatReceiver_timedOut cs_receiver cs_receiver_update (50 + unat (1000 :: u32) * 3) s2 = (Inr (), s3) \<and>
      tasks s3 = tasks s1 @ [Disconnect]"
    by (rule client_side_session_drops [OF s1(1), where g = 0 and call = "\<lambda>_ _ _. skip"])
      (simp_all add: s1(2) sgp_extensions_def)
  with s1(1) show ?thesis by blast
qed

end
