(* ===== verification/S2s_Bridge.thy ===== *)
theory S2s_Bridge
  imports Server_Session
begin

text \<open>
  Connections between servers (include/sne/server/s2s, src/server/s2s).  The accepting side has a
  \<open>ServerSideBridge\<close>, a \<open>ServerSideSession\<close> whose callback is a \<open>ServerSideProxy\<close>; managed proxies are listed
  in the \<open>ServerSideProxyManager\<close> under the server id while they are authenticated.  The connecting side
  has a \<open>ClientSideBridge\<close>, a \<open>ClientSideSession\<close> with a connector that retries with growing delays, and a
  \<open>ClientSideProxy\<close>.  Derived classes are extensions of the records of their base classes.

  Shown: as long as a connection authenticates once, the manager lists exactly the connected proxies
  that were accepted; a second attempt that is refused leaves a stale entry behind.  The delay between
  attempts to connect stays between its bounds; cancelling an attempt does not end the attempts.
\<close>

section \<open>Messages (S2sMessage.h)\<close>

definition s2smtSystem_authenticate :: message_type where
  "s2smtSystem_authenticate = csmtSystemLast"

definition s2smtSystem_authenticateResult :: message_type where
  "s2smtSystem_authenticateResult = s2smtSystem_authenticate + 1"

definition s2smtSystemLast :: message_type where
  "s2smtSystemLast = s2smtSystem_authenticateResult + 1"

definition S2sAuthenticateMessage_fields :: "rpc_type list" where
  "S2sAuthenticateMessage_fields = [string_field]"

definition S2sAuthenticateResultMessage_fields :: "rpc_type list" where
  "S2sAuthenticateResultMessage_fields = [T_bool]"

section \<open>ServerSideProxyManager\<close>

text \<open>Proxies are addresses.  The locks make every operation one step.\<close>

type_synonym proxies = "u32 \<rightharpoonup> nat"

definition ServerId_invalid :: u32 where "ServerId_invalid = 0"

definition isValid_ServerId :: "u32 \<Rightarrow> bool" where
  "isValid_ServerId i \<longleftrightarrow> i \<noteq> ServerId_invalid"

definition ServerSideProxyManager_add :: "u32 \<Rightarrow> nat \<Rightarrow> proxies \<Rightarrow> proxies" where
  "ServerSideProxyManager_add proxyId proxy proxies = proxies(proxyId \<mapsto> proxy)"

text \<open>\<open>proxyRemoved\<close> belongs to the application.\<close>

definition ServerSideProxyManager_remove :: "u32 \<Rightarrow> proxies \<Rightarrow> proxies" where
  "ServerSideProxyManager_remove proxyId proxies =
     (if \<not> isValid_ServerId proxyId then proxies else proxies(proxyId := None))"

definition ServerSideProxyManager_getProxyCount :: "proxies \<Rightarrow> nat" where
  "ServerSideProxyManager_getProxyCount proxies = card (dom proxies)"

definition ServerSideProxyManager_getProxy :: "u32 \<Rightarrow> proxies \<Rightarrow> nat option" where
  "ServerSideProxyManager_getProxy proxyId proxies = proxies proxyId"

section \<open>ServerSideBridge and ManagedServerSideProxy\<close>

text \<open>The bridge with its proxy: \<open>br_proxy\<close> is \<open>callback_\<close>, the address of the proxy, and \<open>px_serverId\<close> the
  member of the proxy.  \<open>manager\<close> is the singleton, which all bridges share: it is put in place before
  an operation of a bridge and taken over after it.\<close>

record 'p server_side_bridge = "'p server_side_session" +
  br_proxy :: "nat option"
  px_serverId :: u32
  manager :: proxies

type_synonym ('c, 's, 't, 'p, 'a) bridge_prog = "('c, 's, 't, 'p server_side_bridge, 'a) seed_prog"

definition ManagedServerSideProxy_managed :: "nat \<Rightarrow> ('c, 's, 't, 'p, unit) bridge_prog" where
  "ManagedServerSideProxy_managed this =
     on_object (modify (\<lambda>v. v\<lparr>manager := ServerSideProxyManager_add (px_serverId v) this (manager v)\<rparr>))"

definition ManagedServerSideProxy_unmanaged :: "('c, 's, 't, 'p, unit) bridge_prog" where
  "ManagedServerSideProxy_unmanaged =
     on_object (modify (\<lambda>v. v\<lparr>manager := ServerSideProxyManager_remove (px_serverId v) (manager v)\<rparr>))"

definition ServerSideProxy_disconnected :: "('c, 's, 't, 'p, unit) bridge_prog" where
  "ServerSideProxy_disconnected =
     bind ManagedServerSideProxy_unmanaged (\<lambda>_.
     on_object (modify (\<lambda>v. v\<lparr>px_serverId := ServerId_invalid\<rparr>)))"

definition ServerSideBridge_onAuthenticate ::
    "'c packet_coder_ops \<Rightarrow> ('s, 't) stream_factory \<Rightarrow> nat \<Rightarrow> bool \<Rightarrow> ('c, 's, 't, 'p, unit) bridge_prog" where
  "ServerSideBridge_onAuthenticate ops F now isAuthenticated =
     bind (MessagingExtension_sendMessage ops F s2smtSystem_authenticateResult
             S2sAuthenticateResultMessage_fields [V_bool isAuthenticated]) (\<lambda>_.
     if isAuthenticated then ServerSideSession_authenticated now else skip)"

text \<open>\<open>verify\<close> is \<open>verifyAuthentication\<close> of the application.\<close>

definition ServerSideProxy_authenticate ::
    "'c packet_coder_ops \<Rightarrow> ('s, 't) stream_factory \<Rightarrow> nat \<Rightarrow> (byte list \<Rightarrow> bool) \<Rightarrow> nat \<Rightarrow> byte list \<Rightarrow>
     ('c, 's, 't, 'p, unit) bridge_prog" where
  "ServerSideProxy_authenticate ops F now verify this certificate =
     bind (on_object (modify (\<lambda>v. v\<lparr>px_serverId := clientId v\<rparr>))) (\<lambda>_.
     let isAuthenticated = verify certificate in
     bind (ServerSideBridge_onAuthenticate ops F now isAuthenticated) (\<lambda>_.
     if \<not> isAuthenticated then
       bind (on_object (modify (\<lambda>v. v\<lparr>px_serverId := ServerId_invalid\<rparr>))) (\<lambda>_.
       SessionImpl_disconnectGracefully)
     else ManagedServerSideProxy_managed this))"

definition ServerSideBridge_authenticateMessageReceived ::
    "'c packet_coder_ops \<Rightarrow> ('s, 't) stream_factory \<Rightarrow> nat \<Rightarrow> (byte list \<Rightarrow> bool) \<Rightarrow> rpc_value list \<Rightarrow>
     ('c, 's, 't, 'p, unit) bridge_prog" where
  "ServerSideBridge_authenticateMessageReceived ops F now verify message =
     (case message of
        [V_string certificate] \<Rightarrow>
          bind (gets (\<lambda>s. br_proxy (session_object (owner s)))) (\<lambda>callback.
          bind (deref callback) (\<lambda>proxy.
          ServerSideProxy_authenticate ops F now verify proxy certificate))
      | _ \<Rightarrow> throw (UndefinedBehaviour ''message of another type''))"

text \<open>\<open>connected\<close> of the proxy does nothing.\<close>

definition ServerSideBridge_onConnected ::
    "'c packet_coder_ops \<Rightarrow> 'p cryptopp \<Rightarrow> nat \<Rightarrow> u32 \<Rightarrow> ('c, 's, 't, 'p, bool \<times> u32) bridge_prog" where
  "ServerSideBridge_onConnected ops lib now globalClientId =
     bind (ServerSideSession_onConnected ops lib now globalClientId) (\<lambda>(connected, globalClientId).
     if \<not> connected then ret (False, globalClientId) else ret (True, globalClientId))"

definition ServerSideBridge_onDisconnected :: "('c, 's, 't, 'p, unit) bridge_prog" where
  "ServerSideBridge_onDisconnected =
     bind ServerSideSession_onDisconnected (\<lambda>_.
     bind (gets (\<lambda>s. br_proxy (session_object (owner s)))) (\<lambda>callback.
     if callback \<noteq> None then ServerSideProxy_disconnected else skip))"

definition ServerSideBridge_registerCallbacks ::
    "'c packet_coder_ops \<Rightarrow> ('s, 't) stream_factory \<Rightarrow> 'p cryptopp \<Rightarrow> nat \<Rightarrow> (byte list \<Rightarrow> bool) \<Rightarrow>
     ('c, 's, 't, 'p server_side_bridge seed_owner) message_callbacks" where
  "ServerSideBridge_registerCallbacks ops F lib now verify =
     registerMessageCallback s2smtSystem_authenticate S2sAuthenticateMessage_fields
       (ServerSideBridge_authenticateMessageReceived ops F now verify)
       (ServerSideSession_registerCallbacks ops F lib)"

section \<open>ClientSideBridgeConnector\<close>

text \<open>\<open>connecting\<close> counts the asynchronous connects that are under way, \<open>aborted\<close> those whose handler is
  queued with \<open>operation_aborted\<close> because the socket was closed; \<open>initialized\<close> counts the calls of
  \<open>session_.initialize()\<close>.\<close>

record bridge_connector =
  remoteAddr :: "byte list \<times> u16"
  retryDelay :: u32
  reconnectTimer :: asio_timer
  connecting :: nat
  aborted :: nat
  initialized :: nat

definition initialRetryDelay :: u32 where "initialRetryDelay = 500"
definition maxRetryDelay :: u32 where "maxRetryDelay = 7000"

definition Connector_new :: bridge_connector where
  "Connector_new = \<lparr>remoteAddr = ([], 0), retryDelay = initialRetryDelay, reconnectTimer = AsioTimer_new,
     connecting = 0, aborted = 0, initialized = 0\<rparr>"

text \<open>\<open>resolved\<close> tells whether the resolver finds the address; it throws otherwise.\<close>

definition Connector_async_connect :: "bool \<Rightarrow> (bridge_connector, unit) prog" where
  "Connector_async_connect resolved =
     (if \<not> resolved then throw (RuntimeError ''system_error'')
      else modify (\<lambda>c. c\<lparr>connecting := connecting c + 1\<rparr>))"

definition Connector_connect :: "bool \<Rightarrow> byte list \<Rightarrow> u16 \<Rightarrow> (bridge_connector, unit) prog" where
  "Connector_connect resolved ip port =
     bind (modify (\<lambda>c. c\<lparr>remoteAddr := (ip, port)\<rparr>)) (\<lambda>_. Connector_async_connect resolved)"

definition Connector_cancel :: "bridge_connector \<Rightarrow> bridge_connector" where
  "Connector_cancel c = c\<lparr>reconnectTimer := AsioTimer_cancel (reconnectTimer c), connecting := 0,
     aborted := aborted c + connecting c\<rparr>"

definition Connector_reconnect :: "bridge_connector \<Rightarrow> bridge_connector" where
  "Connector_reconnect c =
     (let delay = min (retryDelay c * 2) maxRetryDelay in
      c\<lparr>retryDelay := delay, reconnectTimer := AsioTimer_once (unat delay) 0 (reconnectTimer c)\<rparr>)"

definition Connector_handle_connect :: "io_error \<Rightarrow> bridge_connector \<Rightarrow> bridge_connector" where
  "Connector_handle_connect ec c =
     (if ec \<noteq> Success then Connector_reconnect c
      else c\<lparr>retryDelay := initialRetryDelay, initialized := initialized c + 1\<rparr>)"

definition Connector_timedOut :: "bool \<Rightarrow> nat \<Rightarrow> (bridge_connector, unit) prog" where
  "Connector_timedOut resolved act = Connector_async_connect resolved"

text \<open>What the I/O context does with a connector, and what the bridge does: \<open>lost\<close> is the reconnect of its
  \<open>onDisconnected\<close>.  An exception of the resolver leaves the handler of the timer and ends the program, as nobody
  catches it in \<open>IoContextTask::svc\<close>; one in \<open>bridge\<close> goes to the caller.\<close>

abbreviation reconnect_timer_step :: "bridge_connector \<Rightarrow> bridge_connector \<Rightarrow> bool" where
  "reconnect_timer_step \<equiv> timer_step reconnectTimer reconnectTimer_update (\<lambda>act c. snd (Connector_timedOut True act c))"

inductive connector_io :: "bridge_connector \<Rightarrow> bridge_connector \<Rightarrow> bool" where
  complete: "0 < connecting c \<Longrightarrow> ec \<noteq> OperationAborted \<Longrightarrow>
    connector_io c (Connector_handle_connect ec (c\<lparr>connecting := connecting c - 1\<rparr>))"
| abort: "0 < aborted c \<Longrightarrow>
    connector_io c (Connector_handle_connect OperationAborted (c\<lparr>aborted := aborted c - 1\<rparr>))"
| timer: "reconnect_timer_step c c' \<Longrightarrow> connector_io c c'"

inductive connector_step :: "bridge_connector \<Rightarrow> bridge_connector \<Rightarrow> bool" where
  io: "connector_io c c' \<Longrightarrow> connector_step c c'"
| begin_connect: "Connector_connect resolved ip port c = (r, c') \<Longrightarrow> connector_step c c'"
| cancel: "connector_step c (Connector_cancel c)"
| lost: "connector_step c (Connector_reconnect c)"

lemmas connector_defs = Connector_new_def Connector_async_connect_def Connector_connect_def Connector_cancel_def
  Connector_reconnect_def Connector_handle_connect_def Connector_timedOut_def initialRetryDelay_def maxRetryDelay_def

interpretation reconnect_owner: timer_owner reconnectTimer reconnectTimer_update
  by unfold_locales simp_all

section \<open>ClientSideBridge and ClientSideProxy\<close>

record 'p client_side_bridge = "'p client_side_session" +
  connector :: bridge_connector
  bridge_certificate :: "byte list"
  isShuttingDown :: bool
  proxy_isConnected :: bool

type_synonym ('c, 's, 't, 'p, 'a) client_bridge_prog = "('c, 's, 't, 'p client_side_bridge, 'a) seed_prog"

text \<open>\<open>ClientSideProxy\<close> as the callback of its bridge; \<open>onAuthenticated\<close> and \<open>onDisconnected\<close> of the application
  do nothing by default.\<close>

definition ClientSideProxy_disconnected :: "'p client_side_bridge \<Rightarrow> 'p client_side_bridge" where
  "ClientSideProxy_disconnected v = v\<lparr>proxy_isConnected := False\<rparr>"

definition ClientSideProxy_onAuthenticate :: "bool \<Rightarrow> 'p client_side_bridge \<Rightarrow> 'p client_side_bridge" where
  "ClientSideProxy_onAuthenticate authenticated v = v\<lparr>proxy_isConnected := authenticated\<rparr>"

definition ClientSideProxy_isActivated :: "'p client_side_bridge \<Rightarrow> bool" where
  "ClientSideProxy_isActivated v = proxy_isConnected v"

definition ClientSideBridge_bridge ::
    "bool \<Rightarrow> byte list \<Rightarrow> u16 \<Rightarrow> byte list \<Rightarrow> ('c, 's, 't, 'p, bool) client_bridge_prog" where
  "ClientSideBridge_bridge resolved address port certificate =
     bind (on_object (modify (\<lambda>v. v\<lparr>bridge_certificate := certificate\<rparr>))) (\<lambda>_.
     bind (on_object (zoom connector (\<lambda>c v. v\<lparr>connector := c\<rparr>) (Connector_connect resolved address port))) (\<lambda>_.
     ret True))"

definition ClientSideBridge_cancelConnection :: "('c, 's, 't, 'p, unit) client_bridge_prog" where
  "ClientSideBridge_cancelConnection = on_object (modify (\<lambda>v. v\<lparr>connector := Connector_cancel (connector v)\<rparr>))"

definition ClientSideBridge_destroy :: "('c, 's, 't, 'p, unit) client_bridge_prog" where
  "ClientSideBridge_destroy =
     bind (on_object (modify (\<lambda>v. v\<lparr>isShuttingDown := True, connector := Connector_cancel (connector v)\<rparr>))) (\<lambda>_.
     SessionImpl_disconnect)"

definition ClientSideProxy_disconnect :: "('c, 's, 't, 'p, unit) client_bridge_prog" where
  "ClientSideProxy_disconnect = bind SessionImpl_disconnect (\<lambda>_. ClientSideBridge_cancelConnection)"

definition ClientSideBridge_authenticateResultMessageReceived ::
    "rpc_value list \<Rightarrow> ('c, 's, 't, 'p, unit) client_bridge_prog" where
  "ClientSideBridge_authenticateResultMessageReceived message =
     (case message of
        [V_bool authenticated] \<Rightarrow> on_object (modify (ClientSideProxy_onAuthenticate authenticated))
      | _ \<Rightarrow> throw (UndefinedBehaviour ''message of another type''))"

definition ClientSideBridge_onDisconnected :: "('c, 's, 't, 'p, unit) client_bridge_prog" where
  "ClientSideBridge_onDisconnected =
     bind ClientSideSession_onDisconnected (\<lambda>_.
     bind (on_object (modify ClientSideProxy_disconnected)) (\<lambda>_.
     on_object (modify (\<lambda>v. if \<not> isShuttingDown v then v\<lparr>connector := Connector_reconnect (connector v)\<rparr> else v))))"

text \<open>\<open>seedExchanged\<close> replaces that of \<open>ClientSideSession\<close>.\<close>

definition ClientSideBridge_seedExchanged ::
    "'c packet_coder_ops \<Rightarrow> ('s, 't) stream_factory \<Rightarrow> ('c, 's, 't, 'p, unit) client_bridge_prog" where
  "ClientSideBridge_seedExchanged ops F =
     bind (gets (\<lambda>s. bridge_certificate (session_object (owner s)))) (\<lambda>certificate.
     MessagingExtension_sendMessage ops F s2smtSystem_authenticate S2sAuthenticateMessage_fields
       [V_string certificate])"

definition ClientSideBridge_callback ::
    "'c packet_coder_ops \<Rightarrow> ('s, 't) stream_factory \<Rightarrow> 'p cryptopp \<Rightarrow> ('c, 's, 't, 'p client_side_bridge) seed_callback" where
  "ClientSideBridge_callback ops F lib =
     (ClientSideSession_callback lib skip)\<lparr>seedExchanged := ClientSideBridge_seedExchanged ops F\<rparr>"

text \<open>\<open>ClientSideProxy::wait\<close> polls every millisecond; \<open>at i\<close> is the bridge at the \<open>i\<close>th poll, \<open>timeout\<close> the number
  of polls.\<close>

function ClientSideProxy_wait :: "(nat \<Rightarrow> 'p client_side_bridge) \<Rightarrow> nat \<Rightarrow> nat \<Rightarrow> bool" where
  "ClientSideProxy_wait at i timeout =
     (if i < timeout then if ClientSideProxy_isActivated (at i) then True else ClientSideProxy_wait at (Suc i) timeout
      else False)"
  by pat_completeness auto
termination
  by (relation "measure (\<lambda>(at, i, timeout). timeout - i)") auto

declare ClientSideProxy_wait.simps [simp del]

text \<open>\<open>valid\<close> is \<open>sessionConfig_.isValid()\<close>, \<open>activated\<close> the result of \<open>wait\<close>.\<close>

definition ClientSideProxy_connect ::
    "bool \<Rightarrow> bool \<Rightarrow> bool \<Rightarrow> bool \<Rightarrow> byte list \<Rightarrow> u16 \<Rightarrow> byte list \<Rightarrow> ('c, 's, 't, 'p, bool) client_bridge_prog" where
  "ClientSideProxy_connect isForTest config_valid resolved activated ip port certificate =
     (if isForTest then ret True
      else if \<not> config_valid then ret False
      else bind (ClientSideBridge_bridge resolved ip port certificate) (\<lambda>bridged.
        if bridged \<and> activated then ret True
        else bind ClientSideProxy_disconnect (\<lambda>_. ret False)))"

section \<open>What the operations leave alone\<close>

named_theorems keeps_intros

definition keeps :: "('s \<Rightarrow> 'b) \<Rightarrow> ('s, 'a) prog \<Rightarrow> bool" where
  "keeps f m \<longleftrightarrow> (\<forall>s. f (snd (m s)) = f s)"

lemma keepsD: "keeps f m \<Longrightarrow> m s = (r, s') \<Longrightarrow> f s' = f s"
  by (metis keeps_def snd_conv)

lemma keeps_bind [keeps_intros]:
  assumes "keeps f m" and "\<And>x. keeps f (k x)"
  shows "keeps f (bind m k)"
  unfolding keeps_def
proof
  fix s
  obtain r s' where m: "m s = (r, s')" by fastforce
  with keepsD [OF assms(1) m] assms(2) show "f (snd (bind m k s)) = f s"
    by (cases r) (auto simp: bind_def keeps_def)
qed

lemma keeps_basic [keeps_intros]:
  "keeps f (ret x)" "keeps f (throw e)" "keeps f (gets h)" "keeps f skip"
  by (simp_all add: keeps_def prog_defs)

lemma keeps_modify [keeps_intros]: "(\<And>s. f (h s) = f s) \<Longrightarrow> keeps f (modify h)"
  by (simp add: keeps_def modify_def)

lemma keeps_zoom [keeps_intros]: "(\<And>t s. f (put t s) = f s) \<Longrightarrow> keeps f (zoom get put m)"
  by (auto simp: keeps_def zoom_def split: prod.splits)

lemma keeps_catch [keeps_intros]: "keeps f m \<Longrightarrow> keeps f h \<Longrightarrow> keeps f (catch_core m h)"
  unfolding keeps_def catch_core_def by (auto split: prod.splits sum.splits) (metis snd_conv)+

lemma keeps_option [keeps_intros]:
  "keeps f m \<Longrightarrow> (\<And>x. keeps f (k x)) \<Longrightarrow> keeps f (case p of None \<Rightarrow> m | Some x \<Rightarrow> k x)"
  by (cases p) simp_all

lemma keeps_if [keeps_intros]: "(b \<Longrightarrow> keeps f m) \<Longrightarrow> (\<not> b \<Longrightarrow> keeps f k) \<Longrightarrow> keeps f (if b then m else k)"
  by simp

lemma sendMessage_keeps_owner: "keeps owner (MessagingExtension_sendMessage ops F mt TList vs)"
  unfolding MessagingExtension_sendMessage_def SessionImpl_serialize_def acquireSendBlock_def on_blocks_def
    on_ostream_def store_block_def release_at_def post_task_def SessionImpl_sendMessage_def
  by (intro keeps_intros) simp_all

text \<open>What a derived class adds to a \<open>ServerSideSession\<close>.\<close>

abbreviation derived :: "('c, 's, 't, ('p, 'm) server_side_session_scheme seed_owner) session_impl \<Rightarrow> 'm" where
  "derived s \<equiv> server_side_session.more (session_object (owner s))"

abbreviation client_of :: "('c, 's, 't, ('p, 'm) server_side_session_scheme seed_owner) session_impl \<Rightarrow> u32" where
  "client_of s \<equiv> clientId (session_object (owner s))"

lemma keeps_object [keeps_intros]:
  assumes "\<And>v v' r. m v = (r, v') \<Longrightarrow> h v' = h v"
  shows "keeps (\<lambda>s. h (session_object (owner s))) (on_object m)"
  using assms by (auto simp: keeps_def on_object_def zoom_def split: prod.splits)

lemma keeps_on_object:
  assumes "keeps h m"
  shows "keeps (\<lambda>s. h (session_object (owner s))) (on_object m)"
  using assms by (auto simp: keeps_def on_object_def zoom_def split: prod.splits) (metis snd_conv)

lemma authenticated_keeps:
  assumes "\<And>v t r h. f (v\<lparr>authenticationTimer := t\<rparr>) = f v" "\<And>v r. f (ss_receiver_update r v) = f v"
    "\<And>v h. f (ss_heartbeater_update h v) = f v"
  shows "keeps (\<lambda>s. f (session_object (owner s))) (ServerSideSession_authenticated now)"
  unfolding ServerSideSession_authenticated_def ServerSideSession_cancelAuthenticationTimer_def deref_def
  by (intro keeps_intros keeps_on_object) (simp_all add: assms)

lemma onDisconnected_keeps:
  assumes "\<And>v t r h. f (v\<lparr>authenticationTimer := t\<rparr>) = f v"
    "\<And>v r h. f (v\<lparr>ss_receiver := r, ss_heartbeater := h\<rparr>) = f v"
  shows "keeps (\<lambda>s. f (session_object (owner s))) ServerSideSession_onDisconnected"
  unfolding ServerSideSession_onDisconnected_def ServerSideSession_cancelAuthenticationTimer_def
  by (intro keeps_intros keeps_on_object) (simp_all add: assms)

lemmas onConnected_defs = ServerSideSession_onConnected_def ForServer_exchangePublicKey_def ServerSideSession_callback_def
  ServerSideSession_seedExchanged_def ServerSideSession_setupAuthenticationTimer_def getNextClientId_def

lemma prepare_derived:
  "server_side_session.more (ServerSideSession_initHeartbeater v) = server_side_session.more v"
  "server_side_session.more (ServerSideSession_initializeRsaCipher lib v) = server_side_session.more v"
  by (simp_all add: ServerSideSession_initHeartbeater_def ServerSideSession_initializeRsaCipher_def Let_def)

lemma onConnected_run:
  "\<exists>s'. ServerSideSession_onConnected ops lib now n s = (Inr (True, n + 1), s') \<and>
    derived s' = derived s \<and> client_of s' = n + 1"
  by (cases "pc_hasPacketCipher ops (coder s)")
    (simp_all add: onConnected_defs prepare_derived on_object_def zoom_def bind_def prog_defs)

lemma onConnected_keeps:
  assumes "\<And>s w. f (s\<lparr>owner := w\<rparr>) = f s"
  shows "keeps f (ServerSideSession_onConnected ops lib now n)"
  unfolding onConnected_defs on_object_def Let_def prod.case
  by (intro keeps_intros) (simp_all add: assms on_object_def keeps_intros)

lemma onConnected_starts:
  assumes "ServerSideSession_onConnected ops lib now n s = (Inr x, s')"
  shows "ss_receiver (session_object (owner s')) \<noteq> None \<and> ss_heartbeater (session_object (owner s')) \<noteq> None"
  using assms
  by (cases "pc_hasPacketCipher ops (coder s)")
    (auto simp: onConnected_defs ServerSideSession_initHeartbeater_def
      on_object_def zoom_def bind_def prog_defs Let_def)

abbreviation obj :: "('c, 's, 't, 'v seed_owner) session_impl \<Rightarrow> 'v" where
  "obj s \<equiv> session_object (owner s)"

text \<open>The members of a bridge that matter for the manager.\<close>

definition link :: "'p server_side_bridge \<Rightarrow> nat option \<times> u32 \<times> u32 \<times> proxies" where
  "link v = (br_proxy v, clientId v, px_serverId v, manager v)"

lemma link_more: "link v = link w" if "server_side_session.more v = server_side_session.more w" "clientId v = clientId w"
  using that by (cases v; cases w) (simp add: link_def server_side_bridge.defs)

lemma keeps_owner_link: "keeps owner m \<Longrightarrow> keeps (\<lambda>s. link (obj s)) m"
  by (simp add: keeps_def)

lemma onAuthenticate_keeps: "keeps (\<lambda>s. link (obj s)) (ServerSideBridge_onAuthenticate ops F now b)"
  unfolding ServerSideBridge_onAuthenticate_def
  by (intro keeps_intros keeps_owner_link sendMessage_keeps_owner authenticated_keeps) (simp_all add: link_def)

lemma authenticate_effect:
  assumes "ServerSideProxy_authenticate ops F now verify this certificate s = (Inr (), s')"
    and "link (obj s) = (p, c, i, m)"
  shows "link (obj s') = (if verify certificate then (p, c, c, m(c \<mapsto> this)) else (p, c, ServerId_invalid, m))"
proof -
  let ?s1 = "s\<lparr>owner := (owner s)\<lparr>session_object := (obj s)\<lparr>px_serverId := clientId (obj s)\<rparr>\<rparr>\<rparr>"
  have "link (obj ?s1) = (p, c, c, m)" using assms(2) by (simp add: link_def)
  moreover obtain s2 where s2: "ServerSideBridge_onAuthenticate ops F now (verify certificate) ?s1 = (Inr (), s2)"
    and rest: "(if \<not> verify certificate then
       bind (on_object (modify (\<lambda>v. v\<lparr>px_serverId := ServerId_invalid\<rparr>))) (\<lambda>_. SessionImpl_disconnectGracefully)
     else ManagedServerSideProxy_managed this) s2 = (Inr (), s')"
    using assms(1)
    by (auto simp: ServerSideProxy_authenticate_def on_object_def zoom_def modify_def bind_def [of "zoom _ _ _"]
        Let_def elim!: bind_InrE)
  ultimately have "link (obj s2) = (p, c, c, m)" using keepsD [OF onAuthenticate_keeps s2] by simp
  with rest show ?thesis
    by (auto simp: link_def ManagedServerSideProxy_managed_def SessionImpl_disconnectGracefully_def post_task_def
        ServerSideProxyManager_add_def on_object_def zoom_def bind_def prog_defs split: if_splits)
qed

lemma received_effect:
  assumes "ServerSideBridge_authenticateMessageReceived ops F now verify [V_string certificate] s = (Inr (), s')"
    and "link (obj s) = (Some this, c, i, m)"
  shows "link (obj s') = (if verify certificate then (Some this, c, c, m(c \<mapsto> this)) else (Some this, c, ServerId_invalid, m))"
proof -
  from assms have "ServerSideProxy_authenticate ops F now verify this certificate s = (Inr (), s')"
    by (simp add: ServerSideBridge_authenticateMessageReceived_def deref_def link_def bind_gets bind_ret)
  from authenticate_effect [OF this assms(2)] show ?thesis .
qed

lemma disconnected_effect:
  assumes "ServerSideBridge_onDisconnected s = (Inr (), s')" and "link (obj s) = (Some this, c, i, m)"
  shows "link (obj s') = (Some this, c, ServerId_invalid, ServerSideProxyManager_remove i m)"
proof -
  from assms(1) obtain x s1 where s1: "ServerSideSession_onDisconnected s = (Inr x, s1)"
    and rest: "(bind (gets (\<lambda>s. br_proxy (obj s))) (\<lambda>callback.
      if callback \<noteq> None then ServerSideProxy_disconnected else skip)) s1 = (Inr (), s')"
    unfolding ServerSideBridge_onDisconnected_def by (rule bind_InrE)
  have "keeps (\<lambda>s. link (obj s)) ServerSideSession_onDisconnected"
    by (rule onDisconnected_keeps) (simp_all add: link_def)
  from keepsD [OF this s1] assms(2) have "link (obj s1) = (Some this, c, i, m)" by simp
  with rest show ?thesis
    by (auto simp: link_def ServerSideProxy_disconnected_def ManagedServerSideProxy_unmanaged_def
        on_object_def zoom_def bind_def prog_defs)
qed

lemma connected_effect:
  assumes "ServerSideBridge_onConnected ops lib now n s = (Inr (b, n'), s')" and "link (obj s) = (p, c, i, m)"
  shows "b \<and> n' = n + 1 \<and> link (obj s') = (p, n + 1, i, m)"
proof -
  obtain s1 where s1: "ServerSideSession_onConnected ops lib now n s = (Inr (True, n + 1), s1)"
    "derived s1 = derived s" "client_of s1 = n + 1" using onConnected_run by blast
  then have "b \<and> n' = n + 1 \<and> s' = s1" using assms(1) by (simp add: ServerSideBridge_onConnected_def bind_def ret_def)
  moreover have "link (obj s1) = link ((obj s)\<lparr>clientId := n + 1\<rparr>)"
    by (rule link_more) (simp_all add: s1(2,3))
  ultimately show ?thesis using assms(2) by (simp add: link_def)
qed

section \<open>Many bridges and one manager\<close>

record ('c, 's, 't, 'p) s2s_world =
  bridges :: "nat \<Rightarrow> ('c, 's, 't, 'p server_side_bridge seed_owner) session_impl"
  online :: "nat set"
  shared :: proxies
  connections :: nat

definition with_manager ::
    "proxies \<Rightarrow> ('c, 's, 't, 'p server_side_bridge seed_owner) session_impl \<Rightarrow>
     ('c, 's, 't, 'p server_side_bridge seed_owner) session_impl" where
  "with_manager m s = s\<lparr>owner := (owner s)\<lparr>session_object := (obj s)\<lparr>manager := m\<rparr>\<rparr>\<rparr>"

definition run_bridge ::
    "nat \<Rightarrow> ('c, 's, 't, 'p, 'a) bridge_prog \<Rightarrow> ('c, 's, 't, 'p) s2s_world \<Rightarrow> ('a \<times> ('c, 's, 't, 'p) s2s_world) option" where
  "run_bridge a p w = (case p (with_manager (shared w) (bridges w a)) of
     (Inl e, s) \<Rightarrow> None
   | (Inr x, s) \<Rightarrow> Some (x, w\<lparr>bridges := (bridges w)(a := s), shared := manager (obj s)\<rparr>))"

text \<open>The bridges of a pool: one is connected, authenticates (only while it is not authenticated, if \<open>once\<close>), is
  disconnected and used again.\<close>

inductive s2s_step ::
    "'c packet_coder_ops \<Rightarrow> ('s, 't) stream_factory \<Rightarrow> 'p cryptopp \<Rightarrow> (byte list \<Rightarrow> bool) \<Rightarrow> bool \<Rightarrow>
     ('c, 's, 't, 'p) s2s_world \<Rightarrow> ('c, 's, 't, 'p) s2s_world \<Rightarrow> bool" for ops F lib verify once where
  connect: "a \<notin> online w \<Longrightarrow>
    run_bridge a (ServerSideBridge_onConnected ops lib now (word_of_nat (connections w))) w = Some ((b, n), w') \<Longrightarrow>
    s2s_step ops F lib verify once w (w'\<lparr>online := insert a (online w'), connections := Suc (connections w')\<rparr>)"
| authenticate: "a \<in> online w \<Longrightarrow> once \<longrightarrow> px_serverId (obj (bridges w a)) = ServerId_invalid \<Longrightarrow>
    run_bridge a (ServerSideBridge_authenticateMessageReceived ops F now verify [V_string certificate]) w = Some ((), w') \<Longrightarrow>
    s2s_step ops F lib verify once w w'"
| disconnect: "a \<in> online w \<Longrightarrow> run_bridge a ServerSideBridge_onDisconnected w = Some ((), w') \<Longrightarrow>
    s2s_step ops F lib verify once w (w'\<lparr>online := online w' - {a}\<rparr>)"

definition fresh_pool :: "('c, 's, 't, 'p) s2s_world \<Rightarrow> bool" where
  "fresh_pool w \<longleftrightarrow> online w = {} \<and> shared w = Map.empty \<and> connections w = 0 \<and>
     (\<forall>a. br_proxy (obj (bridges w a)) = Some a \<and> px_serverId (obj (bridges w a)) = ServerId_invalid)"

section \<open>The manager lists the authenticated proxies\<close>

abbreviation server_of :: "('c, 's, 't, 'p) s2s_world \<Rightarrow> nat \<Rightarrow> u32" where
  "server_of w a \<equiv> px_serverId (obj (bridges w a))"

definition s2s_ok :: "('c, 's, 't, 'p) s2s_world \<Rightarrow> bool" where
  "s2s_ok w \<longleftrightarrow> (\<forall>a. br_proxy (obj (bridges w a)) = Some a) \<and>
     (\<forall>a. server_of w a \<noteq> ServerId_invalid \<longrightarrow> a \<in> online w \<and> server_of w a = client_of (bridges w a)) \<and>
     (\<forall>a \<in> online w. \<exists>k. 0 < k \<and> k \<le> connections w \<and> client_of (bridges w a) = word_of_nat k) \<and>
     inj_on (\<lambda>a. client_of (bridges w a)) (online w) \<and>
     (\<forall>i a. shared w i = Some a \<longleftrightarrow> i \<noteq> ServerId_invalid \<and> server_of w a = i)"

lemma link_with_manager: "link (obj (with_manager m s)) = (br_proxy (obj s), client_of s, px_serverId (obj s), m)"
  by (simp add: with_manager_def link_def)

lemma run_bridge_SomeE:
  assumes "run_bridge a p w = Some (x, w')"
  obtains s where "p (with_manager (shared w) (bridges w a)) = (Inr x, s)"
    and "w' = w\<lparr>bridges := (bridges w)(a := s), shared := manager (obj s)\<rparr>"
  using assms by (auto simp: run_bridge_def split: prod.splits sum.splits)

lemma run_bridge_frame: "run_bridge a p w = Some (x, w') \<Longrightarrow> online w' = online w \<and> connections w' = connections w"
  by (erule run_bridge_SomeE) simp

text \<open>The three operations as they change the world.\<close>

lemma run_connect:
  assumes "run_bridge a (ServerSideBridge_onConnected ops lib now (word_of_nat (connections w))) w = Some ((b, n), w')"
    and "br_proxy (obj (bridges w a)) = Some a"
  obtains s where "w' = w\<lparr>bridges := (bridges w)(a := s)\<rparr>" and "br_proxy (obj s) = Some a"
    and "client_of s = word_of_nat (Suc (connections w))" and "px_serverId (obj s) = px_serverId (obj (bridges w a))"
proof -
  obtain s where run: "ServerSideBridge_onConnected ops lib now (word_of_nat (connections w))
      (with_manager (shared w) (bridges w a)) = (Inr (b, n), s)"
    and w': "w' = w\<lparr>bridges := (bridges w)(a := s), shared := manager (obj s)\<rparr>"
    by (rule run_bridge_SomeE [OF assms(1)])
  from connected_effect [OF run link_with_manager] assms(2) that [of s] w' show ?thesis
    by (simp add: link_def add.commute)
qed

lemma run_authenticate:
  assumes "run_bridge a (ServerSideBridge_authenticateMessageReceived ops F now verify [V_string certificate]) w = Some ((), w')"
    and "br_proxy (obj (bridges w a)) = Some a"
  obtains s where "w' = w\<lparr>bridges := (bridges w)(a := s),
      shared := if verify certificate then (shared w)(client_of (bridges w a) \<mapsto> a) else shared w\<rparr>"
    and "br_proxy (obj s) = Some a" and "client_of s = client_of (bridges w a)"
    and "px_serverId (obj s) = (if verify certificate then client_of (bridges w a) else ServerId_invalid)"
proof -
  obtain s where run: "ServerSideBridge_authenticateMessageReceived ops F now verify [V_string certificate]
      (with_manager (shared w) (bridges w a)) = (Inr (), s)"
    and w': "w' = w\<lparr>bridges := (bridges w)(a := s), shared := manager (obj s)\<rparr>"
    by (rule run_bridge_SomeE [OF assms(1)])
  have l: "link (obj (with_manager (shared w) (bridges w a))) =
      (Some a, client_of (bridges w a), px_serverId (obj (bridges w a)), shared w)"
    using assms(2) by (simp add: link_with_manager)
  from received_effect [OF run l] that [of s] w' show ?thesis by (simp add: link_def split: if_splits)
qed

lemma run_disconnect:
  assumes "run_bridge a ServerSideBridge_onDisconnected w = Some ((), w')" and "br_proxy (obj (bridges w a)) = Some a"
  obtains s where "w' = w\<lparr>bridges := (bridges w)(a := s),
      shared := ServerSideProxyManager_remove (server_of w a) (shared w)\<rparr>"
    and "br_proxy (obj s) = Some a" and "client_of s = client_of (bridges w a)" and "px_serverId (obj s) = ServerId_invalid"
proof -
  obtain s where run: "ServerSideBridge_onDisconnected (with_manager (shared w) (bridges w a)) = (Inr (), s)"
    and w': "w' = w\<lparr>bridges := (bridges w)(a := s), shared := manager (obj s)\<rparr>"
    by (rule run_bridge_SomeE [OF assms(1)])
  have l: "link (obj (with_manager (shared w) (bridges w a))) =
      (Some a, client_of (bridges w a), server_of w a, shared w)"
    using assms(2) by (simp add: link_with_manager)
  from disconnected_effect [OF run l] that [of s] w' show ?thesis by (simp add: link_def)
qed

lemma word_of_nat_fresh:
  assumes "k \<le> n" and "Suc n < 2 ^ 32"
  shows "(word_of_nat (Suc n) :: u32) \<noteq> word_of_nat k" and "0 < k \<Longrightarrow> (word_of_nat k :: u32) \<noteq> 0"
proof -
  have u: "unat (word_of_nat j :: u32) = j" if "j \<le> Suc n" for j
    using that assms(2) by (simp add: unat_of_nat)
  from u [of "Suc n"] u [of k] assms(1) show "(word_of_nat (Suc n) :: u32) \<noteq> word_of_nat k"
    by (metis Suc_n_not_le_n le_SucI order_refl)
  from u [of k] assms(1) show "0 < k \<Longrightarrow> (word_of_nat k :: u32) \<noteq> 0"
    by (metis le_SucI less_numeral_extra(3) unat_0)
qed

lemma s2s_connect_ok:
  assumes "s2s_ok w" and "a \<notin> online w" and "Suc (connections w) < 2 ^ 32"
    and "run_bridge a (ServerSideBridge_onConnected ops lib now (word_of_nat (connections w))) w = Some ((b, n), w')"
  shows "s2s_ok (w'\<lparr>online := insert a (online w'), connections := Suc (connections w')\<rparr>)"
proof -
  have idle: "server_of w a = ServerId_invalid" and br: "br_proxy (obj (bridges w a)) = Some a"
    using assms(1,2) by (auto simp: s2s_ok_def)
  obtain s where s: "w' = w\<lparr>bridges := (bridges w)(a := s)\<rparr>" "br_proxy (obj s) = Some a"
    "client_of s = word_of_nat (Suc (connections w))" "px_serverId (obj s) = server_of w a"
    by (rule run_connect [OF assms(4) br])
  have new: "client_of (bridges w c) \<noteq> word_of_nat (Suc (connections w))" if "c \<in> online w" for c
    using assms(1) that word_of_nat_fresh(1) [OF _ assms(3)] unfolding s2s_ok_def by metis
  have "\<exists>k. 0 < k \<and> k \<le> Suc (connections w) \<and> client_of (bridges w c) = word_of_nat k" if "c \<in> online w" for c
    using assms(1) that unfolding s2s_ok_def by (meson le_SucI)
  moreover have "inj_on (\<lambda>c. client_of (((bridges w)(a := s)) c)) (insert a (online w))"
    using assms(1,2) new s(3) by (auto simp: s2s_ok_def inj_on_def)
  ultimately show ?thesis
    using assms(1,2) s idle by (auto simp: s2s_ok_def)
qed

lemma s2s_authenticate_ok:
  assumes "s2s_ok w" and "a \<in> online w" and "server_of w a = ServerId_invalid" and "Suc (connections w) < 2 ^ 32"
    and "run_bridge a (ServerSideBridge_authenticateMessageReceived ops F now verify [V_string certificate]) w = Some ((), w')"
  shows "s2s_ok w'"
proof -
  let ?c = "client_of (bridges w a)"
  have br: "br_proxy (obj (bridges w a)) = Some a" using assms(1) by (simp add: s2s_ok_def)
  obtain s where s: "w' = w\<lparr>bridges := (bridges w)(a := s),
      shared := if verify certificate then (shared w)(?c \<mapsto> a) else shared w\<rparr>" "br_proxy (obj s) = Some a"
    "client_of s = ?c" "px_serverId (obj s) = (if verify certificate then ?c else ServerId_invalid)"
    by (rule run_authenticate [OF assms(5) br])
  have nz: "?c \<noteq> ServerId_invalid"
    using assms(1,2) word_of_nat_fresh(2) [OF _ assms(4)] unfolding s2s_ok_def ServerId_invalid_def by metis
  have other: "server_of w b \<noteq> ?c" if "b \<noteq> a" for b
  proof
    assume "server_of w b = ?c"
    with nz assms(1) have "b \<in> online w" "client_of (bridges w b) = ?c" unfolding s2s_ok_def by metis+
    with assms(1,2) that show False unfolding s2s_ok_def inj_on_def by metis
  qed
  have cl: "client_of (((bridges w)(a := s)) b) = client_of (bridges w b)" for b using s(3) by simp
  show ?thesis
    using s assms(1-3) nz other cl by (cases "verify certificate") (auto simp: s2s_ok_def)
qed

lemma s2s_disconnect_ok:
  assumes "s2s_ok w" and "a \<in> online w" and "run_bridge a ServerSideBridge_onDisconnected w = Some ((), w')"
  shows "s2s_ok (w'\<lparr>online := online w' - {a}\<rparr>)"
proof -
  let ?i = "server_of w a"
  have br: "br_proxy (obj (bridges w a)) = Some a" using assms(1) by (simp add: s2s_ok_def)
  obtain s where s: "w' = w\<lparr>bridges := (bridges w)(a := s), shared := ServerSideProxyManager_remove ?i (shared w)\<rparr>"
    "br_proxy (obj s) = Some a" "client_of s = client_of (bridges w a)" "px_serverId (obj s) = ServerId_invalid"
    by (rule run_disconnect [OF assms(3) br])
  have uniq: "b = a" if "server_of w b = ?i" "?i \<noteq> ServerId_invalid" for b
    using assms(1) that unfolding s2s_ok_def by (metis option.inject)
  have m: "ServerSideProxyManager_remove ?i (shared w) i = Some b \<longleftrightarrow> i \<noteq> ServerId_invalid \<and> server_of w b = i \<and> b \<noteq> a" for i b
    using assms(1) uniq by (auto simp: s2s_ok_def ServerSideProxyManager_remove_def isValid_ServerId_def)
  have cl: "client_of (((bridges w)(a := s)) b) = client_of (bridges w b)" for b using s(3) by simp
  from assms(1) s m cl show ?thesis by (auto simp: s2s_ok_def inj_on_def)
qed

lemma s2s_steps_ok:
  assumes "(s2s_step ops F lib verify True)\<^sup>*\<^sup>* w w'" and "fresh_pool w" and "Suc (connections w') < 2 ^ 32"
  shows "s2s_ok w'"
  using assms
proof (induction rule: rtranclp_induct)
  case base
  then show ?case by (auto simp: fresh_pool_def s2s_ok_def)
next
  case (step y z)
  have le: "connections y \<le> connections z"
    using step.hyps(2) by cases (auto elim!: run_bridge_SomeE)
  with step have ok: "s2s_ok y" and lim: "Suc (connections y) < 2 ^ 32" by simp_all
  from step.hyps(2) show ?case
  proof cases
    case (connect a now b n y')
    with s2s_connect_ok [OF ok] lim show ?thesis by simp
  next
    case (authenticate a now certificate)
    with s2s_authenticate_ok [OF ok] lim show ?thesis by simp
  next
    case (disconnect a y')
    with s2s_disconnect_ok [OF ok] show ?thesis by simp
  qed
qed

text \<open>A bridge that can send answers every request to authenticate.\<close>

definition ready_bridge :: "('s \<Rightarrow> bool) \<Rightarrow> nat \<Rightarrow> ('c, 's, 't, 'p server_side_bridge seed_owner) session_impl \<Rightarrow> bool" where
  "ready_bridge oinv n s \<longleftrightarrow> oinv (ostream s) \<and> can_send n (blocks s) \<and> br_proxy (obj s) \<noteq> None \<and>
     ss_receiver (obj s) \<noteq> None \<and> ss_heartbeater (obj s) \<noteq> None"

context session_streams
begin

lemma authenticate_run:
  assumes "ready_bridge oinv n s" and "\<And>c. pc_getHeaderSize ops c = n"
  shows "\<exists>s'. ServerSideBridge_authenticateMessageReceived ops F now verify [V_string certificate] s = (Inr (), s') \<and>
    ready_bridge oinv n s'"
proof -
  obtain this r h where s: "oinv (ostream s)" "can_send n (blocks s)" "br_proxy (obj s) = Some this"
    "ss_receiver (obj s) = Some r" "ss_heartbeater (obj s) = Some h" using assms(1) by (auto simp: ready_bridge_def)
  let ?s1 = "s\<lparr>owner := (owner s)\<lparr>session_object := (obj s)\<lparr>px_serverId := clientId (obj s)\<rparr>\<rparr>\<rparr>"
  have v: "valid_list empty_ok S2sAuthenticateResultMessage_fields [V_bool b]" for b
    by (simp add: S2sAuthenticateResultMessage_fields_def)
  have s1: "oinv (ostream ?s1)" "can_send n (blocks ?s1)" using s by simp_all
  obtain p mb hdr body os hp where sent: "MessagingExtension_sendMessage ops F s2smtSystem_authenticateResult
      S2sAuthenticateResultMessage_fields [V_bool (verify certificate)] ?s1 =
      (Inr (), ?s1\<lparr>ostream := os, blocks := hp, tasks := tasks ?s1 @ [SendMessage (p, mb) s2smtSystem_authenticateResult]\<rparr>)"
    "oinv os" "can_send n hp" by (rule send_message_run [OF v s1 assms(2)])
  then show ?thesis using s
    by (auto simp: ServerSideBridge_authenticateMessageReceived_def ServerSideProxy_authenticate_def deref_def
        ServerSideBridge_onAuthenticate_def ServerSideSession_authenticated_def ServerSideSession_cancelAuthenticationTimer_def
        ManagedServerSideProxy_managed_def SessionImpl_disconnectGracefully_def post_task_def ready_bridge_def
        on_object_def zoom_def bind_def prog_defs Let_def)
qed

end

lemma disconnect_run: "\<exists>s'. ServerSideBridge_onDisconnected s = (Inr (), s')"
  by (simp add: ServerSideBridge_onDisconnected_def ServerSideSession_onDisconnected_def
      ServerSideSession_cancelAuthenticationTimer_def ServerSideProxy_disconnected_def
      ManagedServerSideProxy_unmanaged_def on_object_def zoom_def bind_def prog_defs)

section \<open>A stale entry\<close>

definition stale :: "u32 \<Rightarrow> nat \<Rightarrow> ('c, 's, 't, 'p) s2s_world \<Rightarrow> bool" where
  "stale i a w \<longleftrightarrow> shared w i = Some a \<and> (\<forall>b. server_of w b \<noteq> i) \<and> (\<forall>b \<in> online w. client_of (bridges w b) \<noteq> i) \<and>
     (\<forall>b. br_proxy (obj (bridges w b)) = Some b) \<and> i \<noteq> ServerId_invalid \<and>
     (\<exists>k \<le> connections w. i = word_of_nat k)"

lemma stale_step:
  assumes "s2s_step ops F lib verify once w w'" and "stale i a w" and "Suc (connections w) < 2 ^ 32"
  shows "stale i a w'"
proof -
  have br: "br_proxy (obj (bridges w b)) = Some b" "server_of w b \<noteq> i" for b using assms(2) by (auto simp: stale_def)
  show ?thesis
    using assms(1)
  proof cases
    case (connect b now r n w1)
    obtain s where s: "w1 = w\<lparr>bridges := (bridges w)(b := s)\<rparr>" "br_proxy (obj s) = Some b"
      "client_of s = word_of_nat (Suc (connections w))" "px_serverId (obj s) = server_of w b"
      using connect(3) br(1) by (rule run_connect)
    have "(word_of_nat (Suc (connections w)) :: u32) \<noteq> i"
      using assms(2) word_of_nat_fresh(1) [OF _ assms(3)] unfolding stale_def by metis
    with s assms(2) show ?thesis unfolding connect(1) stale_def by (auto intro: le_SucI)
  next
    case (authenticate b now certificate)
    have "client_of (bridges w b) \<noteq> i" using assms(2) authenticate(1) by (auto simp: stale_def)
    moreover obtain s where "w' = w\<lparr>bridges := (bridges w)(b := s),
        shared := if verify certificate then (shared w)(client_of (bridges w b) \<mapsto> b) else shared w\<rparr>"
      "br_proxy (obj s) = Some b" "client_of s = client_of (bridges w b)"
      "px_serverId (obj s) = (if verify certificate then client_of (bridges w b) else ServerId_invalid)"
      using authenticate(3) br(1) by (rule run_authenticate)
    ultimately show ?thesis using assms(2) by (cases "verify certificate") (auto simp: stale_def)
  next
    case (disconnect b w1)
    obtain s where "w1 = w\<lparr>bridges := (bridges w)(b := s),
        shared := ServerSideProxyManager_remove (server_of w b) (shared w)\<rparr>"
      "br_proxy (obj s) = Some b" "client_of s = client_of (bridges w b)" "px_serverId (obj s) = ServerId_invalid"
      using disconnect(3) br(1) by (rule run_disconnect)
    then show ?thesis using assms(2) br(2) [of b] unfolding disconnect(1)
      by (auto simp: stale_def ServerSideProxyManager_remove_def)
  qed
qed

lemma connections_mono: "s2s_step ops F lib verify once w w' \<Longrightarrow> connections w \<le> connections w'"
  by (cases rule: s2s_step.cases) (auto elim!: run_bridge_SomeE)

lemma stale_steps:
  assumes "(s2s_step ops F lib verify once)\<^sup>*\<^sup>* w w'" and "stale i a w" and "Suc (connections w') < 2 ^ 32"
  shows "stale i a w'"
  using assms
proof (induction rule: rtranclp_induct)
  case (step y z)
  with connections_mono [OF step.hyps(2)] stale_step [OF step.hyps(2)] show ?case by simp
qed simp

section \<open>The delay between attempts\<close>

definition delay_ok :: "asio_wait \<Rightarrow> bool" where
  "delay_ok w \<longleftrightarrow> \<not> w_repeats w \<and> w_timeout w \<in> {1000, 2000, 4000, 7000}"

definition connector_ok :: "bridge_connector \<Rightarrow> bool" where
  "connector_ok c \<longleftrightarrow> unat (retryDelay c) \<in> {500, 1000, 2000, 4000, 7000} \<and>
     (\<forall>w \<in> set (waiting (reconnectTimer c) @ expired (reconnectTimer c) @ cancelled (reconnectTimer c)). delay_ok w) \<and>
     length (waiting (reconnectTimer c)) \<le> 1"

lemma next_delay:
  assumes "unat d \<le> 7000"
  shows "unat (min (d * 2) maxRetryDelay :: u32) = min (2 * unat d) 7000"
proof -
  have "unat (d * 2) = 2 * unat d"
    using assms by (simp add: unat_word_ariths)
  then show ?thesis
    by (simp add: min_def word_le_nat_alt maxRetryDelay_def)
qed

lemma reconnect_ok: "connector_ok c \<Longrightarrow> connector_ok (Connector_reconnect c)"
proof -
  assume ok: "connector_ok c"
  then have "unat (retryDelay c) \<le> 7000" by (auto simp: connector_ok_def)
  from next_delay [OF this] ok
  have "unat (min (retryDelay c * 2) maxRetryDelay) \<in> {1000, 2000, 4000, 7000}" by (auto simp: connector_ok_def)
  with ok show ?thesis by (auto simp: connector_ok_def Connector_reconnect_def timer_defs delay_ok_def Let_def)
qed

lemma handle_connect_ok: "connector_ok c \<Longrightarrow> connector_ok (Connector_handle_connect ec c)"
proof (cases "ec = Success")
  case True
  moreover assume "connector_ok c"
  ultimately show ?thesis by (simp add: Connector_handle_connect_def connector_ok_def initialRetryDelay_def)
next
  case False
  moreover assume "connector_ok c"
  ultimately show ?thesis by (simp add: Connector_handle_connect_def reconnect_ok)
qed

lemma timer_ok:
  assumes "reconnect_timer_step c c'" and "connector_ok c"
  shows "connector_ok c'"
  using assms
  by cases (auto simp: connector_ok_def delay_ok_def handle_wait_def AsioTimer_handle_timeout_def
      Connector_timedOut_def Connector_async_connect_def prog_defs Let_def)

lemma connector_step_ok: "connector_step c c' \<Longrightarrow> connector_ok c \<Longrightarrow> connector_ok c'"
proof (induction rule: connector_step.induct)
  case (io c c')
  then show ?case
  proof (induction rule: connector_io.induct)
    case (complete c ec)
    then show ?case by (intro handle_connect_ok) (simp add: connector_ok_def)
  next
    case (abort c)
    then show ?case by (intro handle_connect_ok) (simp add: connector_ok_def)
  qed (rule timer_ok)
next
  case (cancel c)
  then show ?case by (auto simp: connector_ok_def Connector_cancel_def timer_defs)
next
  case (lost c)
  then show ?case by (rule reconnect_ok)
qed (auto simp: connector_ok_def Connector_connect_def Connector_async_connect_def bind_def prog_defs split: if_splits)

lemma backoff:
  assumes "retryDelay c = initialRetryDelay"
  shows "unat (retryDelay ((Connector_reconnect ^^ n) c)) = min (500 * 2 ^ n) 7000"
proof (induction n)
  case 0
  then show ?case by (simp add: assms initialRetryDelay_def)
next
  case (Suc n)
  then have "unat (retryDelay ((Connector_reconnect ^^ n) c)) \<le> 7000" by simp
  from next_delay [OF this] Suc have "unat (retryDelay (Connector_reconnect ((Connector_reconnect ^^ n) c))) =
      min (2 * min (500 * 2 ^ n) 7000) 7000" by (simp add: Connector_reconnect_def Let_def)
  then show ?case by (simp add: min_def)
qed

text \<open>The wait that the last of several reconnects starts.\<close>

lemma backoff_wait:
  assumes "retryDelay c = initialRetryDelay"
  shows "waiting (reconnectTimer ((Connector_reconnect ^^ Suc n) c)) =
    [\<lparr>w_repeats = False, w_timeout = min (500 * 2 ^ Suc n) 7000, w_act = 0\<rparr>]"
proof -
  have "waiting (reconnectTimer (Connector_reconnect c)) =
      [\<lparr>w_repeats = False, w_timeout = unat (retryDelay (Connector_reconnect c)), w_act = 0\<rparr>]" for c
    by (simp add: Connector_reconnect_def timer_defs Let_def)
  from this [of "(Connector_reconnect ^^ n) c"] backoff [OF assms, of "Suc n"] show ?thesis by simp
qed

lemma connector_steps_ok: "connector_step\<^sup>*\<^sup>* Connector_new c \<Longrightarrow> connector_ok c"
proof (induction rule: rtranclp_induct)
  case base
  then show ?case by (simp add: connector_ok_def Connector_new_def initialRetryDelay_def timer_defs)
qed (rule connector_step_ok)

section \<open>Properties\<close>

text \<open>C16: the manager lists exactly the authenticated servers.  Whatever connections come and go, as long as a
  connection authenticates at most once and fewer than \<open>2 ^ 32 - 1\<close> connections were made, an identifier
  is mapped to a proxy just when that proxy is connected and was accepted under that identifier; so no
  entry outlives its connection, and no two connections share one.\<close>

theorem proxy_manager_exact:
  assumes "fresh_pool w" and "(s2s_step ops F lib verify True)\<^sup>*\<^sup>* w w'" and "Suc (connections w') < 2 ^ 32"
  shows "(ServerSideProxyManager_getProxy i (shared w') = Some a \<longleftrightarrow>
      isValid_ServerId i \<and> a \<in> online w' \<and> px_serverId (session_object (owner (bridges w' a))) = i) \<and>
    (isValid_ServerId (px_serverId (session_object (owner (bridges w' a)))) \<longrightarrow>
      px_serverId (session_object (owner (bridges w' a))) = clientId (session_object (owner (bridges w' a))))"
  using s2s_steps_ok [OF assms(2,1,3)]
  by (auto simp: s2s_ok_def ServerSideProxyManager_getProxy_def isValid_ServerId_def)

text \<open>A pool of bridges, of which the first is connected and authenticated.\<close>

definition demo_bridge :: "nat \<Rightarrow> ((unit, u32) secure_packet_coder, memory_block obytestream, memory_block ibytestream,
    nat server_side_bridge seed_owner) session_impl" where
  "demo_bridge a = demo_session \<lparr>privateKey = [], otherSidePublicKey = [], exchangingDecryptSeed = [],
     session_object = server_side_session.extend (ServerSideSession_new 0 9)
       \<lparr>br_proxy = Some a, px_serverId = ServerId_invalid, manager = Map.empty\<rparr>\<rparr>"

definition demo_pool_world :: "((unit, u32) secure_packet_coder, memory_block obytestream, memory_block ibytestream, nat) s2s_world" where
  "demo_pool_world = \<lparr>bridges = demo_bridge, online = {}, shared = Map.empty, connections = 0\<rparr>"

lemma ready_with_manager: "ready_bridge oinv n (with_manager m s) = ready_bridge oinv n s"
  by (simp add: ready_bridge_def with_manager_def)

lemma demo_pool_fresh: "fresh_pool demo_pool_world"
  by (simp add: fresh_pool_def demo_pool_world_def demo_bridge_def demo_session_fields server_side_session.defs)

abbreviation demo_step :: "bool \<Rightarrow> ((unit, u32) secure_packet_coder, memory_block obytestream, memory_block ibytestream, nat) s2s_world \<Rightarrow> _" where
  "demo_step \<equiv> s2s_step (SecurePacketCoder CsPacketCoder toy_env) SneStreamFactory_byte toy_cryptopp (\<lambda>c. c = [1])"

lemma demo_connected:
  obtains w where "demo_step once demo_pool_world w" and "online w = {0}" and "connections w = 1" and "shared w = Map.empty"
    and "br_proxy (obj (bridges w 0)) = Some 0" and "client_of (bridges w 0) = 1" and "server_of w 0 = ServerId_invalid"
    and "ready_bridge (oys_idle True) 9 (bridges w 0)"
proof -
  let ?ops = "SecurePacketCoder CsPacketCoder toy_env" and ?s = "with_manager Map.empty (demo_bridge 0)"
  have br: "br_proxy (obj (bridges demo_pool_world 0)) = Some 0" "server_of demo_pool_world 0 = ServerId_invalid"
    using demo_pool_fresh by (simp_all add: fresh_pool_def)
  obtain s1 where s1: "ServerSideSession_onConnected ?ops toy_cryptopp 0 0 ?s = (Inr (True, 1), s1)"
    using onConnected_run [of ?ops toy_cryptopp 0 0 ?s] by auto
  have run: "run_bridge 0 (ServerSideBridge_onConnected ?ops toy_cryptopp 0 (word_of_nat (connections demo_pool_world)))
      demo_pool_world = Some ((True, 1), demo_pool_world\<lparr>bridges := (bridges demo_pool_world)(0 := s1), shared := manager (obj s1)\<rparr>)"
    using s1 by (simp add: run_bridge_def ServerSideBridge_onConnected_def demo_pool_world_def bind_def ret_def)
  obtain s where s: "demo_pool_world\<lparr>bridges := (bridges demo_pool_world)(0 := s1), shared := manager (obj s1)\<rparr> =
      demo_pool_world\<lparr>bridges := (bridges demo_pool_world)(0 := s)\<rparr>" "br_proxy (obj s) = Some 0"
    "client_of s = word_of_nat (Suc (connections demo_pool_world))" "px_serverId (obj s) = server_of demo_pool_world 0"
    by (rule run_connect [OF run br(1)])
  have eq: "s = s1" using arg_cong [OF s(1), of "\<lambda>w. bridges w 0"] by simp
  have "ostream s1 = ostream ?s" "blocks s1 = blocks ?s"
    by (rule keepsD [OF onConnected_keeps s1], simp)+
  then have ready: "ready_bridge (oys_idle True) 9 s1"
    using onConnected_starts [OF s1] s(2)
    by (simp add: ready_bridge_def with_manager_def demo_bridge_def demo_session_fields eq)
  have "0 \<notin> online demo_pool_world" by (simp add: demo_pool_world_def)
  from s2s_step.connect [OF this run, of SneStreamFactory_byte "\<lambda>c. c = [1]" once]
  have "demo_step once demo_pool_world (demo_pool_world\<lparr>bridges := (bridges demo_pool_world)(0 := s1), online := {0}, connections := 1\<rparr>)"
    unfolding s(1) eq by (simp add: demo_pool_world_def)
  with that [of "demo_pool_world\<lparr>bridges := (bridges demo_pool_world)(0 := s1), online := {0}, connections := 1\<rparr>"]
    s(2-4) ready br(2) show ?thesis by (simp add: eq demo_pool_world_def)
qed

lemma authenticates:
  assumes "ready_bridge (oys_idle u) 9 (bridges w a)"
  shows "\<exists>w'. run_bridge a (ServerSideBridge_authenticateMessageReceived (SecurePacketCoder CsPacketCoder env)
      SneStreamFactory_byte now verify [V_string certificate]) w = Some ((), w') \<and> ready_bridge (oys_idle u) 9 (bridges w' a)"
proof -
  have "ready_bridge (oys_idle u) 9 (with_manager (shared w) (bridges w a))" using assms by (simp add: ready_with_manager)
  from byte_streams.authenticate_run [OF this, of "SecurePacketCoder CsPacketCoder env"]
  obtain s' where "ServerSideBridge_authenticateMessageReceived (SecurePacketCoder CsPacketCoder env)
      SneStreamFactory_byte now verify [V_string certificate] (with_manager (shared w) (bridges w a)) = (Inr (), s')"
    "ready_bridge (oys_idle u) 9 s'" using getHeaderSize_secure by blast
  then show ?thesis by (simp add: run_bridge_def)
qed

lemma demo_authenticated:
  obtains w where "(demo_step True)\<^sup>*\<^sup>* demo_pool_world w" and "online w = {0}" and "connections w = 1"
    and "shared w 1 = Some 0" and "server_of w 0 = 1" and "ready_bridge (oys_idle True) 9 (bridges w 0)"
proof -
  obtain w where w: "demo_step True demo_pool_world w" "online w = {0}" "connections w = 1" "shared w = Map.empty"
    "br_proxy (obj (bridges w 0)) = Some 0" "client_of (bridges w 0) = 1" "server_of w 0 = ServerId_invalid"
    "ready_bridge (oys_idle True) 9 (bridges w 0)" by (rule demo_connected)
  obtain w' where run: "run_bridge 0 (ServerSideBridge_authenticateMessageReceived (SecurePacketCoder CsPacketCoder toy_env)
      SneStreamFactory_byte 0 (\<lambda>c. c = [1]) [V_string [1]]) w = Some ((), w')" "ready_bridge (oys_idle True) 9 (bridges w' 0)"
    using authenticates [OF w(8)] by blast
  obtain s where s: "w' = w\<lparr>bridges := (bridges w)(0 := s),
      shared := if [1] = [1 :: byte] then (shared w)(client_of (bridges w 0) \<mapsto> 0) else shared w\<rparr>"
    "px_serverId (obj s) = (if [1] = [1 :: byte] then client_of (bridges w 0) else ServerId_invalid)"
    using run(1) w(5) by (rule run_authenticate)
  have "demo_step True w w'"
    using s2s_step.authenticate [OF _ _ run(1), of True] w(2,7) by simp
  with w(1) have "(demo_step True)\<^sup>*\<^sup>* demo_pool_world w'" by (meson converse_rtranclp_into_rtranclp r_into_rtranclp)
  with that [of w'] s w run(2) show ?thesis by simp
qed

theorem proxy_manager_exact_witness:
  "\<exists>w. (demo_step True)\<^sup>*\<^sup>* demo_pool_world w \<and> online w = {0} \<and>
    ServerSideProxyManager_getProxy 1 (shared w) = Some 0 \<and>
    (isValid_ServerId 1 \<and> 0 \<in> online w \<and> px_serverId (session_object (owner (bridges w 0))) = 1)"
proof -
  obtain w where w: "(demo_step True)\<^sup>*\<^sup>* demo_pool_world w" "online w = {0}" "connections w = 1"
    "shared w 1 = Some 0" by (rule demo_authenticated)
  with proxy_manager_exact [OF demo_pool_fresh w(1), of 1 0] show ?thesis
    by (auto simp: ServerSideProxyManager_getProxy_def)
qed

text \<open>C17: a second authentication that is refused leaves a stale entry.  When a server that was accepted sends
  another certificate and is refused, its proxy forgets the identifier under which it is listed; when
  the connection then ends, the entry is not removed, and it stays in the manager, whatever happens
  afterwards, pointing to a proxy that is disconnected or serves another server.\<close>

theorem refused_reauthentication_stale:
  assumes "fresh_pool w0" and "(s2s_step ops F lib verify True)\<^sup>*\<^sup>* w0 w"
    and "px_serverId (session_object (owner (bridges w a))) = i" and "isValid_ServerId i" and "\<not> verify certificate"
    and "run_bridge a (ServerSideBridge_authenticateMessageReceived ops F now verify [V_string certificate]) w = Some ((), w1)"
    and "run_bridge a ServerSideBridge_onDisconnected w1 = Some ((), w2)"
    and "(s2s_step ops F lib verify once)\<^sup>*\<^sup>* (w2\<lparr>online := online w2 - {a}\<rparr>) w3" and "Suc (connections w3) < 2 ^ 32"
  shows "ServerSideProxyManager_getProxy i (shared w3) = Some a \<and> px_serverId (session_object (owner (bridges w3 a))) \<noteq> i"
proof -
  have mono: "connections x \<le> connections y" if "(s2s_step ops F lib verify once)\<^sup>*\<^sup>* x y" for x y
    using that by (induction rule: rtranclp_induct) (auto dest: connections_mono)
  have "connections w2 \<le> connections w3" using mono [OF assms(8)] by simp
  moreover have "connections w2 = connections w" using run_bridge_frame [OF assms(6)] run_bridge_frame [OF assms(7)] by simp
  ultimately have lim: "Suc (connections w) < 2 ^ 32" using assms(9) by simp
  have ok: "s2s_ok w" by (rule s2s_steps_ok [OF assms(2,1) lim])
  then have brw: "br_proxy (obj (bridges w a)) = Some a" by (simp add: s2s_ok_def)
  obtain s where s: "w1 = w\<lparr>bridges := (bridges w)(a := s),
      shared := if verify certificate then (shared w)(client_of (bridges w a) \<mapsto> a) else shared w\<rparr>"
    "br_proxy (obj s) = Some a" "client_of s = client_of (bridges w a)"
    "px_serverId (obj s) = (if verify certificate then client_of (bridges w a) else ServerId_invalid)"
    by (rule run_authenticate [OF assms(6) brw])
  have "br_proxy (obj (bridges w1 a)) = Some a" using s(1,2) by simp
  from run_disconnect [OF assms(7) this] obtain s' where s': "w2 = w1\<lparr>bridges := (bridges w1)(a := s'),
      shared := ServerSideProxyManager_remove (server_of w1 a) (shared w1)\<rparr>"
    "br_proxy (obj s') = Some a" "client_of s' = client_of s" "px_serverId (obj s') = ServerId_invalid"
    using s(1) by auto
  have "\<exists>k \<le> connections w. i = word_of_nat k"
    using ok assms(3,4) unfolding s2s_ok_def isValid_ServerId_def by metis
  then have "stale i a (w2\<lparr>online := online w2 - {a}\<rparr>)"
    using ok assms(3,4,5) s s' unfolding stale_def s2s_ok_def
    by (auto simp: ServerSideProxyManager_remove_def isValid_ServerId_def inj_on_def)
  from stale_steps [OF assms(8) this assms(9)] show ?thesis
    by (simp add: stale_def ServerSideProxyManager_getProxy_def)
qed

theorem refused_reauthentication_stale_witness:
  "\<exists>w3. ServerSideProxyManager_getProxy 1 (shared w3) = Some 0 \<and>
    px_serverId (session_object (owner (bridges w3 0))) \<noteq> 1 \<and> online w3 = {} \<and>
    (\<exists>w w1 w2. (demo_step True)\<^sup>*\<^sup>* demo_pool_world w \<and>
      run_bridge 0 (ServerSideBridge_authenticateMessageReceived (SecurePacketCoder CsPacketCoder toy_env)
        SneStreamFactory_byte 0 (\<lambda>c. c = [1]) [V_string [2]]) w = Some ((), w1) \<and>
      run_bridge 0 ServerSideBridge_onDisconnected w1 = Some ((), w2) \<and> w3 = w2\<lparr>online := online w2 - {0}\<rparr>)"
proof -
  obtain w where w: "(demo_step True)\<^sup>*\<^sup>* demo_pool_world w" "online w = {0}" "connections w = 1"
    "shared w 1 = Some 0" "server_of w 0 = 1" "ready_bridge (oys_idle True) 9 (bridges w 0)" by (rule demo_authenticated)
  obtain w1 where w1: "run_bridge 0 (ServerSideBridge_authenticateMessageReceived (SecurePacketCoder CsPacketCoder toy_env)
      SneStreamFactory_byte 0 (\<lambda>c. c = [1]) [V_string [2]]) w = Some ((), w1)"
    using authenticates [OF w(6)] by blast
  obtain s' where "ServerSideBridge_onDisconnected (with_manager (shared w1) (bridges w1 0)) = (Inr (), s')"
    using disconnect_run by blast
  then obtain w2 where w2: "run_bridge 0 ServerSideBridge_onDisconnected w1 = Some ((), w2)" by (simp add: run_bridge_def)
  have lim: "Suc (connections (w2\<lparr>online := online w2 - {0}\<rparr>)) < 2 ^ 32" "online w2 = {0}"
    using run_bridge_frame [OF w1] run_bridge_frame [OF w2] w(2,3) by simp_all
  have i: "isValid_ServerId 1" "\<not> [2] = [1 :: byte]" by (simp_all add: isValid_ServerId_def ServerId_invalid_def)
  from refused_reauthentication_stale [OF demo_pool_fresh w(1,5) i w1 w2 rtranclp.rtrancl_refl lim(1)]
  have "ServerSideProxyManager_getProxy 1 (shared (w2\<lparr>online := online w2 - {0}\<rparr>)) = Some 0"
    "px_serverId (session_object (owner (bridges (w2\<lparr>online := online w2 - {0}\<rparr>) 0))) \<noteq> 1" by blast+
  moreover have "online (w2\<lparr>online := online w2 - {0}\<rparr>) = {}" using lim(2) by simp
  ultimately show ?thesis using w(1) w1 w2 by blast
qed

text \<open>C18: the delay between two attempts to connect.  However connects fail, succeed, are cancelled or
  connections are lost, the delay is 500, 1000, 2000, 4000 or 7000 milliseconds, at most one attempt is
  waiting, and it waits for one of the four doubled delays.  After a success the \<open>n\<close>th failure in a row starts one
  wait, of 500 milliseconds doubled \<open>n\<close> times but at most seven seconds.\<close>

theorem reconnect_backoff:
  assumes "connector_step\<^sup>*\<^sup>* Connector_new c"
  shows "unat (retryDelay c) \<in> {500, 1000, 2000, 4000, 7000} \<and> length (waiting (reconnectTimer c)) \<le> 1 \<and>
    (\<forall>w \<in> set (waiting (reconnectTimer c)). w_timeout w \<in> {1000, 2000, 4000, 7000}) \<and>
    (\<forall>n ec. ec \<noteq> Success \<longrightarrow> retryDelay c = initialRetryDelay \<longrightarrow>
      waiting (reconnectTimer ((Connector_handle_connect ec ^^ Suc n) c)) =
        [\<lparr>w_repeats = False, w_timeout = min (500 * 2 ^ Suc n) 7000, w_act = 0\<rparr>])"
proof -
  have "Connector_handle_connect ec = Connector_reconnect" if "ec \<noteq> Success" for ec
    using that by (simp add: fun_eq_iff Connector_handle_connect_def)
  with connector_steps_ok [OF assms] backoff_wait [of c] show ?thesis
    unfolding connector_ok_def delay_ok_def by auto
qed

theorem reconnect_backoff_witness:
  "\<exists>c. connector_step\<^sup>*\<^sup>* Connector_new c \<and>
    waiting (reconnectTimer ((Connector_handle_connect OtherError ^^ Suc 2) c)) = [\<lparr>w_repeats = False, w_timeout = 4000, w_act = 0\<rparr>]"
proof -
  obtain c where c: "Connector_connect True [49] 80 Connector_new = (Inr (), c)" "retryDelay c = initialRetryDelay"
    by (simp add: connector_defs bind_def prog_defs)
  have run: "connector_step\<^sup>*\<^sup>* Connector_new c"
    by (rule r_into_rtranclp) (rule connector_step.begin_connect [OF c(1)])
  from reconnect_backoff [OF run] c(2)
  have "waiting (reconnectTimer ((Connector_handle_connect OtherError ^^ Suc 2) c)) =
      [\<lparr>w_repeats = False, w_timeout = min (500 * 2 ^ Suc 2) 7000, w_act = 0\<rparr>]" by blast
  with run show ?thesis by auto
qed

text \<open>Cancelling a connection attempt does not end the attempts.  \<open>cancel\<close> closes the socket while an
  asynchronous connect is under way; the handler of that connect treats \<open>operation_aborted\<close> like a
  failure and starts the timer again, and when it expires the next attempt begins, without anything
  but the I/O context having run.\<close>

lemma cancelled_connection_retries:
  assumes "0 < connecting c" and "expired (reconnectTimer c) = []"
  shows "connecting (Connector_cancel c) = 0 \<and> waiting (reconnectTimer (Connector_cancel c)) = (if isRunning (reconnectTimer c) then [] else waiting (reconnectTimer c)) \<and>
    (\<exists>c'. connector_io\<^sup>*\<^sup>* (Connector_cancel c) c' \<and> 0 < connecting c')"
proof -
  let ?c0 = "Connector_cancel c"
  let ?c1 = "Connector_handle_connect OperationAborted (?c0\<lparr>aborted := aborted ?c0 - 1\<rparr>)"
  have s1: "connector_io ?c0 ?c1" using assms(1) by (intro connector_io.abort) (simp add: Connector_cancel_def)
  obtain d where w: "waiting (reconnectTimer ?c1) = [] @ \<lparr>w_repeats = False, w_timeout = d, w_act = 0\<rparr> # []"
    by (simp add: Connector_handle_connect_def Connector_reconnect_def timer_defs Let_def)
  let ?w = "\<lparr>w_repeats = False, w_timeout = d, w_act = 0\<rparr>"
  let ?c2 = "reconnectTimer_update (\<lambda>t. t\<lparr>waiting := [] @ [], expired := expired t @ [?w]\<rparr>) ?c1"
  have s2: "connector_io ?c1 ?c2" by (rule connector_io.timer [OF timer_step.expire [where get = reconnectTimer and s = ?c1, OF w]])
  have e: "expired (reconnectTimer ?c2) = ?w # []"
    using assms(2) by (simp add: Connector_handle_connect_def Connector_reconnect_def Connector_cancel_def timer_defs Let_def)
  let ?c3 = "handle_wait reconnectTimer reconnectTimer_update (\<lambda>act c. snd (Connector_timedOut True act c)) Success ?w
    (reconnectTimer_update (\<lambda>t. t\<lparr>expired := []\<rparr>) ?c2)"
  have s3: "connector_io ?c2 ?c3" by (rule connector_io.timer [OF timer_step.run_expired [where get = reconnectTimer and s = ?c2, OF e]])
  have "0 < connecting ?c3"
    by (simp add: Connector_handle_connect_def Connector_reconnect_def Connector_timedOut_def
        Connector_async_connect_def timer_defs prog_defs Let_def)
  moreover have "connector_io\<^sup>*\<^sup>* ?c0 ?c3"
    using s1 s2 s3 by (meson rtranclp.rtrancl_into_rtrancl rtranclp.rtrancl_refl)
  ultimately show ?thesis by (auto simp: Connector_cancel_def timer_defs)
qed

end
