(* ===== verification/Database_Request.thy ===== *)
theory Database_Request
  imports Secure_Packet_Coder
begin

text \<open>
  The requests that a server delegates to the database proxy (include/sne/database/proxy/DatabaseRequest.h):
  \<open>Param\<close>, a tagged value, and \<open>ModifyRequest\<close>, a stored procedure with its parameters and a priority.  The
  enumerations are read from the network as bytes and cast, so they are bytes here with the
  enumerators as constants.  \<open>SNE_ASSERT\<close> logs and goes on, as the default handler does.  The \<open>serialize\<close>
  templates are shown to be instances of the streaming of \<open>rpc_type\<close>s, which gives the round trip over
  every pair of streams.
\<close>

section \<open>Enumerations\<close>

definition ptUnknown :: byte where "ptUnknown = 0"
definition ptInt32 :: byte where "ptInt32 = 1"
definition ptUInt32 :: byte where "ptUInt32 = 2"
definition ptInt64 :: byte where "ptInt64 = 3"
definition ptUInt64 :: byte where "ptUInt64 = 4"
definition ptString :: byte where "ptString = 5"
definition ptWString :: byte where "ptWString = 6"

lemmas pt_defs = ptUnknown_def ptInt32_def ptUInt32_def ptInt64_def ptUInt64_def ptString_def ptWString_def

definition isValid_ParamType :: "byte \<Rightarrow> bool" where
  "isValid_ParamType pt \<longleftrightarrow> ptUnknown \<noteq> pt"

definition rpLowest :: byte where "rpLowest = 0"
definition rpLow :: byte where "rpLow = 1"
definition rpNormal :: byte where "rpNormal = 2"
definition rpHigh :: byte where "rpHigh = 3"
definition rpHighest :: byte where "rpHighest = 4"

definition isValid_RequestPriority :: "byte \<Rightarrow> bool" where
  "isValid_RequestPriority rp \<longleftrightarrow> rpLowest \<le> rp \<and> rp \<le> rpHighest"

definition rtUnknown :: byte where "rtUnknown = 0"
definition rtStoredProcedure :: byte where "rtStoredProcedure = 1"
definition rtSelect :: byte where "rtSelect = 2"

definition isValid_RequestType :: "byte \<Rightarrow> bool" where
  "isValid_RequestType rt \<longleftrightarrow> rtUnknown \<noteq> rt"

section \<open>Param\<close>

record param =
  p_type :: byte
  int32Value :: u32
  uint32Value :: u32
  int64Value :: u64
  uint64Value :: u64
  stringValue :: "byte list"
  wstringValue :: "wchar list"

text \<open>The default constructor leaves two members uninitialised: \<open>g32\<close> and \<open>g64\<close>.\<close>

definition Param_default :: "u32 \<Rightarrow> u64 \<Rightarrow> param" where
  "Param_default g32 g64 = \<lparr>p_type = ptUnknown, int32Value = 0, uint32Value = g32, int64Value = 0, uint64Value = g64,
     stringValue = [], wstringValue = []\<rparr>"

definition Param_int32 :: "u32 \<Rightarrow> param" where
  "Param_int32 value = \<lparr>p_type = ptInt32, int32Value = value, uint32Value = 0, int64Value = 0, uint64Value = 0,
     stringValue = [], wstringValue = []\<rparr>"

definition Param_uint32 :: "u32 \<Rightarrow> param" where
  "Param_uint32 value = \<lparr>p_type = ptUInt32, int32Value = 0, uint32Value = value, int64Value = 0, uint64Value = 0,
     stringValue = [], wstringValue = []\<rparr>"

definition Param_int64 :: "u64 \<Rightarrow> param" where
  "Param_int64 value = \<lparr>p_type = ptInt64, int32Value = 0, uint32Value = 0, int64Value = value, uint64Value = 0,
     stringValue = [], wstringValue = []\<rparr>"

definition Param_uint64 :: "u64 \<Rightarrow> param" where
  "Param_uint64 value = \<lparr>p_type = ptUInt64, int32Value = 0, uint32Value = 0, int64Value = 0, uint64Value = value,
     stringValue = [], wstringValue = []\<rparr>"

definition Param_string :: "byte list \<Rightarrow> param" where
  "Param_string value = \<lparr>p_type = ptString, int32Value = 0, uint32Value = 0, int64Value = 0, uint64Value = 0,
     stringValue = value, wstringValue = []\<rparr>"

definition Param_wstring :: "wchar list \<Rightarrow> param" where
  "Param_wstring value = \<lparr>p_type = ptWString, int32Value = 0, uint32Value = 0, int64Value = 0, uint64Value = 0,
     stringValue = [], wstringValue = value\<rparr>"

definition Param_isValid :: "param \<Rightarrow> bool" where
  "Param_isValid p \<longleftrightarrow> isValid_ParamType (p_type p)"

text \<open>\<open>operator<<\<close> to a wide stream: decimal numbers, and strings up to their first NUL, each character
  widened.\<close>

definition widen :: "byte list \<Rightarrow> wchar list" where
  "widen cs = map ucast cs"

definition decimal :: "int \<Rightarrow> wchar list" where
  "decimal i = widen (if i < 0 then 45 # dec_digits (nat (- i)) else dec_digits (nat i))"

definition c_str :: "'a::len word list \<Rightarrow> 'a word list" where
  "c_str s = takeWhile (\<lambda>c. c \<noteq> 0) s"

definition Param_print :: "param \<Rightarrow> wchar list" where
  "Param_print rhs =
     (if p_type rhs = ptInt32 then decimal (sint (int32Value rhs))
      else if p_type rhs = ptUInt32 then decimal (uint (uint32Value rhs))
      else if p_type rhs = ptInt64 then decimal (sint (int64Value rhs))
      else if p_type rhs = ptUInt64 then decimal (uint (uint64Value rhs))
      else if p_type rhs = ptString then widen (c_str (stringValue rhs))
      else if p_type rhs = ptWString then c_str (wstringValue rhs)
      else [])"

definition Param_serialize_out :: "'s ostream_ops \<Rightarrow> param \<Rightarrow> ('s, unit) prog" where
  "Param_serialize_out os p =
     bind (os_u8 os (p_type p) 8) (\<lambda>_.
     if p_type p = ptInt32 then os_i32 os (int32Value p) 32
     else if p_type p = ptUInt32 then os_u32 os (uint32Value p) 32
     else if p_type p = ptInt64 then os_i64 os (int64Value p) 64
     else if p_type p = ptUInt64 then os_u64 os (uint64Value p) 64
     else if p_type p = ptString then os_str os (stringValue p) 65535 16
     else if p_type p = ptWString then os_wstr os (wstringValue p) 65535 16
     else skip)"

definition Param_serialize_in :: "'t istream_ops \<Rightarrow> param \<Rightarrow> ('t, param) prog" where
  "Param_serialize_in istr p =
     bind (is_u8 istr 8) (\<lambda>paramType.
     let p = p\<lparr>p_type := paramType\<rparr> in
     if p_type p = ptInt32 then bind (is_i32 istr 32) (\<lambda>v. ret (p\<lparr>int32Value := v\<rparr>))
     else if p_type p = ptUInt32 then bind (is_u32 istr 32) (\<lambda>v. ret (p\<lparr>uint32Value := v\<rparr>))
     else if p_type p = ptInt64 then bind (is_i64 istr 64) (\<lambda>v. ret (p\<lparr>int64Value := v\<rparr>))
     else if p_type p = ptUInt64 then bind (is_u64 istr 64) (\<lambda>v. ret (p\<lparr>uint64Value := v\<rparr>))
     else if p_type p = ptString then bind (is_str istr 65535 16) (\<lambda>v. ret (p\<lparr>stringValue := v\<rparr>))
     else if p_type p = ptWString then bind (is_wstr istr 65535 16) (\<lambda>v. ret (p\<lparr>wstringValue := v\<rparr>))
     else ret p)"

section \<open>ModifyRequest\<close>

record modify_request =
  mr_priority :: byte
  mr_type :: byte
  mr_command :: "byte list"
  mr_params :: "param list"

text \<open>The default constructor does not initialise the priority.\<close>

definition ModifyRequest_default :: "byte \<Rightarrow> modify_request" where
  "ModifyRequest_default g = \<lparr>mr_priority = g, mr_type = rtUnknown, mr_command = [], mr_params = []\<rparr>"

definition ModifyRequest_new :: "byte \<Rightarrow> byte \<Rightarrow> byte list \<Rightarrow> param list \<Rightarrow> modify_request" where
  "ModifyRequest_new priority type command params =
     \<lparr>mr_priority = priority, mr_type = type, mr_command = command, mr_params = params\<rparr>"

definition ModifyRequest_isValid :: "modify_request \<Rightarrow> bool" where
  "ModifyRequest_isValid r \<longleftrightarrow> isValid_RequestPriority (mr_priority r) \<and> isValid_RequestType (mr_type r) \<and>
     mr_command r \<noteq> [] \<and> mr_params r \<noteq> []"

fun toString_loop :: "bool \<Rightarrow> param list \<Rightarrow> wchar list" where
  "toString_loop begin [] = []"
| "toString_loop begin (param # params) =
     (if \<not> begin then [44] else []) @ [40] @ decimal (uint (p_type param)) @ [44] @ Param_print param @ [41] @
     toString_loop False params"

definition ModifyRequest_toString :: "modify_request \<Rightarrow> wchar list" where
  "ModifyRequest_toString r = toString_loop True (mr_params r)"

text \<open>The three \<open>operator<<\<close>; \<open>p\<close> is the parameter that the constructor makes of the argument.\<close>

definition ModifyRequest_append :: "param \<Rightarrow> modify_request \<Rightarrow> modify_request" where
  "ModifyRequest_append p r = r\<lparr>mr_params := mr_params r @ [p]\<rparr>"

definition ModifyRequest_serialize_out :: "'s ostream_ops \<Rightarrow> modify_request \<Rightarrow> ('s, unit) prog" where
  "ModifyRequest_serialize_out os r =
     bind (os_u8 os (mr_priority r) 8) (\<lambda>_.
     bind (os_u8 os (mr_type r) 8) (\<lambda>_.
     bind (os_str os (mr_command r) 255 16) (\<lambda>_.
     RpcContainer_serialize_out os 16 (Param_serialize_out os) (mr_params r))))"

text \<open>Every parameter is read into a new object; \<open>p\<close> is what its default constructor leaves.\<close>

definition ModifyRequest_serialize_in :: "'t istream_ops \<Rightarrow> param \<Rightarrow> modify_request \<Rightarrow> ('t, modify_request) prog" where
  "ModifyRequest_serialize_in istr p r =
     bind (is_u8 istr 8) (\<lambda>priority.
     bind (is_u8 istr 8) (\<lambda>type.
     bind (is_str istr 255 16) (\<lambda>command.
     bind (RpcContainer_serialize_in istr 16 (Param_serialize_in istr p)) (\<lambda>params.
     ret (r\<lparr>mr_priority := priority, mr_type := type, mr_command := command, mr_params := params\<rparr>)))))"

section \<open>Requests as serializable values\<close>

definition param_types :: "rpc_type list" where
  "param_types = [T_i32 32, T_u32 32, T_i64 64, T_u64 64, T_string 65535 16, T_wstring 65535 16]"

definition T_Param :: rpc_type where
  "T_Param = T_variant param_types"

definition T_ModifyRequest :: rpc_type where
  "T_ModifyRequest = T_struct [T_u8 8, T_u8 8, T_string 255 16, T_seq T_Param]"

definition payload :: "param \<Rightarrow> rpc_value list" where
  "payload p =
     (if p_type p = ptInt32 then [V_32 (int32Value p)]
      else if p_type p = ptUInt32 then [V_32 (uint32Value p)]
      else if p_type p = ptInt64 then [V_64 (int64Value p)]
      else if p_type p = ptUInt64 then [V_64 (uint64Value p)]
      else if p_type p = ptString then [V_string (stringValue p)]
      else if p_type p = ptWString then [V_wstring (wstringValue p)]
      else [])"

definition param_value :: "param \<Rightarrow> rpc_value" where
  "param_value p = V_list (V_8 (p_type p) # payload p)"

definition request_value :: "modify_request \<Rightarrow> rpc_value" where
  "request_value r = V_list [V_8 (mr_priority r), V_8 (mr_type r), V_string (mr_command r),
     V_list (map param_value (mr_params r))]"

text \<open>Back: the member that the tag selects is set in the object \<open>p\<close>.\<close>

fun set_payload :: "param \<Rightarrow> rpc_value list \<Rightarrow> param" where
  "set_payload p [V_32 v] = (if p_type p = ptInt32 then p\<lparr>int32Value := v\<rparr> else p\<lparr>uint32Value := v\<rparr>)"
| "set_payload p [V_64 v] = (if p_type p = ptInt64 then p\<lparr>int64Value := v\<rparr> else p\<lparr>uint64Value := v\<rparr>)"
| "set_payload p [V_string v] = p\<lparr>stringValue := v\<rparr>"
| "set_payload p [V_wstring v] = p\<lparr>wstringValue := v\<rparr>"
| "set_payload p _ = p"

fun param_of :: "param \<Rightarrow> rpc_value \<Rightarrow> param" where
  "param_of p (V_list (V_8 tag # vs)) = set_payload (p\<lparr>p_type := tag\<rparr>) vs"
| "param_of p _ = p"

fun request_of :: "param \<Rightarrow> modify_request \<Rightarrow> rpc_value \<Rightarrow> modify_request" where
  "request_of p r (V_list [V_8 priority, V_8 type, V_string command, V_list params]) =
     r\<lparr>mr_priority := priority, mr_type := type, mr_command := command, mr_params := map (param_of p) params\<rparr>"
| "request_of p r _ = r"

text \<open>The seven cases of a tag.\<close>

lemma tag_cases:
  obtains "(tag :: byte) = 1" | "tag = 2" | "tag = 3" | "tag = 4" | "tag = 5" | "tag = 6"
    | "tag \<noteq> 1" "tag \<noteq> 2" "tag \<noteq> 3" "tag \<noteq> 4" "tag \<noteq> 5" "tag \<noteq> 6" "unat tag = 0 \<or> 6 < unat tag"
proof -
  have "unat tag \<noteq> 0 \<Longrightarrow> \<not> 6 < unat tag \<Longrightarrow> unat tag \<in> {1, 2, 3, 4, 5, 6}" by auto
  moreover have "tag = word_of_nat (unat tag)" by simp
  ultimately have "tag \<in> {1, 2, 3, 4, 5, 6} \<or> unat tag = 0 \<or> 6 < unat tag"
    by (metis (no_types, lifting) insert_iff empty_iff of_nat_1 of_nat_numeral)
  with that show ?thesis by blast
qed

lemma out_case_none: "n = 0 \<or> length ts < n \<Longrightarrow> stream_out_case os ts n [] = skip"
  by (induction ts arbitrary: n) auto

lemma in_case_none: "n = 0 \<or> length ts < n \<Longrightarrow> stream_in_case istr g ts n = ret []"
  by (induction ts arbitrary: n) auto

lemma length_param_types: "length param_types = 6"
  by (simp add: param_types_def)

lemma Param_serialize_out_eq: "Param_serialize_out os p = stream_out os T_Param (param_value p)"
proof (cases rule: tag_cases [of "p_type p"])
  case 7
  then show ?thesis
    by (simp add: Param_serialize_out_def T_Param_def param_value_def payload_def pt_defs out_case_none
        length_param_types)
qed (simp_all add: Param_serialize_out_def T_Param_def param_types_def param_value_def payload_def pt_defs)

lemma Param_serialize_in_eq:
  "Param_serialize_in istr p = bind (stream_in istr g T_Param) (\<lambda>v. ret (param_of p v))"
proof -
  have "(let p = p\<lparr>p_type := tag\<rparr> in
     if p_type p = ptInt32 then bind (is_i32 istr 32) (\<lambda>v. ret (p\<lparr>int32Value := v\<rparr>))
     else if p_type p = ptUInt32 then bind (is_u32 istr 32) (\<lambda>v. ret (p\<lparr>uint32Value := v\<rparr>))
     else if p_type p = ptInt64 then bind (is_i64 istr 64) (\<lambda>v. ret (p\<lparr>int64Value := v\<rparr>))
     else if p_type p = ptUInt64 then bind (is_u64 istr 64) (\<lambda>v. ret (p\<lparr>uint64Value := v\<rparr>))
     else if p_type p = ptString then bind (is_str istr 65535 16) (\<lambda>v. ret (p\<lparr>stringValue := v\<rparr>))
     else if p_type p = ptWString then bind (is_wstr istr 65535 16) (\<lambda>v. ret (p\<lparr>wstringValue := v\<rparr>))
     else ret p) = bind (stream_in_case istr g param_types (unat tag)) (\<lambda>vs. ret (set_payload (p\<lparr>p_type := tag\<rparr>) vs))" for tag
  proof (cases rule: tag_cases [of tag])
    case 7
    then show ?thesis by (simp add: Let_def pt_defs in_case_none length_param_types bind_ret)
  qed (simp_all add: Let_def pt_defs param_types_def bind_assoc bind_ret)
  then show ?thesis
    by (simp add: Param_serialize_in_def T_Param_def bind_assoc bind_ret)
qed

lemma ModifyRequest_serialize_out_eq:
  "ModifyRequest_serialize_out os r = stream_out os T_ModifyRequest (request_value r)"
proof -
  have "Param_serialize_out os = (\<lambda>p. stream_out os T_Param (param_value p))"
    by (rule ext) (rule Param_serialize_out_eq)
  then show ?thesis
    by (simp add: ModifyRequest_serialize_out_def T_ModifyRequest_def request_value_def bind_skip_right
        RpcContainer_serialize_out_def take_map for_each_map)
qed

lemma ModifyRequest_serialize_in_eq:
  "ModifyRequest_serialize_in istr p r = bind (stream_in istr g T_ModifyRequest) (\<lambda>v. ret (request_of p r v))"
proof -
  have "RpcContainer_serialize_in istr 16 (Param_serialize_in istr p) =
      bind (RpcContainer_serialize_in istr 16 (stream_in istr g T_Param)) (\<lambda>vs. ret (map (param_of p) vs))"
    unfolding Param_serialize_in_eq [where g = g] by (rule RpcContainer_in_map)
  then show ?thesis
    by (simp add: ModifyRequest_serialize_in_def T_ModifyRequest_def bind_assoc bind_ret)
qed

text \<open>What a request is read as after it was written.\<close>

lemma param_value_of: "param_value (param_of p (param_value q)) = param_value q"
proof (cases rule: tag_cases [of "p_type q"])
  case 7
  then show ?thesis by (simp add: param_value_def payload_def pt_defs)
qed (simp_all add: param_value_def payload_def pt_defs)

lemma request_value_of: "request_value (request_of p r (request_value q)) = request_value q"
  by (simp add: request_value_def param_value_of)

lemma Param_print_value:
  assumes "param_value p = param_value q"
  shows "Param_print p = Param_print q"
proof -
  have pt: "p_type p = p_type q" and pl: "payload p = payload q" using assms by (simp_all add: param_value_def)
  show ?thesis
  proof (cases rule: tag_cases [of "p_type q"])
    case 7
    with pt show ?thesis by (simp add: Param_print_def pt_defs)
  qed (use pt pl in \<open>simp_all add: payload_def Param_print_def pt_defs\<close>)
qed

lemma toString_value: "map param_value ps = map param_value qs \<Longrightarrow> toString_loop b ps = toString_loop b qs"
proof (induction ps arbitrary: qs b)
  case (Cons p ps)
  then obtain q qs' where qs: "qs = q # qs'" "param_value p = param_value q" "map param_value ps = map param_value qs'"
    by (cases qs) auto
  then have "p_type p = p_type q" "Param_print p = Param_print q"
    by (simp add: param_value_def, intro Param_print_value)
  with Cons.IH [OF qs(3)] qs(1) show ?case by simp
qed simp

lemma same_request:
  assumes "request_value r = request_value q"
  shows "ModifyRequest_isValid r = ModifyRequest_isValid q" and "ModifyRequest_toString r = ModifyRequest_toString q"
    and "mr_priority r = mr_priority q" and "mr_type r = mr_type q" and "mr_command r = mr_command q"
  using assms toString_value [of "mr_params r" "mr_params q"] map_eq_imp_length_eq [of param_value "mr_params r" param_value "mr_params q"]
  by (auto simp: request_value_def ModifyRequest_isValid_def ModifyRequest_toString_def)

end
