(* ===== verification/Proxy_Scheduler.thy ===== *)
theory Proxy_Scheduler
  imports Database_Request "HOL-Library.Multiset"
begin

text \<open>
  \<open>ProxyScheduler\<close> (src/database/proxy/server/scheduler), which executes database requests on a group of
  threads: \<open>schedule\<close> queues a request, and every thread runs \<open>svc\<close>, which fetches the request of the
  highest priority and calls it.  The operations on the queue hold the mutex and are single steps;
  \<open>stop_\<close> is read without it.  \<open>std::priority_queue\<close> does not say which of several requests of the
  highest priority is on top, so the step relation allows each of them.
\<close>

section \<open>State\<close>

text \<open>A request of any type, with the identifier and the priority that \<open>RequestMethod\<close> adds.\<close>

record 'q request_method =
  rm_id :: u32
  rm_priority :: byte
  rm_request :: 'q

definition RequestMethod_less :: "'q request_method \<Rightarrow> 'q request_method \<Rightarrow> bool" where
  "RequestMethod_less l r \<longleftrightarrow> rm_priority l < rm_priority r"

text \<open>Where a thread is in \<open>svc\<close>: at the test of \<open>stop_\<close>, in \<open>fetchRequest\<close>, in the call of a request,
  or returned.\<close>

datatype 'q svc_thread = AtTest | InFetch | InCall "'q request_method" | Returned

record 'q proxy_scheduler =
  requestQueue :: "'q request_method list"
  requestId :: u32
  ps_stop :: bool
  queuedCount :: u64
  processedCount :: u64
  threads :: "'q svc_thread list"
  executed :: "'q request_method list"

definition ProxyScheduler_new :: "'q proxy_scheduler" where
  "ProxyScheduler_new = \<lparr>requestQueue = [], requestId = 0, ps_stop = False, queuedCount = 0, processedCount = 0,
     threads = [], executed = []\<rparr>"

definition ProxyScheduler_start :: "nat \<Rightarrow> 'q proxy_scheduler \<Rightarrow> 'q proxy_scheduler" where
  "ProxyScheduler_start threadCount s = s\<lparr>ps_stop := False, threads := replicate threadCount AtTest\<rparr>"

text \<open>The part of \<open>stop\<close> before it joins the threads.\<close>

definition ProxyScheduler_stop :: "'q proxy_scheduler \<Rightarrow> 'q proxy_scheduler" where
  "ProxyScheduler_stop s = s\<lparr>ps_stop := True\<rparr>"

definition ProxyScheduler_schedule :: "byte \<Rightarrow> 'q \<Rightarrow> 'q proxy_scheduler \<Rightarrow> 'q proxy_scheduler" where
  "ProxyScheduler_schedule priority request s =
     (let currentRequestId = requestId s + 1 in
      s\<lparr>requestId := currentRequestId,
        requestQueue := requestQueue s @ [\<lparr>rm_id = currentRequestId, rm_priority = priority, rm_request = request\<rparr>],
        queuedCount := queuedCount s + 1\<rparr>)"

definition ProxyScheduler_getQueueCount :: "'q proxy_scheduler \<Rightarrow> nat" where
  "ProxyScheduler_getQueueCount s = length (requestQueue s)"

text \<open>A request that \<open>top\<close> may return.\<close>

definition is_top :: "'q request_method \<Rightarrow> 'q request_method list \<Rightarrow> bool" where
  "is_top r q \<longleftrightarrow> r \<in> set q \<and> (\<forall>r' \<in> set q. \<not> RequestMethod_less r r')"

definition ProxyScheduler_fetchRequest :: "'q request_method \<Rightarrow> 'q proxy_scheduler \<Rightarrow> 'q proxy_scheduler" where
  "ProxyScheduler_fetchRequest r s =
     s\<lparr>requestQueue := remove1 r (requestQueue s), processedCount := processedCount s + 1\<rparr>"

section \<open>Steps\<close>

inductive sched_step :: "'q proxy_scheduler \<Rightarrow> 'q proxy_scheduler \<Rightarrow> bool" where
  schedule: "sched_step s (ProxyScheduler_schedule priority request s)"
| stop: "sched_step s (ProxyScheduler_stop s)"
| svc_exit: "threads s = ts @ AtTest # ts' \<Longrightarrow> ps_stop s \<Longrightarrow> sched_step s (s\<lparr>threads := ts @ Returned # ts'\<rparr>)"
| svc_fetch: "threads s = ts @ AtTest # ts' \<Longrightarrow> \<not> ps_stop s \<Longrightarrow> sched_step s (s\<lparr>threads := ts @ InFetch # ts'\<rparr>)"
| fetch: "threads s = ts @ InFetch # ts' \<Longrightarrow> is_top r (requestQueue s) \<Longrightarrow>
    sched_step s ((ProxyScheduler_fetchRequest r s)\<lparr>threads := ts @ InCall r # ts'\<rparr>)"
| fetch_null: "threads s = ts @ InFetch # ts' \<Longrightarrow> requestQueue s = [] \<Longrightarrow> ps_stop s \<Longrightarrow>
    sched_step s (s\<lparr>threads := ts @ AtTest # ts'\<rparr>)"
| call: "threads s = ts @ InCall r # ts' \<Longrightarrow>
    sched_step s (s\<lparr>threads := ts @ AtTest # ts', executed := executed s @ [r]\<rparr>)"

lemmas scheduler_defs = ProxyScheduler_new_def ProxyScheduler_start_def ProxyScheduler_stop_def
  ProxyScheduler_fetchRequest_def

section \<open>The invariant\<close>

fun in_call :: "'q svc_thread \<Rightarrow> 'q request_method list" where
  "in_call (InCall r) = [r]"
| "in_call _ = []"

definition calling :: "'q proxy_scheduler \<Rightarrow> 'q request_method list" where
  "calling s = concat (map in_call (threads s))"

text \<open>Every request that was scheduled is in one place: it waits, or a thread calls it, or it was executed.\<close>

definition all_requests :: "'q proxy_scheduler \<Rightarrow> 'q request_method multiset" where
  "all_requests s = mset (requestQueue s) + mset (calling s) + mset (executed s)"

definition sched_ok :: "'q proxy_scheduler \<Rightarrow> bool" where
  "sched_ok s \<longleftrightarrow> queuedCount s = word_of_nat (size (all_requests s)) \<and>
     requestId s = word_of_nat (size (all_requests s)) \<and>
     processedCount s = word_of_nat (length (calling s) + length (executed s)) \<and>
     image_mset rm_id (all_requests s) = mset (map (\<lambda>i. word_of_nat (Suc i)) [0..<size (all_requests s)])"

lemma schedule_fields [simp]:
  "requestQueue (ProxyScheduler_schedule priority request s) = requestQueue s @
     [\<lparr>rm_id = requestId s + 1, rm_priority = priority, rm_request = request\<rparr>]"
  "requestId (ProxyScheduler_schedule priority request s) = requestId s + 1"
  "queuedCount (ProxyScheduler_schedule priority request s) = queuedCount s + 1"
  "processedCount (ProxyScheduler_schedule priority request s) = processedCount s"
  "threads (ProxyScheduler_schedule priority request s) = threads s"
  "executed (ProxyScheduler_schedule priority request s) = executed s"
  "ps_stop (ProxyScheduler_schedule priority request s) = ps_stop s"
  "calling (ProxyScheduler_schedule priority request s) = calling s"
  by (simp_all add: ProxyScheduler_schedule_def Let_def calling_def)

lemma sched_step_ok: "sched_step s s' \<Longrightarrow> sched_ok s \<Longrightarrow> sched_ok s'"
proof (induction rule: sched_step.induct)
  case (schedule s priority request)
  let ?s = "ProxyScheduler_schedule priority request s"
  have "all_requests ?s = add_mset \<lparr>rm_id = requestId s + 1, rm_priority = priority, rm_request = request\<rparr> (all_requests s)"
    by (simp add: all_requests_def)
  with schedule show ?case by (simp add: sched_ok_def add.commute)
next
  case (fetch s ts ts' r)
  let ?s = "(ProxyScheduler_fetchRequest r s)\<lparr>threads := ts @ InCall r # ts'\<rparr>"
  have "mset (requestQueue s) = add_mset r (mset (remove1 r (requestQueue s)))"
    using fetch(2) by (simp add: is_top_def)
  then have "all_requests ?s = all_requests s" "length (calling ?s) = Suc (length (calling s))"
    using fetch(1) by (simp_all add: all_requests_def calling_def scheduler_defs)
  with fetch show ?case by (simp add: sched_ok_def scheduler_defs)
next
  case (call s ts r ts')
  let ?s = "s\<lparr>threads := ts @ AtTest # ts', executed := executed s @ [r]\<rparr>"
  have "all_requests ?s = all_requests s" "length (calling s) = Suc (length (calling ?s))"
    using call(1) by (simp_all add: all_requests_def calling_def)
  with call show ?case by (simp add: sched_ok_def)
qed (simp_all add: sched_ok_def all_requests_def calling_def scheduler_defs)

lemma start_ok: "sched_ok (ProxyScheduler_start n ProxyScheduler_new)"
  by (simp add: sched_ok_def all_requests_def calling_def scheduler_defs)

lemma sched_steps_ok: "sched_step\<^sup>*\<^sup>* s s' \<Longrightarrow> sched_ok s \<Longrightarrow> sched_ok s'"
  by (induction rule: rtranclp_induct) (auto intro: sched_step_ok)

text \<open>A scheduler that stops while its threads are between requests.\<close>

definition between :: "'q svc_thread \<Rightarrow> bool" where
  "between t \<longleftrightarrow> t = AtTest \<or> t = Returned"

lemma stopped_step:
  assumes "sched_step s s'" and "ps_stop s" and "\<forall>t \<in> set (threads s). between t"
  shows "executed s' = executed s \<and> ps_stop s' \<and> (\<forall>t \<in> set (threads s'). between t) \<and>
    (\<exists>new. requestQueue s' = requestQueue s @ new)"
  using assms
proof (cases rule: sched_step.cases)
  case (schedule priority request)
  with assms(2,3) show ?thesis by simp
next
  case stop
  with assms(2,3) show ?thesis by (simp add: scheduler_defs)
next
  case (svc_exit ts ts')
  with assms(2,3) show ?thesis by (simp add: between_def)
qed (simp_all add: between_def)

lemma stopped_steps:
  assumes "sched_step\<^sup>*\<^sup>* s s'" and "ps_stop s" and "\<forall>t \<in> set (threads s). between t"
  shows "executed s' = executed s \<and> ps_stop s' \<and> (\<forall>t \<in> set (threads s'). between t) \<and>
    (\<exists>new. requestQueue s' = requestQueue s @ new)"
  using assms
proof (induction rule: rtranclp_induct)
  case (step y z)
  with stopped_step [OF step.hyps(2)] show ?case by (metis append.assoc)
qed simp

section \<open>Properties\<close>

text \<open>C37: every request is executed at most once.  In every state that the threads of a scheduler can reach,
  as long as fewer than \<open>2 ^ 32\<close> requests were scheduled, each request is in one place only: waiting,
  in the call of one thread, or executed; identifiers tell requests apart, and the counters are the
  numbers of requests scheduled and fetched.\<close>

theorem requests_executed_once:
  assumes "sched_step\<^sup>*\<^sup>* (ProxyScheduler_start n ProxyScheduler_new) s" and "size (all_requests s) < 2 ^ 32"
  shows "distinct (map rm_id (requestQueue s @ calling s @ executed s)) \<and>
    unat (queuedCount s) = length (requestQueue s @ calling s @ executed s) \<and>
    unat (processedCount s) = length (calling s @ executed s)"
proof -
  let ?rs = "requestQueue s @ calling s @ executed s" and ?n = "size (all_requests s)"
  have ok: "sched_ok s" by (rule sched_steps_ok [OF assms(1) start_ok])
  have all: "all_requests s = mset ?rs" by (simp add: all_requests_def)
  then have len: "?n = length ?rs" by (metis size_mset)
  have "inj_on (\<lambda>i. word_of_nat (Suc i) :: u32) {0..<?n}"
  proof (rule inj_onI)
    fix i j assume ij: "i \<in> {0..<?n}" "j \<in> {0..<?n}" and eq: "(word_of_nat (Suc i) :: u32) = word_of_nat (Suc j)"
    have "unat (word_of_nat (Suc k) :: u32) = Suc k" if "k \<in> {0..<?n}" for k
      using that assms(2) by (simp add: unat_of_nat del: of_nat_Suc)
    from this [OF ij(1)] this [OF ij(2)] show "i = j" unfolding eq by (metis Suc_inject)
  qed
  then have "distinct (map (\<lambda>i. word_of_nat (Suc i) :: u32) [0..<?n])" by (simp add: distinct_map)
  moreover have "mset (map rm_id ?rs) = mset (map (\<lambda>i. word_of_nat (Suc i)) [0..<?n])"
    using ok unfolding sched_ok_def all by simp
  ultimately have "distinct (map rm_id ?rs)" by (metis mset_eq_imp_distinct_iff)
  moreover have u64: "unat (word_of_nat k :: u64) = k" if "k \<le> ?n" for k
    using that assms(2) by (simp add: unat_of_nat)
  have "queuedCount s = word_of_nat ?n" "processedCount s = word_of_nat (length (calling s @ executed s))"
    using ok by (simp_all add: sched_ok_def)
  then have "unat (queuedCount s) = length ?rs" "unat (processedCount s) = length (calling s @ executed s)"
    using len by (simp_all only: u64) (rule u64, simp)
  ultimately show ?thesis by blast
qed

definition demo_scheduled :: "nat proxy_scheduler" where
  "demo_scheduled = ProxyScheduler_schedule rpHigh 7 (ProxyScheduler_schedule rpLow 5
     (ProxyScheduler_start 1 ProxyScheduler_new))"

lemma demo_scheduled_reached: "sched_step\<^sup>*\<^sup>* (ProxyScheduler_start 1 ProxyScheduler_new) demo_scheduled"
  unfolding demo_scheduled_def
  by (rule rtranclp.rtrancl_into_rtrancl [OF r_into_rtranclp]) (rule sched_step.schedule)+

theorem requests_executed_once_witness:
  "sched_step\<^sup>*\<^sup>* (ProxyScheduler_start 1 ProxyScheduler_new) demo_scheduled \<and>
    distinct (map rm_id (requestQueue demo_scheduled)) \<and> unat (queuedCount demo_scheduled) = 2"
  using requests_executed_once [OF demo_scheduled_reached] demo_scheduled_reached
  by (simp add: demo_scheduled_def all_requests_def calling_def scheduler_defs)

text \<open>C38: stopping drops requests.  When \<open>stop\<close> is called while every thread of the scheduler is between two
  requests, no request that waits is ever executed: the threads leave at their test of \<open>stop_\<close>
  although \<open>fetchRequest\<close> is written to empty the queue before it returns null.\<close>

theorem scheduler_stop_drops:
  assumes "\<forall>t \<in> set (threads s). t = AtTest \<or> t = Returned" and "sched_step\<^sup>*\<^sup>* (ProxyScheduler_stop s) s'"
  shows "executed s' = executed s \<and> (\<exists>new. requestQueue s' = requestQueue s @ new)"
  using stopped_steps [OF assms(2)] assms(1) by (simp add: between_def scheduler_defs)

theorem scheduler_stop_drops_witness:
  "\<exists>s'. sched_step\<^sup>*\<^sup>* (ProxyScheduler_stop demo_scheduled) s' \<and> threads s' = [Returned] \<and>
    executed s' = [] \<and> (\<exists>new. requestQueue s' = requestQueue demo_scheduled @ new)"
proof -
  let ?s' = "(ProxyScheduler_stop demo_scheduled)\<lparr>threads := [Returned]\<rparr>"
  have "threads (ProxyScheduler_stop demo_scheduled) = [] @ AtTest # []" "ps_stop (ProxyScheduler_stop demo_scheduled)"
    by (simp_all add: demo_scheduled_def scheduler_defs)
  from sched_step.svc_exit [OF this] have run: "sched_step\<^sup>*\<^sup>* (ProxyScheduler_stop demo_scheduled) ?s'"
    by (simp add: r_into_rtranclp)
  have "\<forall>t \<in> set (threads demo_scheduled). t = AtTest \<or> t = Returned" "executed demo_scheduled = []"
    by (simp_all add: demo_scheduled_def scheduler_defs)
  with scheduler_stop_drops [OF this(1) run] run show ?thesis by (intro exI [of _ ?s']) simp
qed

end
