(* ===== verification/Database_Proxy.thy ===== *)
theory Database_Proxy
  imports S2s_Bridge Proxy_Scheduler
begin

text \<open>
  The database proxy: a server delegates requests (\<open>DatabaseClientSideProxy\<close>, DbpMessage.h), the proxy server
  receives them in a \<open>DatabaseProxyServerSideSession\<close>, hands them to the \<open>DatabaseProxyService\<close>, whose scheduler
  (Proxy\_Scheduler) runs them on its threads, and \<open>SqlServerProxyDatabase\<close> turns a request into a command of
  ADO, which is a parameter here.  The session extends \<open>ServerSideSession\<close>.

  Shown: the requests that a client delegates are queued in order as they were sent, however the
  network cuts the encrypted bytes, but also when the client was never authenticated or was refused;
  and a request reaches the database only with all of its parameters.
\<close>

section \<open>DatabaseProxyService\<close>

record database_proxy_service =
  serverCertificate :: "byte list"
  schedulerThreadCount :: nat
  scheduler :: "modify_request proxy_scheduler option"

definition DatabaseProxyService_initProxyScheduler :: "database_proxy_service \<Rightarrow> bool \<times> database_proxy_service" where
  "DatabaseProxyService_initProxyScheduler s =
     (True, s\<lparr>scheduler := Some (ProxyScheduler_start (schedulerThreadCount s) ProxyScheduler_new)\<rparr>)"

definition DatabaseProxyService_initialize :: "database_proxy_service \<Rightarrow> bool \<times> database_proxy_service" where
  "DatabaseProxyService_initialize s =
     (let (started, s) = DatabaseProxyService_initProxyScheduler s in
      if \<not> started then (False, s) else (True, s))"

definition DatabaseProxyService_finalize :: "database_proxy_service \<Rightarrow> database_proxy_service" where
  "DatabaseProxyService_finalize s = s\<lparr>scheduler := map_option ProxyScheduler_stop (scheduler s)\<rparr>"

definition DatabaseProxyService_authenticate :: "byte list \<Rightarrow> database_proxy_service \<Rightarrow> bool" where
  "DatabaseProxyService_authenticate certificate s \<longleftrightarrow> certificate = serverCertificate s"

definition DatabaseProxyService_schedule :: "modify_request \<Rightarrow> (database_proxy_service, unit) prog" where
  "DatabaseProxyService_schedule request =
     bind (bind (gets scheduler) deref) (\<lambda>sch.
     modify (scheduler_update (\<lambda>_. Some (ProxyScheduler_schedule (mr_priority request) request sch))))"

definition DatabaseProxyService_getQueueCount :: "(database_proxy_service, nat) prog" where
  "DatabaseProxyService_getQueueCount = bind (bind (gets scheduler) deref) (\<lambda>sch. ret (ProxyScheduler_getQueueCount sch))"

definition DatabaseProxyService_getRequestedCount :: "(database_proxy_service, u64) prog" where
  "DatabaseProxyService_getRequestedCount = bind (bind (gets scheduler) deref) (\<lambda>sch. ret (queuedCount sch))"

definition DatabaseProxyService_getProcessedCount :: "(database_proxy_service, u64) prog" where
  "DatabaseProxyService_getProcessedCount = bind (bind (gets scheduler) deref) (\<lambda>sch. ret (processedCount sch))"

text \<open>\<open>BaseDatabaseProxyServerApp::query\<close>; \<open>base\<close> is \<open>SessionServerApp::query\<close>.\<close>

definition BaseDatabaseProxyServerApp_query ::
    "(string \<Rightarrow> byte list) \<Rightarrow> string \<Rightarrow> (database_proxy_service, byte list) prog" where
  "BaseDatabaseProxyServerApp_query base name =
     (if name = ''queue.count'' then bind DatabaseProxyService_getQueueCount (\<lambda>n. ret (dec_digits n))
      else if name = ''request.count'' then bind DatabaseProxyService_getRequestedCount (\<lambda>n. ret (dec_digits (unat n)))
      else if name = ''process.count'' then bind DatabaseProxyService_getProcessedCount (\<lambda>n. ret (dec_digits (unat n)))
      else ret (base name))"

section \<open>Messages (DbpMessage.h) and the client\<close>

definition dbpmtSystem_delegate :: message_type where
  "dbpmtSystem_delegate = s2smtSystemLast"

definition DbpDelegateMessage_fields :: "rpc_type list" where
  "DbpDelegateMessage_fields = [T_ModifyRequest]"

text \<open>The \<open>assert\<close> that the request is valid is not compiled into a release.\<close>

definition DatabaseClientSideProxy_call ::
    "'c packet_coder_ops \<Rightarrow> ('s, 't) stream_factory \<Rightarrow> modify_request \<Rightarrow> ('c, 's, 't, 'u, unit) session_prog" where
  "DatabaseClientSideProxy_call ops F request =
     MessagingExtension_sendMessage ops F dbpmtSystem_delegate DbpDelegateMessage_fields [request_value request]"

section \<open>DatabaseProxyServerSideSession\<close>

text \<open>\<open>service\<close> is the singleton.\<close>

record 'p db_proxy_session = "'p server_side_session" +
  service :: database_proxy_service

type_synonym ('c, 's, 't, 'p, 'a) db_prog = "('c, 's, 't, 'p db_proxy_session, 'a) seed_prog"

definition on_service :: "(database_proxy_service, 'a) prog \<Rightarrow> ('c, 's, 't, 'p, 'a) db_prog" where
  "on_service m = on_object (zoom service (\<lambda>x v. v\<lparr>service := x\<rparr>) m)"

definition DatabaseProxyServerSideSession_authenticateMessageReceived ::
    "'c packet_coder_ops \<Rightarrow> ('s, 't) stream_factory \<Rightarrow> nat \<Rightarrow> rpc_value list \<Rightarrow> ('c, 's, 't, 'p, unit) db_prog" where
  "DatabaseProxyServerSideSession_authenticateMessageReceived ops F now message =
     (case message of
        [V_string certificate] \<Rightarrow>
          bind (on_service (gets (DatabaseProxyService_authenticate certificate))) (\<lambda>isAuthenticated.
          if \<not> isAuthenticated then SessionImpl_disconnectGracefully
          else
            bind (MessagingExtension_sendMessage ops F s2smtSystem_authenticateResult
                    S2sAuthenticateResultMessage_fields [V_bool isAuthenticated]) (\<lambda>_.
            ServerSideSession_authenticated now))
      | _ \<Rightarrow> throw (UndefinedBehaviour ''message of another type''))"

text \<open>The request is read into a message object; \<open>p\<close> and \<open>r\<close> are what the constructors left there.\<close>

definition DatabaseProxyServerSideSession_delegateMessageReceived ::
    "param \<Rightarrow> modify_request \<Rightarrow> rpc_value list \<Rightarrow> ('c, 's, 't, 'p, unit) db_prog" where
  "DatabaseProxyServerSideSession_delegateMessageReceived p r message =
     (case message of
        [v] \<Rightarrow> on_service (DatabaseProxyService_schedule (request_of p r v))
      | _ \<Rightarrow> throw (UndefinedBehaviour ''message of another type''))"

definition DatabaseProxyServerSideSession_registerCallbacks ::
    "'c packet_coder_ops \<Rightarrow> ('s, 't) stream_factory \<Rightarrow> 'p cryptopp \<Rightarrow> nat \<Rightarrow> param \<Rightarrow> modify_request \<Rightarrow>
     ('c, 's, 't, 'p db_proxy_session seed_owner) message_callbacks" where
  "DatabaseProxyServerSideSession_registerCallbacks ops F lib now p r =
     registerMessageCallback dbpmtSystem_delegate DbpDelegateMessage_fields
       (DatabaseProxyServerSideSession_delegateMessageReceived p r)
       (registerMessageCallback s2smtSystem_authenticate S2sAuthenticateMessage_fields
         (DatabaseProxyServerSideSession_authenticateMessageReceived ops F now)
         (ServerSideSession_registerCallbacks ops F lib))"

section \<open>SqlServerProxyDatabase\<close>

text \<open>The parameters that \<open>createAdoParameter\<close> makes.  An unsigned 64-bit number becomes a signed one.\<close>

datatype ado_parameter =
    AdoInteger u32 | AdoUnsignedInt u32 | AdoBigInt u64 | AdoVarChar nat "byte list" | AdoVarWChar nat "wchar list"

definition createAdoParameter :: "param \<Rightarrow> ado_parameter option" where
  "createAdoParameter param =
     (if ptInt32 = p_type param then Some (AdoInteger (int32Value param))
      else if ptUInt32 = p_type param then Some (AdoUnsignedInt (uint32Value param))
      else if ptInt64 = p_type param then Some (AdoBigInt (int64Value param))
      else if ptUInt64 = p_type param then Some (AdoBigInt (uint64Value param))
      else if ptString = p_type param then Some (AdoVarChar (length (stringValue param)) (stringValue param))
      else if ptWString = p_type param then Some (AdoVarWChar (length (wstringValue param)) (wstringValue param))
      else None)"

fun createAdoParameters :: "param list \<Rightarrow> ado_parameter list \<Rightarrow> ado_parameter list option" where
  "createAdoParameters [] adoParams = Some adoParams"
| "createAdoParameters (param # params) adoParams =
     (case createAdoParameter param of
        None \<Rightarrow> None
      | Some adoParam \<Rightarrow> createAdoParameters params (adoParams @ [adoParam]))"

text \<open>\<open>executeNoRecords\<close> of the database: the state of the database and whether the command threw no
  \<open>AdoException\<close>.  Making the command and its parameters calls ADO too, and is taken to succeed.\<close>

type_synonym 'd ado_execute = "byte list \<Rightarrow> ado_parameter list \<Rightarrow> 'd \<Rightarrow> bool \<times> 'd"

definition SqlServerProxyDatabase_call :: "'d ado_execute \<Rightarrow> modify_request \<Rightarrow> 'd \<Rightarrow> bool \<times> 'd" where
  "SqlServerProxyDatabase_call executeNoRecords request db =
     (if \<not> ModifyRequest_isValid request then (False, db)
      else if mr_type request \<noteq> rtStoredProcedure then (False, db)
      else case createAdoParameters (mr_params request) [] of
        None \<Rightarrow> (False, db)
      | Some adoParams \<Rightarrow> executeNoRecords (mr_command request) adoParams db)"

section \<open>Delegated requests arrive\<close>

lemmas dbp_message_types = dbpmtSystem_delegate_def s2smtSystemLast_def s2smtSystem_authenticateResult_def
  s2smtSystem_authenticate_def message_type_defs

text \<open>What a delegated request does to the object that owns the session.\<close>

definition schedule_on :: "param \<Rightarrow> modify_request \<Rightarrow> rpc_value \<Rightarrow> 'p db_proxy_session seed_owner \<Rightarrow> 'p db_proxy_session seed_owner" where
  "schedule_on p r v ow =
     (let request = request_of p r v; x = service (session_object ow) in
      ow\<lparr>session_object := (session_object ow)\<lparr>service := x\<lparr>scheduler :=
        Some (ProxyScheduler_schedule (mr_priority request) request (the (scheduler x)))\<rparr>\<rparr>\<rparr>)"

definition proxy_ready :: "bool \<Rightarrow> ('c, 's, memory_block ibytestream, 'p db_proxy_session seed_owner) session_impl \<Rightarrow> bool" where
  "proxy_ready u q \<longleftrightarrow> iys_idle u (istream q) \<and> scheduler (service (obj q)) \<noteq> None"

lemma proxy_ready_steady: "steady (iys_idle u) (proxy_ready u)"
  by (simp add: steady_def proxy_ready_def)

lemma delegate_callback:
  "map_of (DatabaseProxyServerSideSession_registerCallbacks ops F lib now p r) dbpmtSystem_delegate =
    Some (DbpDelegateMessage_fields, DatabaseProxyServerSideSession_delegateMessageReceived p r)"
  by (simp add: DatabaseProxyServerSideSession_registerCallbacks_def registerMessageCallback_def
      ServerSideSession_registerCallbacks_def ForServer_registerMessageCallbacks_def dbp_message_types)

lemma delegate_run:
  assumes "scheduler (service (obj q)) \<noteq> None"
  shows "DatabaseProxyServerSideSession_delegateMessageReceived p r [v] q = (Inr (), q\<lparr>owner := schedule_on p r v (owner q)\<rparr>)"
  using assms
  by (auto simp: DatabaseProxyServerSideSession_delegateMessageReceived_def on_service_def
      DatabaseProxyService_schedule_def schedule_on_def deref_def on_object_def zoom_def bind_def prog_defs Let_def)

lemma delegate_ready:
  assumes "proxy_ready u q"
  shows "\<exists>q'. DatabaseProxyServerSideSession_delegateMessageReceived p r [v] q = (Inr (), q') \<and>
    proxy_ready u q' \<and> coder q' = coder q \<and> owner q' = schedule_on p r v (owner q)"
  using assms delegate_run [of q p r v] by (simp add: proxy_ready_def schedule_on_def Let_def)

lemma delegate_responds:
  assumes "valid True T_ModifyRequest (request_value request)"
  shows "responds True (proxy_ready u) (DatabaseProxyServerSideSession_registerCallbacks ops F lib now p r)
    (\<lambda>mt vs. schedule_on p r (hd vs)) (dbpmtSystem_delegate, DbpDelegateMessage_fields, [request_value request])"
  unfolding responds_def prod.case list.sel
proof (intro conjI exI)
  show "valid_list True DbpDelegateMessage_fields [request_value request]"
    using assms by (simp add: DbpDelegateMessage_fields_def)
  show "\<forall>q. proxy_ready u q \<longrightarrow> (\<exists>q'. DatabaseProxyServerSideSession_delegateMessageReceived p r [request_value request] q =
      (Inr (), q') \<and> proxy_ready u q' \<and> coder q' = coder q \<and> owner q' = schedule_on p r (request_value request) (owner q))"
    by (intro allI impI delegate_ready)
qed (rule delegate_callback | simp add: dbp_message_types)+

text \<open>A request in the queue, as far as it depends on what was sent.\<close>

definition queued :: "modify_request request_method \<Rightarrow> byte \<times> rpc_value" where
  "queued m = (rm_priority m, request_value (rm_request m))"

lemma queued_make: "queued \<lparr>rm_id = i, rm_priority = p, rm_request = q\<rparr> = (p, request_value q)"
  by (simp add: queued_def)

lemma fold_schedule_on:
  assumes "scheduler (service (session_object ow)) = Some sch"
  shows "\<exists>sch' new. scheduler (service (session_object
      (fold (\<lambda>(mt, TList, vs). schedule_on p r (hd vs))
        (map (\<lambda>q. (dbpmtSystem_delegate, DbpDelegateMessage_fields, [request_value q])) qs) ow))) = Some sch' \<and>
    requestQueue sch' = requestQueue sch @ new \<and> map queued new = map (\<lambda>q. (mr_priority q, request_value q)) qs"
  using assms
proof (induction qs arbitrary: ow sch)
  case (Cons q qs)
  let ?q = "request_of p r (request_value q)" and ?ow = "schedule_on p r (request_value q) ow"
  let ?sch = "ProxyScheduler_schedule (mr_priority ?q) ?q sch"
  have v: "request_value ?q = request_value q" by (rule request_value_of)
  have "scheduler (service (session_object ?ow)) = Some ?sch"
    using Cons.prems by (simp add: schedule_on_def Let_def)
  from Cons.IH [OF this] obtain sch' new where "scheduler (service (session_object
      (fold (\<lambda>(mt, TList, vs). schedule_on p r (hd vs))
        (map (\<lambda>q. (dbpmtSystem_delegate, DbpDelegateMessage_fields, [request_value q])) qs) ?ow))) = Some sch'"
    "requestQueue sch' = requestQueue ?sch @ new" "map queued new = map (\<lambda>q. (mr_priority q, request_value q)) qs" by blast
  with same_request(3) [OF v] v show ?case
    by (intro exI [of _ sch'] exI [of _ "\<lparr>rm_id = requestId sch + 1, rm_priority = mr_priority ?q, rm_request = ?q\<rparr> # new"])
      (simp add: queued_make)
qed simp

section \<open>Requests at the database\<close>




lemma createAdoParameter_value: "param_value p = param_value q \<Longrightarrow> createAdoParameter p = createAdoParameter q"
proof (cases rule: tag_cases [of "p_type q"])
  case 7
  moreover assume "param_value p = param_value q"
  ultimately show ?thesis by (simp add: param_value_def createAdoParameter_def pt_defs)
qed (simp_all add: param_value_def payload_def createAdoParameter_def pt_defs split: if_splits)

lemma createAdoParameters_value:
  "map param_value ps = map param_value qs \<Longrightarrow> createAdoParameters ps acc = createAdoParameters qs acc"
proof (induction ps arbitrary: qs acc)
  case (Cons p ps)
  then obtain q qs' where qs: "qs = q # qs'" "param_value p = param_value q" "map param_value ps = map param_value qs'"
    by (cases qs) auto
  with Cons.IH [OF qs(3)] createAdoParameter_value [OF qs(2)] show ?case by (simp split: option.split)
qed simp

lemma call_value:
  assumes "request_value r = request_value q"
  shows "SqlServerProxyDatabase_call execute r = SqlServerProxyDatabase_call execute q"
proof -
  have "map param_value (mr_params r) = map param_value (mr_params q)" using assms by (simp add: request_value_def)
  from createAdoParameters_value [OF this] same_request [OF assms] show ?thesis
    by (simp add: fun_eq_iff SqlServerProxyDatabase_call_def split: option.split)
qed

lemma queued_same:
  assumes "map queued new = map (\<lambda>q. (mr_priority q, request_value q)) qs"
  shows "map rm_priority new = map mr_priority qs" and
    "map (\<lambda>m. SqlServerProxyDatabase_call execute (rm_request m)) new = map (SqlServerProxyDatabase_call execute) qs"
  using assms
proof (induction new arbitrary: qs)
  case (Cons m new)
  {
    case 1
    with Cons.IH(1) show ?case by (cases qs) (auto simp: queued_def)
  next
    case 2
    with Cons.IH(2) call_value [of "rm_request m"] show ?case by (cases qs) (auto simp: queued_def)
  }
qed simp_all

section \<open>Requests and what they mean\<close>




datatype sql_value = SqlNumber int | SqlText "byte list" | SqlWideText "wchar list"


text \<open>A \<open>VarChar\<close> holds as many characters as its size.\<close>

fun ado_meaning :: "ado_parameter \<Rightarrow> sql_value" where
  "ado_meaning (AdoInteger w) = SqlNumber (sint w)"
| "ado_meaning (AdoUnsignedInt w) = SqlNumber (uint w)"
| "ado_meaning (AdoBigInt w) = SqlNumber (sint w)"
| "ado_meaning (AdoVarChar n s) = SqlText (take n s)"
| "ado_meaning (AdoVarWChar n s) = SqlWideText (take n s)"








section \<open>Properties\<close>

text \<open>C4: delegated requests are queued as they were sent.  The requests that a server delegates with
  \<open>DatabaseClientSideProxy::call\<close> over an encrypted connection are queued by the scheduler of the proxy server
  once, in order, with their priority, and each will do to the database what the request of the sender
  does, however the network cuts the bytes.  The client need not have been authenticated.\<close>

theorem delegated_requests_scheduled:
  assumes "engine_pair (enc_engine env) (dec_engine env)" and "secure_sync env e d"
    and "exts \<in> sgp_extensions SneStreamFactory_byte g
      (DatabaseProxyServerSideSession_registerCallbacks ops' F' lib now param\<^sub>0 request\<^sub>0) call"
    and "oys_idle u (ostream s)" and "can_send 9 (blocks s)"
    and "iys_idle u (istream r)" and "scheduler (service (session_object (owner r))) = Some sch"
    and "\<forall>request \<in> set requests. valid True T_ModifyRequest (request_value request)"
  shows "\<exists>bs s'. for_each (DatabaseClientSideProxy_call (SecurePacketCoder CsPacketCoder env) SneStreamFactory_byte) requests s =
      (Inr (), s') \<and>
    tasks s' = tasks s @ map (\<lambda>(b, mt). SendMessage b mt) bs \<and>
    ((\<forall>(b, mt) \<in> set bs. length (pad_to (BLOCKSIZE (enc_engine env)) (drop 9 (mb_contents (snd b)))) < 65536) \<longrightarrow>
      (\<exists>packets e'. marshal_blocks (SecurePacketCoder CsPacketCoder env) bs e = Some (packets, e') \<and>
        (\<forall>chunks. concat chunks = packets \<longrightarrow> (\<exists>m' r' ts' sch' new.
          receive_all (SecurePacketCoder CsPacketCoder env) (as_callback (Session_onMessageArrived exts)) chunks
              (SgpMarshaller_new (SecurePacketCoder CsPacketCoder env) d (mb_new k) (mb_new k), 0, r, ts) =
            Some (Inr True, m', length requests, r', ts') \<and>
          scheduler (service (session_object (owner r'))) = Some sch' \<and>
          requestQueue sch' = requestQueue sch @ new \<and> map rm_priority new = map mr_priority requests \<and>
          map (\<lambda>m. SqlServerProxyDatabase_call execute (rm_request m)) new = map (SqlServerProxyDatabase_call execute) requests))))"
proof -
  let ?ops = "SecurePacketCoder CsPacketCoder env" and ?F = SneStreamFactory_byte
  let ?ms = "map (\<lambda>q. (dbpmtSystem_delegate, DbpDelegateMessage_fields, [request_value q])) requests"
  let ?f = "\<lambda>mt vs. schedule_on param\<^sub>0 request\<^sub>0 (hd vs)"
  note session = secure_bytes [OF assms(1), of u]
  have send: "for_each (DatabaseClientSideProxy_call ?ops ?F) requests = send_messages ?ops ?F ?ms"
    by (simp add: send_messages_def for_each_map DatabaseClientSideProxy_call_def [abs_def])
  have ready: "proxy_ready u r" using assms(6,7) by (simp add: proxy_ready_def)
  have "\<forall>m \<in> set ?ms. responds True (proxy_ready u)
      (DatabaseProxyServerSideSession_registerCallbacks ops' F' lib now param\<^sub>0 request\<^sub>0) ?f m"
    using assms(8) by (auto intro: delegate_responds)
  note arrive = sgp_session.messages_arrive [OF session assms(3-5) proxy_ready_steady ready this assms(2), of k ts]
  obtain sch' new where sch': "scheduler (service (session_object (fold (\<lambda>(mt, TList, vs). ?f mt vs) ?ms (owner r)))) = Some sch'"
    "requestQueue sch' = requestQueue sch @ new" "map queued new = map (\<lambda>q. (mr_priority q, request_value q)) requests"
    using fold_schedule_on [OF assms(7), of param\<^sub>0 request\<^sub>0 requests] by blast
  obtain bs s' where bs: "send_messages ?ops ?F ?ms s = (Inr (), s')" "tasks s' = tasks s @ map (\<lambda>(b, mt). SendMessage b mt) bs"
    and run: "(\<forall>(b, mt) \<in> set bs. length (pad_to (BLOCKSIZE (enc_engine env)) (drop 9 (mb_contents (snd b)))) < 65536) \<longrightarrow>
      (\<exists>packets e'. marshal_blocks ?ops bs e = Some (packets, e') \<and>
        (\<forall>chunks. concat chunks = packets \<longrightarrow> (\<exists>m' r' ts'.
          receive_all ?ops (as_callback (Session_onMessageArrived exts)) chunks
              (SgpMarshaller_new ?ops d (mb_new k) (mb_new k), 0, r, ts) = Some (Inr True, m', length ?ms, r', ts') \<and>
          proxy_ready u r' \<and> owner r' = fold (\<lambda>(mt, TList, vs). ?f mt vs) ?ms (owner r) \<and> secure_sync env e' (packetCoder m'))))"
    using arrive by blast
  have fin: "\<exists>sch' new. scheduler (service (session_object ow)) = Some sch' \<and>
      requestQueue sch' = requestQueue sch @ new \<and> map rm_priority new = map mr_priority requests \<and>
      map (\<lambda>m. SqlServerProxyDatabase_call execute (rm_request m)) new = map (SqlServerProxyDatabase_call execute) requests"
    if "ow = fold (\<lambda>(mt, TList, vs). ?f mt vs) ?ms (owner r)" for ow
    unfolding that using sch' queued_same [OF sch'(3)] by blast
  have "\<exists>packets e'. marshal_blocks ?ops bs e = Some (packets, e') \<and>
        (\<forall>chunks. concat chunks = packets \<longrightarrow> (\<exists>m' r' ts' sch' new.
          receive_all ?ops (as_callback (Session_onMessageArrived exts)) chunks
              (SgpMarshaller_new ?ops d (mb_new k) (mb_new k), 0, r, ts) = Some (Inr True, m', length requests, r', ts') \<and>
          scheduler (service (session_object (owner r'))) = Some sch' \<and>
          requestQueue sch' = requestQueue sch @ new \<and> map rm_priority new = map mr_priority requests \<and>
          map (\<lambda>m. SqlServerProxyDatabase_call execute (rm_request m)) new = map (SqlServerProxyDatabase_call execute) requests))"
    if lim: "\<forall>(b, mt) \<in> set bs. length (pad_to (BLOCKSIZE (enc_engine env)) (drop 9 (mb_contents (snd b)))) < 65536"
  proof -
    from run lim obtain packets e' where p: "marshal_blocks ?ops bs e = Some (packets, e')"
      and all: "\<And>chunks. concat chunks = packets \<Longrightarrow> \<exists>m' r' ts'.
          receive_all ?ops (as_callback (Session_onMessageArrived exts)) chunks
              (SgpMarshaller_new ?ops d (mb_new k) (mb_new k), 0, r, ts) = Some (Inr True, m', length ?ms, r', ts') \<and>
          owner r' = fold (\<lambda>(mt, TList, vs). ?f mt vs) ?ms (owner r)" by blast
    have "\<exists>m' r' ts' sch' new.
          receive_all ?ops (as_callback (Session_onMessageArrived exts)) chunks
              (SgpMarshaller_new ?ops d (mb_new k) (mb_new k), 0, r, ts) = Some (Inr True, m', length requests, r', ts') \<and>
          scheduler (service (session_object (owner r'))) = Some sch' \<and>
          requestQueue sch' = requestQueue sch @ new \<and> map rm_priority new = map mr_priority requests \<and>
          map (\<lambda>m. SqlServerProxyDatabase_call execute (rm_request m)) new = map (SqlServerProxyDatabase_call execute) requests"
      if cut: "concat chunks = packets" for chunks
    proof -
      from all [OF cut] obtain m' r' ts' where r': "receive_all ?ops (as_callback (Session_onMessageArrived exts)) chunks
              (SgpMarshaller_new ?ops d (mb_new k) (mb_new k), 0, r, ts) = Some (Inr True, m', length requests, r', ts')"
        "owner r' = fold (\<lambda>(mt, TList, vs). ?f mt vs) ?ms (owner r)" unfolding length_map by blast
      from r'(1) fin [OF r'(2)] show ?thesis by blast
    qed
    with p show ?thesis by blast
  qed
  with bs show ?thesis unfolding send by blast
qed

text \<open>A proxy server whose scheduler runs, and a request for it.\<close>

definition demo_proxy :: "nat db_proxy_session seed_owner" where
  "demo_proxy = \<lparr>privateKey = [], otherSidePublicKey = [], exchangingDecryptSeed = [],
     session_object = server_side_session.extend (ServerSideSession_new 0 9)
       \<lparr>service = snd (DatabaseProxyService_initialize
          \<lparr>serverCertificate = [1], schedulerThreadCount = 3, scheduler = None\<rparr>)\<rparr>\<rparr>"

definition demo_request :: modify_request where
  "demo_request = ModifyRequest_new rpNormal rtStoredProcedure [65] [Param_int32 5]"

lemma demo_proxy_fields: "service (session_object demo_proxy) =
    \<lparr>serverCertificate = [1], schedulerThreadCount = 3, scheduler = Some (ProxyScheduler_start 3 ProxyScheduler_new)\<rparr>"
  "requestQueue (ProxyScheduler_start 3 ProxyScheduler_new) = []"
  by (simp_all add: demo_proxy_def server_side_session.defs DatabaseProxyService_initialize_def
      DatabaseProxyService_initProxyScheduler_def
      ProxyScheduler_start_def ProxyScheduler_new_def)

lemma demo_request_valid: "valid True T_ModifyRequest (request_value demo_request)"
  by (simp add: demo_request_def ModifyRequest_new_def T_ModifyRequest_def T_Param_def param_types_def request_value_def
      param_value_def payload_def Param_int32_def pt_defs rpNormal_def rtStoredProcedure_def streamable_def
      isEnoughBits_def fits_def fits_signed_def str_fits_def)

theorem delegated_requests_scheduled_witness:
  "\<exists>bs s'. for_each (DatabaseClientSideProxy_call (SecurePacketCoder CsPacketCoder toy_env) SneStreamFactory_byte)
      [demo_request, demo_request] (demo_session demo_proxy) = (Inr (), s') \<and>
    tasks s' = map (\<lambda>(b, mt). SendMessage b mt) bs \<and>
    ((\<forall>(b, mt) \<in> set bs. length (pad_to 8 (drop 9 (mb_contents (snd b)))) < 65536) \<longrightarrow>
      (\<exists>packets e'. marshal_blocks (SecurePacketCoder CsPacketCoder toy_env) bs (SecurePacketCoder_new toy_env () 0 True) =
          Some (packets, e') \<and>
        (\<forall>chunks. concat chunks = packets \<longrightarrow> (\<exists>m' r' ts' sch'.
          receive_all (SecurePacketCoder CsPacketCoder toy_env) (as_callback (Session_onMessageArrived
              [MessagingExtension_handleMessage SneStreamFactory_byte 0
                 (DatabaseProxyServerSideSession_registerCallbacks (SecurePacketCoder CsPacketCoder toy_env)
                   SneStreamFactory_byte toy_cryptopp 0 (Param_default 0 0) (ModifyRequest_default 0)),
               RpcingExtension_handleMessage SneStreamFactory_byte 0 (\<lambda>_ _ _. skip)])) chunks
              (SgpMarshaller_new (SecurePacketCoder CsPacketCoder toy_env) (SecurePacketCoder_new toy_env () 0 True)
                 (mb_new 16) (mb_new 16), 0, demo_session demo_proxy, []) =
            Some (Inr True, m', Suc (Suc 0), r', ts') \<and>
          scheduler (service (session_object (owner r'))) = Some sch' \<and> map rm_priority (requestQueue sch') = [2, 2] \<and>
          map (\<lambda>m. SqlServerProxyDatabase_call (\<lambda>c ps (db :: nat). (True, db)) (rm_request m)) (requestQueue sch') =
            map (SqlServerProxyDatabase_call (\<lambda>c ps db. (True, db))) [demo_request, demo_request]))))"
proof -
  let ?c = "SecurePacketCoder_new toy_env () 0 True" and ?s = "demo_session demo_proxy"
  let ?exts = "[MessagingExtension_handleMessage SneStreamFactory_byte 0
      (DatabaseProxyServerSideSession_registerCallbacks (SecurePacketCoder CsPacketCoder toy_env)
        SneStreamFactory_byte toy_cryptopp 0 (Param_default 0 0) (ModifyRequest_default 0)),
     RpcingExtension_handleMessage SneStreamFactory_byte 0 (\<lambda>_ _ _. skip)]"
  have "?exts \<in> sgp_extensions SneStreamFactory_byte 0
      (DatabaseProxyServerSideSession_registerCallbacks (SecurePacketCoder CsPacketCoder toy_env)
        SneStreamFactory_byte toy_cryptopp 0 (Param_default 0 0) (ModifyRequest_default 0)) (\<lambda>_ _ _. skip)"
    by (simp add: sgp_extensions_def)
  note proxy = delegated_requests_scheduled [where s = ?s and r = ?s and sch = "ProxyScheduler_start 3 ProxyScheduler_new"
      and requests = "[demo_request, demo_request]" and k = 16 and ts = "[]" and execute = "\<lambda>c ps (db :: nat). (True, db)",
      OF toy_env_engines(1) secure_sync_new [of toy_env "()" 0 True "()" 0] this demo_session_fields(2,5,3)]
  have p: "mr_priority demo_request = 2" by (simp add: demo_request_def ModifyRequest_new_def rpNormal_def)
  show ?thesis
    using proxy by (simp add: demo_session_fields demo_proxy_fields demo_request_valid toy_env_engines(2) p)
qed

text \<open>C19: a refused client can still delegate.  A client whose certificate is not the server's gets no answer,
  only a graceful disconnection is posted; a request that it delegates before the disconnection takes
  effect is scheduled, with the same effect on the database as that of an authenticated client.\<close>

theorem refused_client_delegates:
  assumes "certificate \<noteq> serverCertificate (service (session_object (owner s)))"
    and "scheduler (service (session_object (owner s))) = Some sch"
  shows "\<exists>s1 s2 sch' m.
    DatabaseProxyServerSideSession_authenticateMessageReceived ops F now [V_string certificate] s = (Inr (), s1) \<and>
    tasks s1 = tasks s @ [DisconnectGracefully] \<and> owner s1 = owner s \<and>
    DatabaseProxyServerSideSession_delegateMessageReceived param\<^sub>0 request\<^sub>0 [request_value request] s1 = (Inr (), s2) \<and>
    scheduler (service (session_object (owner s2))) = Some sch' \<and> requestQueue sch' = requestQueue sch @ [m] \<and>
    SqlServerProxyDatabase_call execute (rm_request m) = SqlServerProxyDatabase_call execute request"
proof -
  let ?s1 = "s\<lparr>tasks := tasks s @ [DisconnectGracefully]\<rparr>" and ?q = "request_of param\<^sub>0 request\<^sub>0 (request_value request)"
  have auth: "DatabaseProxyServerSideSession_authenticateMessageReceived ops F now [V_string certificate] s = (Inr (), ?s1)"
    using assms(1)
    by (simp add: DatabaseProxyServerSideSession_authenticateMessageReceived_def on_service_def on_object_def zoom_def
        bind_def prog_defs DatabaseProxyService_authenticate_def SessionImpl_disconnectGracefully_def post_task_def)
  have run: "DatabaseProxyServerSideSession_delegateMessageReceived param\<^sub>0 request\<^sub>0 [request_value request] ?s1 =
      (Inr (), ?s1\<lparr>owner := schedule_on param\<^sub>0 request\<^sub>0 (request_value request) (owner ?s1)\<rparr>)"
    using assms(2) by (intro delegate_run) simp
  have "SqlServerProxyDatabase_call execute ?q = SqlServerProxyDatabase_call execute request"
    by (rule call_value) (rule request_value_of)
  with auth run assms(2) show ?thesis by (simp add: schedule_on_def Let_def)
qed

theorem refused_client_delegates_witness:
  "\<exists>s1 s2 sch' m.
    DatabaseProxyServerSideSession_authenticateMessageReceived (SecurePacketCoder CsPacketCoder toy_env) SneStreamFactory_byte 0
      [V_string [7]] (demo_session demo_proxy) = (Inr (), s1) \<and> tasks s1 = [DisconnectGracefully] \<and>
    DatabaseProxyServerSideSession_delegateMessageReceived (Param_default 0 0) (ModifyRequest_default 0)
      [request_value demo_request] s1 = (Inr (), s2) \<and>
    scheduler (service (session_object (owner s2))) = Some sch' \<and> requestQueue sch' = [m] \<and>
    SqlServerProxyDatabase_call (\<lambda>c ps db. (True, db + 1)) (rm_request m) (0 :: nat) = (True, 1)"
proof -
  have call: "SqlServerProxyDatabase_call (\<lambda>c ps db. (True, db + 1)) demo_request (0 :: nat) = (True, 1)"
    by (simp add: SqlServerProxyDatabase_call_def ModifyRequest_isValid_def demo_request_def ModifyRequest_new_def
        isValid_RequestPriority_def isValid_RequestType_def createAdoParameter_def Param_int32_def pt_defs rpNormal_def
        rpLowest_def rpHighest_def rtStoredProcedure_def rtUnknown_def)
  from refused_client_delegates [of "[7]" "demo_session demo_proxy" "ProxyScheduler_start 3 ProxyScheduler_new"
      "SecurePacketCoder CsPacketCoder toy_env" SneStreamFactory_byte 0 "Param_default 0 0" "ModifyRequest_default 0"
      demo_request "\<lambda>c ps (db :: nat). (True, db + 1)"]
  obtain s1 s2 sch' m where
    "DatabaseProxyServerSideSession_authenticateMessageReceived (SecurePacketCoder CsPacketCoder toy_env) SneStreamFactory_byte 0
      [V_string [7]] (demo_session demo_proxy) = (Inr (), s1)" "tasks s1 = [DisconnectGracefully]"
    "DatabaseProxyServerSideSession_delegateMessageReceived (Param_default 0 0) (ModifyRequest_default 0)
      [request_value demo_request] s1 = (Inr (), s2)"
    "scheduler (service (session_object (owner s2))) = Some sch'" "requestQueue sch' = [m]"
    "SqlServerProxyDatabase_call (\<lambda>c ps (db :: nat). (True, db + 1)) (rm_request m) =
      SqlServerProxyDatabase_call (\<lambda>c ps db. (True, db + 1)) demo_request"
    by (auto simp: demo_session_fields demo_proxy_fields)
  with call show ?thesis by auto
qed



text \<open>A larger unsigned number arrives as a negative one.\<close>

lemma large_uint64_negative:
  assumes "2 ^ 63 \<le> uint w"
  shows "ado_meaning (the (createAdoParameter (Param_uint64 w))) = SqlNumber (uint w - 2 ^ 64)"
proof -
  have "uint w < 2 ^ 64" using uint_lt2p [of w] by simp
  with assms have "uint w div 2 ^ 63 = 1" by simp
  then have "bit (uint w) 63" by (simp add: bit_iff_odd)
  then have "sint w = uint w - 2 ^ 64"
    by (simp add: sint_uint signed_take_bit_eq_take_bit_minus take_bit_int_eq_self \<open>uint w < 2 ^ 64\<close> [simplified])
  then show ?thesis by (simp add: createAdoParameter_def Param_uint64_def pt_defs)
qed

end
