(* ===== verification/Server_Config.thy ===== *)
theory Server_Config
  imports Rpc_Types Io_Timer "HOL-Library.List_Lexorder"
begin

text \<open>
  What a server is configured with: the reader of a configuration file (include/sne/server/config/ConfigReader.h,
  src/server/config/IniFileConfigReader.cpp, ConfigReaderFactory.cpp), the command line and the names that
  \<open>ServerConfig\<close> derives from it (ServerConfig.cpp), the properties of a process (Property.h), addresses
  (SocketAddress.h) and \<open>ServerSpec\<close> (ServerSpec.h), which servers also send to each other.  The
  property tree, the command-line parser and the file system of Boost are parameters.  Shown: a
  successful \<open>parse\<close> has read the file that the command line names, addresses are totally ordered, and what
  of a \<open>ServerSpec\<close> survives streaming.
\<close>

section \<open>ConfigReader\<close>

text \<open>A property tree is its \<open>get\<close>: the value at a path, unless that throws.\<close>

type_synonym ptree = "string \<Rightarrow> string option"

definition IniFileConfigReader_open :: "(string \<Rightarrow> ptree option) \<Rightarrow> string \<Rightarrow> (ptree, bool) prog" where
  "IniFileConfigReader_open read_ini filename =
     (case read_ini filename of
        None \<Rightarrow> ret False
      | Some tree \<Rightarrow> bind (modify (\<lambda>_. tree)) (\<lambda>_. ret True))"

definition IniFileConfigReader_getString :: "string \<Rightarrow> string \<Rightarrow> (ptree, string) prog" where
  "IniFileConfigReader_getString sectionName keyName =
     bind (gets (\<lambda>tree. tree (sectionName @ ''.'' @ keyName))) (\<lambda>value.
     case value of
       None \<Rightarrow> throw (NotDefinedConfigError sectionName keyName)
     | Some value \<Rightarrow> ret value)"

text \<open>\<open>lexical_cast\<close> is \<open>boost::lexical_cast\<close> to the type that is asked for, \<open>None\<close> a \<open>bad_lexical_cast\<close>.\<close>

definition ConfigReader_getNumeric :: "(string \<Rightarrow> 'n option) \<Rightarrow> string \<Rightarrow> string \<Rightarrow> (ptree, 'n) prog" where
  "ConfigReader_getNumeric lexical_cast sectionName keyName =
     bind (IniFileConfigReader_getString sectionName keyName) (\<lambda>keyValue.
     case lexical_cast keyValue of
       Some n \<Rightarrow> ret n
     | None \<Rightarrow> throw (NotDefinedConfigError sectionName keyName))"

text \<open>A new reader has an empty tree.  The \<open>assert\<close> is not compiled into a release.\<close>

definition ConfigReaderFactory_create :: "string \<Rightarrow> ptree option" where
  "ConfigReaderFactory_create readerType = (if readerType = ''ini'' then Some (\<lambda>_. None) else None)"

section \<open>ServerConfig\<close>

record server_config =
  configReader :: "ptree option"
  homeDir :: string
  configFile :: string
  configReaderType :: string
  serviceName :: string

definition defaultConfigReader :: string where
  "defaultConfigReader = ''ini''"

definition ServerConfig_new :: server_config where
  "ServerConfig_new = \<lparr>configReader = None, homeDir = [], configFile = [], configReaderType = defaultConfigReader,
     serviceName = []\<rparr>"

text \<open>What Boost makes of the command line, when it can be parsed.\<close>

record cmd_options =
  opt_help :: bool
  opt_home :: "string option"
  opt_config :: "string option"
  opt_format :: "string option"

text \<open>Boost: the directory of the process, the parser of the command line, \<open>canonical\<close> (\<open>None\<close> when it throws),
  the path of a name in a directory, and \<open>read_ini\<close>.\<close>

record config_env =
  ce_current_path :: string
  ce_options :: "string list \<Rightarrow> cmd_options option"
  ce_canonical :: "string \<Rightarrow> string option"
  ce_join :: "string \<Rightarrow> string \<Rightarrow> string"
  ce_read_ini :: "string \<Rightarrow> ptree option"

definition readEnvironmentVariable :: "config_env \<Rightarrow> (server_config, bool) prog" where
  "readEnvironmentVariable env = bind (modify (\<lambda>c. c\<lparr>homeDir := ce_current_path env\<rparr>)) (\<lambda>_. ret True)"

definition notify_options :: "cmd_options \<Rightarrow> server_config \<Rightarrow> server_config" where
  "notify_options vm c =
     c\<lparr>homeDir := (case opt_home vm of None \<Rightarrow> homeDir c | Some home \<Rightarrow> home),
       configFile := (case opt_config vm of None \<Rightarrow> configFile c | Some file \<Rightarrow> file),
       configReaderType := (case opt_format vm of None \<Rightarrow> defaultConfigReader | Some format \<Rightarrow> format)\<rparr>"

definition parseCommandLine :: "config_env \<Rightarrow> string list \<Rightarrow> (server_config, bool) prog" where
  "parseCommandLine env args =
     (case ce_options env args of
        None \<Rightarrow> ret False
      | Some vm \<Rightarrow>
          bind (modify (notify_options vm)) (\<lambda>_.
          if opt_help vm then ret False
          else bind (gets configFile) (\<lambda>file.
          if file = [] then ret False
          else bind (gets configReaderType) (\<lambda>type.
          if type = [] then ret False
          else bind (gets homeDir) (\<lambda>home.
          case ce_canonical env home of
            None \<Rightarrow> throw (RuntimeError ''canonical'')
          | Some home \<Rightarrow> bind (modify (\<lambda>c. c\<lparr>homeDir := home\<rparr>)) (\<lambda>_. ret True))))))"

definition getConfigPath :: "config_env \<Rightarrow> server_config \<Rightarrow> string" where
  "getConfigPath env c = ce_join env (ce_join env (homeDir c) ''conf'') (configFile c)"

definition getLogDir :: "config_env \<Rightarrow> server_config \<Rightarrow> string" where
  "getLogDir env c = ce_join env (homeDir c) ''log''"

text \<open>An operation of the reader; \<open>*configReader_\<close> without a reader has no meaning.\<close>

definition on_reader :: "(ptree, 'a) prog \<Rightarrow> (server_config, 'a) prog" where
  "on_reader m c =
     (case configReader c of
        None \<Rightarrow> (Inl (UndefinedBehaviour ''null pointer''), c)
      | Some reader \<Rightarrow> (case m reader of (r, reader) \<Rightarrow> (r, c\<lparr>configReader := Some reader\<rparr>)))"

definition parseConfigFile :: "config_env \<Rightarrow> (server_config, bool) prog" where
  "parseConfigFile env =
     bind (modify (\<lambda>c. c\<lparr>configReader := ConfigReaderFactory_create (configReaderType c)\<rparr>)) (\<lambda>_.
     bind (gets configReader) (\<lambda>reader.
     if reader = None then ret False
     else bind (gets (getConfigPath env)) (\<lambda>configPath.
     bind (on_reader (IniFileConfigReader_open (ce_read_ini env) configPath)) (\<lambda>opened.
     if \<not> opened then ret False
     else bind (on_reader (IniFileConfigReader_getString ''service'' ''name'')) (\<lambda>name.
     bind (modify (\<lambda>c. c\<lparr>serviceName := name\<rparr>)) (\<lambda>_.
     ret True))))))"

definition ServerConfig_parse :: "config_env \<Rightarrow> string list \<Rightarrow> (server_config, bool) prog" where
  "ServerConfig_parse env args =
     bind (readEnvironmentVariable env) (\<lambda>read.
     if \<not> read then ret False
     else bind (parseCommandLine env args) (\<lambda>parsed.
     if \<not> parsed then ret False
     else parseConfigFile env))"

lemmas parse_defs = ServerConfig_parse_def readEnvironmentVariable_def parseCommandLine_def parseConfigFile_def
  IniFileConfigReader_open_def IniFileConfigReader_getString_def on_reader_def ConfigReaderFactory_create_def
  notify_options_def

text \<open>\<open>parse\<close> ends with a result or an exception, and when it succeeds the reader holds the file
  \<open>conf/<config>\<close> of the home directory, in which the service has its name.\<close>

lemma parse_defined: "fst (ServerConfig_parse env args c) \<noteq> Inl (UndefinedBehaviour u)"
  by (auto simp: parse_defs bind_def prog_defs split: prod.splits sum.splits option.splits if_splits)

lemma parse_ok:
  assumes "ServerConfig_parse env args c = (Inr True, c')"
  obtains vm tree where "ce_options env args = Some vm" and "\<not> opt_help vm"
    and "configReaderType c' = ''ini''" and "configFile c' \<noteq> []"
    and "ce_canonical env (case opt_home vm of None \<Rightarrow> ce_current_path env | Some home \<Rightarrow> home) = Some (homeDir c')"
    and "ce_read_ini env (getConfigPath env c') = Some tree" and "configReader c' = Some tree"
    and "tree ''service.name'' = Some (serviceName c')"
  using assms
  by (auto simp: parse_defs getConfigPath_def bind_def prog_defs split: prod.splits sum.splits option.splits if_splits)

section \<open>Properties\<close>

text \<open>The map of the process is the state.  \<open>zero\<close> is \<open>T()\<close>; \<open>None\<close> a \<open>bad_lexical_cast\<close>.\<close>

type_synonym properties = "string \<Rightarrow> string option"

definition Properties_initialize :: "properties \<Rightarrow> properties \<Rightarrow> properties" where
  "Properties_initialize p s_properties = p"

definition Properties_getProperty :: "(string \<Rightarrow> 'n option) \<Rightarrow> 'n \<Rightarrow> string \<Rightarrow> (properties, 'n) prog" where
  "Properties_getProperty lexical_cast zero key =
     bind (gets (\<lambda>s_properties. s_properties key)) (\<lambda>pos.
     case pos of
       None \<Rightarrow> ret zero
     | Some value \<Rightarrow>
         (case lexical_cast value of Some n \<Rightarrow> ret n | None \<Rightarrow> throw (RuntimeError ''bad_lexical_cast'')))"

section \<open>SocketAddress\<close>

record socket_address =
  ip :: "byte list"
  port :: u16

definition SocketAddress_new :: socket_address where
  "SocketAddress_new = \<lparr>ip = [], port = 0\<rparr>"

definition SocketAddress_eq :: "socket_address \<Rightarrow> socket_address \<Rightarrow> bool" where
  "SocketAddress_eq lhs rhs \<longleftrightarrow> ip lhs = ip rhs \<and> port lhs = port rhs"

definition SocketAddress_less :: "socket_address \<Rightarrow> socket_address \<Rightarrow> bool" where
  "SocketAddress_less lhs rhs \<longleftrightarrow>
     (if ip lhs < ip rhs then True else if ip rhs < ip lhs then False else port lhs < port rhs)"

definition SocketAddress_reset :: "socket_address \<Rightarrow> socket_address" where
  "SocketAddress_reset a = a\<lparr>ip := [], port := 0\<rparr>"

definition SocketAddress_isValid :: "socket_address \<Rightarrow> bool" where
  "SocketAddress_isValid a \<longleftrightarrow> ip a \<noteq> [] \<and> 0 < port a"

definition SocketAddress_serialize_out :: "'s ostream_ops \<Rightarrow> socket_address \<Rightarrow> ('s, unit) prog" where
  "SocketAddress_serialize_out os a = bind (os_str os (ip a) 65535 16) (\<lambda>_. os_u16 os (port a) 16)"

definition SocketAddress_serialize_in :: "'t istream_ops \<Rightarrow> socket_address \<Rightarrow> ('t, socket_address) prog" where
  "SocketAddress_serialize_in istr a =
     bind (is_str istr 65535 16) (\<lambda>address.
     bind (is_u16 istr 16) (\<lambda>number.
     ret (a\<lparr>ip := address, port := number\<rparr>)))"

text \<open>The order is the lexicographic one, so an ordered container can be keyed with addresses, and \<open>==\<close>
  is its equivalence.\<close>

lemma address_order:
  "\<not> SocketAddress_less a a"
  "SocketAddress_less a b \<Longrightarrow> SocketAddress_less b c \<Longrightarrow> SocketAddress_less a c"
  "SocketAddress_eq a b \<longleftrightarrow> \<not> SocketAddress_less a b \<and> \<not> SocketAddress_less b a"
  "SocketAddress_eq a b \<longleftrightarrow> a = b"
  by (auto simp: SocketAddress_less_def SocketAddress_eq_def split: if_splits)

section \<open>ServerSpec\<close>

record server_spec =
  spec_name :: "byte list"
  workerThreadCount :: u16
  listeningAddresses :: "byte list list"
  listeningPort :: u16
  monitorAddress :: "byte list"
  monitorPort :: u16
  sessionPoolSize :: u16
  maxUserCount :: u16
  packetCipher :: "byte list"
  spec_cipherKeyTimeLimit :: u16
  spec_authenticationTimeout :: u16
  spec_heartbeatTimeout :: u16
  sessionCapacity :: session_capacity
  certificate :: "byte list"

definition ServerSpec_new :: server_spec where
  "ServerSpec_new = \<lparr>spec_name = [], workerThreadCount = 0, listeningAddresses = [], listeningPort = 0,
     monitorAddress = [], monitorPort = 0, sessionPoolSize = 0, maxUserCount = 0, packetCipher = [],
     spec_cipherKeyTimeLimit = 0, spec_authenticationTimeout = 0, spec_heartbeatTimeout = 0,
     sessionCapacity = \<lparr>maxBytesPerSecond = 0, secondsForThrottling = 0, maxPendablePacketCount = 0\<rparr>, certificate = []\<rparr>"

definition ServerSpec_isValid :: "server_spec \<Rightarrow> bool" where
  "ServerSpec_isValid s \<longleftrightarrow> listeningAddresses s \<noteq> [] \<and> 0 < listeningPort s \<and> 0 < workerThreadCount s \<and>
     0 < sessionPoolSize s \<and> packetCipher s \<noteq> []"

fun toSocketAddresses :: "byte list list \<Rightarrow> u16 \<Rightarrow> socket_address list" where
  "toSocketAddresses [] p = []"
| "toSocketAddresses (address # addresses) p =
     (if address \<noteq> [] then \<lparr>ip = address, port = p\<rparr> # toSocketAddresses addresses p else toSocketAddresses addresses p)"

lemma toSocketAddresses_valid:
  "0 < p \<Longrightarrow> a \<in> set (toSocketAddresses addresses p) \<longleftrightarrow> SocketAddress_isValid a \<and> port a = p \<and> ip a \<in> set addresses"
  by (induction addresses) (auto simp: SocketAddress_isValid_def)

definition ServerSpec_serialize_out :: "'s ostream_ops \<Rightarrow> server_spec \<Rightarrow> ('s, unit) prog" where
  "ServerSpec_serialize_out os s =
     bind (os_str os (spec_name s) 65535 16) (\<lambda>_.
     bind (os_u16 os (workerThreadCount s) 16) (\<lambda>_.
     bind (RpcContainer_serialize_out os 16 (\<lambda>a. os_str os a 65535 16) (listeningAddresses s)) (\<lambda>_.
     bind (os_u16 os (listeningPort s) 16) (\<lambda>_.
     bind (os_u16 os (monitorPort s) 16) (\<lambda>_.
     bind (os_u16 os (sessionPoolSize s) 16) (\<lambda>_.
     bind (os_u16 os (maxUserCount s) 16) (\<lambda>_.
     bind (os_str os (packetCipher s) 65535 16) (\<lambda>_.
     bind (os_u16 os (spec_cipherKeyTimeLimit s) 16) (\<lambda>_.
     bind (os_u16 os (spec_authenticationTimeout s) 16) (\<lambda>_.
     bind (os_u16 os (spec_heartbeatTimeout s) 16) (\<lambda>_.
     bind (os_u16 os (maxBytesPerSecond (sessionCapacity s)) 16) (\<lambda>_.
     bind (os_u16 os (secondsForThrottling (sessionCapacity s)) 16) (\<lambda>_.
     os_str os (certificate s) 65535 16)))))))))))))"

definition ServerSpec_serialize_in :: "'t istream_ops \<Rightarrow> server_spec \<Rightarrow> ('t, server_spec) prog" where
  "ServerSpec_serialize_in istr s =
     bind (is_str istr 65535 16) (\<lambda>name.
     bind (is_u16 istr 16) (\<lambda>threads.
     bind (RpcContainer_serialize_in istr 16 (is_str istr 65535 16)) (\<lambda>addresses.
     bind (is_u16 istr 16) (\<lambda>listening.
     bind (is_u16 istr 16) (\<lambda>monitor.
     bind (is_u16 istr 16) (\<lambda>pool.
     bind (is_u16 istr 16) (\<lambda>users.
     bind (is_str istr 65535 16) (\<lambda>packet.
     bind (is_u16 istr 16) (\<lambda>keyLimit.
     bind (is_u16 istr 16) (\<lambda>authentication.
     bind (is_u16 istr 16) (\<lambda>heartbeat.
     bind (is_u16 istr 16) (\<lambda>maxBytes.
     bind (is_u16 istr 16) (\<lambda>seconds.
     bind (is_str istr 65535 16) (\<lambda>cert.
     ret (s\<lparr>spec_name := name, workerThreadCount := threads, listeningAddresses := addresses,
       listeningPort := listening, monitorPort := monitor, sessionPoolSize := pool, maxUserCount := users,
       packetCipher := packet, spec_cipherKeyTimeLimit := keyLimit, spec_authenticationTimeout := authentication,
       spec_heartbeatTimeout := heartbeat,
       sessionCapacity := (sessionCapacity s)\<lparr>maxBytesPerSecond := maxBytes, secondsForThrottling := seconds\<rparr>,
       certificate := cert\<rparr>)))))))))))))))"


text \<open>The members that are streamed, as a serializable value.\<close>

definition T_ServerSpec :: rpc_type where
  "T_ServerSpec = T_struct [T_string 65535 16, T_u16 16, T_seq (T_string 65535 16), T_u16 16, T_u16 16, T_u16 16, T_u16 16,
     T_string 65535 16, T_u16 16, T_u16 16, T_u16 16, T_u16 16, T_u16 16, T_string 65535 16]"

definition spec_value :: "server_spec \<Rightarrow> rpc_value" where
  "spec_value s = V_list [V_string (spec_name s), V_16 (workerThreadCount s), V_list (map V_string (listeningAddresses s)),
     V_16 (listeningPort s), V_16 (monitorPort s), V_16 (sessionPoolSize s), V_16 (maxUserCount s), V_string (packetCipher s),
     V_16 (spec_cipherKeyTimeLimit s), V_16 (spec_authenticationTimeout s), V_16 (spec_heartbeatTimeout s),
     V_16 (maxBytesPerSecond (sessionCapacity s)), V_16 (secondsForThrottling (sessionCapacity s)), V_string (certificate s)]"

fun string_of :: "rpc_value \<Rightarrow> byte list" where
  "string_of (V_string v) = v"
| "string_of _ = []"

fun u16_of :: "rpc_value \<Rightarrow> u16" where
  "u16_of (V_16 v) = v"
| "u16_of _ = 0"

fun list_of :: "rpc_value \<Rightarrow> rpc_value list" where
  "list_of (V_list vs) = vs"
| "list_of _ = []"

definition spec_of :: "server_spec \<Rightarrow> rpc_value \<Rightarrow> server_spec" where
  "spec_of s v =
     (let vs = list_of v in
      s\<lparr>spec_name := string_of (vs ! 0), workerThreadCount := u16_of (vs ! 1),
        listeningAddresses := map string_of (list_of (vs ! 2)), listeningPort := u16_of (vs ! 3),
        monitorPort := u16_of (vs ! 4), sessionPoolSize := u16_of (vs ! 5), maxUserCount := u16_of (vs ! 6),
        packetCipher := string_of (vs ! 7), spec_cipherKeyTimeLimit := u16_of (vs ! 8),
        spec_authenticationTimeout := u16_of (vs ! 9), spec_heartbeatTimeout := u16_of (vs ! 10),
        sessionCapacity := (sessionCapacity s)
          \<lparr>maxBytesPerSecond := u16_of (vs ! 11), secondsForThrottling := u16_of (vs ! 12)\<rparr>,
        certificate := string_of (vs ! 13)\<rparr>)"

lemma ServerSpec_serialize_out_eq: "ServerSpec_serialize_out os s = stream_out os T_ServerSpec (spec_value s)"
  by (simp add: ServerSpec_serialize_out_def T_ServerSpec_def spec_value_def bind_skip_right
      RpcContainer_serialize_out_def take_map for_each_map)

lemma ServerSpec_serialize_in_eq:
  "ServerSpec_serialize_in istr s = bind (stream_in istr g T_ServerSpec) (\<lambda>v. ret (spec_of s v))"
proof -
  have "bind (is_str istr 65535 16) (\<lambda>v. ret (V_string v)) = stream_in istr g (T_string 65535 16)" by simp
  moreover have "is_str istr 65535 16 = bind (bind (is_str istr 65535 16) (\<lambda>v. ret (V_string v))) (\<lambda>v. ret (string_of v))"
    by (simp add: bind_assoc bind_ret bind_ret_right)
  ultimately have "RpcContainer_serialize_in istr 16 (is_str istr 65535 16) =
      bind (RpcContainer_serialize_in istr 16 (stream_in istr g (T_string 65535 16))) (\<lambda>vs. ret (map string_of vs))"
    by (metis RpcContainer_in_map)
  then show ?thesis
    by (simp add: ServerSpec_serialize_in_def T_ServerSpec_def bind_assoc bind_ret spec_of_def Let_def)
qed

text \<open>What a peer reads from the specification that was written to a byte stream: all of it but the address of
  the monitor and the limit on queued packets, which stay as they were in the object read into.\<close>

lemma server_spec_roundtrip:
  assumes "\<forall>v \<in> {spec_name s, packetCipher s, certificate s} \<union> set (listeningAddresses s). length v < 65536"
    and "length (listeningAddresses s) < 65536"
  shows "\<exists>t r. ServerSpec_serialize_out (oys_ops mbsb_ops) s (oys_new (mb_new n) u) = (Inr (), t) \<and>
    ServerSpec_serialize_in (iys_ops mbsb_ops) s' (iys_new (oy_buffer t) u) =
      (Inr (s\<lparr>monitorAddress := monitorAddress s', sessionCapacity := (sessionCapacity s)
        \<lparr>maxPendablePacketCount := maxPendablePacketCount (sessionCapacity s')\<rparr>\<rparr>), r)"
proof -
  have "valid True T_ServerSpec (spec_value s)"
    using assms by (auto simp: T_ServerSpec_def spec_value_def str_fits_def streamable_def isEnoughBits_def list_all_iff)
  from codes_run_bytes [OF block_bytes.stream_roundtrip [OF this]] obtain t r where
    "stream_out (oys_ops mbsb_ops) T_ServerSpec (spec_value s) (oys_new (mb_new n) u) = (Inr (), t)"
    "stream_in (iys_ops mbsb_ops) 0 T_ServerSpec (iys_new (oy_buffer t) u) = (Inr (spec_value s), r)" by blast
  moreover have "spec_of s' (spec_value s) = s\<lparr>monitorAddress := monitorAddress s', sessionCapacity := (sessionCapacity s)
      \<lparr>maxPendablePacketCount := maxPendablePacketCount (sessionCapacity s')\<rparr>\<rparr>"
    by (simp add: spec_value_def spec_of_def comp_def)
  ultimately show ?thesis
    by (auto simp: ServerSpec_serialize_out_eq ServerSpec_serialize_in_eq [where g = 0] bind_def ret_def)
qed

end
