(* ===== verification/Task_Scheduler.thy ===== *)
theory Task_Scheduler
  imports Io_Timer
begin

text \<open>
  The delayed and repeated tasks of \<open>TaskScheduler\<close> (src/base/concurrent/TaskScheduler.cpp) with the
  \<open>Future\<close> they return and \<open>SyncFuture\<close> (Future.h), and the state machine of core/fsm (StateMachine.h).  The timer of a
  task is a Boost timer, modelled as in the theory of \<open>AsioTimer\<close> by its waits; the task, which may
  itself cancel its future, is a parameter.  In contrast to an \<open>AsioTimer\<close>, a task that is cancelled
  never runs again, whatever handlers are queued.
\<close>

section \<open>Future and ScheduledTaskFuture\<close>

text \<open>A task's future is its own observer; \<open>update\<close> runs the task.  \<open>hasObserver\<close> is \<open>observer_ != nullptr\<close>.\<close>

record scheduled_task =
  st_timer :: asio_timer
  st_interval :: nat
  st_isCancelled :: bool
  isCompleted :: bool
  hasObserver :: bool

text \<open>The future lives in a state of which \<open>get\<close> and \<open>upd\<close> access it, and which \<open>run\<close>, the task, changes.\<close>

type_synonym 's task_lens = "('s \<Rightarrow> scheduled_task) \<times> ((scheduled_task \<Rightarrow> scheduled_task) \<Rightarrow> 's \<Rightarrow> 's)"

definition ScheduledTaskFuture_update :: "('s \<Rightarrow> 's) \<Rightarrow> 's \<Rightarrow> 's" where
  "ScheduledTaskFuture_update run s = run s"

definition Future_attach :: "'s task_lens \<Rightarrow> ('s \<Rightarrow> 's) \<Rightarrow> 's \<Rightarrow> 's" where
  "Future_attach l run s =
     (let s = snd l (\<lambda>f. f\<lparr>hasObserver := True\<rparr>) s
      in if isCompleted (fst l s) then ScheduledTaskFuture_update run s else s)"

definition Future_completed :: "'s task_lens \<Rightarrow> ('s \<Rightarrow> 's) \<Rightarrow> 's \<Rightarrow> 's" where
  "Future_completed l run s =
     (let s = snd l (\<lambda>f. f\<lparr>isCompleted := True\<rparr>) s
      in if hasObserver (fst l s) then ScheduledTaskFuture_update run s else s)"

definition Future_turned :: "'s task_lens \<Rightarrow> ('s \<Rightarrow> 's) \<Rightarrow> 's \<Rightarrow> 's" where
  "Future_turned l run s = (if hasObserver (fst l s) then ScheduledTaskFuture_update run s else s)"

definition ScheduledTaskFuture_new :: "nat \<Rightarrow> scheduled_task" where
  "ScheduledTaskFuture_new interval = \<lparr>st_timer = AsioTimer_new, st_interval = interval, st_isCancelled = False,
     isCompleted = False, hasObserver = True\<rparr>"

definition ScheduledTaskFuture_cancel :: "scheduled_task \<Rightarrow> scheduled_task" where
  "ScheduledTaskFuture_cancel f = f\<lparr>st_timer := cancel_waits (st_timer f), st_isCancelled := True\<rparr>"

definition ScheduledTaskFuture_schedule :: "nat \<Rightarrow> scheduled_task \<Rightarrow> scheduled_task" where
  "ScheduledTaskFuture_schedule delay f =
     f\<lparr>st_timer := async_wait \<lparr>w_repeats = False, w_timeout = delay, w_act = 0\<rparr> (cancel_waits (st_timer f))\<rparr>"

definition ScheduledTaskFuture_handler :: "'s task_lens \<Rightarrow> ('s \<Rightarrow> 's) \<Rightarrow> io_error \<Rightarrow> 's \<Rightarrow> 's" where
  "ScheduledTaskFuture_handler l run ec s =
     (if ec = Success then
        if st_isCancelled (fst l s) then s
        else if 0 < st_interval (fst l s) then
          let s = Future_turned l run s
          in snd l (ScheduledTaskFuture_schedule (st_interval (fst l s))) s
        else Future_completed l run s
      else s)"

definition scheduleTimedTask :: "nat \<Rightarrow> nat \<Rightarrow> scheduled_task" where
  "scheduleTimedTask delay interval = ScheduledTaskFuture_schedule delay (ScheduledTaskFuture_new interval)"

text \<open>What the I/O context does with the timer of a task.\<close>

inductive task_step :: "'s task_lens \<Rightarrow> ('s \<Rightarrow> 's) \<Rightarrow> 's \<Rightarrow> 's \<Rightarrow> bool" for l run where
  expire: "waiting (st_timer (fst l s)) = ws @ w # ws' \<Longrightarrow>
    task_step l run s (snd l (\<lambda>f. f\<lparr>st_timer := (st_timer f)\<lparr>waiting := ws @ ws', expired := expired (st_timer f) @ [w]\<rparr>\<rparr>) s)"
| run_expired: "expired (st_timer (fst l s)) = w # ws \<Longrightarrow>
    task_step l run s (ScheduledTaskFuture_handler l run Success (snd l (\<lambda>f. f\<lparr>st_timer := (st_timer f)\<lparr>expired := ws\<rparr>\<rparr>) s))"
| run_cancelled: "cancelled (st_timer (fst l s)) = ws @ w # ws' \<Longrightarrow>
    task_step l run s (ScheduledTaskFuture_handler l run OperationAborted
      (snd l (\<lambda>f. f\<lparr>st_timer := (st_timer f)\<lparr>cancelled := ws @ ws'\<rparr>\<rparr>) s))"

text \<open>A future and the rest of the state.\<close>

definition pair_lens :: "(scheduled_task \<times> 'a) task_lens" where
  "pair_lens = (fst, \<lambda>f (t, a). (f t, a))"

lemma task_step_cancelled:
  assumes "task_step pair_lens run (f, a) (f', a')" and "st_isCancelled f"
  shows "a' = a \<and> st_isCancelled f'"
  using assms by cases (auto simp: pair_lens_def ScheduledTaskFuture_handler_def)

text \<open>A cancelled task does not run again.\<close>

lemma cancelled_task_silent:
  assumes "(task_step pair_lens run)\<^sup>*\<^sup>* (ScheduledTaskFuture_cancel f, a) s"
  shows "snd s = a \<and> st_isCancelled (fst s)"
  using assms
proof (induction rule: rtranclp_induct)
  case base
  then show ?case by (simp add: ScheduledTaskFuture_cancel_def)
next
  case (step y z)
  obtain f' a' where y: "y = (f', a')" by fastforce
  obtain f'' a'' where z: "z = (f'', a'')" by fastforce
  from step y z task_step_cancelled [of run f' a' f'' a''] show ?case by simp
qed

section \<open>SyncFuture\<close>

text \<open>\<open>sy_waiters\<close> are the threads inside \<open>wait_for\<close>, \<open>sy_results\<close> what \<open>waitForDone\<close> returned to which thread.  Every
  step holds the mutex.  A condition variable may wake a thread for no reason.\<close>

record sync_future =
  sy_isCompleted :: bool
  sy_waiters :: "nat list"
  sy_results :: "(nat \<times> bool) list"

definition SyncFuture_new :: sync_future where
  "SyncFuture_new = \<lparr>sy_isCompleted = False, sy_waiters = [], sy_results = []\<rparr>"

definition wake :: "nat \<Rightarrow> bool \<Rightarrow> sync_future \<Rightarrow> sync_future" where
  "wake t no_timeout f = f\<lparr>sy_waiters := remove1 t (sy_waiters f), sy_results := sy_results f @ [(t, no_timeout)]\<rparr>"

text \<open>\<open>woken\<close> is whom \<open>notify_one\<close> chooses, if anybody waits.\<close>

definition SyncFuture_completed :: "nat option \<Rightarrow> sync_future \<Rightarrow> sync_future" where
  "SyncFuture_completed woken f =
     (let f = f\<lparr>sy_isCompleted := True\<rparr>
      in case woken of None \<Rightarrow> f | Some t \<Rightarrow> wake t True f)"

definition SyncFuture_waitForDone :: "nat \<Rightarrow> sync_future \<Rightarrow> sync_future" where
  "SyncFuture_waitForDone t f =
     (if sy_isCompleted f then f\<lparr>sy_results := sy_results f @ [(t, True)]\<rparr>
      else f\<lparr>sy_waiters := sy_waiters f @ [t]\<rparr>)"

inductive sync_step :: "bool \<Rightarrow> sync_future \<Rightarrow> sync_future \<Rightarrow> bool" for spurious where
  completed: "(case woken of None \<Rightarrow> sy_waiters f = [] | Some t \<Rightarrow> t \<in> set (sy_waiters f)) \<Longrightarrow>
    sync_step spurious f (SyncFuture_completed woken f)"
| waits: "sync_step spurious f (SyncFuture_waitForDone t f)"
| timeout: "t \<in> set (sy_waiters f) \<Longrightarrow> sync_step spurious f (wake t False f)"
| wakes: "spurious \<Longrightarrow> t \<in> set (sy_waiters f) \<Longrightarrow> sync_step spurious f (wake t True f)"

lemma sync_step_sound:
  assumes "sync_step False f f'" and "(t, True) \<in> set (sy_results f) \<Longrightarrow> sy_isCompleted f" and "(t, True) \<in> set (sy_results f')"
  shows "sy_isCompleted f'"
  using assms by cases (auto simp: SyncFuture_completed_def SyncFuture_waitForDone_def wake_def Let_def split: option.splits if_splits)

text \<open>Without spurious wake-ups \<open>waitForDone\<close> returns true only when the task was completed; with one it can
  return true although nothing was.\<close>

lemma sync_wait_sound:
  assumes "(sync_step False)\<^sup>*\<^sup>* SyncFuture_new f" and "(t, True) \<in> set (sy_results f)"
  shows "sy_isCompleted f"
  using assms
proof (induction rule: rtranclp_induct)
  case base
  then show ?case by (simp add: SyncFuture_new_def)
next
  case (step f f')
  with sync_step_sound show ?case by blast
qed

lemma sync_wait_spurious: "\<exists>f. (sync_step True)\<^sup>*\<^sup>* SyncFuture_new f \<and> (t, True) \<in> set (sy_results f) \<and> \<not> sy_isCompleted f"
proof -
  have "sync_step True SyncFuture_new (SyncFuture_waitForDone t SyncFuture_new)" by (rule sync_step.waits)
  moreover have "sync_step True (SyncFuture_waitForDone t SyncFuture_new) (wake t True (SyncFuture_waitForDone t SyncFuture_new))"
    by (rule sync_step.wakes) (simp_all add: SyncFuture_waitForDone_def SyncFuture_new_def)
  ultimately have "(sync_step True)\<^sup>*\<^sup>* SyncFuture_new (wake t True (SyncFuture_waitForDone t SyncFuture_new))" by force
  then show ?thesis
    by (intro exI conjI) (auto simp: wake_def SyncFuture_waitForDone_def SyncFuture_new_def)
qed

section \<open>The state machine\<close>

text \<open>A state object: what it does to the owner, of which the machine may be a part.\<close>

record ('s, 'e) fsm_state =
  fs_entry :: "'s \<Rightarrow> 's"
  fs_exit :: "'s \<Rightarrow> 's"
  fs_update :: "nat \<Rightarrow> 's \<Rightarrow> 's"
  fs_handleEvent :: "'e \<Rightarrow> 's \<Rightarrow> bool \<times> 's"

text \<open>States are addresses; \<open>T\<close> gives the object at an address.\<close>

record 'k state_machine =
  currentState :: "'k option"
  previousState :: "'k option"
  globalState :: "'k option"

definition StateMachine_new :: "'k state_machine" where
  "StateMachine_new = \<lparr>currentState = None, previousState = None, globalState = None\<rparr>"

definition StateMachine_setCurrentState :: "'k \<Rightarrow> 'k state_machine \<Rightarrow> 'k state_machine" where
  "StateMachine_setCurrentState k m = m\<lparr>currentState := Some k\<rparr>"

definition StateMachine_setGlobalState :: "'k \<Rightarrow> 'k state_machine \<Rightarrow> 'k state_machine" where
  "StateMachine_setGlobalState k m = m\<lparr>globalState := Some k\<rparr>"

definition StateMachine_setPreviousState :: "'k \<Rightarrow> 'k state_machine \<Rightarrow> 'k state_machine" where
  "StateMachine_setPreviousState k m = m\<lparr>previousState := Some k\<rparr>"

definition StateMachine_isInState :: "'k \<Rightarrow> 'k state_machine \<Rightarrow> bool" where
  "StateMachine_isInState k m \<longleftrightarrow> currentState m = Some k"

definition StateMachine_update ::
    "('k \<Rightarrow> ('s, 'e) fsm_state) \<Rightarrow> ('s \<Rightarrow> 'k state_machine) \<Rightarrow> nat \<Rightarrow> 's \<Rightarrow> 's" where
  "StateMachine_update T get diff s =
     (let s = (case globalState (get s) of None \<Rightarrow> s | Some k \<Rightarrow> fs_update (T k) diff s)
      in case currentState (get s) of None \<Rightarrow> s | Some k \<Rightarrow> fs_update (T k) diff s)"

definition StateMachine_handleEvent ::
    "('k \<Rightarrow> ('s, 'e) fsm_state) \<Rightarrow> ('s \<Rightarrow> 'k state_machine) \<Rightarrow> 'e \<Rightarrow> 's \<Rightarrow> bool \<times> 's" where
  "StateMachine_handleEvent T get event s =
     (let (handled, s) = (case currentState (get s) of None \<Rightarrow> (False, s) | Some k \<Rightarrow> fs_handleEvent (T k) event s)
      in if handled then (True, s)
         else
           let (handled, s) = (case globalState (get s) of None \<Rightarrow> (False, s) | Some k \<Rightarrow> fs_handleEvent (T k) event s)
           in (handled, s))"

definition StateMachine_changeState ::
    "('k \<Rightarrow> ('s, 'e) fsm_state) \<Rightarrow> ('s \<Rightarrow> 'k state_machine) \<Rightarrow> (('k state_machine \<Rightarrow> 'k state_machine) \<Rightarrow> 's \<Rightarrow> 's) \<Rightarrow>
     'k \<Rightarrow> 's \<Rightarrow> bool \<times> 's" where
  "StateMachine_changeState T get upd newState s =
     (if StateMachine_isInState newState (get s) then (False, s)
      else
        let s = upd (\<lambda>m. m\<lparr>previousState := currentState m\<rparr>) s;
            s = (case currentState (get s) of None \<Rightarrow> s | Some k \<Rightarrow> fs_exit (T k) s);
            s = upd (\<lambda>m. m\<lparr>currentState := Some newState\<rparr>) s
        in (True, fs_entry (T newState) s))"

text \<open>With states that leave the machine alone, a change runs the exit of the old state before the entry of
  the new one, remembers the old state, and changing back restores it.\<close>

lemma changeState_order:
  assumes "k \<noteq> k'" and "\<And>x. \<exists>f g. fs_exit (T x) = (\<lambda>(m, a). (m, f a)) \<and> fs_entry (T x) = (\<lambda>(m, a). (m, g a))"
  shows "\<exists>f g. fs_exit (T k) = (\<lambda>(m, a). (m, f a)) \<and> fs_entry (T k') = (\<lambda>(m, a). (m, g a)) \<and>
    StateMachine_changeState T fst (\<lambda>u (m, a). (u m, a)) k'
        (\<lparr>currentState = Some k, previousState = p, globalState = gl\<rparr>, a) =
      (True, \<lparr>currentState = Some k', previousState = Some k, globalState = gl\<rparr>, g (f a))"
proof -
  obtain f where f: "fs_exit (T k) = (\<lambda>(m, a). (m, f a))" using assms(2) by blast
  obtain g where g: "fs_entry (T k') = (\<lambda>(m, a). (m, g a))" using assms(2) by blast
  from f g assms(1) show ?thesis
    by (intro exI [of _ f] exI [of _ g]) (simp add: StateMachine_changeState_def StateMachine_isInState_def)
qed

end
