(* ===== verification/Rcon_Service.thy ===== *)
theory Rcon_Service
  imports Task_Scheduler
begin

text \<open>
  The remote console (src/server/rcon/Service.cpp): queries and commands by name, offered over JSON-RPC by the
  AnyRPC package, whose values and server are parameters.  Sources and commands are addresses.  As in a
  release, the asserts and the echo source are not compiled.
\<close>

section \<open>Values\<close>

text \<open>\<open>v_GetString\<close> is \<open>None\<close> when it throws; \<open>v_set\<close> is \<open>result[key] = text\<close>.\<close>

record 'v anyrpc =
  v_IsArray :: "'v \<Rightarrow> bool"
  v_Size :: "'v \<Rightarrow> nat"
  v_at :: "'v \<Rightarrow> nat \<Rightarrow> 'v"
  v_GetString :: "'v \<Rightarrow> string option"
  v_of_string :: "byte list \<Rightarrow> 'v"
  v_set :: "string \<Rightarrow> string \<Rightarrow> 'v \<Rightarrow> 'v"

definition GetString :: "'v anyrpc \<Rightarrow> 'v \<Rightarrow> ('s, string) prog" where
  "GetString av v = (case v_GetString av v of None \<Rightarrow> throw (RuntimeError ''AnyRpcException'') | Some s \<Rightarrow> ret s)"

definition invalid_parameter :: string where
  "invalid_parameter = ''{\"error\":\"invalid paramter\"}''"

definition no_query_source :: string where
  "no_query_source = ''{\"error\":\"can't find query source\"}''"

definition no_command :: string where
  "no_command = ''{\"error\":\"can't find command\"}''"

section \<open>Queries and commands\<close>

definition addQuerySource :: "string \<Rightarrow> nat \<Rightarrow> (string \<rightharpoonup> nat) \<Rightarrow> (string \<rightharpoonup> nat)" where
  "addQuerySource name querySource m = (case m name of None \<Rightarrow> m(name \<mapsto> querySource) | Some _ \<Rightarrow> m)"

definition addCommand :: "string \<Rightarrow> nat \<Rightarrow> (string \<rightharpoonup> nat) \<Rightarrow> (string \<rightharpoonup> nat)" where
  "addCommand name command m = (case m name of None \<Rightarrow> m(name \<mapsto> command) | Some _ \<Rightarrow> m)"

text \<open>\<open>query\<close> is the virtual function of the sources; the result is what \<open>Execute\<close> leaves in \<open>result\<close>.\<close>

definition QueryRpcMethod_Execute ::
    "'v anyrpc \<Rightarrow> (nat \<Rightarrow> string \<Rightarrow> string \<Rightarrow> ('s, byte list) prog) \<Rightarrow> (string \<rightharpoonup> nat) \<Rightarrow> 'v \<Rightarrow> 'v \<Rightarrow> ('s, 'v) prog" where
  "QueryRpcMethod_Execute av query querySourceMap params result =
     (if \<not> v_IsArray av params \<or> v_Size av params \<noteq> 2 then ret (v_set av ''result'' invalid_parameter result)
      else
        bind (GetString av (v_at av params 0)) (\<lambda>name.
        bind (GetString av (v_at av params 1)) (\<lambda>detail.
        case querySourceMap name of
          None \<Rightarrow> ret (v_set av ''result'' no_query_source result)
        | Some querySource \<Rightarrow> bind (query querySource name detail) (\<lambda>s. ret (v_of_string av s)))))"

definition CommandRpcMethod_Execute ::
    "'v anyrpc \<Rightarrow> (nat \<Rightarrow> string \<Rightarrow> 'v \<Rightarrow> 'v \<Rightarrow> 'v \<Rightarrow> ('s, byte list) prog) \<Rightarrow> (string \<rightharpoonup> nat) \<Rightarrow> 'v \<Rightarrow> 'v \<Rightarrow> ('s, 'v) prog" where
  "CommandRpcMethod_Execute av execute commandMap params result =
     (if \<not> v_IsArray av params \<or> v_Size av params < 2 then ret (v_set av ''result'' invalid_parameter result)
      else
        bind (GetString av (v_at av params 0)) (\<lambda>name.
        case commandMap name of
          None \<Rightarrow> ret (v_set av ''result'' no_command result)
        | Some command \<Rightarrow>
            bind (execute command name (v_at av params 1) (v_at av params 2) (v_at av params 3)) (\<lambda>s.
            ret (v_of_string av s))))"

section \<open>Service\<close>

record rcon_service =
  rcon_isRunning :: bool
  querySourceMap :: "string \<rightharpoonup> nat"
  commandMap :: "string \<rightharpoonup> nat"

definition Service_new :: rcon_service where
  "Service_new = \<lparr>rcon_isRunning = False, querySourceMap = Map.empty, commandMap = Map.empty\<rparr>"

text \<open>\<open>listens\<close> is \<open>BindAndListen\<close>; \<open>hasScheduler\<close> whether there is a task scheduler, which is used without a check.  The
  second component of the result is the task that was scheduled.\<close>

definition Service_start :: "(u16 \<Rightarrow> bool) \<Rightarrow> bool \<Rightarrow> u16 \<Rightarrow> (rcon_service, bool \<times> scheduled_task list) prog" where
  "Service_start listens hasScheduler port =
     (if \<not> listens port then ret (False, [])
      else
        bind (modify (\<lambda>s. s\<lparr>rcon_isRunning := True\<rparr>)) (\<lambda>_.
        if \<not> hasScheduler then throw (UndefinedBehaviour ''null pointer'')
        else ret (True, [scheduleTimedTask 0 10])))"

text \<open>The task: \<open>work\<close> is \<open>rpcServer_->Work(5)\<close>.\<close>

definition Service_tick :: "('s \<Rightarrow> rcon_service) \<Rightarrow> ('s, unit) prog \<Rightarrow> ('s, unit) prog" where
  "Service_tick get work = bind (gets (\<lambda>s. rcon_isRunning (get s))) (\<lambda>running. when_do running work)"

definition Service_stop :: "rcon_service \<Rightarrow> rcon_service" where
  "Service_stop s = (if \<not> rcon_isRunning s then s else s\<lparr>rcon_isRunning := False\<rparr>)"

definition registerQuerySource :: "string \<Rightarrow> nat \<Rightarrow> rcon_service \<Rightarrow> rcon_service" where
  "registerQuerySource name querySource s = s\<lparr>querySourceMap := addQuerySource name querySource (querySourceMap s)\<rparr>"

definition registerCommand :: "string \<Rightarrow> nat \<Rightarrow> rcon_service \<Rightarrow> rcon_service" where
  "registerCommand name command s = s\<lparr>commandMap := addCommand name command (commandMap s)\<rparr>"

section \<open>What is shown\<close>

text \<open>A query of two strings reaches the source that was registered first under its name, and only then a source.\<close>

lemma query_answered:
  assumes "v_IsArray av params" and "v_Size av params = 2" and "v_GetString av (v_at av params 0) = Some name"
    and "v_GetString av (v_at av params 1) = Some detail"
  shows "QueryRpcMethod_Execute av query m params result =
    (case m name of None \<Rightarrow> ret (v_set av ''result'' no_query_source result)
     | Some q \<Rightarrow> bind (query q name detail) (\<lambda>s. ret (v_of_string av s)))"
  using assms by (simp add: QueryRpcMethod_Execute_def GetString_def bind_ret)

lemma registered_source:
  "querySourceMap (registerQuerySource name q s) name' =
    (if name' = name \<and> querySourceMap s name = None then Some q else querySourceMap s name')"
  by (auto simp: registerQuerySource_def addQuerySource_def split: option.split)

lemma registered_command:
  "commandMap (registerCommand name c s) name' =
    (if name' = name \<and> commandMap s name = None then Some c else commandMap s name')"
  by (auto simp: registerCommand_def addCommand_def split: option.split)

text \<open>A console that was stopped does no work any more, although its task goes on.\<close>

lemma stopped_console_idle: "get s = Service_stop r \<Longrightarrow> Service_tick get work s = (Inr (), s)"
  by (simp add: Service_tick_def Service_stop_def bind_def prog_defs)

end
