(* ===== verification/Session_Acceptor.thy ===== *)
theory Session_Acceptor
  imports Session_Manager Tcp_Session
begin

text \<open>
  How a server gets its sessions: \<open>IoContextAcceptor\<close> (src/base/io_context/IoContextAcceptor.cpp) takes a session
  from the \<open>CachedSessionManager\<close> for every connection it waits for, opens it when a client connects and gives
  it back when that fails; \<open>TcpSessionImpl\<close> gives it back after its disconnection;
  \<open>ServerSideSessionManager\<close> (src/server/session/ServerSideSessionManager.cpp) starts and stops the acceptors.
  \<open>IoContextTask\<close> deals out the I/O contexts.  The step relation interleaves the handlers of all acceptors
  with everything that can happen to the sessions.  Shown: no session is lost or used twice, and a
  shutdown ends, if no connection is refused and none is being closed gracefully; what goes wrong
  otherwise.
\<close>

section \<open>IoContextTask\<close>

record io_context_task =
  ioContexts :: nat
  nextIoContext :: nat
  io_stopped :: bool

definition IoContextTask_new :: io_context_task where
  "IoContextTask_new = \<lparr>ioContexts = 0, nextIoContext = 0, io_stopped = False\<rparr>"

text \<open>\<open>Inl\<close> is the message of a \<open>runtime_error\<close>; threads can be created.\<close>

definition IoContextTask_start :: "nat \<Rightarrow> io_context_task \<Rightarrow> (string + bool) \<times> io_context_task" where
  "IoContextTask_start threadCount t =
     (if threadCount = 0 then (Inl ''threadCount size is 0'', t)
      else (Inr True, t\<lparr>ioContexts := ioContexts t + threadCount\<rparr>))"

text \<open>All contexts are stopped at once, so that \<open>svc\<close> returns in every thread.\<close>

definition IoContextTask_stop :: "io_context_task \<Rightarrow> io_context_task" where
  "IoContextTask_stop t = t\<lparr>io_stopped := True\<rparr>"

definition IoContextTask_createForTicker :: "io_context_task \<Rightarrow> io_context_task" where
  "IoContextTask_createForTicker t = t\<lparr>ioContexts := ioContexts t + 1\<rparr>"

definition IoContextTask_getIoContext :: "(io_context_task, nat) prog" where
  "IoContextTask_getIoContext =
     bind (gets nextIoContext) (\<lambda>i.
     bind (gets ioContexts) (\<lambda>n.
     if n \<le> i then throw (UndefinedBehaviour ''index out of range'')
     else bind (modify (\<lambda>t. t\<lparr>nextIoContext := if i + 1 = n then 0 else i + 1\<rparr>)) (\<lambda>_. ret i)))"

text \<open>The contexts are dealt out in turn.\<close>

fun deal :: "nat \<Rightarrow> (io_context_task, nat list) prog" where
  "deal 0 = ret []"
| "deal (Suc k) = bind IoContextTask_getIoContext (\<lambda>i. bind (deal k) (\<lambda>is'. ret (i # is')))"

lemma getIoContext_run:
  "nextIoContext t < ioContexts t \<Longrightarrow> IoContextTask_getIoContext t =
    (Inr (nextIoContext t), t\<lparr>nextIoContext := (nextIoContext t + 1) mod ioContexts t\<rparr>)"
  by (auto simp: IoContextTask_getIoContext_def bind_def prog_defs)

lemma round_robin:
  assumes "nextIoContext t < ioContexts t"
  shows "deal k t = (Inr (map (\<lambda>j. (nextIoContext t + j) mod ioContexts t) [0..<k]),
    t\<lparr>nextIoContext := (nextIoContext t + k) mod ioContexts t\<rparr>)"
  using assms
proof (induction k arbitrary: t)
  case (Suc k)
  let ?t = "t\<lparr>nextIoContext := (nextIoContext t + 1) mod ioContexts t\<rparr>"
  have "nextIoContext ?t < ioContexts ?t" using Suc.prems by simp
  from Suc.IH [OF this] have "deal k ?t = (Inr (map (\<lambda>j. (nextIoContext t + Suc j) mod ioContexts t) [0..<k]),
      t\<lparr>nextIoContext := (nextIoContext t + Suc k) mod ioContexts t\<rparr>)"
    by (simp add: mod_simps)
  moreover have "map (\<lambda>j. (nextIoContext t + j) mod ioContexts t) [0..<Suc k] =
      nextIoContext t # map (\<lambda>j. (nextIoContext t + Suc j) mod ioContexts t) [0..<k]"
    using Suc.prems by (simp add: upt_conv_Cons map_Suc_upt [symmetric] del: upt_Suc)
  ultimately show ?case
    using getIoContext_run [OF Suc.prems] by (simp add: bind_def ret_def del: upt_Suc)
qed (simp add: ret_def)

section \<open>State of a server\<close>

text \<open>A session is its address at the manager, \<open>impls\<close> its \<open>TcpSessionImpl\<close>.  An accept that is under way names
  the acceptor, which of its listening sockets, and the session; \<open>ao_done\<close> is the error with which its
  handler is queued already: because the session's socket was open when it began, or the acceptor
  was closed.\<close>

record io_acceptor =
  shouldFinish :: bool
  asioAcceptors :: nat

record accept_op =
  ao_acceptor :: nat
  ao_asio :: nat
  ao_session :: nat
  ao_done :: "io_error option"

record ('c, 'a) session_server =
  sessionManager :: session_manager
  impls :: "nat \<Rightarrow> ('c, 'a) tcp_session"
  sessionAcceptors :: "io_acceptor list"
  accepts :: "accept_op list"

definition on_impl :: "nat \<Rightarrow> (('c, 'a) tcp_session \<Rightarrow> ('c, 'a) tcp_session) \<Rightarrow> ('c, 'a) session_server \<Rightarrow> ('c, 'a) session_server" where
  "on_impl a f w = w\<lparr>impls := (impls w)(a := f (impls w a))\<rparr>"

section \<open>IoContextAcceptor\<close>

definition IoContextAcceptor_new :: io_acceptor where
  "IoContextAcceptor_new = \<lparr>shouldFinish = False, asioAcceptors = 0\<rparr>"

definition IoContextAcceptor_accept :: "nat \<Rightarrow> nat \<Rightarrow> (('c, 'a) session_server, unit) prog" where
  "IoContextAcceptor_accept i j =
     bind (zoom sessionManager (\<lambda>m w. w\<lparr>sessionManager := m\<rparr>) CachedSessionManager_acquire) (\<lambda>acquired.
     case acquired of
       None \<Rightarrow> throw (UndefinedBehaviour ''null pointer'')
     | Some session \<Rightarrow>
         modify (\<lambda>w. w\<lparr>accepts := accepts w @ [\<lparr>ao_acceptor = i, ao_asio = j, ao_session = session,
           ao_done = if socketOpen (impls w session) then Some OtherError else None\<rparr>]\<rparr>))"

text \<open>The handler of \<open>async_accept\<close>.  \<open>validated\<close> is the answer of the validator, if there is one.  The address of the peer
  is looked up here and again when the session opens; \<open>known\<close> tells whether it is known both times.  \<open>remote_endpoint\<close>
  throws when the peer has closed the connection meanwhile.\<close>

definition IoContextAcceptor_handle_accept ::
    "('c, 'a) session_callback \<Rightarrow> bool \<Rightarrow> bool \<Rightarrow> io_error \<Rightarrow> nat \<Rightarrow> nat \<Rightarrow> nat \<Rightarrow> (('c, 'a) session_server, unit) prog" where
  "IoContextAcceptor_handle_accept cb known validated error i j session =
     bind (gets (\<lambda>w. shouldFinish (sessionAcceptors w ! i))) (\<lambda>finishing.
     bind (if error = Success \<and> \<not> finishing then
             if \<not> known then throw (RuntimeError ''system_error'')
             else if \<not> validated then bind (modify (on_impl session (post Disconnect))) (\<lambda>_. ret False)
             else bind (modify (on_impl session (\<lambda>s. snd (sessionOpened cb s)))) (\<lambda>_. ret True)
           else ret False) (\<lambda>isSucceeded.
     bind (when_do (\<not> isSucceeded)
             (modify (\<lambda>w. w\<lparr>sessionManager := CachedSessionManager_release session (sessionManager w)\<rparr>))) (\<lambda>_.
     when_do (\<not> finishing) (IoContextAcceptor_accept i j))))"

fun accept_all :: "nat \<Rightarrow> nat list \<Rightarrow> (('c, 'a) session_server, unit) prog" where
  "accept_all i [] = skip"
| "accept_all i (j # js) = bind (IoContextAcceptor_accept i j) (\<lambda>_. accept_all i js)"

text \<open>\<open>open\<close> of the acceptor that will be number \<open>i\<close>.  \<open>endpoints\<close> is what the resolver finds: for every
  endpoint, whether a socket can listen there.\<close>

definition IoContextAcceptor_open ::
    "bool list option \<Rightarrow> nat \<Rightarrow> io_acceptor \<Rightarrow> (('c, 'a) session_server, bool \<times> io_acceptor) prog" where
  "IoContextAcceptor_open endpoints i acceptor =
     (if shouldFinish acceptor then ret (False, acceptor)
      else case endpoints of
        None \<Rightarrow> ret (False, acceptor)
      | Some eps \<Rightarrow>
          let acceptor = acceptor\<lparr>asioAcceptors := asioAcceptors acceptor + length (takeWhile id eps)\<rparr> in
          if \<not> list_all id eps then ret (False, acceptor)
          else if asioAcceptors acceptor = 0 then ret (False, acceptor)
          else bind (accept_all i [0..<asioAcceptors acceptor]) (\<lambda>_. ret (True, acceptor)))"

definition IoContextAcceptor_close :: "nat \<Rightarrow> ('c, 'a) session_server \<Rightarrow> ('c, 'a) session_server" where
  "IoContextAcceptor_close i w =
     w\<lparr>sessionAcceptors := (sessionAcceptors w)[i := (sessionAcceptors w ! i)\<lparr>shouldFinish := True\<rparr>],
       accepts := map (\<lambda>op. if ao_acceptor op = i \<and> ao_done op = None then op\<lparr>ao_done := Some OperationAborted\<rparr> else op)
         (accepts w)\<rparr>"

section \<open>ServerSideSessionManager\<close>

definition ServerSideSessionManager_initialize ::
    "nat \<Rightarrow> bool \<Rightarrow> session_heap \<Rightarrow> ('c, 'a) session_server \<Rightarrow> bool \<times> ('c, 'a) session_server" where
  "ServerSideSessionManager_initialize sessionPoolSize callback h w =
     (True, w\<lparr>sessionManager := CachedSessionManager_initialize (CachedSessionManager_new sessionPoolSize callback h)\<rparr>)"

definition createSessionAcceptor :: "bool list option \<Rightarrow> (('c, 'a) session_server, io_acceptor option) prog" where
  "createSessionAcceptor endpoints =
     bind (gets (\<lambda>w. length (sessionAcceptors w))) (\<lambda>i.
     bind (IoContextAcceptor_open endpoints i IoContextAcceptor_new) (\<lambda>(opened, newAcceptor).
     if \<not> opened then ret None else ret (Some newAcceptor)))"

text \<open>\<open>resolve\<close> is the resolver.\<close>

fun startSessionAcceptor_loop ::
    "(byte list \<Rightarrow> bool list option) \<Rightarrow> byte list list \<Rightarrow> (('c, 'a) session_server, bool) prog" where
  "startSessionAcceptor_loop resolve [] = ret True"
| "startSessionAcceptor_loop resolve (address # addresses) =
     (if address = [] then startSessionAcceptor_loop resolve addresses
      else bind (createSessionAcceptor (resolve address)) (\<lambda>acceptor.
        case acceptor of
          None \<Rightarrow> ret False
        | Some acceptor \<Rightarrow>
            bind (modify (\<lambda>w. w\<lparr>sessionAcceptors := sessionAcceptors w @ [acceptor]\<rparr>)) (\<lambda>_.
            startSessionAcceptor_loop resolve addresses)))"

text \<open>Handlers of acceptors that \<open>clear\<close> destroys would use them.\<close>

definition ServerSideSessionManager_startSessionAcceptor ::
    "(byte list \<Rightarrow> bool list option) \<Rightarrow> byte list list \<Rightarrow> (('c, 'a) session_server, bool) prog" where
  "ServerSideSessionManager_startSessionAcceptor resolve listeningAddresses =
     bind (gets accepts) (\<lambda>pending.
     if pending \<noteq> [] then throw (UndefinedBehaviour ''handlers of destroyed acceptors'')
     else bind (modify (\<lambda>w. w\<lparr>sessionAcceptors := []\<rparr>)) (\<lambda>_. startSessionAcceptor_loop resolve listeningAddresses))"

definition ServerSideSessionManager_stopSessionAcceptor :: "('c, 'a) session_server \<Rightarrow> ('c, 'a) session_server" where
  "ServerSideSessionManager_stopSessionAcceptor w = fold IoContextAcceptor_close [0..<length (sessionAcceptors w)] w"

text \<open>\<open>cancel\<close> of the manager with what \<open>Session::disconnect\<close> does at each session: it posts.\<close>

definition SessionManager_cancel :: "('c, 'a) session_server \<Rightarrow> ('c, 'a) session_server" where
  "SessionManager_cancel w =
     w\<lparr>sessionManager := CachedSessionManager_cancel (sessionManager w),
       impls := (\<lambda>a. if a \<in> in_use (sessionManager w) then post Disconnect (impls w a) else impls w a)\<rparr>"

text \<open>\<open>finalize\<close> up to \<open>waitForDone\<close>.\<close>

definition ServerSideSessionManager_finalize :: "('c, 'a) session_server \<Rightarrow> ('c, 'a) session_server" where
  "ServerSideSessionManager_finalize w = SessionManager_cancel (ServerSideSessionManager_stopSessionAcceptor w)"

definition ServerSideSessionManager_getActiveSessionCount :: "('c, 'a) session_server \<Rightarrow> nat" where
  "ServerSideSessionManager_getActiveSessionCount w = getSessionCount (sessionManager w)"

definition ServerSideSessionManager_getTotalSessionCount :: "('c, 'a) session_server \<Rightarrow> nat" where
  "ServerSideSessionManager_getTotalSessionCount w = getTotalSessionCount (sessionManager w)"

section \<open>What happens to a server\<close>

text \<open>The session's \<open>disconnect\<close>; its callback \<open>onRelease\<close> is \<open>Session::onRelease\<close>.\<close>

definition Session_onRelease :: "nat \<Rightarrow> ('c, 'a) session_server \<Rightarrow> ('c, 'a) session_server" where
  "Session_onRelease a w = w\<lparr>sessionManager := CachedSessionManager_release a (sessionManager w)\<rparr>"

definition disconnect_session ::
    "'c packet_coder_ops \<Rightarrow> ('c, 'a) session_callback \<Rightarrow> nat \<Rightarrow> nat \<Rightarrow> ('c, 'a) session_server \<Rightarrow> ('c, 'a) session_server" where
  "disconnect_session ops cb now a w =
     (if \<not> isDisconnectReserved (impls w a) \<and> socketOpen (impls w a) then Session_onRelease a else id)
       (on_impl a (TcpSessionImpl_disconnect ops cb now) w)"

text \<open>That is when \<open>TcpSessionImpl::disconnect\<close> calls it.\<close>

lemma disconnect_releases:
  "app (TcpSessionImpl_disconnect ops cb now s) =
    (if \<not> isDisconnectReserved s \<and> socketOpen s then onRelease cb (onDisconnected cb (app s)) else app s)"
  by (simp add: TcpSessionImpl_disconnect_def TcpSessionImpl_reset_def flushOutputQueue_def close_socket_def Let_def)

text \<open>Everything else that happens to a session while its connection lasts or after it.  Each of its timers is
  started only with its own address as \<open>act\<close>: \<open>0\<close> the disconnect timer, \<open>1\<close> the throttle timer.\<close>

abbreviation own_timer_step :: "(('c, 'a) tcp_session \<Rightarrow> asio_timer) \<Rightarrow>
    ((asio_timer \<Rightarrow> asio_timer) \<Rightarrow> ('c, 'a) tcp_session \<Rightarrow> ('c, 'a) tcp_session) \<Rightarrow> nat \<Rightarrow>
    ('c, 'a) tcp_session \<Rightarrow> ('c, 'a) tcp_session \<Rightarrow> bool" where
  "own_timer_step get upd act \<equiv> timer_step get upd (\<lambda>_. TcpSessionImpl_timedOut act)"

inductive session_event ::
    "'c packet_coder_ops \<Rightarrow> ('c, 'a) session_callback \<Rightarrow> ('c, 'a) tcp_session \<Rightarrow> ('c, 'a) tcp_session \<Rightarrow> bool"
  for ops cb where
  posts: "session_event ops cb s (post t s)"
| gracefully: "posted s = DisconnectGracefully # ts \<Longrightarrow>
    session_event ops cb s (TcpSessionImpl_disconnectGracefully (s\<lparr>posted := ts\<rparr>))"
| send: "posted s = SendMessage b mt # ts \<Longrightarrow> TcpSessionImpl_sendMessage ops cb b mt (s\<lparr>posted := ts\<rparr>) = (p, s') \<Longrightarrow>
    session_event ops cb s s'"
| written: "writing s = wr # ws \<Longrightarrow> session_event ops cb s (handle_write_op ec wr (s\<lparr>writing := ws\<rparr>))"
| write_aborted: "abortedWrites s = wr # ws \<Longrightarrow>
    session_event ops cb s (handle_write_op OperationAborted wr (s\<lparr>abortedWrites := ws\<rparr>))"
| read: "reading s = Suc n \<Longrightarrow> length bytes \<le> mb_space (recvBlock (marshaller s)) \<Longrightarrow>
    handle_read ops cb secs ec bytes (s\<lparr>reading := n\<rparr>) = Some (Inr (), s') \<Longrightarrow> session_event ops cb s s'"
| read_aborted: "abortedReads s = Suc n \<Longrightarrow>
    handle_read ops cb secs OperationAborted [] (s\<lparr>abortedReads := n\<rparr>) = Some (Inr (), s') \<Longrightarrow> session_event ops cb s s'"
| disconnect_timer: "own_timer_step disconnectTimer disconnectTimer_update 0 s s' \<Longrightarrow> session_event ops cb s s'"
| throttle_timer: "own_timer_step throttleTimer throttleTimer_update 1 s s' \<Longrightarrow> session_event ops cb s s'"

text \<open>What the I/O contexts do: an accept ends, which queues its handler; the handler runs, at which time
  a new connection is assigned to the socket of the session.  Without \<open>refuses\<close> no connection is refused.
  An exception that leaves a handler is caught by nobody in \<open>IoContextTask::svc\<close> and ends the program, so
  that no state follows it.\<close>

inductive server_io ::
    "'c packet_coder_ops \<Rightarrow> ('c, 'a) session_callback \<Rightarrow> bool \<Rightarrow> ('c, 'a) session_server \<Rightarrow> ('c, 'a) session_server \<Rightarrow> bool"
  for ops cb refuses where
  arrive: "accepts w = xs @ op # ys \<Longrightarrow> ao_done op = None \<Longrightarrow>
    server_io ops cb refuses w (w\<lparr>accepts := xs @ op\<lparr>ao_done := Some ec\<rparr> # ys\<rparr>)"
| handle: "accepts w = xs @ op # ys \<Longrightarrow> ao_done op = Some ec \<Longrightarrow> refuses \<or> validated \<Longrightarrow>
    IoContextAcceptor_handle_accept cb known validated ec (ao_acceptor op) (ao_asio op) (ao_session op)
      (on_impl (ao_session op) (if ec = Success then \<lambda>s. s\<lparr>socketOpen := True, wireOut := []\<rparr> else id)
        (w\<lparr>accepts := xs @ ys\<rparr>)) = (Inr (), w') \<Longrightarrow>
    server_io ops cb refuses w w'"
| event: "session_event ops cb (impls w a) s' \<Longrightarrow> server_io ops cb refuses w (w\<lparr>impls := (impls w)(a := s')\<rparr>)"
| disconnect: "posted (impls w a) = Disconnect # ts \<Longrightarrow>
    server_io ops cb refuses w (disconnect_session ops cb now a (on_impl a (\<lambda>s. s\<lparr>posted := ts\<rparr>) w))"

text \<open>A server in service: the application may also start the acceptors, and disconnect all sessions.\<close>

inductive server_step ::
    "'c packet_coder_ops \<Rightarrow> ('c, 'a) session_callback \<Rightarrow> bool \<Rightarrow> ('c, 'a) session_server \<Rightarrow> ('c, 'a) session_server \<Rightarrow> bool"
  for ops cb refuses where
  io: "server_io ops cb refuses w w' \<Longrightarrow> server_step ops cb refuses w w'"
| begin_accept: "ServerSideSessionManager_startSessionAcceptor resolve addresses w = (Inr b, w') \<Longrightarrow>
    server_step ops cb refuses w w'"
| cancel: "server_step ops cb refuses w (SessionManager_cancel w)"

section \<open>Sessions are accounted for\<close>

definition accounted :: "('c, 'a) session_server \<Rightarrow> bool" where
  "accounted w \<longleftrightarrow> manager_inv (sessionManager w) \<and> distinct (map ao_session (accepts w)) \<and>
     in_use (sessionManager w) = ao_session ` set (accepts w) \<union> {a. socketOpen (impls w a)} \<and>
     (\<forall>op \<in> set (accepts w). \<not> socketOpen (impls w (ao_session op)))"

abbreviation waiting_at :: "nat \<Rightarrow> nat \<Rightarrow> ('c, 'a) session_server \<Rightarrow> accept_op list" where
  "waiting_at i j w \<equiv> filter (\<lambda>op. ao_acceptor op = i \<and> ao_asio op = j) (accepts w)"

definition covered :: "('c, 'a) session_server \<Rightarrow> bool" where
  "covered w \<longleftrightarrow> (\<forall>x \<in> set (sessionAcceptors w). \<not> shouldFinish x) \<and>
     (\<forall>op \<in> set (accepts w). ao_acceptor op < length (sessionAcceptors w)) \<and>
     (\<forall>i < length (sessionAcceptors w). \<forall>j < asioAcceptors (sessionAcceptors w ! i). length (waiting_at i j w) = 1)"

text \<open>The state of the sockets.\<close>

lemma open_simps [simp]: "socketOpen (gatherWrite s) = socketOpen s" "socketOpen (post t s) = socketOpen s"
  "socketOpen (release_block n s) = socketOpen s" "socketOpen (writeSucceeded b s) = socketOpen s"
  "socketOpen (TcpSessionImpl_disconnectGracefully s) = socketOpen s"
  by (simp_all add: gather_defs post_def release_block_def writeSucceeded_def TcpSessionImpl_disconnectGracefully_def
      startDisconnectTimer_def)

lemma fold_succeeded_open [simp]:
  "socketOpen (fold (\<lambda>b s. release_block (fst b) (writeSucceeded b s)) bs s) = socketOpen s"
  "socketOpen (fold (\<lambda>b. release_block (fst b)) bs s) = socketOpen s"
  by (induction bs arbitrary: s) simp_all

lemma write_op_open: "socketOpen (handle_write_op ec wr s) = socketOpen s"
  by (cases wr; cases "ec = Success") (simp_all add: handle_write_def handle_gather_write_def Let_def)

lemma send_open: "TcpSessionImpl_sendMessage ops cb b mt s = (p, s') \<Longrightarrow> socketOpen s' = socketOpen s"
  by (auto simp: TcpSessionImpl_sendMessage_def checkOutputQueue_def writeMessage_def async_write_def
      Let_def split: prod.splits if_splits)

lemma view_open: "wr_view s' = wr_view s \<Longrightarrow> socketOpen s' = socketOpen s"
  by (simp add: wr_view_def)

lemma timedOut_open: "socketOpen (TcpSessionImpl_timedOut act s) = socketOpen s"
  by (rule view_open) simp

lemma timer_open:
  assumes "\<And>f s. socketOpen (upd f s) = socketOpen s"
  shows "socketOpen (handle_wait get upd (\<lambda>_. TcpSessionImpl_timedOut act) ec wt s) = socketOpen s"
  by (simp add: handle_wait_def AsioTimer_handle_timeout_def AsioTimer_handle_repeat_timeout_def Let_def assms timedOut_open)

lemma event_open: "session_event ops cb s s' \<Longrightarrow> socketOpen s' = socketOpen s"
proof (induction rule: session_event.induct)
  case (send s b mt ts p s')
  from send_open [OF send(2)] show ?case by simp
next
  case (read s n bytes secs ec s')
  from view_open [OF wr_view_handle_read [OF read(3)]] show ?case by simp
next
  case (read_aborted s n secs s')
  from view_open [OF wr_view_handle_read [OF read_aborted(2)]] show ?case by simp
next
  case (disconnect_timer s s')
  then show ?case by cases (simp_all add: timer_open)
next
  case (throttle_timer s s')
  then show ?case by cases (simp_all add: timer_open)
qed (simp_all add: write_op_open)

lemma disconnect_open:
  "socketOpen (TcpSessionImpl_disconnect ops cb now s) = (isDisconnectReserved s \<and> socketOpen s)"
  by (simp add: TcpSessionImpl_disconnect_def TcpSessionImpl_reset_def flushOutputQueue_def close_socket_def Let_def)

lemma sessionOpened_open: "socketOpen (snd (sessionOpened cb s)) = socketOpen s"
  by (rule view_open) (rule wr_view_sessionOpened)

text \<open>Acquiring a session for an accept.\<close>

lemma accept_run:
  assumes "manager_inv (sessionManager w)" and "{a. socketOpen (impls w a)} \<subseteq> in_use (sessionManager w)"
  obtains a m where "IoContextAcceptor_accept i j w = (Inr (), w\<lparr>sessionManager := m,
      accepts := accepts w @ [\<lparr>ao_acceptor = i, ao_asio = j, ao_session = a, ao_done = None\<rparr>]\<rparr>)"
    and "manager_inv m" and "a \<notin> in_use (sessionManager w)" and "in_use m = insert a (in_use (sessionManager w))"
proof -
  from acquire_adds [OF assms(1)] obtain a m where a: "CachedSessionManager_acquire (sessionManager w) = (Inr (Some a), m)"
    "manager_inv m" "a \<notin> in_use (sessionManager w)" "in_use m = insert a (in_use (sessionManager w))" by blast
  with assms(2) have "\<not> socketOpen (impls w a)" by auto
  with a(1) have "IoContextAcceptor_accept i j w = (Inr (), w\<lparr>sessionManager := m,
      accepts := accepts w @ [\<lparr>ao_acceptor = i, ao_asio = j, ao_session = a, ao_done = None\<rparr>]\<rparr>)"
    by (simp add: IoContextAcceptor_accept_def bind_def zoom_def prog_defs)
  with that a(2-4) show thesis by blast
qed

lemma accept_accounted:
  assumes "accounted w"
  obtains w' op where "IoContextAcceptor_accept i j w = (Inr (), w')" and "accounted w'"
    and "accepts w' = accepts w @ [op]" and "ao_acceptor op = i" and "ao_asio op = j"
    and "sessionAcceptors w' = sessionAcceptors w" and "impls w' = impls w"
proof -
  have "manager_inv (sessionManager w)" "{a. socketOpen (impls w a)} \<subseteq> in_use (sessionManager w)"
    using assms by (auto simp: accounted_def)
  then obtain a m where a: "IoContextAcceptor_accept i j w = (Inr (), w\<lparr>sessionManager := m,
      accepts := accepts w @ [\<lparr>ao_acceptor = i, ao_asio = j, ao_session = a, ao_done = None\<rparr>]\<rparr>)"
    "manager_inv m" "a \<notin> in_use (sessionManager w)" "in_use m = insert a (in_use (sessionManager w))"
    by (rule accept_run)
  show thesis
    by (rule that [OF a(1)]) (use assms a(2-4) in \<open>auto simp: accounted_def\<close>)
qed

lemma accept_all_accounted:
  assumes "accounted w"
  shows "\<exists>w'. accept_all i js w = (Inr (), w') \<and> accounted w' \<and> sessionAcceptors w' = sessionAcceptors w \<and>
    (\<forall>i' j'. length (waiting_at i' j' w') = length (waiting_at i' j' w) + (if i' = i then count_list js j' else 0)) \<and>
    set (accepts w') \<subseteq> set (accepts w) \<union> {op. ao_acceptor op = i}"
  using assms
proof (induction js arbitrary: w)
  case Nil
  then show ?case by (simp add: skip_def)
next
  case (Cons j js)
  obtain w1 op where w1: "IoContextAcceptor_accept i j w = (Inr (), w1)" "accounted w1" "accepts w1 = accepts w @ [op]"
    "ao_acceptor op = i" "ao_asio op = j" "sessionAcceptors w1 = sessionAcceptors w" "impls w1 = impls w"
    using Cons.prems by (rule accept_accounted)
  from Cons.IH [OF w1(2)] obtain w' where w': "accept_all i js w1 = (Inr (), w')" "accounted w'"
    "sessionAcceptors w' = sessionAcceptors w1"
    "\<forall>i' j'. length (waiting_at i' j' w') = length (waiting_at i' j' w1) + (if i' = i then count_list js j' else 0)"
    "set (accepts w') \<subseteq> set (accepts w1) \<union> {op. ao_acceptor op = i}" by blast
  then show ?case
    using w1 by (intro exI [of _ w']) (auto simp: bind_def)
qed

text \<open>Starting the acceptors.\<close>

lemma count_upt: "count_list [0..<n] j = (if j < n then 1 else 0)"
  by (induction n) auto

lemma createSessionAcceptor_covered:
  assumes "accounted w" and "covered w"
  shows "\<exists>w' r. createSessionAcceptor eps w = (Inr r, w') \<and>
    (case r of None \<Rightarrow> accounted w' \<and> covered w'
     | Some acc \<Rightarrow> accounted (w'\<lparr>sessionAcceptors := sessionAcceptors w' @ [acc]\<rparr>) \<and>
         covered (w'\<lparr>sessionAcceptors := sessionAcceptors w' @ [acc]\<rparr>))"
proof (cases "\<exists>es. eps = Some es \<and> list_all id es \<and> es \<noteq> []")
  case True
  then obtain es where es: "eps = Some es" "list_all id es" "es \<noteq> []" by blast
  let ?i = "length (sessionAcceptors w)" and ?n = "length es"
  have n: "length (takeWhile id es) = ?n" using es(2) by (simp add: list_all_iff takeWhile_eq_all_conv [THEN iffD2])
  from accept_all_accounted [OF assms(1), of ?i "[0..<?n]"] obtain w' where
    w': "accept_all ?i [0..<?n] w = (Inr (), w')" "accounted w'" "sessionAcceptors w' = sessionAcceptors w"
    "\<forall>i' j'. length (waiting_at i' j' w') = length (waiting_at i' j' w) + (if i' = ?i then count_list [0..<?n] j' else 0)"
    "set (accepts w') \<subseteq> set (accepts w) \<union> {op. ao_acceptor op = ?i}" by blast
  have run: "createSessionAcceptor eps w = (Inr (Some \<lparr>shouldFinish = False, asioAcceptors = ?n\<rparr>), w')"
    using w'(1) es n by (simp add: createSessionAcceptor_def IoContextAcceptor_open_def IoContextAcceptor_new_def bind_def
        prog_defs Let_def)
  have none: "waiting_at ?i j w = []" for j using assms(2) by (auto simp: covered_def filter_empty_conv)
  with w'(3-5) assms(2) have "covered (w'\<lparr>sessionAcceptors := sessionAcceptors w' @ [\<lparr>shouldFinish = False, asioAcceptors = ?n\<rparr>]\<rparr>)"
    by (auto simp: covered_def nth_append less_Suc_eq count_upt)
  moreover have "accounted (w'\<lparr>sessionAcceptors := sessionAcceptors w' @ [\<lparr>shouldFinish = False, asioAcceptors = ?n\<rparr>]\<rparr>)"
    using w'(2) by (simp add: accounted_def)
  ultimately show ?thesis using run by simp
next
  case False
  then have "createSessionAcceptor eps w = (Inr None, w)"
    by (cases eps) (auto simp: createSessionAcceptor_def IoContextAcceptor_open_def IoContextAcceptor_new_def bind_def
        prog_defs Let_def)
  with assms show ?thesis by simp
qed

lemma loop_covered:
  assumes "accounted w" and "covered w"
  shows "\<exists>b w'. startSessionAcceptor_loop resolve addresses w = (Inr b, w') \<and> accounted w' \<and> covered w'"
  using assms
proof (induction addresses arbitrary: w)
  case Nil
  then show ?case by (auto simp: ret_def)
next
  case (Cons address addresses)
  obtain r w1 where w1: "createSessionAcceptor (resolve address) w = (Inr r, w1)" "case r of None \<Rightarrow> accounted w1 \<and> covered w1
     | Some acc \<Rightarrow> accounted (w1\<lparr>sessionAcceptors := sessionAcceptors w1 @ [acc]\<rparr>) \<and>
         covered (w1\<lparr>sessionAcceptors := sessionAcceptors w1 @ [acc]\<rparr>)"
    using createSessionAcceptor_covered [OF Cons.prems] by blast
  with Cons show ?case by (cases r) (auto simp: bind_def prog_defs)
qed

lemma start_covered:
  assumes "ServerSideSessionManager_startSessionAcceptor resolve addresses w = (Inr b, w')" and "accounted w"
  shows "accounted w'" and "covered w'"
proof -
  have none: "accepts w = []"
    using assms(1) by (auto simp: ServerSideSessionManager_startSessionAcceptor_def bind_def prog_defs split: if_splits)
  have "accounted (w\<lparr>sessionAcceptors := []\<rparr>)" "covered (w\<lparr>sessionAcceptors := []\<rparr>)"
    using assms(2) none by (simp_all add: accounted_def covered_def)
  from loop_covered [OF this, of resolve addresses] assms(1) none show "accounted w'" "covered w'"
    by (auto simp: ServerSideSessionManager_startSessionAcceptor_def bind_def prog_defs)
qed

text \<open>The handler: the session of the accept is opened or given back, and the next is waited for.\<close>

lemma accounted_remove:
  assumes "accounted w" and "accepts w = xs @ op # ys"
  shows "accounted (on_impl (ao_session op) (\<lambda>s. s\<lparr>socketOpen := True, wireOut := []\<rparr>) (w\<lparr>accepts := xs @ ys\<rparr>))"
    and "accounted (Session_onRelease (ao_session op) (w\<lparr>accepts := xs @ ys\<rparr>))"
proof -
  have dist: "distinct (map ao_session (xs @ op # ys))" using assms by (simp add: accounted_def)
  have d: "ao_session op' \<noteq> ao_session op" if "op' \<in> set xs \<or> op' \<in> set ys" for op'
    using dist that by (auto simp: image_iff)
  show "accounted (on_impl (ao_session op) (\<lambda>s. s\<lparr>socketOpen := True, wireOut := []\<rparr>) (w\<lparr>accepts := xs @ ys\<rparr>))"
    using assms dist d by (auto simp: accounted_def on_impl_def)
  show "accounted (Session_onRelease (ao_session op) (w\<lparr>accepts := xs @ ys\<rparr>))"
    using assms dist d release_removes [of "sessionManager w" "ao_session op"]
    by (auto simp: accounted_def Session_onRelease_def)
qed

lemma accounted_sockets:
  assumes "accounted w" and "sessionManager w' = sessionManager w" and "accepts w' = accepts w"
    and "\<And>a. socketOpen (impls w' a) = socketOpen (impls w a)"
  shows "accounted w'"
  using assms by (simp add: accounted_def)

lemma handle_covered:
  assumes "accounted w" and "covered w" and ops: "accepts w = xs @ op # ys" and "ao_done op = Some ec"
    and run: "IoContextAcceptor_handle_accept cb known True ec (ao_acceptor op) (ao_asio op) (ao_session op)
      (on_impl (ao_session op) (if ec = Success then \<lambda>s. s\<lparr>socketOpen := True, wireOut := []\<rparr> else id)
        (w\<lparr>accepts := xs @ ys\<rparr>)) = (Inr (), w')"
  shows "accounted w' \<and> covered w'"
proof -
  let ?a = "ao_session op" and ?i = "ao_acceptor op" and ?j = "ao_asio op"
  have i: "?i < length (sessionAcceptors w)" "\<not> shouldFinish (sessionAcceptors w ! ?i)"
    using assms(2) ops by (auto simp: covered_def)
  define w1 where "w1 = (if ec = Success
    then on_impl ?a (\<lambda>s. snd (sessionOpened cb s)) (on_impl ?a (\<lambda>s. s\<lparr>socketOpen := True, wireOut := []\<rparr>) (w\<lparr>accepts := xs @ ys\<rparr>))
    else Session_onRelease ?a (w\<lparr>accepts := xs @ ys\<rparr>))"
  have fields: "accepts w1 = xs @ ys" "sessionAcceptors w1 = sessionAcceptors w"
    by (simp_all add: w1_def on_impl_def Session_onRelease_def)
  have run1: "IoContextAcceptor_accept ?i ?j w1 = (Inr (), w')"
    using run i by (cases "ec = Success"; cases known)
      (simp_all add: IoContextAcceptor_handle_accept_def bind_def prog_defs w1_def on_impl_def Session_onRelease_def)
  have "accounted w1"
  proof (cases "ec = Success")
    case True
    show ?thesis
      by (rule accounted_sockets [OF accounted_remove(1) [OF assms(1) ops]])
        (simp_all add: w1_def True on_impl_def sessionOpened_open)
  qed (simp add: w1_def accounted_remove(2) [OF assms(1) ops])
  then obtain w2 op' where w2: "IoContextAcceptor_accept ?i ?j w1 = (Inr (), w2)" "accounted w2" "accepts w2 = accepts w1 @ [op']"
    "ao_acceptor op' = ?i" "ao_asio op' = ?j" "sessionAcceptors w2 = sessionAcceptors w1" "impls w2 = impls w1"
    by (rule accept_accounted)
  then have "w2 = w'" using run1 by simp
  have "length (waiting_at i j w2) = length (waiting_at i j w)" for i j
    by (simp add: w2(3-5) fields ops)
  then have "covered w2"
    using assms(2) ops w2(4) by (auto simp: covered_def w2(3,6) fields)
  with w2(2) \<open>w2 = w'\<close> show ?thesis by simp
qed

lemma disconnect_accounted:
  assumes "accounted w"
  shows "accounted (disconnect_session ops cb now a w)"
proof (cases "\<not> isDisconnectReserved (impls w a) \<and> socketOpen (impls w a)")
  case True
  moreover from True assms have "\<forall>op \<in> set (accepts w). ao_session op \<noteq> a" by (auto simp: accounted_def)
  ultimately show ?thesis
    using assms release_removes [of "sessionManager w" a]
    by (auto simp: disconnect_session_def Session_onRelease_def on_impl_def accounted_def disconnect_open)
next
  case False
  then show ?thesis
    by (intro accounted_sockets [OF assms]) (auto simp: disconnect_session_def on_impl_def disconnect_open)
qed

lemma cancel_accounted: "accounted w \<Longrightarrow> accounted (SessionManager_cancel w)"
  using cancel_disconnects [of "sessionManager w"] by (auto simp: accounted_def SessionManager_cancel_def)

lemma cancel_fields: "accepts (SessionManager_cancel w) = accepts w" "sessionAcceptors (SessionManager_cancel w) = sessionAcceptors w"
  by (simp_all add: SessionManager_cancel_def)

lemma disconnect_session_fields [simp]: "accepts (disconnect_session ops cb now a w) = accepts w"
  "sessionAcceptors (disconnect_session ops cb now a w) = sessionAcceptors w"
  by (simp_all add: disconnect_session_def Session_onRelease_def on_impl_def)

lemma covered_same: "covered w \<Longrightarrow> accepts w' = accepts w \<Longrightarrow> sessionAcceptors w' = sessionAcceptors w \<Longrightarrow> covered w'"
  by (simp add: covered_def)

lemma io_accounted:
  assumes "server_io ops cb False w w'" and "accounted w" and "covered w"
  shows "accounted w' \<and> covered w'"
  using assms
proof (induction rule: server_io.induct)
  case (arrive w xs op ys ec)
  let ?w = "w\<lparr>accepts := xs @ op\<lparr>ao_done := Some ec\<rparr> # ys\<rparr>"
  have "accounted ?w" using arrive by (auto simp: accounted_def)
  moreover have "length (waiting_at i j ?w) = length (waiting_at i j w)" for i j by (simp add: arrive(1))
  then have "covered ?w" using arrive(1,4) by (auto simp: covered_def)
  ultimately show ?case ..
next
  case (handle w xs op ys ec validated w')
  then have "validated" by simp
  with handle_covered [OF handle(5,6,1,2)] handle(4) show ?case by simp
next
  case (event w a s')
  from event_open [OF event(1)] event(2,3) show ?case
    by (auto intro!: accounted_sockets [OF event(2)] covered_same [OF event(3)] split: if_splits)
next
  case (disconnect w a ts now)
  have "accounted (on_impl a (\<lambda>s. s\<lparr>posted := ts\<rparr>) w)" "covered (on_impl a (\<lambda>s. s\<lparr>posted := ts\<rparr>) w)"
    using disconnect(2,3) by (auto intro!: accounted_sockets [OF disconnect(2)] covered_same [OF disconnect(3)]
        simp: on_impl_def split: if_splits)
  then show ?case by (auto intro: disconnect_accounted covered_same)
qed

lemma steps_accounted:
  assumes "(server_step ops cb False)\<^sup>*\<^sup>* w w'" and "accounted w" and "covered w"
  shows "accounted w' \<and> covered w'"
  using assms(1)
proof (induction rule: rtranclp_induct)
  case (step w1 w2)
  from step.hyps(2) show ?case
  proof cases
    case io
    with io_accounted step.IH show ?thesis by blast
  next
    case (begin_accept resolve addresses b)
    with start_covered step.IH show ?thesis by blast
  next
    case cancel
    with step.IH show ?thesis using cancel_accounted covered_same [OF _ cancel_fields] by blast
  qed
qed (use assms in simp)

text \<open>A server that has not started.\<close>

definition fresh_server :: "('c, 'a) session_server \<Rightarrow> bool" where
  "fresh_server w \<longleftrightarrow> (\<exists>n callback h. session_heap_inv h \<and>
       sessionManager w = CachedSessionManager_initialize (CachedSessionManager_new n callback h)) \<and>
     (\<forall>a. \<not> socketOpen (impls w a)) \<and> sessionAcceptors w = [] \<and> accepts w = []"

lemma fresh_accounted: "fresh_server w \<Longrightarrow> accounted w \<and> covered w"
  by (auto simp: fresh_server_def accounted_def covered_def initialize_inv)

section \<open>Shutting down\<close>

text \<open>A session that will be disconnected: the task is queued, with no graceful disconnection before it.\<close>

definition doomed :: "('c, 'a) tcp_session \<Rightarrow> bool" where
  "doomed s \<longleftrightarrow> \<not> isDisconnectReserved s \<and>
     (\<exists>ts ts'. posted s = ts @ Disconnect # ts' \<and> DisconnectGracefully \<notin> set ts)"

text \<open>What most events do: they may post, and leave the disconnect timer alone.\<close>

definition extends :: "('c, 'a) tcp_session \<Rightarrow> ('c, 'a) tcp_session \<Rightarrow> bool" where
  "extends s s' \<longleftrightarrow> disconnectTimer s' = disconnectTimer s \<and> (\<exists>ts. posted s' = posted s @ ts)"

lemma extends_trans: "extends s s' \<Longrightarrow> extends s' s'' \<Longrightarrow> extends s s''"
  by (auto simp: extends_def)

lemma extends_same: "disconnectTimer s' = disconnectTimer s \<Longrightarrow> posted s' = posted s \<Longrightarrow> extends s s'"
  by (simp add: extends_def)

lemma extends_post: "extends s (post t s)"
  by (simp add: extends_def post_def)

lemma doomed_extends: "doomed s \<Longrightarrow> extends s s' \<Longrightarrow> doomed s'"
  by (fastforce simp: doomed_def extends_def isDisconnectReserved_def)

lemma doomed_pop: "doomed s \<Longrightarrow> posted s = t # ts \<Longrightarrow> t \<noteq> Disconnect \<Longrightarrow> t \<noteq> DisconnectGracefully \<and> doomed (s\<lparr>posted := ts\<rparr>)"
  by (auto simp: doomed_def isDisconnectReserved_def Cons_eq_append_conv)

lemma extends_gather: "extends s (gatherWrite s)" "extends s (writeSucceeded b s)" "extends s (release_block n s)"
  "extends s (readMessage s)" "extends s (startThrottleTimer s)"
  by (auto intro!: extends_same simp: gather_defs writeSucceeded_def release_block_def readMessage_def startThrottleTimer_def)

lemma extends_fold:
  "extends s (fold (\<lambda>b s. release_block (fst b) (if ec = Success then writeSucceeded b s else s)) bs s)"
proof (induction bs arbitrary: s)
  case (Cons b bs)
  have "extends s (release_block (fst b) (if ec = Success then writeSucceeded b s else s))"
    by (cases "ec = Success") (auto intro: extends_trans [OF extends_gather(2,3)] extends_gather(3))
  from extends_trans [OF this Cons] show ?case by simp
qed (simp add: extends_same)

lemma extends_write: "extends s (handle_write_op ec wr s)"
proof (cases wr)
  case (Write b)
  have "extends s (release_block (fst b) (gatherWrite (writeSucceeded b s)))"
    by (rule extends_trans [OF extends_gather(2) extends_trans [OF extends_gather(1,3)]])
  moreover have "extends s (release_block (fst b) (post Disconnect s))"
    by (rule extends_trans [OF extends_post extends_gather(3)])
  ultimately show ?thesis by (simp add: Write handle_write_def)
next
  case GatherWrite
  let ?f = "fold (\<lambda>b s. release_block (fst b) (if ec = Success then writeSucceeded b s else s)) (outputMemoryBlocks s) s"
  have f: "extends s (?f\<lparr>outputMemoryBlocks := []\<rparr>)"
    by (rule extends_trans [OF extends_fold [of s ec "outputMemoryBlocks s"]]) (simp add: extends_same)
  show ?thesis
    using extends_trans [OF f extends_gather(1)] extends_trans [OF f extends_post]
    by (cases "ec = Success") (simp_all add: GatherWrite handle_gather_write_def Let_def)
qed

lemma extends_send: "TcpSessionImpl_sendMessage ops cb b mt s = (p, s') \<Longrightarrow> extends s s'"
  by (auto simp: extends_def TcpSessionImpl_sendMessage_def checkOutputQueue_def writeMessage_def async_write_def
      release_block_def post_def Let_def split: prod.splits if_splits)

lemma receive_fields: "disconnectTimer (readMessage s) = disconnectTimer s" "posted (readMessage s) = posted s"
  "disconnectTimer (throttleReceiving cb s) = disconnectTimer s" "posted (throttleReceiving cb s) = posted s"
  "disconnectTimer (snd (addInboundBandwidth secs n s)) = disconnectTimer s" "posted (snd (addInboundBandwidth secs n s)) = posted s"
  by (simp_all add: readMessage_def throttleReceiving_def startThrottleTimer_def addInboundBandwidth_def Let_def split_beta)

lemma extends_received: "messageBlockReceived ops cb secs n s = Some (r, s') \<Longrightarrow> extends s s'"
  by (auto simp: extends_def messageBlockReceived_def Let_def split_beta receive_fields split: if_splits)

lemma extends_read: "handle_read ops cb secs ec bytes s = Some (r, s') \<Longrightarrow> extends s s'"
proof (cases "ec = Success")
  case True
  let ?s = "s\<lparr>marshaller := (marshaller s)\<lparr>recvBlock :=
         mb_poke (wr_ptr (recvBlock (marshaller s))) bytes (recvBlock (marshaller s))\<rparr>\<rparr>"
  let ?m = "messageBlockReceived ops cb secs (length bytes) ?s"
  assume h: "handle_read ops cb secs ec bytes s = Some (r, s')"
  then obtain r0 s0 where s0: "?m = Some (r0, s0)"
    using True by (cases ?m) (auto simp: handle_read_def)
  have "extends s ?s" by (simp add: extends_same)
  from extends_trans [OF this extends_received [OF s0]] have "extends s s0" .
  moreover have "s' = s0 \<or> s' = post Disconnect s0"
    using s0 h True by (cases r0) (auto simp: handle_read_def split: if_splits)
  ultimately show ?thesis using extends_trans [OF _ extends_post] by blast
qed (auto simp: handle_read_def extends_post)

lemma throttle_fields: "disconnectTimer (TcpSessionImpl_timedOut (Suc 0) s) = disconnectTimer s"
  "posted (TcpSessionImpl_timedOut (Suc 0) s) = posted s"
  by (simp_all add: TcpSessionImpl_timedOut_def readMessage_def Let_def)

lemma extends_throttle:
  assumes "own_timer_step throttleTimer throttleTimer_update 1 s s'"
  shows "extends s s'"
  using assms
  by cases (simp_all add: extends_def handle_wait_def AsioTimer_handle_timeout_def AsioTimer_handle_repeat_timeout_def
      Let_def throttle_fields)

interpretation disconnect_owner: timer_owner disconnectTimer disconnectTimer_update
  by unfold_locales simp_all

lemma event_doomed:
  assumes "session_event ops cb s s'" and "doomed s"
  shows "doomed s'"
  using assms
proof (induction rule: session_event.induct)
  case (posts s t)
  then show ?case by (rule doomed_extends) (rule extends_post)
next
  case (gracefully s ts)
  with doomed_pop [OF gracefully(2,1)] show ?case by simp
next
  case (send s b mt ts p s')
  with doomed_pop [OF send(3,1)] doomed_extends [OF _ extends_send [OF send(2)]] show ?case by simp
next
  case (written s wr ws ec)
  have "extends s (s\<lparr>writing := ws\<rparr>)" by (simp add: extends_same)
  from doomed_extends [OF written(2) extends_trans [OF this extends_write]] show ?case .
next
  case (write_aborted s wr ws)
  have "extends s (s\<lparr>abortedWrites := ws\<rparr>)" by (simp add: extends_same)
  from doomed_extends [OF write_aborted(2) extends_trans [OF this extends_write]] show ?case .
next
  case (read s n bytes secs ec s')
  have "extends s (s\<lparr>reading := n\<rparr>)" by (simp add: extends_same)
  from doomed_extends [OF read(4) extends_trans [OF this extends_read [OF read(3)]]] show ?case .
next
  case (read_aborted s n secs s')
  have "extends s (s\<lparr>abortedReads := n\<rparr>)" by (simp add: extends_same)
  from doomed_extends [OF read_aborted(3) extends_trans [OF this extends_read [OF read_aborted(2)]]] show ?case .
next
  case (disconnect_timer s s')
  then obtain f where "s' = disconnectTimer_update f s" "\<not> isRunning (disconnectTimer s')"
    using disconnect_owner.idle_step [OF disconnect_timer(1)] by (auto simp: doomed_def isDisconnectReserved_def)
  with disconnect_timer(2) show ?case by (simp add: doomed_def isDisconnectReserved_def)
next
  case (throttle_timer s s')
  from doomed_extends [OF throttle_timer(2) extends_throttle [OF throttle_timer(1)]] show ?case .
qed

text \<open>A server that is shutting down.\<close>

definition closing :: "('c, 'a) session_server \<Rightarrow> bool" where
  "closing w \<longleftrightarrow> manager_inv (sessionManager w) \<and> (\<forall>x \<in> set (sessionAcceptors w). shouldFinish x) \<and>
     (\<forall>op \<in> set (accepts w). ao_acceptor op < length (sessionAcceptors w) \<and> ao_done op \<noteq> None) \<and>
     in_use (sessionManager w) \<subseteq> ao_session ` set (accepts w) \<union> {a. socketOpen (impls w a)} \<and>
     (\<forall>a \<in> in_use (sessionManager w). socketOpen (impls w a) \<longrightarrow> doomed (impls w a))"

lemma close_fields [simp]: "sessionManager (IoContextAcceptor_close i w) = sessionManager w"
  "impls (IoContextAcceptor_close i w) = impls w"
  "length (sessionAcceptors (IoContextAcceptor_close i w)) = length (sessionAcceptors w)"
  "map ao_session (accepts (IoContextAcceptor_close i w)) = map ao_session (accepts w)"
  "map ao_acceptor (accepts (IoContextAcceptor_close i w)) = map ao_acceptor (accepts w)"
  by (simp_all add: IoContextAcceptor_close_def)

lemma close_done:
  assumes "op \<in> set (accepts (IoContextAcceptor_close i w))"
  obtains op\<^sub>0 where "op\<^sub>0 \<in> set (accepts w)" and "ao_acceptor op = ao_acceptor op\<^sub>0"
    and "ao_done op = None \<Longrightarrow> ao_done op\<^sub>0 = None \<and> ao_acceptor op\<^sub>0 \<noteq> i"
  using assms by (auto simp: IoContextAcceptor_close_def split: if_splits)

lemma close_all:
  fixes w is'
  defines "w' \<equiv> fold IoContextAcceptor_close is' w"
  shows "sessionManager w' = sessionManager w \<and> impls w' = impls w \<and>
    length (sessionAcceptors w') = length (sessionAcceptors w) \<and>
    map ao_session (accepts w') = map ao_session (accepts w) \<and> map ao_acceptor (accepts w') = map ao_acceptor (accepts w) \<and>
    (\<forall>i \<in> set is'. i < length (sessionAcceptors w) \<longrightarrow> shouldFinish (sessionAcceptors w' ! i)) \<and>
    (\<forall>op \<in> set (accepts w'). ao_acceptor op \<in> set is' \<longrightarrow> ao_done op \<noteq> None)"
  unfolding w'_def
proof (induction is' rule: rev_induct)
  case (snoc i js)
  let ?w = "fold IoContextAcceptor_close js w"
  have "shouldFinish (sessionAcceptors (IoContextAcceptor_close i ?w) ! k)"
    if "k < length (sessionAcceptors ?w)" "k = i \<or> shouldFinish (sessionAcceptors ?w ! k)" for k
    using that by (cases "k = i") (simp_all add: IoContextAcceptor_close_def)
  moreover have "ao_done op \<noteq> None" if "op \<in> set (accepts (IoContextAcceptor_close i ?w))" "ao_acceptor op \<in> set (js @ [i])" for op
    using that snoc.IH by (elim close_done) (auto simp del: not_None_eq)
  ultimately show ?case using snoc.IH by auto
qed simp

lemma finalize_closing:
  assumes "accounted w" and "covered w"
    and "\<And>a. socketOpen (impls w a) \<Longrightarrow> \<not> isDisconnectReserved (impls w a) \<and> DisconnectGracefully \<notin> set (posted (impls w a))"
  shows "closing (ServerSideSessionManager_finalize w)"
    and "length (accepts (ServerSideSessionManager_finalize w)) = length (accepts w)"
proof -
  let ?w = "ServerSideSessionManager_stopSessionAcceptor w"
  note c = close_all [of "[0..<length (sessionAcceptors w)]" w, folded ServerSideSessionManager_stopSessionAcceptor_def]
  have acc: "ao_session ` set (accepts ?w) = ao_session ` set (accepts w)"
    "ao_acceptor ` set (accepts ?w) = ao_acceptor ` set (accepts w)"
    using c by (metis set_map)+
  have ops: "ao_acceptor op < length (sessionAcceptors w) \<and> ao_done op \<noteq> None" if "op \<in> set (accepts ?w)" for op
  proof -
    from that acc(2) have "ao_acceptor op \<in> ao_acceptor ` set (accepts w)" by blast
    with assms(2) have "ao_acceptor op < length (sessionAcceptors w)" by (auto simp: covered_def)
    with c that show ?thesis by auto
  qed
  have fin: "\<forall>x \<in> set (sessionAcceptors ?w). shouldFinish x" using c by (auto simp: set_conv_nth)
  have "doomed (post Disconnect (impls w a))" if "socketOpen (impls w a)" for a
    using assms(3) [OF that] by (auto simp: doomed_def post_def isDisconnectReserved_def)
  with acc(1) ops fin c cancel_disconnects [of "sessionManager w"] assms(1)
  show "closing (ServerSideSessionManager_finalize w)"
    by (auto simp: closing_def ServerSideSessionManager_finalize_def SessionManager_cancel_def accounted_def)
  have "length (map ao_session (accepts ?w)) = length (map ao_session (accepts w))" using c by simp
  then show "length (accepts (ServerSideSessionManager_finalize w)) = length (accepts w)"
    by (simp add: ServerSideSessionManager_finalize_def SessionManager_cancel_def)
qed

lemma closing_handle:
  assumes "closing w" and ops: "accepts w = xs @ op # ys"
    and run: "IoContextAcceptor_handle_accept cb known validated ec (ao_acceptor op) (ao_asio op) (ao_session op)
      (on_impl (ao_session op) f (w\<lparr>accepts := xs @ ys\<rparr>)) = (Inr (), w')"
  shows "closing w' \<and> length (accepts w') \<le> length (accepts w)"
proof -
  let ?w = "Session_onRelease (ao_session op) (on_impl (ao_session op) f (w\<lparr>accepts := xs @ ys\<rparr>))"
  have "shouldFinish (sessionAcceptors w ! ao_acceptor op)" using assms(1) ops by (simp add: closing_def)
  with run have "w' = ?w"
    by (auto simp: IoContextAcceptor_handle_accept_def bind_def prog_defs on_impl_def Session_onRelease_def)
  moreover have "closing ?w"
    using assms(1) ops release_removes [of "sessionManager w" "ao_session op"]
    by (auto simp: closing_def on_impl_def Session_onRelease_def)
  ultimately show ?thesis by (simp add: ops on_impl_def Session_onRelease_def)
qed

lemma closing_disconnect:
  assumes "closing w" and task: "posted (impls w a) = Disconnect # ts"
  shows "closing (disconnect_session ops cb now a (on_impl a (\<lambda>s. s\<lparr>posted := ts\<rparr>) w))"
proof (cases "\<not> isDisconnectReserved (impls w a) \<and> socketOpen (impls w a)")
  case True
  then show ?thesis
    using assms release_removes [of "sessionManager w" a]
    by (auto simp: closing_def disconnect_session_def Session_onRelease_def on_impl_def isDisconnectReserved_def disconnect_open)
next
  case False
  have "\<not> doomed (impls w a)" if "socketOpen (impls w a)" using False that by (simp add: doomed_def)
  with assms(1) have "a \<in> in_use (sessionManager w) \<Longrightarrow> \<not> socketOpen (impls w a)" by (auto simp: closing_def)
  with False assms(1) show ?thesis
    by (auto simp: closing_def disconnect_session_def on_impl_def isDisconnectReserved_def disconnect_open)
qed

lemma io_closing:
  assumes "server_io ops cb refuses w w'" and "closing w"
  shows "closing w' \<and> length (accepts w') \<le> length (accepts w)"
  using assms
proof (induction rule: server_io.induct)
  case (arrive w xs op ys ec)
  then show ?case by (simp add: closing_def)
next
  case (handle w xs op ys ec validated w')
  from closing_handle [OF handle(5,1,4)] show ?case .
next
  case (event w a s')
  with event_open [OF event(1)] event_doomed [OF event(1)] show ?case by (auto simp: closing_def)
next
  case (disconnect w a ts now)
  from closing_disconnect [OF disconnect(2,1)] show ?case by (simp add: on_impl_def)
qed

lemma ios_closing:
  assumes "(server_io ops cb refuses)\<^sup>*\<^sup>* w w'" and "closing w"
  shows "closing w' \<and> length (accepts w') \<le> length (accepts w)"
  using assms by (induction rule: rtranclp_induct) (auto dest: io_closing)

lemma closing_done:
  assumes "closing w" and "accepts w = []" and "\<And>a. posted (impls w a) = []"
  shows "isSafeToDelete (sessionManager w)"
proof -
  have "\<not> doomed (impls w a)" for a using assms(3) [of a] by (simp add: doomed_def)
  with assms(1,2) have "in_use (sessionManager w) = {}" by (fastforce simp: closing_def)
  then show ?thesis using assms(1) by (simp add: isSafeToDelete_def closing_def count_in_use)
qed

text \<open>The pool is a queue.\<close>

lemma release_back:
  assumes "manager_inv m" and "a \<in> in_use m"
  shows "inactiveResources (snd (sessionPool (CachedSessionManager_release a m))) = inactiveResources (snd (sessionPool m)) @ [a]"
proof -
  obtain h p where hp: "sessionPool m = (h, p)" by fastforce
  have "pool_wf p" "a \<in> set (activeResources p)" using assms by (simp_all add: manager_inv_def pool_inv_def in_use_def hp)
  from release_props(2) [OF this] show ?thesis by (simp add: CachedSessionManager_release_def hp Let_def)
qed

lemma malloc_times_back: "\<exists>new. snd (malloc_times alloc n (h, q)) = q @ new"
proof (induction n arbitrary: h q)
  case (Suc n)
  obtain r h' where "al_malloc alloc h = (r, h')" by fastforce
  with Suc [of h' "q @ [r]"] show ?case by auto
qed simp

lemma prepare_back:
  "\<exists>new. inactiveResources (snd (MemoryPool_prepareResources alloc (h, p))) = inactiveResources p @ new"
  using malloc_times_back [of alloc "poolSize p + spareSize p - length (inactiveResources p)" h "inactiveResources p"]
  by (auto simp: MemoryPool_prepareResources_def notify_def Let_def split_beta)

lemma acquire_front:
  assumes "manager_inv m" and "inactiveResources (snd (sessionPool m)) = a # rest"
  obtains m' new where "CachedSessionManager_acquire m = (Inr (Some a), m')" and "manager_inv m'"
    and "in_use m' = insert a (in_use m)" and "inactiveResources (snd (sessionPool m')) = rest @ new"
proof -
  obtain h p where hp: "sessionPool m = (h, p)" by fastforce
  let ?hp = "if MemoryPool_isFull p then MemoryPool_prepareResources SessionAllocator (h, p) else (h, p)"
  obtain new where new: "inactiveResources (snd ?hp) = a # rest @ new"
    using prepare_back [of SessionAllocator h p] assms(2) hp by (cases "MemoryPool_isFull p") auto
  then obtain x where x: "MemoryPool_acquire SessionAllocator (h, p) = (Inr (Some a), x)" "inactiveResources (snd x) = rest @ new"
    using assms(1) by (auto simp: MemoryPool_acquire_def manager_inv_def hp Let_def split_beta
        MemoryPool_insertActiveResource_def split: if_splits)
  from acquire_adds [OF assms(1)] obtain b m' where m': "CachedSessionManager_acquire m = (Inr (Some b), m')" "manager_inv m'"
    "in_use m' = insert b (in_use m)" by blast
  moreover have "b = a" "inactiveResources (snd (sessionPool m')) = rest @ new"
    using m'(1) x by (auto simp: CachedSessionManager_acquire_def bind_def zoom_def prog_defs hp)
  ultimately show thesis using that by blast
qed

lemma free_not_in_use:
  "manager_inv m \<Longrightarrow> b \<in> set (inactiveResources (snd (sessionPool m))) \<Longrightarrow> b \<notin> in_use m"
  by (cases "sessionPool m") (auto simp: manager_inv_def pool_inv_def pool_wf_def in_use_def)

section \<open>Properties\<close>

text \<open>C10: no session is lost or used twice.  In every state of a server in service that refuses no connection, the
  sessions that the manager counts as in use are those an acceptor waits with and those that are
  connected, which are different ones; no two accepts share a session; and every listening socket
  of every acceptor has exactly one accept under way.\<close>

theorem sessions_accounted:
  assumes "fresh_server w" and "(server_step ops cb False)\<^sup>*\<^sup>* w w'"
  shows "in_use (sessionManager w') = ao_session ` set (accepts w') \<union> {a. socketOpen (impls w' a)} \<and>
    ao_session ` set (accepts w') \<inter> {a. socketOpen (impls w' a)} = {} \<and> distinct (map ao_session (accepts w')) \<and>
    (\<forall>i < length (sessionAcceptors w'). \<forall>j < asioAcceptors (sessionAcceptors w' ! i).
      length (filter (\<lambda>op. ao_acceptor op = i \<and> ao_asio op = j) (accepts w')) = 1)"
  using steps_accounted [OF assms(2)] fresh_accounted [OF assms(1)] by (auto simp: accounted_def covered_def)

text \<open>C11: a shutdown ends.  When \<open>finalize\<close> is called on a server that has refused no connection, while no
  connected session is being closed gracefully, no new accept begins, and as soon as the queued handlers and tasks have run, whatever else happened
  meanwhile, no session is in use, so that \<open>waitForDone\<close> returns.\<close>

theorem shutdown_completes:
  assumes "fresh_server w\<^sub>0" and "(server_step ops cb False)\<^sup>*\<^sup>* w\<^sub>0 w"
    and "\<forall>a. socketOpen (impls w a) \<longrightarrow>
      \<not> isDisconnectReserved (impls w a) \<and> DisconnectGracefully \<notin> set (posted (impls w a))"
    and "(server_io ops cb refuses)\<^sup>*\<^sup>* (ServerSideSessionManager_finalize w) w'"
  shows "length (accepts w') \<le> length (accepts w) \<and>
    (accepts w' = [] \<and> (\<forall>a. posted (impls w' a) = []) \<longrightarrow> isSafeToDelete (sessionManager w'))"
proof -
  have "accounted w" "covered w" using steps_accounted [OF assms(2)] fresh_accounted [OF assms(1)] by simp_all
  note fin = finalize_closing [OF this, OF assms(3) [rule_format]]
  with ios_closing [OF assms(4)] closing_done [of w'] show ?thesis by auto
qed

text \<open>C12: a refused connection costs a session.  The handler of an accept whose connection the validator refuses
  gives the session back at once, but its disconnection is only posted.  When the next connection
  comes before the task has run, and the manager had one other session free, the acceptor takes the
  session again, and the task then gives it back: the acceptor waits with a session that the manager
  counts as free.\<close>

theorem refused_session_released_twice:
  assumes "accounted w" and "accepts w = xs @ op # ys" and "ao_done op = Some Success"
    and "\<not> shouldFinish (sessionAcceptors w ! ao_acceptor op)" and "\<not> isDisconnectReserved (impls w (ao_session op))"
    and "posted (impls w (ao_session op)) = []" and "inactiveResources (snd (sessionPool (sessionManager w))) = [b]"
  shows "\<exists>w'. (server_io ops cb True)\<^sup>*\<^sup>* w w' \<and> (\<exists>op' \<in> set (accepts w'). ao_session op' \<notin> in_use (sessionManager w'))"
proof -
  let ?a = "ao_session op" and ?m = "CachedSessionManager_release (ao_session op) (sessionManager w)"
  let ?open = "\<lambda>s. s\<lparr>socketOpen := True, wireOut := []\<rparr> :: ('a, 'b) tcp_session"
  have inv: "manager_inv (sessionManager w)" "?a \<in> in_use (sessionManager w)" using assms(1,2) by (simp_all add: accounted_def)
  have "b \<notin> in_use (sessionManager w)" using free_not_in_use [OF inv(1)] assms(7) by simp
  with assms(1) inv(2) have b: "b \<noteq> ?a" "\<not> socketOpen (impls w b)" by (auto simp: accounted_def)
  from release_removes [OF inv(1), of ?a] have m: "manager_inv ?m" by simp
  have "inactiveResources (snd (sessionPool ?m)) = b # [?a]" using release_back [OF inv] assms(7) by simp
  with m obtain m1 new where m1: "CachedSessionManager_acquire ?m = (Inr (Some b), m1)" "manager_inv m1"
    "in_use m1 = insert b (in_use ?m)" "inactiveResources (snd (sessionPool m1)) = [?a] @ new" by (rule acquire_front)
  have "inactiveResources (snd (sessionPool m1)) = ?a # new" using m1(4) by simp
  with m1(2) obtain m2 new' where m2: "CachedSessionManager_acquire m1 = (Inr (Some ?a), m2)" "manager_inv m2"
    "in_use m2 = insert ?a (in_use m1)" "inactiveResources (snd (sessionPool m2)) = new @ new'" by (rule acquire_front)
  let ?op = "\<lambda>a d. \<lparr>ao_acceptor = ao_acceptor op, ao_asio = ao_asio op, ao_session = a, ao_done = d\<rparr>"
  let ?s = "post Disconnect (?open (impls w ?a))" and ?b = "snd (sessionOpened cb (?open (impls w b)))"
  let ?w1 = "w\<lparr>impls := (impls w)(?a := ?s), sessionManager := m1, accepts := xs @ ys @ [?op b None]\<rparr>"
  let ?w2 = "?w1\<lparr>accepts := (xs @ ys) @ (?op b None)\<lparr>ao_done := Some Success\<rparr> # []\<rparr>"
  let ?w3 = "w\<lparr>impls := (impls w)(?a := ?s, b := ?b), sessionManager := m2, accepts := xs @ ys @ [?op ?a (Some OtherError)]\<rparr>"
  let ?w4 = "disconnect_session ops cb 0 ?a (on_impl ?a (\<lambda>s. s\<lparr>posted := []\<rparr>) ?w3)"
  have "IoContextAcceptor_handle_accept cb True False Success (ao_acceptor op) (ao_asio op) ?a
      (on_impl ?a (if Success = Success then ?open else id) (w\<lparr>accepts := xs @ ys\<rparr>)) = (Inr (), ?w1)"
    using assms(4) m1(1) b
    by (simp add: IoContextAcceptor_handle_accept_def IoContextAcceptor_accept_def on_impl_def bind_def zoom_def prog_defs)
  from server_io.handle [OF assms(2,3) _ this] have s1: "server_io ops cb True w ?w1" by simp
  have s2: "server_io ops cb True ?w1 ?w2" by (rule server_io.arrive) simp_all
  have "IoContextAcceptor_handle_accept cb True True Success (ao_acceptor op) (ao_asio op) b
      (on_impl b (if Success = Success then ?open else id) (?w2\<lparr>accepts := (xs @ ys) @ []\<rparr>)) = (Inr (), ?w3)"
    using assms(4) m2(1) b(1)
    by (simp add: IoContextAcceptor_handle_accept_def IoContextAcceptor_accept_def on_impl_def bind_def zoom_def prog_defs)
  moreover have "accepts ?w2 = (xs @ ys) @ ?op b (Some Success) # []" "ao_done (?op b (Some Success)) = Some Success" by simp_all
  note server_io.handle [OF this, of True True cb True]
  ultimately have s3: "server_io ops cb True ?w2 ?w3" by simp
  have "posted (impls ?w3 ?a) = [Disconnect]" using assms(6) b(1) by (simp add: post_def)
  then have "server_io ops cb True ?w3 ?w4" by (rule server_io.disconnect)
  with s1 s2 s3 have "(server_io ops cb True)\<^sup>*\<^sup>* w ?w4" by (meson converse_rtranclp_into_rtranclp r_into_rtranclp)
  moreover have "?op ?a (Some OtherError) \<in> set (accepts ?w4)" by (simp add: on_impl_def)
  moreover have "ao_session (?op ?a (Some OtherError)) \<notin> in_use (sessionManager ?w4)"
    using assms(5) b(1) release_removes [OF m2(2), of ?a]
    by (simp add: disconnect_session_def Session_onRelease_def on_impl_def post_def isDisconnectReserved_def)
  ultimately show ?thesis by blast
qed

text \<open>C13: an aborted read closes the next connection.  When a session that waits for bytes is disconnected, the handler of
  that read stays queued with \<open>operation_aborted\<close>.  If the session is opened for its next connection before the
  handler runs, the handler posts a disconnection nonetheless, and that closes the new connection, tells the
  application and gives the session back.\<close>

theorem aborted_read_disconnects_next:
  fixes s :: "('c, 'a) tcp_session" and ops :: "'c packet_coder_ops" and cb :: "('c, 'a) session_callback" and now :: nat
  defines "s\<^sub>1 \<equiv> TcpSessionImpl_disconnect ops cb now s"
  defines "s\<^sub>2 \<equiv> snd (sessionOpened cb (s\<^sub>1\<lparr>socketOpen := True, wireOut := []\<rparr>))"
  assumes "socketOpen s" and "\<not> isDisconnectReserved s" and "reading s = Suc n" and "abortedReads s = 0"
    and "manager_inv (sessionManager w)"
  shows "socketOpen s\<^sub>2 \<and> abortedReads s\<^sub>2 = Suc n \<and>
    (\<exists>s\<^sub>3. handle_read ops cb secs OperationAborted [] (s\<^sub>2\<lparr>abortedReads := n\<rparr>) = Some (Inr (), s\<^sub>3) \<and>
      posted s\<^sub>3 = posted s\<^sub>2 @ [Disconnect] \<and> socketOpen s\<^sub>3 \<and>
      (\<forall>w'. w' = disconnect_session ops cb now' a (w\<lparr>impls := (impls w)(a := s\<^sub>3\<lparr>posted := []\<rparr>)\<rparr>) \<longrightarrow>
        \<not> socketOpen (impls w' a) \<and> a \<notin> in_use (sessionManager w') \<and> app (impls w' a) = onRelease cb (onDisconnected cb (app s\<^sub>2))))"
proof -
  have s1: "abortedReads s\<^sub>1 = Suc n" "\<not> isDisconnectReserved s\<^sub>1"
    using assms(3-6) by (simp_all add: s\<^sub>1_def TcpSessionImpl_disconnect_def TcpSessionImpl_reset_def flushOutputQueue_def
        close_socket_def isDisconnectReserved_def AsioTimer_cancel_def Let_def)
  have s2: "socketOpen s\<^sub>2" "abortedReads s\<^sub>2 = Suc n" "\<not> isDisconnectReserved s\<^sub>2"
    using s1 by (simp_all add: s\<^sub>2_def sessionOpened_def readMessage_def post_def isDisconnectReserved_def Let_def split: prod.split)
  let ?s = "post Disconnect (s\<^sub>2\<lparr>abortedReads := n\<rparr>)"
  have "handle_read ops cb secs OperationAborted [] (s\<^sub>2\<lparr>abortedReads := n\<rparr>) = Some (Inr (), ?s)" by (simp add: handle_read_def)
  moreover have "posted ?s = posted s\<^sub>2 @ [Disconnect]" "socketOpen ?s" using s2(1) by (simp_all add: post_def)
  moreover have "\<not> socketOpen (impls w' a) \<and> a \<notin> in_use (sessionManager w') \<and>
      app (impls w' a) = onRelease cb (onDisconnected cb (app s\<^sub>2))"
    if "w' = disconnect_session ops cb now' a (w\<lparr>impls := (impls w)(a := ?s\<lparr>posted := []\<rparr>)\<rparr>)" for w'
    using s2(1,3) release_removes [OF assms(7), of a] that
    by (simp add: disconnect_session_def Session_onRelease_def on_impl_def post_def isDisconnectReserved_def
        disconnect_open disconnect_releases)
  ultimately show ?thesis using s2 by blast
qed

section \<open>Witnesses\<close>

lemma disconnect_posted: "posted (TcpSessionImpl_disconnect ops cb now s) = posted s"
  by (simp add: TcpSessionImpl_disconnect_def TcpSessionImpl_reset_def flushOutputQueue_def close_socket_def Let_def)

lemma disconnect_session_impls:
  "impls (disconnect_session ops cb now a w) = (impls w)(a := TcpSessionImpl_disconnect ops cb now (impls w a))"
  by (simp add: disconnect_session_def Session_onRelease_def on_impl_def)

text \<open>A server with one session that has started to accept.\<close>

definition demo_closed :: "(unit, nat) tcp_session" where
  "demo_closed = TcpSessionImpl_new CsPacketCoder \<lparr>maxBytesPerSecond = 0, secondsForThrottling = 0, maxPendablePacketCount = 4\<rparr>
     (SgpMarshaller_new CsPacketCoder () (mb_new 16) (mb_new 16)) 0 0"

definition demo_sessions :: session_manager where
  "demo_sessions = CachedSessionManager_initialize
     (CachedSessionManager_new 1 False \<lparr>sh_next = 0, sh_sessions = [], sh_disconnects = []\<rparr>)"

definition demo_site :: "(unit, nat) session_server" where
  "demo_site = \<lparr>sessionManager = demo_sessions, impls = (\<lambda>_. demo_closed), sessionAcceptors = [], accepts = []\<rparr>"

lemma demo_closed_fields [simp]: "\<not> socketOpen demo_closed" "posted demo_closed = []" "\<not> isDisconnectReserved demo_closed"
  by (simp_all add: demo_closed_def TcpSessionImpl_new_def TcpSessionImpl_reset_def flushOutputQueue_def close_socket_def
      AsioTimer_cancel_def isDisconnectReserved_def Let_def)

lemma demo_fresh: "fresh_server demo_site"
proof -
  have "session_heap_inv \<lparr>sh_next = 0, sh_sessions = [], sh_disconnects = []\<rparr>" by (simp add: session_heap_inv_def)
  then show ?thesis unfolding fresh_server_def demo_site_def demo_sessions_def by auto
qed

lemma demo_acquire: "\<exists>m. CachedSessionManager_acquire demo_sessions = (Inr (Some 0), m) \<and>
    inactiveResources (snd (sessionPool m)) = [1]"
  by (simp add: demo_sessions_def CachedSessionManager_initialize_def CachedSessionManager_new_def MemoryPool_initialize_def
      SessionPool_new_def MemoryPool_new_def MemoryPool_prepareResources_def notify_def SessionAllocator_def
      SessionAllocator_malloc_def CachedSessionManager_acquire_def MemoryPool_acquire_def MemoryPool_isFull_def
      MemoryPool_insertActiveResource_def bind_def zoom_def prog_defs tell_def Let_def numeral_2_eq_2
      split: prod.split if_split)

text \<open>The server has started to accept at one address.\<close>

lemma demo_started:
  obtains w where "server_step ops cb refuses demo_site w" and "accounted w" and "impls w = (\<lambda>_. demo_closed)"
    and "sessionAcceptors w = [\<lparr>shouldFinish = False, asioAcceptors = 1\<rparr>]"
    and "accepts w = [\<lparr>ao_acceptor = 0, ao_asio = 0, ao_session = 0, ao_done = None\<rparr>]"
    and "inactiveResources (snd (sessionPool (sessionManager w))) = [1]"
proof -
  from demo_acquire obtain m where m: "CachedSessionManager_acquire demo_sessions = (Inr (Some 0), m)"
    "inactiveResources (snd (sessionPool m)) = [1]" by blast
  let ?w = "demo_site\<lparr>sessionManager := m, sessionAcceptors := [\<lparr>shouldFinish = False, asioAcceptors = 1\<rparr>],
    accepts := [\<lparr>ao_acceptor = 0, ao_asio = 0, ao_session = 0, ao_done = None\<rparr>]\<rparr>"
  have run: "ServerSideSessionManager_startSessionAcceptor (\<lambda>_. Some [True]) [[1]] demo_site = (Inr True, ?w)"
    using m(1) by (simp add: ServerSideSessionManager_startSessionAcceptor_def createSessionAcceptor_def
        IoContextAcceptor_open_def IoContextAcceptor_new_def IoContextAcceptor_accept_def demo_site_def bind_def zoom_def
        prog_defs Let_def)
  have "accounted ?w" by (rule start_covered [OF run]) (simp add: fresh_accounted [OF demo_fresh])
  with that [OF server_step.begin_accept [OF run]] m(2) show thesis by (simp add: demo_site_def)
qed

theorem sessions_accounted_witness:
  "\<exists>w. (server_step CsPacketCoder counting_callback False)\<^sup>*\<^sup>* demo_site w \<and> length (sessionAcceptors w) = 1 \<and>
    in_use (sessionManager w) = {0} \<and> length (filter (\<lambda>op. ao_acceptor op = 0 \<and> ao_asio op = 0) (accepts w)) = 1"
proof -
  obtain w where w: "server_step CsPacketCoder counting_callback False demo_site w" "accounted w" "impls w = (\<lambda>_. demo_closed)"
    "sessionAcceptors w = [\<lparr>shouldFinish = False, asioAcceptors = 1\<rparr>]"
    "accepts w = [\<lparr>ao_acceptor = 0, ao_asio = 0, ao_session = 0, ao_done = None\<rparr>]"
    "inactiveResources (snd (sessionPool (sessionManager w))) = [1]" by (rule demo_started)
  from sessions_accounted [OF demo_fresh r_into_rtranclp, OF w(1)] w show ?thesis
    by (intro exI [of _ w]) auto
qed

theorem shutdown_completes_witness:
  "\<exists>w w'. (server_step CsPacketCoder counting_callback False)\<^sup>*\<^sup>* demo_site w \<and> in_use (sessionManager w) = {0} \<and>
    (server_io CsPacketCoder counting_callback False)\<^sup>*\<^sup>* (ServerSideSessionManager_finalize w) w' \<and>
    isSafeToDelete (sessionManager w')"
proof -
  obtain w where w: "server_step CsPacketCoder counting_callback False demo_site w" "accounted w" "impls w = (\<lambda>_. demo_closed)"
    "sessionAcceptors w = [\<lparr>shouldFinish = False, asioAcceptors = 1\<rparr>]"
    "accepts w = [\<lparr>ao_acceptor = 0, ao_asio = 0, ao_session = 0, ao_done = None\<rparr>]"
    "inactiveResources (snd (sessionPool (sessionManager w))) = [1]" by (rule demo_started)
  have used: "in_use (sessionManager w) = {0}" using w(2,3,5) by (simp add: accounted_def)
  define f where "f = ServerSideSessionManager_finalize w"
  let ?op = "\<lparr>ao_acceptor = 0, ao_asio = 0, ao_session = 0, ao_done = Some OperationAborted\<rparr>"
  have stop: "ServerSideSessionManager_stopSessionAcceptor w =
      w\<lparr>sessionAcceptors := [\<lparr>shouldFinish = True, asioAcceptors = 1\<rparr>], accepts := [?op]\<rparr>"
    by (simp add: ServerSideSessionManager_stopSessionAcceptor_def IoContextAcceptor_close_def w(4,5))
  have f: "accepts f = [] @ ?op # []" "sessionAcceptors f = [\<lparr>shouldFinish = True, asioAcceptors = 1\<rparr>]"
    "impls f = (\<lambda>_. demo_closed)(0 := post Disconnect demo_closed)"
    by (simp_all add: f_def ServerSideSessionManager_finalize_def stop SessionManager_cancel_def used w(3) fun_eq_iff)
  define w1 where "w1 = Session_onRelease 0 (on_impl 0 id (f\<lparr>accepts := [] @ []\<rparr>))"
  have w1: "accepts w1 = []" "impls w1 = impls f" by (simp_all add: w1_def Session_onRelease_def on_impl_def)
  define w2 where "w2 = disconnect_session CsPacketCoder counting_callback 0 0 (on_impl 0 (\<lambda>s. s\<lparr>posted := []\<rparr>) w1)"
  have "IoContextAcceptor_handle_accept counting_callback True True OperationAborted 0 0 0
      (on_impl 0 (if OperationAborted = Success then \<lambda>s. s\<lparr>socketOpen := True, wireOut := []\<rparr> else id) (f\<lparr>accepts := [] @ []\<rparr>)) =
      (Inr (), w1)"
    using f(2) by (simp add: w1_def IoContextAcceptor_handle_accept_def bind_def prog_defs on_impl_def Session_onRelease_def)
  with server_io.handle [OF f(1), of OperationAborted False True counting_callback True w1]
  have s1: "server_io CsPacketCoder counting_callback False f w1" by simp
  have "posted (impls w1 0) = [Disconnect]" by (simp add: w1(2) f(3) post_def)
  then have "server_io CsPacketCoder counting_callback False w1 w2" unfolding w2_def by (rule server_io.disconnect)
  with s1 have s: "(server_io CsPacketCoder counting_callback False)\<^sup>*\<^sup>* f w2"
    by (meson converse_rtranclp_into_rtranclp r_into_rtranclp)
  have "accepts w2 = []" "posted (impls w2 a) = []" for a
    by (simp_all add: w2_def on_impl_def w1 disconnect_session_impls disconnect_posted f(3))
  moreover have reach: "(server_step CsPacketCoder counting_callback False)\<^sup>*\<^sup>* demo_site w" using w(1) by blast
  note shutdown_completes [OF demo_fresh reach _ s [unfolded f_def]]
  ultimately have "isSafeToDelete (sessionManager w2)" using w(3) by simp
  with s [unfolded f_def] used reach show ?thesis by blast
qed

theorem refused_session_released_twice_witness:
  "\<exists>w w'. (server_step CsPacketCoder counting_callback True)\<^sup>*\<^sup>* demo_site w \<and>
    (server_io CsPacketCoder counting_callback True)\<^sup>*\<^sup>* w w' \<and>
    (\<exists>op' \<in> set (accepts w'). ao_session op' \<notin> in_use (sessionManager w'))"
proof -
  obtain w where w: "server_step CsPacketCoder counting_callback True demo_site w" "accounted w" "impls w = (\<lambda>_. demo_closed)"
    "sessionAcceptors w = [\<lparr>shouldFinish = False, asioAcceptors = 1\<rparr>]"
    "accepts w = [\<lparr>ao_acceptor = 0, ao_asio = 0, ao_session = 0, ao_done = None\<rparr>]"
    "inactiveResources (snd (sessionPool (sessionManager w))) = [1]" by (rule demo_started)
  let ?op = "\<lparr>ao_acceptor = 0, ao_asio = 0, ao_session = 0, ao_done = Some Success\<rparr>"
  let ?w = "w\<lparr>accepts := [] @ ?op # []\<rparr>"
  have "server_io CsPacketCoder counting_callback True w ?w"
    using server_io.arrive [of w "[]" "\<lparr>ao_acceptor = 0, ao_asio = 0, ao_session = 0, ao_done = None\<rparr>" "[]"] w(5) by simp
  with w(1) have "(server_step CsPacketCoder counting_callback True)\<^sup>*\<^sup>* demo_site ?w"
    by (meson converse_rtranclp_into_rtranclp r_into_rtranclp server_step.io)
  moreover have "accounted ?w" using w(2,5) by (simp add: accounted_def)
  from refused_session_released_twice [OF this, of "[]" ?op "[]" 1] w(3,4,6)
  have "\<exists>w'. (server_io CsPacketCoder counting_callback True)\<^sup>*\<^sup>* ?w w' \<and>
      (\<exists>op' \<in> set (accepts w'). ao_session op' \<notin> in_use (sessionManager w'))" by simp
  ultimately show ?thesis by blast
qed

theorem aborted_read_disconnects_next_witness:
  "\<exists>s\<^sub>2 s\<^sub>3. s\<^sub>2 = snd (sessionOpened counting_callback ((TcpSessionImpl_disconnect CsPacketCoder counting_callback 0
      (demo_open\<lparr>reading := 1, abortedReads := 0\<rparr>))\<lparr>socketOpen := True, wireOut := []\<rparr>)) \<and> socketOpen s\<^sub>2 \<and>
    handle_read CsPacketCoder counting_callback 0 OperationAborted [] (s\<^sub>2\<lparr>abortedReads := 0\<rparr>) = Some (Inr (), s\<^sub>3) \<and>
    \<not> socketOpen (impls (disconnect_session CsPacketCoder counting_callback 0 0 (demo_site\<lparr>impls := (impls demo_site)(0 := s\<^sub>3\<lparr>posted := []\<rparr>)\<rparr>)) 0)"
proof -
  have "manager_inv (sessionManager demo_site)" using fresh_accounted [OF demo_fresh] by (simp add: accounted_def)
  from aborted_read_disconnects_next [OF _ _ _ _ this, where s = "demo_open\<lparr>reading := 1, abortedReads := 0\<rparr>" and n = 0 and ops = CsPacketCoder and cb = counting_callback
      and now = 0 and now' = 0 and secs = 0 and a = 0]
  show ?thesis by (auto simp: isDisconnectReserved_def)
qed

end
