(* ===== verification/Server_App.thy ===== *)
theory Server_App
  imports Server_Config Rcon_Service Session_Acceptor Database_Pool Database_Proxy
begin

text \<open>
  The applications that put a server together: \<open>ServerApp\<close> (src/server/app/ServerApp.cpp), which parses the
  configuration, initializes, starts and finishes; \<open>SessionServerApp\<close> (SessionServerApp.cpp) with its I/O
  tasks, task scheduler, remote console and the sessions of its clients; \<open>BaseDatabaseProxyServerApp\<close>
  (src/database/proxy/server/BaseDatabaseProxyServerApp.cpp) with its databases (DatabaseManagerFactory.cpp,
  DirectDatabaseManager.h).  Derived classes extend the records of their bases; the virtual functions
  that \<open>ServerApp\<close> calls are a record.  Shown: an initialized server accounts for its sessions and refuses
  none, a failed initialization undoes itself, and two services of the proxy server that its order
  of initialization loses.
\<close>

section \<open>ServerApp\<close>

text \<open>The environment.  \<open>ae_spec\<close> is \<open>getServerSpec\<close>; \<open>ae_directories\<close> whether the log and home directories can be created and
  entered, which throws otherwise; \<open>ae_writable\<close> whether a file can be opened for writing; \<open>ae_wait\<close> what the I/O threads do to the sessions while
  \<open>waitForDone\<close> waits; \<open>ae_database\<close> and \<open>ae_proxy_database\<close> the connections that the
  factory creates and whether they open.\<close>

record ('c, 'a) app_env =
  ae_config :: config_env
  ae_lexical_cast :: "string \<Rightarrow> nat option"
  ae_directories :: "string \<Rightarrow> string \<Rightarrow> bool"
  ae_writable :: "string \<Rightarrow> bool"
  ae_spec :: server_spec
  ae_useDefaultSessionManager :: bool
  ae_resolve :: "byte list \<Rightarrow> bool list option"
  ae_listens :: "u16 \<Rightarrow> bool"
  ae_heap :: session_heap
  ae_impls :: "nat \<Rightarrow> ('c, 'a) tcp_session"
  ae_wait :: "('c, 'a) session_server \<Rightarrow> ('c, 'a) session_server"
  ae_database :: "nat \<Rightarrow> nat \<times> bool"
  ae_proxy_database :: "nat \<times> bool"

record server_app =
  serviceConfig :: server_config
  logger :: "(string \<times> nat \<times> string) option"
  pidFile :: "string option"

record 's app_virtuals =
  onInit :: "('s, bool) prog"
  onStart :: "('s, bool) prog"
  onFinish :: "('s, unit) prog"

definition on_config :: "(server_config, 'b) prog \<Rightarrow> ('z server_app_scheme, 'b) prog" where
  "on_config = zoom serviceConfig (\<lambda>c s. s\<lparr>serviceConfig := c\<rparr>)"

definition getPidPath :: "('c, 'a) app_env \<Rightarrow> 'z server_app_scheme \<Rightarrow> string" where
  "getPidPath env s = getLogDir (ae_config env) (serviceConfig s) @ ''/'' @ serviceName (serviceConfig s) @ ''.pid''"

definition initLogger :: "('c, 'a) app_env \<Rightarrow> ('z server_app_scheme, unit) prog" where
  "initLogger env =
     bind (on_config (on_reader (IniFileConfigReader_getString ''log'' ''file-pattern''))) (\<lambda>filePattern.
     bind (gets (\<lambda>s. getLogDir (ae_config env) (serviceConfig s) @ ''/'' @ serviceName (serviceConfig s) @ filePattern)) (\<lambda>logFilePath.
     bind (on_config (on_reader (ConfigReader_getNumeric (ae_lexical_cast env) ''log'' ''rotation-size''))) (\<lambda>logRotationSize.
     bind (on_config (on_reader (IniFileConfigReader_getString ''log'' ''severity-level''))) (\<lambda>severityLevel.
     modify (\<lambda>s. s\<lparr>logger := Some (logFilePath, logRotationSize, severityLevel)\<rparr>)))))"

definition ServerApp_onInit :: "('c, 'a) app_env \<Rightarrow> ('z server_app_scheme, bool) prog" where
  "ServerApp_onInit env =
     bind (gets serviceConfig) (\<lambda>c.
     if \<not> ae_directories env (getLogDir (ae_config env) c) (homeDir c) then throw (RuntimeError ''filesystem_error'')
     else ret True)"

text \<open>A file that cannot be opened is only logged.\<close>

definition writePid :: "('c, 'a) app_env \<Rightarrow> string \<Rightarrow> 'z server_app_scheme \<Rightarrow> 'z server_app_scheme" where
  "writePid env pidPath s = (if \<not> ae_writable env pidPath then s else s\<lparr>pidFile := Some pidPath\<rparr>)"

definition removePid :: "string \<Rightarrow> 'z server_app_scheme \<Rightarrow> 'z server_app_scheme" where
  "removePid pidPath s = (if pidFile s = Some pidPath then s\<lparr>pidFile := None\<rparr> else s)"

definition ServerApp_setup ::
    "'z server_app_scheme app_virtuals \<Rightarrow> ('c, 'a) app_env \<Rightarrow> string list \<Rightarrow> ('z server_app_scheme, bool) prog" where
  "ServerApp_setup V env args =
     bind (on_config (ServerConfig_parse (ae_config env) args)) (\<lambda>parsed.
     if \<not> parsed then throw (RuntimeError ''Failed to parse config.'')
     else bind (initLogger env) (\<lambda>_.
     bind (onInit V) (\<lambda>ok.
     if \<not> ok then throw (RuntimeError ''Failed to ServerApp::onInit().'')
     else bind (onStart V) (\<lambda>started.
     if \<not> started then throw (RuntimeError ''Failed to ServerApp::onStart().'')
     else ret True))))"

definition ServerApp_initialize ::
    "'z server_app_scheme app_virtuals \<Rightarrow> ('c, 'a) app_env \<Rightarrow> string list \<Rightarrow> ('z server_app_scheme, bool) prog" where
  "ServerApp_initialize V env args =
     bind (try_catch (ServerApp_setup V env args) (\<lambda>e. bind (onFinish V) (\<lambda>_. ret False))) (\<lambda>succeeded.
     if \<not> succeeded then ret False
     else bind (gets (getPidPath env)) (\<lambda>pidPath.
     bind (modify (writePid env pidPath)) (\<lambda>_.
     ret True)))"

definition ServerApp_finalize :: "'z server_app_scheme app_virtuals \<Rightarrow> ('c, 'a) app_env \<Rightarrow> ('z server_app_scheme, unit) prog" where
  "ServerApp_finalize V env =
     bind (onFinish V) (\<lambda>_.
     bind (gets (getPidPath env)) (\<lambda>pidPath.
     modify (removePid pidPath)))"

section \<open>SessionServerApp\<close>

text \<open>\<open>taskScheduler\<close> is the instance that \<open>TASK_SCHEDULER\<close> names; \<open>app_tasks\<close> what was scheduled with it.\<close>

datatype app_task = ConsoleTask | PingTask

record ('c, 'a) session_app = server_app +
  ioContextTaskMap :: "string \<rightharpoonup> io_context_task"
  taskScheduler :: bool
  app_tasks :: "(app_task \<times> scheduled_task) list"
  rconService :: "rcon_service option"
  app_sessions :: "('c, 'a) session_server option"
  app_callback :: bool
  isWarmedUp :: bool

definition SessionServerApp_new :: "('c, 'a) session_app" where
  "SessionServerApp_new = \<lparr>serviceConfig = ServerConfig_new, logger = None, pidFile = None, ioContextTaskMap = Map.empty,
     taskScheduler = False, app_tasks = [], rconService = None, app_sessions = None, app_callback = False, isWarmedUp = False\<rparr>"

definition setSessionManagerCallback :: "('c, 'a, 'z) session_app_scheme \<Rightarrow> ('c, 'a, 'z) session_app_scheme" where
  "setSessionManagerCallback s = s\<lparr>app_callback := True\<rparr>"

definition getDefaultIoContextName :: string where
  "getDefaultIoContextName = ''default''"

definition getIoContextTask :: "string \<Rightarrow> (('c, 'a, 'z) session_app_scheme, io_context_task) prog" where
  "getIoContextTask ioContextName =
     bind (gets ioContextTaskMap) (\<lambda>m.
     case m ioContextName of
       None \<Rightarrow> throw (RuntimeError (''IoContextTask('' @ ioContextName @ '') NOT FOUND''))
     | Some t \<Rightarrow> ret t)"

text \<open>\<open>emplace\<close> keeps what is there.  The result tells whether the pointer is not null.\<close>

definition addIoContextTask :: "string \<Rightarrow> u16 \<Rightarrow> (('c, 'a, 'z) session_app_scheme, bool) prog" where
  "addIoContextTask ioContextName threadCount =
     (if threadCount = 0 then ret False
      else case IoContextTask_start (unat threadCount) IoContextTask_new of
        (Inl message, t) \<Rightarrow> throw (RuntimeError message)
      | (Inr started, t) \<Rightarrow>
          if \<not> started then ret False
          else bind (modify (\<lambda>s. s\<lparr>ioContextTaskMap := (case ioContextTaskMap s ioContextName of
                 None \<Rightarrow> (ioContextTaskMap s)(ioContextName \<mapsto> t) | Some _ \<Rightarrow> ioContextTaskMap s)\<rparr>)) (\<lambda>_. ret True))"

definition initDefaultIoContextTask :: "('c, 'a) app_env \<Rightarrow> (('c, 'a, 'z) session_app_scheme, bool) prog" where
  "initDefaultIoContextTask env = addIoContextTask getDefaultIoContextName (workerThreadCount (ae_spec env))"

definition ServerSideSessionManager_new :: "('c, 'a) app_env \<Rightarrow> bool \<Rightarrow> ('c, 'a) session_server" where
  "ServerSideSessionManager_new env callback =
     \<lparr>sessionManager = CachedSessionManager_new 0 callback (ae_heap env), impls = ae_impls env, sessionAcceptors = [], accepts = []\<rparr>"

definition initDefaultSessionManager :: "('c, 'a) app_env \<Rightarrow> (('c, 'a, 'z) session_app_scheme, bool) prog" where
  "initDefaultSessionManager env =
     (if \<not> ae_useDefaultSessionManager env then ret True
      else if \<not> ServerSpec_isValid (ae_spec env) then ret True
      else
        bind (getIoContextTask getDefaultIoContextName) (\<lambda>_.
        bind (gets app_callback) (\<lambda>callback.
        case ServerSideSessionManager_initialize (unat (sessionPoolSize (ae_spec env))) callback (ae_heap env)
            (ServerSideSessionManager_new env callback) of
          (ok, w) \<Rightarrow> bind (modify (\<lambda>s. s\<lparr>app_sessions := Some w\<rparr>)) (\<lambda>_. ret ok))))"

definition initTaskScheduler :: "(('c, 'a, 'z) session_app_scheme, bool) prog" where
  "initTaskScheduler =
     bind (getIoContextTask getDefaultIoContextName) (\<lambda>_.
     bind (modify (\<lambda>s. s\<lparr>taskScheduler := True\<rparr>)) (\<lambda>_.
     ret True))"

definition registerRconQuerySource :: "string \<Rightarrow> nat \<Rightarrow> ('c, 'a, 'z) session_app_scheme \<Rightarrow> ('c, 'a, 'z) session_app_scheme" where
  "registerRconQuerySource name counterSource s =
     s\<lparr>rconService := map_option (registerQuerySource name counterSource) (rconService s)\<rparr>"

definition registerRconCommand :: "string \<Rightarrow> nat \<Rightarrow> ('c, 'a, 'z) session_app_scheme \<Rightarrow> ('c, 'a, 'z) session_app_scheme" where
  "registerRconCommand name command s = s\<lparr>rconService := map_option (registerCommand name command) (rconService s)\<rparr>"

text \<open>The application is the source \<open>0\<close>.\<close>

definition initRconService :: "('c, 'a) app_env \<Rightarrow> (('c, 'a, 'z) session_app_scheme, bool) prog" where
  "initRconService env =
     (let port = monitorPort (ae_spec env) in
      if port = 0 then ret True
      else
        bind (gets taskScheduler) (\<lambda>hasScheduler.
        case Service_start (ae_listens env) hasScheduler port Service_new of
          (Inl e, console) \<Rightarrow> bind (modify (\<lambda>s. s\<lparr>rconService := Some console\<rparr>)) (\<lambda>_. throw e)
        | (Inr (started, scheduled), console) \<Rightarrow>
            bind (modify (\<lambda>s. s\<lparr>rconService := Some console, app_tasks := app_tasks s @ map (Pair ConsoleTask) scheduled\<rparr>)) (\<lambda>_.
            if \<not> started then ret False
            else
              bind (modify (registerRconQuerySource ''session.count'' 0)) (\<lambda>_.
              bind (modify (registerRconQuerySource ''session.total.count'' 0)) (\<lambda>_.
              ret True)))))"

definition SessionServerApp_query :: "('c, 'a, 'z) session_app_scheme \<Rightarrow> string \<Rightarrow> byte list" where
  "SessionServerApp_query s name =
     (case app_sessions s of
        None \<Rightarrow> []
      | Some w \<Rightarrow>
          if name = ''session.count'' then dec_digits (ServerSideSessionManager_getActiveSessionCount w)
          else if name = ''session.total.count'' then dec_digits (ServerSideSessionManager_getTotalSessionCount w)
          else [])"

definition SessionServerApp_isValidated :: "('c, 'a, 'z) session_app_scheme \<Rightarrow> bool" where
  "SessionServerApp_isValidated s \<longleftrightarrow> isWarmedUp s"

definition SessionServerApp_onInit :: "('c, 'a) app_env \<Rightarrow> (('c, 'a, 'z) session_app_scheme, bool) prog" where
  "SessionServerApp_onInit env =
     bind (ServerApp_onInit env) (\<lambda>ok.
     if \<not> ok then ret False
     else bind (initDefaultIoContextTask env) (\<lambda>ok.
     if \<not> ok then ret False
     else bind (initDefaultSessionManager env) (\<lambda>ok.
     if \<not> ok then ret False
     else bind initTaskScheduler (\<lambda>ok.
     if \<not> ok then ret False
     else bind (initRconService env) (\<lambda>ok.
     if \<not> ok then ret False
     else ret True)))))"

definition SessionServerApp_onStart :: "('c, 'a) app_env \<Rightarrow> (('c, 'a, 'z) session_app_scheme, bool) prog" where
  "SessionServerApp_onStart env =
     bind (modify (\<lambda>s. s\<lparr>isWarmedUp := True\<rparr>)) (\<lambda>_.
     bind (gets app_sessions) (\<lambda>sessions.
     case sessions of
       None \<Rightarrow> ret True
     | Some w \<Rightarrow>
         zoom (\<lambda>_. w) (\<lambda>w s. s\<lparr>app_sessions := Some w\<rparr>)
           (ServerSideSessionManager_startSessionAcceptor (ae_resolve env) (listeningAddresses (ae_spec env)))))"

definition SessionServerApp_onFinish :: "('c, 'a) app_env \<Rightarrow> (('c, 'a, 'z) session_app_scheme, unit) prog" where
  "SessionServerApp_onFinish env =
     bind (modify (\<lambda>s. s\<lparr>app_sessions := map_option (\<lambda>w. ae_wait env (ServerSideSessionManager_finalize w)) (app_sessions s)\<rparr>)) (\<lambda>_.
     modify (\<lambda>s. s\<lparr>ioContextTaskMap := (\<lambda>name. map_option IoContextTask_stop (ioContextTaskMap s name))\<rparr>))"

definition SessionServerApp :: "('c, 'a) app_env \<Rightarrow> ('c, 'a, 'z) session_app_scheme app_virtuals" where
  "SessionServerApp env = \<lparr>onInit = SessionServerApp_onInit env, onStart = SessionServerApp_onStart env,
     onFinish = SessionServerApp_onFinish env\<rparr>"

section \<open>Databases\<close>

datatype database_manager = DirectDatabaseManager database_pool | ProxyDatabaseManager nat

record ('c, 'a) proxy_app = "('c, 'a) session_app" +
  proxyDatabaseManager :: "database_manager option"
  databaseProxyService :: database_proxy_service

definition database_config :: "(ptree, 'b) prog \<Rightarrow> ('z server_app_scheme, 'b) prog" where
  "database_config m = on_config (on_reader m)"

text \<open>The result is whether it succeeded, and the pool.\<close>

definition DirectDatabaseManager_initialize ::
    "('c, 'a) app_env \<Rightarrow> nat \<Rightarrow> (('c, 'a, 'z) session_app_scheme, bool \<times> database_pool) prog" where
  "DirectDatabaseManager_initialize env pingInterval =
     bind (database_config (ConfigReader_getNumeric (ae_lexical_cast env) ''database'' ''connection-count'')) (\<lambda>connectionCount.
     case DatabasePool_open (map (ae_database env) [0..<connectionCount]) DatabasePool_new of
       (opened, p) \<Rightarrow>
         if \<not> opened then ret (False, p)
         else bind (gets taskScheduler) (\<lambda>hasScheduler.
         if \<not> hasScheduler then ret (True, p)
         else if 0 < pingInterval then
           bind (modify (\<lambda>s. s\<lparr>app_tasks := app_tasks s @ [(PingTask, scheduleTimedTask pingInterval pingInterval)]\<rparr>)) (\<lambda>_.
           ret (True, p))
         else ret (True, p)))"

text \<open>The task pings the idle connections.\<close>

definition DirectDatabaseManager_run :: "database_pool \<Rightarrow> database_pool" where
  "DirectDatabaseManager_run p = DatabasePool_enumerateIdleDatabases p"

definition ProxyDatabaseManager_initialize :: "('c, 'a) app_env \<Rightarrow> ('s, bool \<times> nat) prog" where
  "ProxyDatabaseManager_initialize env = (case ae_proxy_database env of (database, opened) \<Rightarrow> ret (opened, database))"

text \<open>The other virtual functions of the two managers.\<close>

definition DatabaseManager_acquire :: "database_manager \<Rightarrow> nat option \<times> database_manager" where
  "DatabaseManager_acquire m =
     (case m of
        DirectDatabaseManager p \<Rightarrow> (case DatabasePool_acquire p of (db, p) \<Rightarrow> (db, DirectDatabaseManager p))
      | ProxyDatabaseManager database \<Rightarrow> (Some database, m))"

definition DatabaseManager_release :: "nat \<Rightarrow> database_manager \<Rightarrow> database_manager" where
  "DatabaseManager_release db m =
     (case m of
        DirectDatabaseManager p \<Rightarrow> DirectDatabaseManager (DatabasePool_release db p)
      | ProxyDatabaseManager database \<Rightarrow> m)"

definition catch_undefined :: "('s, nat) prog \<Rightarrow> ('s, nat) prog" where
  "catch_undefined m = try_catch m (\<lambda>e. case e of NotDefinedConfigError section key \<Rightarrow> ret 0 | _ \<Rightarrow> throw e)"

definition DatabaseManagerFactory_create :: "('c, 'a) app_env \<Rightarrow> (('c, 'a, 'z) session_app_scheme, database_manager option) prog" where
  "DatabaseManagerFactory_create env =
     bind (database_config (IniFileConfigReader_getString ''database'' ''connection-type'')) (\<lambda>connectionType.
     if connectionType \<noteq> ''direct'' \<and> connectionType \<noteq> ''proxy'' then ret None
     else
       bind (catch_undefined (database_config (ConfigReader_getNumeric (ae_lexical_cast env) ''database'' ''ping-interval''))) (\<lambda>pingInterval.
       if connectionType = ''direct'' then
         bind (DirectDatabaseManager_initialize env pingInterval) (\<lambda>(ok, p).
         ret (if \<not> ok then None else Some (DirectDatabaseManager p)))
       else
         bind (ProxyDatabaseManager_initialize env) (\<lambda>(ok, database).
         ret (if \<not> ok then None else Some (ProxyDatabaseManager database)))))"

section \<open>BaseDatabaseProxyServerApp\<close>

definition BaseDatabaseProxyServerApp_new :: "('c, 'a) proxy_app" where
  "BaseDatabaseProxyServerApp_new = session_app.extend SessionServerApp_new
     \<lparr>proxyDatabaseManager = None,
      databaseProxyService = \<lparr>serverCertificate = [], schedulerThreadCount = 0, scheduler = None\<rparr>\<rparr>"

definition initDatabaseManager :: "('c, 'a) app_env \<Rightarrow> (('c, 'a) proxy_app, bool) prog" where
  "initDatabaseManager env =
     bind (DatabaseManagerFactory_create env) (\<lambda>manager.
     bind (modify (\<lambda>s. s\<lparr>proxyDatabaseManager := manager\<rparr>)) (\<lambda>_.
     ret (manager \<noteq> None)))"

definition SneDatabaseProxyService_initialize :: "server_spec \<Rightarrow> database_proxy_service \<Rightarrow> bool \<times> database_proxy_service" where
  "SneDatabaseProxyService_initialize c2sSpec s =
     DatabaseProxyService_initialize (s\<lparr>serverCertificate := certificate c2sSpec,
       schedulerThreadCount := unat (workerThreadCount c2sSpec)\<rparr>)"

definition initDatabaseProxyService :: "('c, 'a) app_env \<Rightarrow> (('c, 'a) proxy_app, bool) prog" where
  "initDatabaseProxyService env =
     bind (gets (\<lambda>s. SneDatabaseProxyService_initialize (ae_spec env) (databaseProxyService s))) (\<lambda>(ok, proxyService).
     bind (modify (\<lambda>s. s\<lparr>databaseProxyService := proxyService\<rparr>)) (\<lambda>_.
     ret ok))"

definition finishDatabaseProxyService :: "('c, 'a) proxy_app \<Rightarrow> ('c, 'a) proxy_app" where
  "finishDatabaseProxyService s = s\<lparr>databaseProxyService := DatabaseProxyService_finalize (databaseProxyService s)\<rparr>"

text \<open>Nothing calls this function.\<close>

definition initMonitorService :: "('c, 'a) proxy_app \<Rightarrow> bool \<times> ('c, 'a) proxy_app" where
  "initMonitorService s = (True, registerRconQuerySource ''process.count'' 0
     (registerRconQuerySource ''request.count'' 0 (registerRconQuerySource ''queue.count'' 0 s)))"

definition BaseDatabaseProxyServerApp_onInit :: "('c, 'a) app_env \<Rightarrow> (('c, 'a) proxy_app, bool) prog" where
  "BaseDatabaseProxyServerApp_onInit env =
     bind (initDatabaseManager env) (\<lambda>ok.
     if \<not> ok then ret False
     else bind (SessionServerApp_onInit env) (\<lambda>ok.
     if \<not> ok then ret False
     else bind (initDatabaseProxyService env) (\<lambda>ok.
     if \<not> ok then ret False
     else ret True)))"

definition BaseDatabaseProxyServerApp_onStart :: "('c, 'a) app_env \<Rightarrow> (('c, 'a) proxy_app, bool) prog" where
  "BaseDatabaseProxyServerApp_onStart env =
     bind (SessionServerApp_onStart env) (\<lambda>started.
     if \<not> started then ret False else ret True)"

definition BaseDatabaseProxyServerApp_onFinish :: "('c, 'a) app_env \<Rightarrow> (('c, 'a) proxy_app, unit) prog" where
  "BaseDatabaseProxyServerApp_onFinish env =
     bind (SessionServerApp_onFinish env) (\<lambda>_.
     modify finishDatabaseProxyService)"

definition BaseDatabaseProxyServerApp :: "('c, 'a) app_env \<Rightarrow> ('c, 'a) proxy_app app_virtuals" where
  "BaseDatabaseProxyServerApp env = \<lparr>onInit = BaseDatabaseProxyServerApp_onInit env,
     onStart = BaseDatabaseProxyServerApp_onStart env, onFinish = BaseDatabaseProxyServerApp_onFinish env\<rparr>"

text \<open>\<open>query\<close> as the remote console calls it.\<close>

definition proxy_app_query :: "nat \<Rightarrow> string \<Rightarrow> string \<Rightarrow> (('c, 'a) proxy_app, byte list) prog" where
  "proxy_app_query this name detail =
     bind (gets SessionServerApp_query) (\<lambda>base.
     zoom databaseProxyService (\<lambda>d s. s\<lparr>databaseProxyService := d\<rparr>) (BaseDatabaseProxyServerApp_query base name))"

section \<open>How applications end\<close>

text \<open>Operations on the configuration, and what does not depend on it.\<close>

lemma ends_config:
  assumes "ends C m D X" and "\<And>s c. P (s\<lparr>serviceConfig := c\<rparr>) = P s"
  shows "ends (\<lambda>s. P s \<and> C (serviceConfig s)) (on_config m) (\<lambda>x s. P s \<and> D x (serviceConfig s)) (\<lambda>s. P s \<and> X (serviceConfig s))"
proof (rule endsI)
  fix s x s'
  assume "P s \<and> C (serviceConfig s)" and "on_config m s = (Inr x, s')"
  then show "P s' \<and> D x (serviceConfig s')"
    using endsD(1) [OF assms(1)] by (auto simp: on_config_def zoom_def assms(2) split: prod.splits)
next
  fix s e s'
  assume "P s \<and> C (serviceConfig s)" and "on_config m s = (Inl e, s')"
  then show "(P s' \<and> X (serviceConfig s')) \<and> (\<forall>u. e \<noteq> UndefinedBehaviour u)"
    using endsD(2,3) [OF assms(1)] by (fastforce simp: on_config_def zoom_def assms(2) split: prod.splits)
qed

lemma ends_parse: "ends (\<lambda>_. True) (ServerConfig_parse env args) (\<lambda>ok c. ok \<longrightarrow> configReader c \<noteq> None) (\<lambda>_. True)"
proof (rule endsI)
  fix s x s'
  assume "ServerConfig_parse env args s = (Inr x, s')"
  then show "x \<longrightarrow> configReader s' \<noteq> None" by (metis parse_ok option.distinct(1))
next
  fix s e s'
  assume "ServerConfig_parse env args s = (Inl e, s')"
  then show "True \<and> (\<forall>u. e \<noteq> UndefinedBehaviour u)" using parse_defined [of env args s] by auto
qed

lemma ends_reader:
  "ends (\<lambda>c. configReader c \<noteq> None) (on_reader (IniFileConfigReader_getString section key)) (\<lambda>_ c. configReader c \<noteq> None)
     (\<lambda>c. configReader c \<noteq> None)"
  "ends (\<lambda>c. configReader c \<noteq> None) (on_reader (ConfigReader_getNumeric lc section key)) (\<lambda>_ c. configReader c \<noteq> None)
     (\<lambda>c. configReader c \<noteq> None)"
  by (auto simp: ends_def on_reader_def ConfigReader_getNumeric_def IniFileConfigReader_getString_def bind_def prog_defs
      split: option.splits)

abbreviation readable :: "'z server_app_scheme \<Rightarrow> bool" where
  "readable s \<equiv> configReader (serviceConfig s) \<noteq> None"

lemmas ends_getString = ends_config [OF ends_reader(1)]
lemmas ends_getNumeric = ends_config [OF ends_reader(2)]

lemma ends_initLogger:
  assumes "\<And>s c. P (s\<lparr>serviceConfig := c\<rparr>) = P s" and "\<And>s l. P (s\<lparr>logger := l\<rparr>) = P s"
  shows "ends (\<lambda>s. P s \<and> readable s) (initLogger env) (\<lambda>_ s. P s \<and> readable s) (\<lambda>s. P s \<and> readable s)"
  unfolding initLogger_def
proof (intro ends_bind [OF ends_getString [OF assms(1)]] ends_gets_bind)
  fix filePattern logFilePath
  show "ends (\<lambda>s. (P s \<and> readable s) \<and> logFilePath = getLogDir (ae_config env) (serviceConfig s) @ ''/'' @
        serviceName (serviceConfig s) @ filePattern)
      (bind (on_config (on_reader (ConfigReader_getNumeric (ae_lexical_cast env) ''log'' ''rotation-size''))) (\<lambda>logRotationSize.
       bind (on_config (on_reader (IniFileConfigReader_getString ''log'' ''severity-level''))) (\<lambda>severityLevel.
       modify (\<lambda>s. s\<lparr>logger := Some (logFilePath, logRotationSize, severityLevel)\<rparr>))))
      (\<lambda>_ s. P s \<and> readable s) (\<lambda>s. P s \<and> readable s)"
    by (rule ends_weaken [OF ends_bind [OF ends_getNumeric [OF assms(1)] ends_bind [OF ends_getString [OF assms(1)]]]])
      (auto simp: assms(2))
qed

section \<open>The contract of an application\<close>

text \<open>What a class derived from \<open>ServerApp\<close> promises: states in which it has not been initialized, is initialized,
  serves, has failed, is finished.\<close>

locale application =
  fixes V :: "'z server_app_scheme app_virtuals" and env :: "('c, 'a) app_env"
    and before inited serving failed finished :: "'z server_app_scheme \<Rightarrow> bool"
  assumes frame: "before (s\<lparr>serviceConfig := c\<rparr>) = before s" "before (s\<lparr>logger := l\<rparr>) = before s"
    and fails: "before s \<Longrightarrow> failed s"
    and init: "ends (\<lambda>s. before s \<and> readable s) (onInit V) (\<lambda>ok s. if ok then inited s else failed s) failed"
    and start: "ends inited (onStart V) (\<lambda>ok s. if ok then serving s else failed s) failed"
    and finish: "ends failed (onFinish V) (\<lambda>_. finished) (\<lambda>_. False)"
begin

lemma setup_ends: "ends before (ServerApp_setup V env args) (\<lambda>ok s. ok \<and> serving s) failed"
  unfolding ServerApp_setup_def
proof (rule ends_bind)
  show "ends before (on_config (ServerConfig_parse (ae_config env) args)) (\<lambda>ok s. before s \<and> (ok \<longrightarrow> readable s)) failed"
    by (rule ends_weaken [OF ends_config [OF ends_parse, of before]]) (simp_all add: frame fails)
  fix parsed
  have "ends (\<lambda>s. before s \<and> readable s) (bind (initLogger env) (\<lambda>_. bind (onInit V) (\<lambda>ok.
     if \<not> ok then throw (RuntimeError ''Failed to ServerApp::onInit().'')
     else bind (onStart V) (\<lambda>started.
     if \<not> started then throw (RuntimeError ''Failed to ServerApp::onStart().'')
     else ret True)))) (\<lambda>ok s. ok \<and> serving s) failed" (is "ends _ (bind _ ?f) _ _")
  proof (rule ends_bind)
    show "ends (\<lambda>s. before s \<and> readable s) (initLogger env) (\<lambda>_ s. before s \<and> readable s) failed"
      by (rule ends_weaken [OF ends_initLogger [of before]]) (simp_all add: frame fails)
    show "ends (\<lambda>s. before s \<and> readable s) (?f x) (\<lambda>ok s. ok \<and> serving s) failed" for x
      by (rule ends_bind [OF init]) (auto intro: ends_bind [OF start])
  qed
  then show "ends (\<lambda>s. before s \<and> (parsed \<longrightarrow> readable s)) (if \<not> parsed then throw (RuntimeError ''Failed to parse config.'')
     else bind (initLogger env) ?f) (\<lambda>ok s. ok \<and> serving s) failed"
    by (simp add: fails)
qed

text \<open>\<open>initialize\<close> returns in every case; it succeeds with a server that serves, whose process file is written if that
  is possible, or fails with everything finished.\<close>

lemma initialize_ends:
  "ends before (ServerApp_initialize V env args)
     (\<lambda>ok s. if ok then \<exists>s'. serving s' \<and> s = writePid env (getPidPath env s') s' else finished s) (\<lambda>_. False)"
  unfolding ServerApp_initialize_def
proof (rule ends_bind [where R = "\<lambda>ok s. if ok then serving s else finished s"])
  show "ends before (try_catch (ServerApp_setup V env args) (\<lambda>e. bind (onFinish V) (\<lambda>_. ret False)))
     (\<lambda>ok s. if ok then serving s else finished s) (\<lambda>_. False)"
  proof (rule ends_try)
    show "ends before (ServerApp_setup V env args) (\<lambda>ok s. if ok then serving s else finished s) failed"
      by (rule ends_weaken [OF setup_ends]) auto
    show "ends failed (bind (onFinish V) (\<lambda>_. ret False)) (\<lambda>ok s. if ok then serving s else finished s) (\<lambda>_. False)" for e
      by (rule ends_bind [OF finish]) simp
  qed
  show "ends (\<lambda>s. if ok then serving s else finished s) (if \<not> ok then ret False
     else bind (gets (getPidPath env)) (\<lambda>pidPath. bind (modify (writePid env pidPath)) (\<lambda>_. ret True)))
     (\<lambda>ok s. if ok then \<exists>s'. serving s' \<and> s = writePid env (getPidPath env s') s' else finished s) (\<lambda>_. False)" for ok
    by (cases ok) (auto simp: ends_def bind_def prog_defs)
qed

lemma initialize_True:
  assumes "before s" and "ServerApp_initialize V env args s = (Inr True, t)"
  obtains s' where "serving s'" and "t = writePid env (getPidPath env s') s'"
  using endsD(1) [OF initialize_ends assms] that by auto

lemma initialize_run:
  assumes "before s"
  obtains s' where "ServerApp_initialize V env args s = (Inr True, writePid env (getPidPath env s') s')" and "serving s'"
    | s' where "ServerApp_initialize V env args s = (Inr False, s')" and "finished s'"
proof -
  obtain r t where r: "ServerApp_initialize V env args s = (r, t)" by fastforce
  with endsD [OF initialize_ends assms, of args] that show thesis
    by (cases r) (fastforce split: if_splits)+
qed

end

section \<open>SessionServerApp meets the contract\<close>

definition env_ok :: "('c, 'a) app_env \<Rightarrow> bool" where
  "env_ok env \<longleftrightarrow> session_heap_inv (ae_heap env) \<and> (\<forall>a. \<not> socketOpen (ae_impls env a))"

definition site_ok :: "('c, 'a) session_server \<Rightarrow> bool" where
  "site_ok w \<longleftrightarrow> accounted w \<and> covered w \<and> (\<forall>a. \<not> socketOpen (impls w a))"

definition app_new :: "('c, 'a) app_env \<Rightarrow> ('c, 'a, 'z) session_app_scheme \<Rightarrow> bool" where
  "app_new env s \<longleftrightarrow> env_ok env \<and> pidFile s = None \<and> ioContextTaskMap s = Map.empty \<and> \<not> taskScheduler s \<and> app_tasks s = [] \<and>
     rconService s = None \<and> app_sessions s = None"

text \<open>The console of a server that is initialized.\<close>

definition console_of :: "('c, 'a) app_env \<Rightarrow> rcon_service option" where
  "console_of env = (if monitorPort (ae_spec env) = 0 then None
     else Some \<lparr>rcon_isRunning = True, querySourceMap = [''session.count'' \<mapsto> 0, ''session.total.count'' \<mapsto> 0],
       commandMap = Map.empty\<rparr>)"

definition app_ready :: "('c, 'a) app_env \<Rightarrow> ('c, 'a, 'z) session_app_scheme \<Rightarrow> bool" where
  "app_ready env s \<longleftrightarrow> pidFile s = None \<and> rconService s = console_of env \<and> fst ` set (app_tasks s) \<subseteq> {ConsoleTask} \<and>
     (app_sessions s \<noteq> None \<longleftrightarrow> ae_useDefaultSessionManager env \<and> ServerSpec_isValid (ae_spec env)) \<and>
     (\<forall>w. app_sessions s = Some w \<longrightarrow> site_ok w)"

definition app_inited :: "('c, 'a) app_env \<Rightarrow> ('c, 'a, 'z) session_app_scheme \<Rightarrow> bool" where
  "app_inited env s \<longleftrightarrow> app_ready env s \<and> (\<forall>w. app_sessions s = Some w \<longrightarrow> accepts w = [])"

definition app_serving :: "('c, 'a) app_env \<Rightarrow> ('c, 'a, 'z) session_app_scheme \<Rightarrow> bool" where
  "app_serving env s \<longleftrightarrow> app_ready env s \<and> isWarmedUp s \<and> (\<forall>w. app_sessions s = Some w \<longrightarrow> length (sessionAcceptors w) =
     length (toSocketAddresses (listeningAddresses (ae_spec env)) (listeningPort (ae_spec env))))"

definition app_failed :: "('c, 'a, 'z) session_app_scheme \<Rightarrow> bool" where
  "app_failed s \<longleftrightarrow> pidFile s = None \<and> fst ` set (app_tasks s) \<subseteq> {ConsoleTask} \<and> (\<forall>w. app_sessions s = Some w \<longrightarrow> site_ok w)"

definition app_finished :: "('c, 'a) app_env \<Rightarrow> ('c, 'a, 'z) session_app_scheme \<Rightarrow> bool" where
  "app_finished env s \<longleftrightarrow> pidFile s = None \<and> fst ` set (app_tasks s) \<subseteq> {ConsoleTask} \<and>
     (\<forall>t \<in> ran (ioContextTaskMap s). io_stopped t) \<and>
     (\<forall>w'. app_sessions s = Some w' \<longrightarrow> (\<exists>w. site_ok w \<and> w' = ae_wait env (ServerSideSessionManager_finalize w)))"

lemmas app_defs = app_new_def app_ready_def app_inited_def app_serving_def app_failed_def app_finished_def

text \<open>A manager that was just initialized.\<close>

lemma new_site_ok:
  assumes "env_ok env" and "ServerSideSessionManager_initialize n callback (ae_heap env) (ServerSideSessionManager_new env callback) = (ok, w)"
  shows "ok \<and> site_ok w \<and> accepts w = []"
proof -
  have w: "w = \<lparr>sessionManager = CachedSessionManager_initialize (CachedSessionManager_new n callback (ae_heap env)),
      impls = ae_impls env, sessionAcceptors = [], accepts = []\<rparr>"
    using assms(2) by (simp add: ServerSideSessionManager_initialize_def ServerSideSessionManager_new_def)
  have "fresh_server w"
    unfolding fresh_server_def w using assms(1) [unfolded env_ok_def]
    by (intro conjI exI [of _ n] exI [of _ callback] exI [of _ "ae_heap env"]) simp_all
  with fresh_accounted [OF this] assms show ?thesis
    by (auto simp: site_ok_def env_ok_def fresh_server_def ServerSideSessionManager_initialize_def)
qed

text \<open>Starting the acceptors opens no session, and makes one acceptor for every address.\<close>

lemma accept_keeps:
  assumes "IoContextAcceptor_accept i j w = (Inr (), w')"
  shows "impls w' = impls w \<and> sessionAcceptors w' = sessionAcceptors w"
  using assms by (auto simp: IoContextAcceptor_accept_def bind_def zoom_def prog_defs split: prod.splits sum.splits option.splits)

lemma accept_all_keeps:
  "accept_all i js w = (Inr (), w') \<Longrightarrow> impls w' = impls w \<and> sessionAcceptors w' = sessionAcceptors w"
proof (induction js arbitrary: w)
  case (Cons j js)
  from Cons.prems obtain t where "IoContextAcceptor_accept i j w = (Inr (), t)" "accept_all i js t = (Inr (), w')"
    by (auto elim: bind_InrE)
  with Cons.IH accept_keeps show ?case by metis
qed (simp add: skip_def)

lemma createSessionAcceptor_keeps:
  assumes "createSessionAcceptor eps w = (Inr r, w')"
  shows "impls w' = impls w \<and> sessionAcceptors w' = sessionAcceptors w"
  using assms unfolding createSessionAcceptor_def IoContextAcceptor_open_def
  by (auto simp: Let_def ret_def gets_def IoContextAcceptor_new_def elim!: bind_InrE dest!: accept_all_keeps
      split: if_splits option.splits)

lemma loop_keeps:
  assumes "startSessionAcceptor_loop resolve addresses w = (Inr b, w')"
  shows "impls w' = impls w \<and> (b \<longrightarrow> length (sessionAcceptors w') = length (sessionAcceptors w) + length (toSocketAddresses addresses p))"
  using assms
proof (induction addresses arbitrary: w)
  case (Cons address addresses)
  show ?case
  proof (cases "address = []")
    case False
    with Cons.prems obtain r t where t: "createSessionAcceptor (resolve address) w = (Inr r, t)"
      "(case r of None \<Rightarrow> ret False | Some acceptor \<Rightarrow> bind (modify (\<lambda>w. w\<lparr>sessionAcceptors := sessionAcceptors w @ [acceptor]\<rparr>))
         (\<lambda>_. startSessionAcceptor_loop resolve addresses)) t = (Inr b, w')" by (auto elim: bind_InrE)
    with Cons.IH createSessionAcceptor_keeps [OF t(1)] False show ?thesis
      by (cases r) (fastforce simp: ret_def bind_modify)+
  qed (use Cons in simp)
qed (simp add: ret_def)

lemma start_site_ok:
  assumes "site_ok w" and "accepts w = []"
  obtains b w' where "ServerSideSessionManager_startSessionAcceptor resolve addresses w = (Inr b, w')" and "site_ok w'"
    and "b \<longrightarrow> length (sessionAcceptors w') = length (toSocketAddresses addresses p)"
proof -
  let ?w = "w\<lparr>sessionAcceptors := []\<rparr>"
  have "accounted ?w" "covered ?w" using assms by (simp_all add: site_ok_def accounted_def covered_def)
  from loop_covered [OF this] obtain b w' where loop: "startSessionAcceptor_loop resolve addresses ?w = (Inr b, w')"
    "accounted w'" "covered w'" by blast
  have run: "ServerSideSessionManager_startSessionAcceptor resolve addresses w = (Inr b, w')"
    using loop(1) assms(2) by (simp add: ServerSideSessionManager_startSessionAcceptor_def bind_gets bind_modify)
  show thesis
    by (rule that [OF run]) (use loop loop_keeps [OF loop(1), of p] assms(1) in \<open>simp_all add: site_ok_def\<close>)
qed

text \<open>The stages of \<open>onInit\<close>.\<close>

definition app_stage :: "('c, 'a) app_env \<Rightarrow> bool \<Rightarrow> ('c, 'a, 'z) session_app_scheme \<Rightarrow> bool" where
  "app_stage env created s \<longleftrightarrow> env_ok env \<and> pidFile s = None \<and> ioContextTaskMap s getDefaultIoContextName \<noteq> None \<and>
     app_tasks s = [] \<and> rconService s = None \<and>
     (app_sessions s \<noteq> None \<longleftrightarrow> created \<and> ae_useDefaultSessionManager env \<and> ServerSpec_isValid (ae_spec env)) \<and>
     (\<forall>w. app_sessions s = Some w \<longrightarrow> site_ok w \<and> accepts w = [])"

lemma stage_failed: "app_new env s \<Longrightarrow> app_failed s" "app_stage env created s \<Longrightarrow> app_failed s"
  by (auto simp: app_defs app_stage_def)

lemma ends_onInit: "ends (app_new env) (ServerApp_onInit env) (\<lambda>ok s. ok \<and> app_new env s) app_failed"
  by (auto simp: ends_def ServerApp_onInit_def bind_gets prog_defs stage_failed split: if_splits)

lemma ends_io_task:
  "ends (app_new env) (initDefaultIoContextTask env) (\<lambda>ok s. if ok then app_stage env False s else app_failed s) app_failed"
  by (auto simp: ends_def initDefaultIoContextTask_def addIoContextTask_def IoContextTask_start_def bind_modify
      prog_defs app_defs app_stage_def unat_eq_0 split: if_splits)

lemma ends_manager: "ends (app_stage env False) (initDefaultSessionManager env) (\<lambda>ok s. ok \<and> app_stage env True s) app_failed"
  by (auto simp: ends_def initDefaultSessionManager_def getIoContextTask_def bind_def prog_defs app_stage_def
      dest!: new_site_ok split: if_splits option.splits prod.splits)

lemma ends_scheduler: "ends (app_stage env True) initTaskScheduler (\<lambda>ok s. ok \<and> app_stage env True s \<and> taskScheduler s) app_failed"
  by (auto simp: ends_def initTaskScheduler_def getIoContextTask_def bind_def prog_defs app_stage_def)

lemma ends_console:
  "ends (\<lambda>s. app_stage env True s \<and> taskScheduler s) (initRconService env) (\<lambda>ok s. if ok then app_inited env s else app_failed s) app_failed"
  by (auto simp: ends_def initRconService_def Service_start_def Service_new_def registerRconQuerySource_def
      registerQuerySource_def addQuerySource_def bind_def prog_defs app_stage_def app_defs console_of_def Let_def
      split: if_splits option.splits)

lemma ends_step:
  assumes "ends P m (\<lambda>ok s. if ok then R s else E s) E" and "ends R f (\<lambda>ok s. if ok then Q s else E s) E"
  shows "ends P (bind m (\<lambda>ok. if \<not> ok then ret False else f)) (\<lambda>ok s. if ok then Q s else E s) E"
  by (rule ends_bind [OF assms(1)]) (use assms(2) in simp)

lemma ends_ok: "ends P m (\<lambda>ok s. ok \<and> R s) E \<Longrightarrow> ends P m (\<lambda>ok s. if ok then R s else E s) E"
  by (auto intro: ends_weaken)

lemma session_app_onInit:
  "ends (app_new env) (SessionServerApp_onInit env) (\<lambda>ok s. if ok then app_inited env s else app_failed s) app_failed"
  unfolding SessionServerApp_onInit_def
  by (intro ends_step [OF ends_ok [OF ends_onInit]] ends_step [OF ends_io_task] ends_step [OF ends_ok [OF ends_manager]]
      ends_step [OF ends_ok [OF ends_scheduler]] ends_step [OF ends_console]) simp

lemma session_app_onStart:
  "ends (app_inited env) (SessionServerApp_onStart env) (\<lambda>ok s. if ok then app_serving env s else app_failed s) app_failed"
proof -
  have "\<exists>ok s'. SessionServerApp_onStart env s = (Inr ok, s') \<and> (if ok then app_serving env s' else app_failed s')"
    if inited: "app_inited env s" for s :: "('a, 'b, 'c) session_app_scheme"
  proof (cases "app_sessions s")
    case None
    with inited show ?thesis by (auto simp: SessionServerApp_onStart_def bind_def prog_defs app_defs)
  next
    case (Some w)
    with inited have "site_ok w" "accepts w = []" by (auto simp: app_defs)
    then obtain ok w' where w': "ServerSideSessionManager_startSessionAcceptor (ae_resolve env) (listeningAddresses (ae_spec env)) w = (Inr ok, w')"
      "site_ok w'" "ok \<longrightarrow> length (sessionAcceptors w') = length (toSocketAddresses (listeningAddresses (ae_spec env)) (listeningPort (ae_spec env)))"
      by (rule start_site_ok [where resolve = "ae_resolve env" and addresses = "listeningAddresses (ae_spec env)"
            and p = "listeningPort (ae_spec env)"])
    with Some inited show ?thesis
      by (auto simp: SessionServerApp_onStart_def bind_def prog_defs zoom_def app_defs)
  qed
  then show ?thesis unfolding ends_def by (metis Inl_Inr_False Inr_inject Pair_inject)
qed

lemma session_app_onFinish: "ends app_failed (SessionServerApp_onFinish env) (\<lambda>_. app_finished env) (\<lambda>_. False)"
  by (auto simp: ends_def SessionServerApp_onFinish_def bind_def prog_defs app_defs ran_def IoContextTask_stop_def)

interpretation session_application: application "SessionServerApp env" env "app_new env" "app_inited env" "app_serving env"
    app_failed "app_finished env" for env
proof unfold_locales
  show "ends (\<lambda>s. app_new env s \<and> readable s) (onInit (SessionServerApp env)) (\<lambda>ok s. if ok then app_inited env s else app_failed s) app_failed"
    by (simp add: SessionServerApp_def) (rule ends_weaken [OF session_app_onInit], simp_all)
qed (auto simp: SessionServerApp_def session_app_onStart session_app_onFinish stage_failed app_new_def)

section \<open>BaseDatabaseProxyServerApp meets the contract\<close>

text \<open>The databases are opened while there is no scheduler, so that nothing is scheduled.\<close>

lemma ends_ping_interval:
  "ends (\<lambda>s. app_new env s \<and> readable s) (catch_undefined (database_config (ConfigReader_getNumeric lc section key)))
     (\<lambda>_ s. app_new env s \<and> readable s) app_failed"
  unfolding catch_undefined_def database_config_def
proof (rule ends_try)
  show "ends (\<lambda>s. app_new env s \<and> readable s) (on_config (on_reader (ConfigReader_getNumeric lc section key)))
     (\<lambda>_ s. app_new env s \<and> readable s) (\<lambda>s. app_new env s \<and> readable s)"
    by (rule ends_getNumeric) (simp add: app_new_def)
  show "ends (\<lambda>s. app_new env s \<and> readable s) (case e of NotDefinedConfigError section key \<Rightarrow> ret 0 | _ \<Rightarrow> throw e)
     (\<lambda>_ s. app_new env s \<and> readable s) app_failed" if "\<forall>u. e \<noteq> UndefinedBehaviour u" for e
    using that by (cases e) (auto simp: stage_failed)
qed

lemma ends_direct:
  "ends (\<lambda>s. app_new env s \<and> readable s) (DirectDatabaseManager_initialize env pingInterval) (\<lambda>_. app_new env) app_failed"
  unfolding DirectDatabaseManager_initialize_def database_config_def
proof (rule ends_bind)
  show "ends (\<lambda>s. app_new env s \<and> readable s) (on_config (on_reader (ConfigReader_getNumeric (ae_lexical_cast env) ''database'' ''connection-count'')))
    (\<lambda>_ s. app_new env s \<and> readable s) app_failed"
    by (rule ends_weaken [OF ends_getNumeric [of "app_new env"]]) (auto simp: app_new_def stage_failed)
qed (auto simp: ends_def bind_def prog_defs app_new_def split: prod.splits if_splits)

lemma ends_create:
  "ends (\<lambda>s. app_new env s \<and> readable s) (DatabaseManagerFactory_create env) (\<lambda>_. app_new env) app_failed"
  unfolding DatabaseManagerFactory_create_def
proof (rule ends_bind)
  show "ends (\<lambda>s. app_new env s \<and> readable s) (database_config (IniFileConfigReader_getString ''database'' ''connection-type''))
     (\<lambda>_ s. app_new env s \<and> readable s) app_failed"
    unfolding database_config_def
    by (rule ends_weaken [OF ends_getString [of "app_new env"]]) (auto simp: app_new_def stage_failed)
  show "ends (\<lambda>s. app_new env s \<and> readable s) (if connectionType \<noteq> ''direct'' \<and> connectionType \<noteq> ''proxy'' then ret None
     else
       bind (catch_undefined (database_config (ConfigReader_getNumeric (ae_lexical_cast env) ''database'' ''ping-interval''))) (\<lambda>pingInterval.
       if connectionType = ''direct'' then
         bind (DirectDatabaseManager_initialize env pingInterval) (\<lambda>(ok, p).
         ret (if \<not> ok then None else Some (DirectDatabaseManager p)))
       else
         bind (ProxyDatabaseManager_initialize env) (\<lambda>(ok, database).
         ret (if \<not> ok then None else Some (ProxyDatabaseManager database))))) (\<lambda>_. app_new env) app_failed" for connectionType
    by (intro ends_if ends_bind [OF ends_ping_interval] ends_bind [OF ends_direct])
      (auto simp: ProxyDatabaseManager_initialize_def bind_ret split: prod.split)
qed

lemma ends_databases:
  "ends (\<lambda>s. app_new env s \<and> readable s) (initDatabaseManager env) (\<lambda>ok s. if ok then app_new env s else app_failed s) app_failed"
  unfolding initDatabaseManager_def
  by (rule ends_bind [OF ends_create]) (auto simp: ends_def bind_def prog_defs app_defs)

lemma ends_proxy_service:
  "ends (app_inited env) (initDatabaseProxyService env) (\<lambda>ok s. if ok then app_inited env s else app_failed s) app_failed"
  by (auto simp: ends_def initDatabaseProxyService_def SneDatabaseProxyService_initialize_def DatabaseProxyService_initialize_def
      DatabaseProxyService_initProxyScheduler_def bind_def prog_defs Let_def app_defs)

interpretation proxy_application: application "BaseDatabaseProxyServerApp env" env "app_new env" "app_inited env" "app_serving env"
    app_failed "app_finished env" for env
proof unfold_locales
  show "ends (\<lambda>s. app_new env s \<and> readable s) (onInit (BaseDatabaseProxyServerApp env))
     (\<lambda>ok s. if ok then app_inited env s else app_failed s) app_failed"
    unfolding BaseDatabaseProxyServerApp_def BaseDatabaseProxyServerApp_onInit_def app_virtuals.simps
    by (intro ends_step [OF ends_databases] ends_step [OF session_app_onInit] ends_step [OF ends_proxy_service]) simp
  show "ends (app_inited env) (onStart (BaseDatabaseProxyServerApp env)) (\<lambda>ok s. if ok then app_serving env s else app_failed s) app_failed"
    unfolding BaseDatabaseProxyServerApp_def BaseDatabaseProxyServerApp_onStart_def app_virtuals.simps
    by (rule ends_step [OF session_app_onStart]) simp
  show "ends app_failed (onFinish (BaseDatabaseProxyServerApp env)) (\<lambda>_. app_finished env) (\<lambda>_. False)"
    unfolding BaseDatabaseProxyServerApp_def BaseDatabaseProxyServerApp_onFinish_def app_virtuals.simps
    by (rule ends_bind [OF session_app_onFinish]) (simp add: finishDatabaseProxyService_def app_finished_def)
qed (auto simp: stage_failed app_new_def)

section \<open>Properties\<close>

lemma new_apps: "env_ok env \<Longrightarrow> app_new env SessionServerApp_new" "env_ok env \<Longrightarrow> app_new env BaseDatabaseProxyServerApp_new"
  by (simp_all add: app_new_def SessionServerApp_new_def BaseDatabaseProxyServerApp_new_def session_app.extend_def)

lemma finished_site:
  assumes "site_ok w"
  shows "\<forall>x \<in> set (sessionAcceptors (ServerSideSessionManager_finalize w)). shouldFinish x"
    and "(server_io ops cb refuses)\<^sup>*\<^sup>* (ServerSideSessionManager_finalize w) w' \<Longrightarrow> accepts w' = [] \<Longrightarrow>
      (\<And>a. posted (impls w' a) = []) \<Longrightarrow> isSafeToDelete (sessionManager w')"
proof -
  have closing: "closing (ServerSideSessionManager_finalize w)"
    using assms by (intro finalize_closing) (auto simp: site_ok_def)
  then show "\<forall>x \<in> set (sessionAcceptors (ServerSideSessionManager_finalize w)). shouldFinish x" by (simp add: closing_def)
  show "isSafeToDelete (sessionManager w')" if "(server_io ops cb refuses)\<^sup>*\<^sup>* (ServerSideSessionManager_finalize w) w'"
    "accepts w' = []" "\<And>a. posted (impls w' a) = []"
    using ios_closing [OF that(1) closing] closing_done [of w'] that(2,3) by blast
qed

lemma writePid_fields [simp]:
  "app_sessions (writePid env p s) = app_sessions s" "isWarmedUp (writePid env p s) = isWarmedUp s"
  "rconService (writePid env p s) = rconService s" "app_tasks (writePid env p s) = app_tasks s"
  "serviceConfig (writePid env p s) = serviceConfig s"
  "pidFile (writePid env p s) = (if ae_writable env p then Some p else pidFile s)"
  by (simp_all add: writePid_def)

text \<open>C14: an initialized server serves.  When \<open>initialize\<close> of a server with a valid specification succeeds, it has an
  acceptor for each address of the specification; its validator lets every connection pass, and so,
  whatever its clients do, its sessions stay accounted for and every listening socket waits.  Its
  process file is written if it can be opened, and missing otherwise, which does not make \<open>initialize\<close> fail.\<close>

theorem initialized_server_serves:
  assumes "session_heap_inv (ae_heap env)" and "\<forall>a. \<not> socketOpen (ae_impls env a)"
    and "ae_useDefaultSessionManager env" and "ServerSpec_isValid (ae_spec env)"
    and "ServerApp_initialize (SessionServerApp env) env args SessionServerApp_new = (Inr True, s)"
  shows "\<exists>w. app_sessions s = Some w \<and> pidFile s = (if ae_writable env (getPidPath env s) then Some (getPidPath env s) else None) \<and>
    length (sessionAcceptors w) = length (toSocketAddresses (listeningAddresses (ae_spec env)) (listeningPort (ae_spec env))) \<and>
    (\<forall>w'. (server_step ops cb (\<not> SessionServerApp_isValidated s))\<^sup>*\<^sup>* w w' \<longrightarrow> accounted w' \<and> covered w')"
proof -
  have "app_new env SessionServerApp_new" using assms(1,2) by (simp add: new_apps env_ok_def)
  from session_application.initialize_True [OF this assms(5)]
  obtain s' where s': "app_serving env s'" "s = writePid env (getPidPath env s') s'" .
  then obtain w where w: "app_sessions s = Some w" "site_ok w" "isWarmedUp s" "length (sessionAcceptors w) =
      length (toSocketAddresses (listeningAddresses (ae_spec env)) (listeningPort (ae_spec env)))"
    using assms(3,4) by (auto simp: app_serving_def app_ready_def)
  have "accounted w' \<and> covered w'" if "(server_step ops cb (\<not> SessionServerApp_isValidated s))\<^sup>*\<^sup>* w w'" for w'
    using steps_accounted [of ops cb w w'] that w(2,3) by (simp add: SessionServerApp_isValidated_def site_ok_def)
  with w s' show ?thesis by (simp add: getPidPath_def app_serving_def app_ready_def)
qed

text \<open>C15: a failed initialization undoes itself.  \<open>initialize\<close> returns for every command line, configuration and
  environment, whatever throws inside.  When it returns false, no process file was written, every
  I/O task is stopped, every acceptor was closed, and the sessions that were waiting for connections
  are released as soon as the queued handlers have run.\<close>

theorem failed_initialize_undone:
  assumes "session_heap_inv (ae_heap env)" and "\<forall>a. \<not> socketOpen (ae_impls env a)"
  shows "\<exists>ok s. ServerApp_initialize (SessionServerApp env) env args SessionServerApp_new = (Inr ok, s) \<and>
    (\<not> ok \<longrightarrow> pidFile s = None \<and> (\<forall>t \<in> ran (ioContextTaskMap s). io_stopped t) \<and>
      (\<forall>w. app_sessions s = Some w \<longrightarrow> (\<exists>w\<^sub>1. w = ae_wait env w\<^sub>1 \<and> (\<forall>x \<in> set (sessionAcceptors w\<^sub>1). shouldFinish x) \<and>
        (\<forall>w'. (server_io ops cb refuses)\<^sup>*\<^sup>* w\<^sub>1 w' \<and> accepts w' = [] \<and> (\<forall>a. posted (impls w' a) = []) \<longrightarrow>
          isSafeToDelete (sessionManager w')))))"
proof -
  have "app_new env SessionServerApp_new" using assms by (simp add: new_apps env_ok_def)
  then show ?thesis
  proof (cases rule: session_application.initialize_run [of env _ args, consumes 1])
    case (2 s')
    have "\<exists>w\<^sub>1. w = ae_wait env w\<^sub>1 \<and> (\<forall>x \<in> set (sessionAcceptors w\<^sub>1). shouldFinish x) \<and>
        (\<forall>w'. (server_io ops cb refuses)\<^sup>*\<^sup>* w\<^sub>1 w' \<and> accepts w' = [] \<and> (\<forall>a. posted (impls w' a) = []) \<longrightarrow>
          isSafeToDelete (sessionManager w'))" if "app_sessions s' = Some w" for w
    proof -
      from 2 that obtain w\<^sub>0 where "site_ok w\<^sub>0" "w = ae_wait env (ServerSideSessionManager_finalize w\<^sub>0)"
        by (auto simp: app_finished_def)
      with finished_site [of w\<^sub>0] show ?thesis by blast
    qed
    with 2 show ?thesis by (auto simp: app_finished_def)
  qed auto
qed

text \<open>C20: the connections of a database proxy are never pinged.  The databases are opened before the task scheduler
  exists, so that \<open>initialize\<close> never schedules the task that pings them, whatever interval is configured.\<close>

theorem proxy_server_never_pings:
  assumes "session_heap_inv (ae_heap env)" and "\<forall>a. \<not> socketOpen (ae_impls env a)"
    and "ServerApp_initialize (BaseDatabaseProxyServerApp env) env args BaseDatabaseProxyServerApp_new = (Inr ok, s)"
  shows "PingTask \<notin> fst ` set (app_tasks s)"
proof -
  have "app_new env BaseDatabaseProxyServerApp_new" using assms by (simp add: new_apps env_ok_def)
  then have "fst ` set (app_tasks s) \<subseteq> {ConsoleTask}"
    by (rule proxy_application.initialize_run [where args = args])
      (use assms(3) in \<open>simp_all add: app_serving_def app_ready_def app_finished_def\<close>)
  then show ?thesis by auto
qed

text \<open>The manager of the databases would ask for it if there was a scheduler.\<close>

lemma direct_manager_pings:
  assumes "taskScheduler s" and "0 < pingInterval"
    and "DirectDatabaseManager_initialize env pingInterval s = (Inr (True, p), s')"
  shows "PingTask \<in> fst ` set (app_tasks s')"
  using assms
  by (auto simp: DirectDatabaseManager_initialize_def database_config_def on_config_def zoom_def bind_def prog_defs
      split: prod.splits sum.splits if_splits)

text \<open>C21: the counters of a database proxy cannot be queried.  After a successful \<open>initialize\<close> with a remote
  console, a query of the number of sessions is answered with that number, but the queries of the
  counters that \<open>BaseDatabaseProxyServerApp::query\<close> knows are refused: they were never registered.\<close>

theorem proxy_counters_unreachable:
  assumes "session_heap_inv (ae_heap env)" and "\<forall>a. \<not> socketOpen (ae_impls env a)" and "monitorPort (ae_spec env) \<noteq> 0"
    and "ServerApp_initialize (BaseDatabaseProxyServerApp env) env args BaseDatabaseProxyServerApp_new = (Inr True, s)"
    and "v_IsArray av params" and "v_Size av params = 2" and "v_GetString av (v_at av params 0) = Some name"
    and "v_GetString av (v_at av params 1) = Some detail"
  shows "\<exists>console. rconService s = Some console \<and>
    (name \<in> {''queue.count'', ''request.count'', ''process.count''} \<longrightarrow>
      QueryRpcMethod_Execute av proxy_app_query (querySourceMap console) params result s =
        (Inr (v_set av ''result'' no_query_source result), s)) \<and>
    (name = ''session.count'' \<longrightarrow> (\<forall>w. app_sessions s = Some w \<longrightarrow>
      QueryRpcMethod_Execute av proxy_app_query (querySourceMap console) params result s =
        (Inr (v_of_string av (dec_digits (getActiveSessionCount (sessionManager w)))), s)))"
proof -
  have "app_new env BaseDatabaseProxyServerApp_new" using assms by (simp add: new_apps env_ok_def)
  from proxy_application.initialize_True [OF this assms(4)]
  obtain s' where s': "app_serving env s'" "s = writePid env (getPidPath env s') s'" .
  then have "rconService s = console_of env" by (simp add: app_serving_def app_ready_def)
  with assms(3) show ?thesis
    by (auto simp: console_of_def query_answered [OF assms(5-8)] proxy_app_query_def BaseDatabaseProxyServerApp_query_def
        SessionServerApp_query_def ServerSideSessionManager_getActiveSessionCount_def getSessionCount_def bind_def zoom_def prog_defs)
qed

section \<open>Witnesses\<close>

definition demo_ini :: ptree where
  "demo_ini = map_of [(''service.name'', ''s''), (''log.file-pattern'', ''.log''), (''log.rotation-size'', ''2''),
     (''log.severity-level'', ''info''), (''database.connection-type'', ''direct''), (''database.ping-interval'', ''2''),
     (''database.connection-count'', ''2'')]"

definition demo_config :: config_env where
  "demo_config = \<lparr>ce_current_path = ''/'', ce_options = (\<lambda>_. Some \<lparr>opt_help = False, opt_home = None,
     opt_config = Some ''a'', opt_format = None\<rparr>), ce_canonical = Some, ce_join = (\<lambda>d f. d @ ''/'' @ f), ce_read_ini = (\<lambda>_. Some demo_ini)\<rparr>"

definition demo_spec :: server_spec where
  "demo_spec = ServerSpec_new\<lparr>workerThreadCount := 1, listeningAddresses := [[1]], listeningPort := 7, monitorPort := 8,
     sessionPoolSize := 1, packetCipher := [1]\<rparr>"

definition demo_env :: "(unit, nat) app_env" where
  "demo_env = \<lparr>ae_config = demo_config, ae_lexical_cast = (\<lambda>_. Some 2), ae_directories = (\<lambda>_ _. True), ae_writable = (\<lambda>_. True), ae_spec = demo_spec,
     ae_useDefaultSessionManager = True, ae_resolve = (\<lambda>_. Some [True]), ae_listens = (\<lambda>_. True),
     ae_heap = \<lparr>sh_next = 0, sh_sessions = [], sh_disconnects = []\<rparr>, ae_impls = (\<lambda>_. demo_closed), ae_wait = id,
     ae_database = (\<lambda>n. (n, True)), ae_proxy_database = (7, True)\<rparr>"

lemma demo_env_simps [simp]:
  "ae_config demo_env = demo_config" "ae_lexical_cast demo_env = (\<lambda>_. Some 2)" "ae_directories demo_env = (\<lambda>_ _. True)"
  "ae_spec demo_env = demo_spec" "ae_useDefaultSessionManager demo_env" "ae_resolve demo_env = (\<lambda>_. Some [True])"
  "ae_listens demo_env = (\<lambda>_. True)" "ae_heap demo_env = \<lparr>sh_next = 0, sh_sessions = [], sh_disconnects = []\<rparr>"
  "ae_impls demo_env = (\<lambda>_. demo_closed)" "ae_wait demo_env = id" "ae_database demo_env = (\<lambda>n. (n, True))"
  "workerThreadCount demo_spec = 1" "listeningAddresses demo_spec = [[1]]" "monitorPort demo_spec = 8"
  "sessionPoolSize demo_spec = 1" "ServerSpec_isValid demo_spec" "listeningPort demo_spec = 7"
  by (simp_all add: demo_env_def demo_spec_def ServerSpec_new_def ServerSpec_isValid_def)

lemma demo_env_ok: "session_heap_inv (ae_heap demo_env)" "\<forall>a. \<not> socketOpen (ae_impls demo_env a)"
  by (simp_all add: session_heap_inv_def)

lemma demo_read [simp]:
  "demo_ini ''service.name'' = Some ''s''" "demo_ini ''log.file-pattern'' = Some ''.log''" "demo_ini ''log.rotation-size'' = Some ''2''"
  "demo_ini ''log.severity-level'' = Some ''info''" "demo_ini ''database.connection-type'' = Some ''direct''"
  "demo_ini ''database.ping-interval'' = Some ''2''" "demo_ini ''database.connection-count'' = Some ''2''"
  by (simp_all add: demo_ini_def)

definition demo_parsed :: server_config where
  "demo_parsed = \<lparr>configReader = Some demo_ini, homeDir = ''/'', configFile = ''a'', configReaderType = ''ini'', serviceName = ''s''\<rparr>"

lemma demo_parse: "ServerConfig_parse demo_config args ServerConfig_new = (Inr True, demo_parsed)"
  by (simp add: parse_defs demo_config_def ServerConfig_new_def defaultConfigReader_def demo_parsed_def bind_def prog_defs)

lemma demo_get:
  "on_reader (IniFileConfigReader_getString section key) demo_parsed =
    (case demo_ini (section @ ''.'' @ key) of None \<Rightarrow> (Inl (NotDefinedConfigError section key), demo_parsed) | Some v \<Rightarrow> (Inr v, demo_parsed))"
  "on_reader (ConfigReader_getNumeric (\<lambda>_. Some 2) section key) demo_parsed =
    (case demo_ini (section @ ''.'' @ key) of None \<Rightarrow> (Inl (NotDefinedConfigError section key), demo_parsed) | Some v \<Rightarrow> (Inr 2, demo_parsed))"
  by (simp_all add: on_reader_def ConfigReader_getNumeric_def IniFileConfigReader_getString_def demo_parsed_def bind_def prog_defs
      split: option.split)

lemma demo_manager: "ServerSideSessionManager_initialize (Suc 0) False (ae_heap demo_env) (ServerSideSessionManager_new demo_env False) = (True, demo_site)"
  by (simp add: ServerSideSessionManager_initialize_def ServerSideSessionManager_new_def demo_site_def demo_sessions_def)

lemma demo_listens: "\<exists>w. ServerSideSessionManager_startSessionAcceptor (\<lambda>_. Some [True]) [[1]] demo_site = (Inr True, w)"
proof -
  from demo_acquire obtain m where "CachedSessionManager_acquire demo_sessions = (Inr (Some 0), m)" by blast
  then show ?thesis
    by (simp add: ServerSideSessionManager_startSessionAcceptor_def createSessionAcceptor_def
        IoContextAcceptor_open_def IoContextAcceptor_new_def IoContextAcceptor_accept_def demo_site_def bind_def zoom_def
        prog_defs Let_def)
qed

lemma demo_logger:
  "\<exists>l. initLogger demo_env (s\<lparr>serviceConfig := demo_parsed\<rparr>) = (Inr (), s\<lparr>serviceConfig := demo_parsed, logger := l\<rparr>)"
  by (simp add: initLogger_def on_config_def zoom_def bind_def demo_get prog_defs) blast

lemma demo_onInit:
  assumes "ioContextTaskMap s = Map.empty" and "\<not> app_callback s"
  shows "\<exists>s'. SessionServerApp_onInit demo_env s = (Inr True, s') \<and> app_sessions s' = Some demo_site"
proof -
  have "unat (1 :: u16) = 1" by simp
  with assms show ?thesis
    by (simp add: SessionServerApp_onInit_def ServerApp_onInit_def initDefaultIoContextTask_def addIoContextTask_def
        IoContextTask_start_def initDefaultSessionManager_def getIoContextTask_def initTaskScheduler_def initRconService_def
        Service_start_def registerRconQuerySource_def demo_manager bind_def prog_defs Let_def del: demo_env_simps(8))
qed

lemma demo_onStart: "app_sessions s = Some demo_site \<Longrightarrow> \<exists>s'. SessionServerApp_onStart demo_env s = (Inr True, s')"
  using demo_listens by (auto simp: SessionServerApp_onStart_def bind_def zoom_def prog_defs)

lemma setup_succeeds:
  assumes "ServerConfig_parse (ae_config env) args (serviceConfig s) = (Inr True, c)"
    and "initLogger env (s\<lparr>serviceConfig := c\<rparr>) = (Inr (), s1)" and "onInit V s1 = (Inr True, s2)" and "onStart V s2 = (Inr True, s3)"
  shows "\<exists>s'. ServerApp_initialize V env args s = (Inr True, s')"
proof -
  have "ServerApp_setup V env args s = (Inr True, s3)"
    using assms by (simp add: ServerApp_setup_def on_config_def zoom_def bind_def prog_defs)
  then show ?thesis by (simp add: ServerApp_initialize_def try_catch_Inr bind_def prog_defs)
qed

lemma demo_initialize: "\<exists>s. ServerApp_initialize (SessionServerApp demo_env) demo_env [] SessionServerApp_new = (Inr True, s)"
proof -
  let ?s = "(SessionServerApp_new :: (unit, nat) session_app)\<lparr>serviceConfig := demo_parsed\<rparr>"
  obtain l where l: "initLogger demo_env ?s = (Inr (), ?s\<lparr>logger := l\<rparr>)" using demo_logger by blast
  obtain s2 where s2: "SessionServerApp_onInit demo_env (?s\<lparr>logger := l\<rparr>) = (Inr True, s2)" "app_sessions s2 = Some demo_site"
    using demo_onInit [of "?s\<lparr>logger := l\<rparr>"] by (auto simp: SessionServerApp_new_def)
  from demo_onStart [OF s2(2)] obtain s3 where s3: "SessionServerApp_onStart demo_env s2 = (Inr True, s3)" by blast
  have "ServerConfig_parse (ae_config demo_env) [] (serviceConfig (SessionServerApp_new :: (unit, nat) session_app)) = (Inr True, demo_parsed)"
    by (simp add: demo_parse SessionServerApp_new_def)
  from setup_succeeds [OF this l, of "SessionServerApp demo_env" s2 s3] s2(1) s3 show ?thesis
    by (simp add: SessionServerApp_def)
qed

lemma demo_databases:
  assumes "serviceConfig s = demo_parsed" and "\<not> taskScheduler s"
  shows "\<exists>m. initDatabaseManager demo_env s = (Inr True, s\<lparr>proxyDatabaseManager := m\<rparr>)"
proof -
  have get: "database_config (IniFileConfigReader_getString sec key) s = (case demo_ini (sec @ ''.'' @ key) of
        None \<Rightarrow> (Inl (NotDefinedConfigError sec key), s) | Some v \<Rightarrow> (Inr v, s))"
    "database_config (ConfigReader_getNumeric (\<lambda>_. Some 2) sec key) s = (case demo_ini (sec @ ''.'' @ key) of
        None \<Rightarrow> (Inl (NotDefinedConfigError sec key), s) | Some v \<Rightarrow> (Inr 2, s))" for sec key
    using assms(1) by (simp_all add: database_config_def on_config_def zoom_def demo_get split: option.split)
  have "DatabasePool_open (map (ae_database demo_env) [0..<2]) DatabasePool_new = (True, snd (DatabasePool_open (map (ae_database demo_env) [0..<2]) DatabasePool_new))"
    by (simp add: DatabasePool_open_def DatabasePool_new_def numeral_2_eq_2)
  then show ?thesis
    by (simp add: initDatabaseManager_def DatabaseManagerFactory_create_def DirectDatabaseManager_initialize_def catch_undefined_def
        try_catch_def get assms(2) bind_def prog_defs split: prod.split) auto
qed

lemma demo_proxy_initialize:
  "\<exists>s. ServerApp_initialize (BaseDatabaseProxyServerApp demo_env) demo_env [] BaseDatabaseProxyServerApp_new = (Inr True, s)"
proof -
  let ?new = "BaseDatabaseProxyServerApp_new :: (unit, nat) proxy_app"
  let ?s = "?new\<lparr>serviceConfig := demo_parsed\<rparr>"
  obtain l where l: "initLogger demo_env ?s = (Inr (), ?s\<lparr>logger := l\<rparr>)" using demo_logger by blast
  obtain m where m: "initDatabaseManager demo_env (?s\<lparr>logger := l\<rparr>) = (Inr True, ?s\<lparr>logger := l, proxyDatabaseManager := m\<rparr>)"
    using demo_databases [of "?s\<lparr>logger := l\<rparr>"]
    by (auto simp: BaseDatabaseProxyServerApp_new_def SessionServerApp_new_def session_app.extend_def)
  obtain s2 where s2: "SessionServerApp_onInit demo_env (?s\<lparr>logger := l, proxyDatabaseManager := m\<rparr>) = (Inr True, s2)"
    "app_sessions s2 = Some demo_site"
    using demo_onInit [of "?s\<lparr>logger := l, proxyDatabaseManager := m\<rparr>"]
    by (auto simp: BaseDatabaseProxyServerApp_new_def SessionServerApp_new_def session_app.extend_def)
  obtain d where "SneDatabaseProxyService_initialize demo_spec (databaseProxyService s2) = (True, d)"
    by (simp add: SneDatabaseProxyService_initialize_def DatabaseProxyService_initialize_def DatabaseProxyService_initProxyScheduler_def)
  moreover let ?t = "s2\<lparr>databaseProxyService := d\<rparr>"
  note m s2(1)
  ultimately have init: "onInit (BaseDatabaseProxyServerApp demo_env) (?s\<lparr>logger := l\<rparr>) = (Inr True, ?t)"
    by (simp add: BaseDatabaseProxyServerApp_def BaseDatabaseProxyServerApp_onInit_def initDatabaseProxyService_def bind_def prog_defs)
  from s2(2) have "app_sessions ?t = Some demo_site" by simp
  from demo_onStart [OF this] obtain s3 where "SessionServerApp_onStart demo_env ?t = (Inr True, s3)" by blast
  then have start: "onStart (BaseDatabaseProxyServerApp demo_env) ?t = (Inr True, s3)"
    by (simp add: BaseDatabaseProxyServerApp_def BaseDatabaseProxyServerApp_onStart_def bind_def prog_defs)
  have "ServerConfig_parse (ae_config demo_env) [] (serviceConfig ?new) = (Inr True, demo_parsed)"
    by (simp add: demo_parse BaseDatabaseProxyServerApp_new_def SessionServerApp_new_def session_app.extend_def)
  from setup_succeeds [OF this l init start] show ?thesis .
qed

theorem initialized_server_serves_witness:
  "\<exists>s w. ServerApp_initialize (SessionServerApp demo_env) demo_env [] SessionServerApp_new = (Inr True, s) \<and>
    app_sessions s = Some w \<and> length (sessionAcceptors w) = 1 \<and>
    (\<forall>w'. (server_step CsPacketCoder counting_callback (\<not> SessionServerApp_isValidated s))\<^sup>*\<^sup>* w w' \<longrightarrow> accounted w' \<and> covered w')"
proof -
  obtain s where "ServerApp_initialize (SessionServerApp demo_env) demo_env [] SessionServerApp_new = (Inr True, s)"
    using demo_initialize by blast
  with initialized_server_serves [OF demo_env_ok _ _ this, of CsPacketCoder counting_callback] show ?thesis by auto
qed

text \<open>A server whose address cannot be resolved.\<close>

abbreviation demo_lost :: "(unit, nat) app_env" where
  "demo_lost \<equiv> demo_env\<lparr>ae_resolve := \<lambda>_. None\<rparr>"

lemma resolve_stages: "initLogger (env\<lparr>ae_resolve := r\<rparr>) = initLogger env" "ServerApp_onInit (env\<lparr>ae_resolve := r\<rparr>) = ServerApp_onInit env"
  "initDefaultIoContextTask (env\<lparr>ae_resolve := r\<rparr>) = initDefaultIoContextTask env" "initRconService (env\<lparr>ae_resolve := r\<rparr>) = initRconService env"
  "ServerSideSessionManager_new (env\<lparr>ae_resolve := r\<rparr>) b = ServerSideSessionManager_new env b"
  "SessionServerApp_onFinish (env\<lparr>ae_resolve := r\<rparr>) = SessionServerApp_onFinish env"
  by (simp_all add: initLogger_def ServerApp_onInit_def initDefaultIoContextTask_def ServerSideSessionManager_new_def
      initRconService_def SessionServerApp_onFinish_def Let_def)

lemma resolve_manager: "initDefaultSessionManager (env\<lparr>ae_resolve := r\<rparr>) = initDefaultSessionManager env"
  by (simp add: initDefaultSessionManager_def resolve_stages)

lemma resolve_late: "SessionServerApp_onInit (env\<lparr>ae_resolve := r\<rparr>) = SessionServerApp_onInit env"
  by (simp only: SessionServerApp_onInit_def resolve_stages resolve_manager)

theorem failed_initialize_undone_witness:
  "\<exists>s w. ServerApp_initialize (SessionServerApp demo_lost) demo_lost [] SessionServerApp_new = (Inr False, s) \<and> pidFile s = None \<and>
    app_sessions s = Some w \<and> (\<forall>x \<in> set (sessionAcceptors w). shouldFinish x)"
proof -
  let ?s = "(SessionServerApp_new :: (unit, nat) session_app)\<lparr>serviceConfig := demo_parsed\<rparr>"
  obtain l where l: "initLogger demo_env ?s = (Inr (), ?s\<lparr>logger := l\<rparr>)" using demo_logger by blast
  obtain s2 where s2: "SessionServerApp_onInit demo_env (?s\<lparr>logger := l\<rparr>) = (Inr True, s2)" "app_sessions s2 = Some demo_site"
    using demo_onInit [of "?s\<lparr>logger := l\<rparr>"] by (auto simp: SessionServerApp_new_def)
  then have start: "SessionServerApp_onStart demo_lost s2 = (Inr False, s2\<lparr>isWarmedUp := True, app_sessions := Some demo_site\<rparr>)"
    by (simp add: SessionServerApp_onStart_def ServerSideSessionManager_startSessionAcceptor_def createSessionAcceptor_def
        IoContextAcceptor_open_def IoContextAcceptor_new_def demo_site_def bind_def zoom_def prog_defs)
  have parse: "ServerConfig_parse (ae_config demo_lost) [] (serviceConfig (SessionServerApp_new :: (unit, nat) session_app)) = (Inr True, demo_parsed)"
    by (simp add: demo_parse SessionServerApp_new_def)
  have "\<exists>s. ServerApp_initialize (SessionServerApp demo_lost) demo_lost [] SessionServerApp_new = (Inr False, s) \<and> app_sessions s \<noteq> None"
    using parse l s2(1) start
    by (auto simp: ServerApp_initialize_def ServerApp_setup_def SessionServerApp_def SessionServerApp_onFinish_def resolve_late resolve_stages
        on_config_def zoom_def try_catch_def bind_def prog_defs)
  moreover have "session_heap_inv (ae_heap demo_lost)" "\<forall>a. \<not> socketOpen (ae_impls demo_lost a)"
    using demo_env_ok by simp_all
  note failed_initialize_undone [OF this, of "[]" CsPacketCoder counting_callback False]
  ultimately show ?thesis by auto
qed

theorem proxy_server_never_pings_witness:
  "\<exists>s. ServerApp_initialize (BaseDatabaseProxyServerApp demo_env) demo_env [] BaseDatabaseProxyServerApp_new = (Inr True, s) \<and>
    demo_ini ''database.ping-interval'' = Some ''2'' \<and> PingTask \<notin> fst ` set (app_tasks s)"
proof -
  obtain s where "ServerApp_initialize (BaseDatabaseProxyServerApp demo_env) demo_env [] BaseDatabaseProxyServerApp_new = (Inr True, s)"
    using demo_proxy_initialize by blast
  with proxy_server_never_pings [OF demo_env_ok this] show ?thesis by auto
qed

text \<open>Values that are strings or pairs of them.\<close>

definition demo_anyrpc :: "string list anyrpc" where
  "demo_anyrpc = \<lparr>v_IsArray = (\<lambda>v. length v \<noteq> 1), v_Size = length, v_at = (\<lambda>v i. [v ! i]), v_GetString = (\<lambda>v. case v of [x] \<Rightarrow> Some x | _ \<Rightarrow> None),
     v_of_string = (\<lambda>bs. [map (\<lambda>b. char_of (unat b)) bs]), v_set = (\<lambda>k x v. [x])\<rparr>"

theorem proxy_counters_unreachable_witness:
  "\<exists>s console. ServerApp_initialize (BaseDatabaseProxyServerApp demo_env) demo_env [] BaseDatabaseProxyServerApp_new = (Inr True, s) \<and>
    rconService s = Some console \<and>
    QueryRpcMethod_Execute demo_anyrpc proxy_app_query (querySourceMap console) [''queue.count'', ''d''] [] s = (Inr [no_query_source], s)"
proof -
  obtain s where s: "ServerApp_initialize (BaseDatabaseProxyServerApp demo_env) demo_env [] BaseDatabaseProxyServerApp_new = (Inr True, s)"
    using demo_proxy_initialize by blast
  from proxy_counters_unreachable [OF demo_env_ok _ s, of demo_anyrpc "[''queue.count'', ''d'']" "''queue.count''" "''d''" "[]"] s
  show ?thesis by (auto simp: demo_anyrpc_def)
qed

end
