(* ===== verification/Client_Connect.thy ===== *)
theory Client_Connect
  imports Server_Session
begin

text \<open>
  How a client program connects (src/client/session/ClientSession.cpp, \<open>TcpSessionImpl::connect\<close>): the socket is
  connected, the session opened, and then the program polls its I/O context until the seeds were
  exchanged or the time is over.  The handlers that a poll runs are a parameter, as are the network
  and the clock.  Shown: \<open>connectAndValidate\<close> returns in time, with the right answer; a second attempt after one
  that timed out fails.
\<close>

section \<open>State and connecting\<close>

text \<open>The session with the state of its socket.\<close>

record ('c, 's, 't, 'p) client_world =
  cw_session :: "('c, 's, 't, 'p client_session seed_owner) session_impl"
  socket_open :: bool
  socket_connected :: bool

definition on_session :: "('c, 's, 't, 'p, 'a) client_prog \<Rightarrow> (('c, 's, 't, 'p) client_world, 'a) prog" where
  "on_session = zoom cw_session (\<lambda>s w. w\<lparr>cw_session := s\<rparr>)"

text \<open>\<open>resolved\<close> and \<open>reachable\<close> are what the resolver and the network answer.  A socket opens when it is told to connect, and
  stays open when that fails; one that is connected refuses.  Of \<open>sessionOpened\<close> the callback \<open>onConnected\<close> and the
  disconnection after its refusal are taken here; the first read and the statistics are in Tcp\_Session.\<close>

definition TcpSessionImpl_connect ::
    "('c, 's, 't, 'p, bool) client_prog \<Rightarrow> bool \<Rightarrow> bool \<Rightarrow> (('c, 's, 't, 'p) client_world, bool) prog" where
  "TcpSessionImpl_connect onOpened resolved reachable =
     (if \<not> resolved then throw (UndefinedBehaviour ''end iterator'')
      else
        bind (gets socket_connected) (\<lambda>isConnected.
        if isConnected then ret False
        else bind (modify (\<lambda>w. w\<lparr>socket_open := True\<rparr>)) (\<lambda>_.
        if \<not> reachable then ret False
        else bind (modify (\<lambda>w. w\<lparr>socket_connected := True\<rparr>)) (\<lambda>_.
        bind (on_session onOpened) (\<lambda>opened.
        bind (when_do (\<not> opened) (on_session SessionImpl_disconnect)) (\<lambda>_.
        gets socket_open))))))"

section \<open>connectAndValidate\<close>

abbreviation exchanged :: "('c, 's, 't, 'p) client_world \<Rightarrow> bool" where
  "exchanged w \<equiv> packetSeedExchanged (session_object (owner (cw_session w)))"

text \<open>\<open>started\<close> is the time of the call, before the socket is connected, \<open>clock i\<close> the time at the \<open>i\<close>-th turn of the loop, and \<open>tick i\<close> what the poll of that turn does.  The number in the
  result counts the polls.\<close>

partial_function (option) validate_loop ::
    "(nat \<Rightarrow> nat) \<Rightarrow> (nat \<Rightarrow> ('c, 's, 't, 'p) client_world \<Rightarrow> ('c, 's, 't, 'p) client_world) \<Rightarrow> nat \<Rightarrow> nat \<Rightarrow>
     ('c, 's, 't, 'p) client_world \<Rightarrow> (bool \<times> nat \<times> ('c, 's, 't, 'p) client_world) option" where
  "validate_loop clock tick deadline i w =
     (if deadline \<le> clock i then Some (False, i, w)
      else
        let w = tick i w in
        if exchanged w then Some (True, Suc i, w)
        else validate_loop clock tick deadline (Suc i) w)"

definition ClientSession_connectAndValidate ::
    "('c, 's, 't, 'p, bool) client_prog \<Rightarrow> bool \<Rightarrow> bool \<Rightarrow> nat \<Rightarrow> (nat \<Rightarrow> nat) \<Rightarrow>
     (nat \<Rightarrow> ('c, 's, 't, 'p) client_world \<Rightarrow> ('c, 's, 't, 'p) client_world) \<Rightarrow> nat \<Rightarrow> bool \<Rightarrow>
     ('c, 's, 't, 'p) client_world \<Rightarrow> ((sne_error + bool) \<times> ('c, 's, 't, 'p) client_world) option" where
  "ClientSession_connectAndValidate onOpened resolved reachable started clock tick timeout waitUntilValidate w =
     (let deadline = started + timeout in
      case TcpSessionImpl_connect onOpened resolved reachable w of
        (Inl e, w) \<Rightarrow> Some (Inl e, w)
      | (Inr connected, w) \<Rightarrow>
          if \<not> connected then Some (Inr False, w)
          else if \<not> waitUntilValidate then Some (Inr True, w)
          else case validate_loop clock tick deadline 0 w of
            None \<Rightarrow> None
          | Some (True, n, w) \<Rightarrow> Some (Inr True, w)
          | Some (False, n, w) \<Rightarrow> Some (bind (on_session SessionImpl_disconnect) (\<lambda>_. ret False) w))"

section \<open>The loop\<close>

text \<open>What the polls from \<open>i\<close> to \<open>n\<close> do.\<close>

definition polls :: "(nat \<Rightarrow> 'w \<Rightarrow> 'w) \<Rightarrow> nat \<Rightarrow> nat \<Rightarrow> 'w \<Rightarrow> 'w" where
  "polls tick i n w = fold tick [i..<n] w"

lemma polls_step: "i < n \<Longrightarrow> polls tick i n w = polls tick (Suc i) n (tick i w)"
  by (simp add: polls_def upt_conv_Cons)

lemma polls_same: "polls tick n n w = w"
  by (simp add: polls_def)

text \<open>The loop ends when the clock goes on, at the first poll that completes the exchange, or else at the deadline.\<close>

lemma loop_returns:
  assumes "\<And>j. clock j < clock (Suc j)"
  shows "\<exists>b n. validate_loop clock tick deadline i w = Some (b, n, polls tick i n w) \<and> i \<le> n \<and>
    (if b then i < n \<and> clock (n - 1) < deadline \<and> exchanged (polls tick i n w) else deadline \<le> clock n) \<and>
    (\<forall>j. i \<le> j \<and> j < n \<longrightarrow> clock j < deadline \<and> (Suc j < n \<or> \<not> b \<longrightarrow> \<not> exchanged (polls tick i (Suc j) w)))"
proof (induction "deadline - clock i" arbitrary: i w rule: less_induct)
  case less
  show ?case
  proof (cases "deadline \<le> clock i")
    case True
    then show ?thesis
      by (intro exI [of _ False] exI [of _ i]) (auto simp: validate_loop.simps [of _ _ _ i] polls_same)
  next
    case False
    show ?thesis
    proof (cases "exchanged (tick i w)")
      case True
      with False show ?thesis
        by (intro exI [of _ True] exI [of _ "Suc i"])
          (auto simp: validate_loop.simps [of _ _ _ i] polls_def Let_def less_Suc_eq)
    next
      case pending: False
      have "deadline - clock (Suc i) < deadline - clock i" using assms [of i] False by simp
      from less [OF this, of "tick i w"] obtain b n where n: "validate_loop clock tick deadline (Suc i) (tick i w) =
          Some (b, n, polls tick (Suc i) n (tick i w))" "Suc i \<le> n"
        "if b then Suc i < n \<and> clock (n - 1) < deadline \<and> exchanged (polls tick (Suc i) n (tick i w)) else deadline \<le> clock n"
        "\<And>j. Suc i \<le> j \<Longrightarrow> j < n \<Longrightarrow> clock j < deadline \<and> (Suc j < n \<or> \<not> b \<longrightarrow> \<not> exchanged (polls tick (Suc i) (Suc j) (tick i w)))"
        by blast
      have "clock j < deadline \<and> (Suc j < n \<or> \<not> b \<longrightarrow> \<not> exchanged (polls tick i (Suc j) w))" if "i \<le> j" "j < n" for j
        using n(4) [of j] that False pending by (cases "j = i") (auto simp: polls_step polls_same)
      with n False pending show ?thesis
        by (intro exI [of _ b] exI [of _ n]) (auto simp: validate_loop.simps [of _ _ _ i] polls_step Let_def)
    qed
  qed
qed

section \<open>Properties\<close>

lemma clock_advances: "(\<And>j. clock j < clock (Suc j)) \<Longrightarrow> clock 0 + n \<le> clock (n :: nat)"
  by (induction n) (auto simp: Suc_le_eq intro: le_less_trans)

text \<open>C28: \<open>connectAndValidate\<close> returns in time with the right answer.  A pause lets the clock go on.  Then, once the
  socket is connected, it polls at most as often as the timeout has milliseconds, returns true with
  the state after the first poll that completed the exchange of seeds, and otherwise returns false
  after the deadline, having asked for the disconnection.\<close>

theorem connect_and_validate_returns:
  assumes "\<forall>j. clock j < clock (Suc j)" and "started \<le> clock 0" and "TcpSessionImpl_connect onOpened True True w = (Inr True, w\<^sub>1)"
  shows "\<exists>n \<le> timeout. \<exists>r w'. ClientSession_connectAndValidate onOpened True True started clock tick timeout True w = Some (Inr r, w') \<and>
    (if r then w' = polls tick 0 n w\<^sub>1 \<and> exchanged w'
     else w' = (polls tick 0 n w\<^sub>1)\<lparr>cw_session := (cw_session (polls tick 0 n w\<^sub>1))
         \<lparr>tasks := tasks (cw_session (polls tick 0 n w\<^sub>1)) @ [Disconnect]\<rparr>\<rparr> \<and> started + timeout \<le> clock n) \<and>
    (\<forall>j < n. Suc j < n \<or> \<not> r \<longrightarrow> \<not> exchanged (polls tick 0 (Suc j) w\<^sub>1))"
proof -
  have adv: "clock j < clock (Suc j)" for j using assms(1) by simp
  from loop_returns [of clock tick "started + timeout" 0 w\<^sub>1, OF adv] obtain r n where n:
    "validate_loop clock tick (started + timeout) 0 w\<^sub>1 = Some (r, n, polls tick 0 n w\<^sub>1)"
    "if r then 0 < n \<and> clock (n - 1) < started + timeout \<and> exchanged (polls tick 0 n w\<^sub>1) else started + timeout \<le> clock n"
    "\<And>j. j < n \<Longrightarrow> clock j < started + timeout \<and> (Suc j < n \<or> \<not> r \<longrightarrow> \<not> exchanged (polls tick 0 (Suc j) w\<^sub>1))"
    by blast
  have "n \<le> timeout"
  proof (cases n)
    case (Suc m)
    with n(3) [of m] clock_advances [of clock m] adv assms(2) show ?thesis by simp
  qed simp
  with n assms(3) show ?thesis
    by (intro exI [of _ n] conjI exI [of _ r] exI [of _ "if r then polls tick 0 n w\<^sub>1 else
        (polls tick 0 n w\<^sub>1)\<lparr>cw_session := (cw_session (polls tick 0 n w\<^sub>1))
          \<lparr>tasks := tasks (cw_session (polls tick 0 n w\<^sub>1)) @ [Disconnect]\<rparr>\<rparr>"])
      (auto simp: ClientSession_connectAndValidate_def on_session_def zoom_def SessionImpl_disconnect_def post_task_def
        bind_def prog_defs Let_def split: bool.split)
qed

lemma connect_connects: "TcpSessionImpl_connect onOpened True True w = (Inr True, w') \<Longrightarrow> socket_connected w'"
  by (auto simp: TcpSessionImpl_connect_def on_session_def zoom_def SessionImpl_disconnect_def post_task_def bind_def prog_defs
      split: if_splits prod.splits sum.splits)

text \<open>C29: a retry after a timeout fails.  The disconnection is only posted, and nothing polls after the loop, so
  the socket is still connected: as long as the peer keeps the connection, every further attempt that the program
  makes before it polls itself returns false at once and changes nothing.\<close>

theorem timed_out_retry_fails:
  assumes "\<forall>j. clock j < clock (Suc j)" and "started \<le> clock 0" and "TcpSessionImpl_connect onOpened True True w = (Inr True, w\<^sub>1)"
    and "\<forall>i v. socket_connected (tick i v) = socket_connected v"
    and "ClientSession_connectAndValidate onOpened True True started clock tick timeout True w = Some (Inr False, w')"
  shows "Disconnect \<in> set (tasks (cw_session w')) \<and>
    ClientSession_connectAndValidate onOpened True True started' clock' tick' timeout' waitUntilValidate w' = Some (Inr False, w')"
proof -
  have adv: "clock j < clock (Suc j)" for j using assms(1) by simp
  have "socket_connected (fold tick js v) = socket_connected v" for js v
    using assms(4) by (induction js arbitrary: v) simp_all
  then have keep: "socket_connected (polls tick 0 n v) = socket_connected v" for n v by (simp add: polls_def)
  from loop_returns [of clock tick "started + timeout" 0 w\<^sub>1, OF adv] obtain r n where
    "validate_loop clock tick (started + timeout) 0 w\<^sub>1 = Some (r, n, polls tick 0 n w\<^sub>1)" by blast
  with assms(3,5) have "w' = (polls tick 0 n w\<^sub>1)\<lparr>cw_session := (cw_session (polls tick 0 n w\<^sub>1))
         \<lparr>tasks := tasks (cw_session (polls tick 0 n w\<^sub>1)) @ [Disconnect]\<rparr>\<rparr>"
    by (auto simp: ClientSession_connectAndValidate_def on_session_def zoom_def SessionImpl_disconnect_def post_task_def
        bind_def prog_defs Let_def split: bool.splits)
  with keep [of n w\<^sub>1] connect_connects [OF assms(3)] show ?thesis
    by (simp add: ClientSession_connectAndValidate_def TcpSessionImpl_connect_def bind_def prog_defs)
qed

section \<open>Witnesses\<close>

definition demo_program :: "(unit, unit, unit, unit) client_world" where
  "demo_program = \<lparr>cw_session = \<lparr>coder = (), ostream = (), istream = (), blockManager = 0, messageBlock = 0,
       blocks = (\<lparr>initialBlockSize = 16, bh_next = 0, bh_blocks = Map.empty\<rparr>, MemoryPool_new 1 True False), tasks = [],
       rpcNetwork = [], receivers = (\<lambda>_. RpcReceiver_new []), owner = \<lparr>privateKey = [], otherSidePublicKey = [], exchangingDecryptSeed = [],
         session_object = \<lparr>cl_heartbeater = Heartbeater_new 0, cl_rsaCipher = \<lparr>randomPool = (), rsa_publicKey = [], rsa_privateKey = [],
           outputBuffer = [], lastErrorMessage = []\<rparr>, packetSeedExchanged = False\<rparr>\<rparr>\<rparr>, socket_open = False, socket_connected = False\<rparr>"

abbreviation demo_connected :: "(unit, unit, unit, unit) client_world" where
  "demo_connected \<equiv> demo_program\<lparr>socket_open := True, socket_connected := True\<rparr>"

lemma demo_connects: "TcpSessionImpl_connect (ret True) True True demo_program = (Inr True, demo_connected)"
  by (simp add: TcpSessionImpl_connect_def demo_program_def on_session_def zoom_def bind_def prog_defs)

text \<open>The second poll completes the exchange.\<close>

definition demo_tick :: "nat \<Rightarrow> (unit, unit, unit, unit) client_world \<Rightarrow> (unit, unit, unit, unit) client_world" where
  "demo_tick i w = (if i = 1 then w\<lparr>cw_session := (cw_session w)\<lparr>owner := (owner (cw_session w))
     \<lparr>session_object := (session_object (owner (cw_session w)))\<lparr>packetSeedExchanged := True\<rparr>\<rparr>\<rparr>\<rparr> else w)"

theorem connect_and_validate_returns_witness:
  "\<exists>w'. ClientSession_connectAndValidate (ret True) True True 4 (\<lambda>i. 5 + i) demo_tick 9 True demo_program = Some (Inr True, w') \<and> exchanged w'"
proof -
  have "\<forall>j. 5 + j < 5 + Suc j" "4 \<le> 5 + (0 :: nat)" by simp_all
  from connect_and_validate_returns [OF this demo_connects, of 9 demo_tick] obtain n r w' where w':
    "ClientSession_connectAndValidate (ret True) True True 4 (\<lambda>i. 5 + i) demo_tick 9 True demo_program = Some (Inr r, w')"
    "r \<longrightarrow> exchanged w'" "\<not> r \<longrightarrow> 4 + 9 \<le> 5 + n"
    "\<forall>j < n. Suc j < n \<or> \<not> r \<longrightarrow> \<not> exchanged (polls demo_tick 0 (Suc j) demo_connected)"
    by (metis (lifting))
  have "exchanged (polls demo_tick 0 (Suc 1) demo_connected)" by (simp add: polls_def demo_tick_def)
  with w' show ?thesis by (cases r) auto
qed

theorem timed_out_retry_fails_witness:
  "\<exists>w'. ClientSession_connectAndValidate (ret True) True True 7 (\<lambda>i. 7 + i) (\<lambda>_ w. w) 2 True demo_program = Some (Inr False, w') \<and>
    ClientSession_connectAndValidate (ret True) True True 7 (\<lambda>i. 7 + i) (\<lambda>_ w. w) 2 True w' = Some (Inr False, w')"
proof -
  have loop: "validate_loop (\<lambda>i. 7 + i) (\<lambda>_ w. w) 9 0 demo_connected = Some (False, 2, demo_connected)"
    by (simp add: validate_loop.simps [of _ _ _ 0] validate_loop.simps [of _ _ _ 1] validate_loop.simps [of _ _ _ 2]
        validate_loop.simps [of _ _ _ "Suc 0"] validate_loop.simps [of _ _ _ "Suc (Suc 0)"] demo_program_def Let_def)
  then obtain w' where w': "ClientSession_connectAndValidate (ret True) True True 7 (\<lambda>i. 7 + i) (\<lambda>_ w. w) 2 True demo_program = Some (Inr False, w')"
    by (simp add: ClientSession_connectAndValidate_def demo_connects on_session_def zoom_def SessionImpl_disconnect_def post_task_def
        bind_def prog_defs)
  moreover have "\<forall>j :: nat. 7 + j < 7 + Suc j" "7 \<le> 7 + (0 :: nat)" by simp_all
  note timed_out_retry_fails [OF this demo_connects _ w']
  ultimately show ?thesis by simp
qed

end
